(* ===== verification/Prelude.thy ===== *)
theory Prelude
  imports Main "HOL-Library.AList" "HOL-Library.List_Lexorder" "HOL-Library.Product_Lexorder"
    "HOL-Library.Char_ord" "HOL-Library.Multiset"
begin

text \<open>
  What every component of the gateway's model shares: the exceptions of the program as one
  datatype, results as a sum with the exception on the left, sequences of validation checks
  (the \<open>if ...: raise\<close> chains of the \<open>__post_init__\<close> methods), and Python's insertion-ordered
  dictionaries as association lists with distinct keys, together with the lemmas about them
  that the component theories use.
\<close>

section \<open>Exceptions and results\<close>

text \<open>
  The exception classes the modelled code raises or catches. \<open>InvalidTransition\<close> is
  \<open>InvalidDiscordTaskTransition\<close>, a subclass of \<open>ValueError\<close>; \<open>is_value_error\<close> is what an
  \<open>except ValueError\<close> clause catches.
\<close>

datatype exn =
    ValueError string
  | InvalidTransition
  | KeyError string
  | OSError
  | OverflowError
  | RuntimeError string
  | TaskRevisionConflict string
  | TaskAlreadyExists string
  | TaskStoreCorruptionError
  | TaskStoreDurabilityError
  | DiscordTaskChannelBusy
  | DiscordTaskActionUnavailable string
  | DiscordTaskServiceClosed
  | DiscordTaskAuthorizationError string
  | AgentTurnTimedOut
  | AgentRuntimeDisconnected
  | AgentRuntimeIncompatible
  | AgentProcessFailed
  | AgentInvalidOutput
  | AgentConfigurationError
  | AgentWorkspaceOrAttachmentError
  | DiscordTaskDeliveryError bool
  | GitHubMirrorStoreCorruptionError
  | GitHubDeliveryCollision string
  | GitHubMirrorRevisionConflict string
  | GitHubMirrorMutationReentryError
  | GitHubMirrorActionUnavailable string
  | GitHubMirrorActionBusy string
  | GitHubMirrorConfigurationError string
  | GitHubMirrorChannelAccessError
  | TypeError
  | AssertionError
  | DiscordNotFound
  | DiscordForbidden
  | DiscordHTTPException
  | GitHubMirrorDiscordError string
  | AgentTurnInterrupted
  | DeliveryFileError string
  | DiscordDeliveryCacheError string
  | DiscordDeliveryLeaseError string
  | CancelledError

fun is_value_error :: "exn \<Rightarrow> bool" where
  "is_value_error (ValueError _) = True"
| "is_value_error InvalidTransition = True"
| "is_value_error _ = False"

text \<open>What \<open>except RuntimeError\<close> catches, and \<open>except discord.HTTPException\<close> (whose subclasses are the
  two before it). \<open>DiscordTaskAuthorizationError\<close> is a \<open>PermissionError\<close> and \<open>OverflowError\<close> an
  \<open>ArithmeticError\<close>; \<open>CancelledError\<close> is no \<open>Exception\<close>.\<close>

definition is_runtime_error :: "exn \<Rightarrow> bool" where
  "is_runtime_error e \<longleftrightarrow> \<not> is_value_error e \<and>
    (case e of KeyError _ \<Rightarrow> False | OSError \<Rightarrow> False | OverflowError \<Rightarrow> False | TypeError \<Rightarrow> False
     | AssertionError \<Rightarrow> False | DiscordTaskAuthorizationError _ \<Rightarrow> False | DiscordNotFound \<Rightarrow> False
     | DiscordForbidden \<Rightarrow> False | DiscordHTTPException \<Rightarrow> False | CancelledError \<Rightarrow> False | _ \<Rightarrow> True)"

definition is_http_exception :: "exn \<Rightarrow> bool" where
  "is_http_exception e \<longleftrightarrow> e \<in> {DiscordNotFound, DiscordForbidden, DiscordHTTPException}"

type_synonym 'a result = "exn + 'a"

definition and_then :: "'a result \<Rightarrow> ('a \<Rightarrow> 'b result) \<Rightarrow> 'b result" where
  "and_then r f = (case r of Inl e \<Rightarrow> Inl e | Inr x \<Rightarrow> f x)"

definition guarded :: "bool \<Rightarrow> exn \<Rightarrow> unit result" where
  "guarded ok e = (if ok then Inr () else Inl e)"

named_theorems result_simps "unfolding of sequenced results"

lemma and_then_Inl [simp]: "and_then (Inl e) f = Inl e"
  by (simp add: and_then_def)

lemma and_then_Inr [simp]: "and_then (Inr x) f = f x"
  by (simp add: and_then_def)

lemma and_then_eq_Inr [result_simps]:
  "and_then r f = Inr y \<longleftrightarrow> (\<exists>x. r = Inr x \<and> f x = Inr y)"
  by (cases r) auto

lemma and_then_eq_Inl [result_simps]:
  "and_then r f = Inl e \<longleftrightarrow> r = Inl e \<or> (\<exists>x. r = Inr x \<and> f x = Inl e)"
  by (cases r) auto

lemma guarded_eq_Inr [result_simps]: "guarded ok e = Inr u \<longleftrightarrow> ok"
  by (simp add: guarded_def)

lemma guarded_eq_Inl [result_simps]: "guarded ok e = Inl e' \<longleftrightarrow> \<not> ok \<and> e' = e"
  by (auto simp: guarded_def)

text \<open>A chain of \<open>if bad: raise e\<close> statements: the first check that fails decides.\<close>

fun first_failure :: "(bool \<times> exn) list \<Rightarrow> exn option" where
  "first_failure [] = None"
| "first_failure ((bad, e) # cs) = (if bad then Some e else first_failure cs)"

lemma first_failure_None [simp]:
  "first_failure cs = None \<longleftrightarrow> (\<forall>(bad, e) \<in> set cs. \<not> bad)"
  by (induction cs rule: first_failure.induct) auto

lemma first_failure_append:
  "first_failure (cs @ ds) =
    (case first_failure cs of None \<Rightarrow> first_failure ds | Some e \<Rightarrow> Some e)"
  by (induction cs rule: first_failure.induct) auto

lemma first_failure_SomeD: "first_failure cs = Some e \<Longrightarrow> (True, e) \<in> set cs"
  by (induction cs rule: first_failure.induct) (auto split: if_splits)

definition raise_first :: "(bool \<times> exn) list \<Rightarrow> unit result" where
  "raise_first cs = (case first_failure cs of None \<Rightarrow> Inr () | Some e \<Rightarrow> Inl e)"

lemma raise_first_Inr [result_simps]:
  "raise_first cs = Inr u \<longleftrightarrow> (\<forall>(bad, e) \<in> set cs. \<not> bad)"
proof (cases "first_failure cs")
  case None
  then show ?thesis using first_failure_None [of cs] by (simp add: raise_first_def del: first_failure_None)
next
  case (Some e)
  then have "\<not> (\<forall>(bad, e) \<in> set cs. \<not> bad)"
    using first_failure_None [of cs] by simp
  with Some show ?thesis by (simp add: raise_first_def)
qed

text \<open>A comprehension whose element expression may raise: the first exception wins.\<close>

fun map_result :: "('a \<Rightarrow> 'b result) \<Rightarrow> 'a list \<Rightarrow> 'b list result" where
  "map_result f [] = Inr []"
| "map_result f (x # xs) = and_then (f x) (\<lambda>y. and_then (map_result f xs) (\<lambda>ys. Inr (y # ys)))"

lemma map_result_Inr [result_simps]:
  "map_result f xs = Inr ys \<longleftrightarrow> list_all2 (\<lambda>x y. f x = Inr y) xs ys"
  by (induction xs arbitrary: ys) (auto simp: and_then_eq_Inr list_all2_Cons1)

lemma map_result_total:
  "(\<And>x. x \<in> set xs \<Longrightarrow> \<exists>y. f x = Inr y) \<Longrightarrow> \<exists>ys. map_result f xs = Inr ys"
proof (induction xs)
  case Nil
  then show ?case by simp
next
  case (Cons x xs)
  obtain y where "f x = Inr y" using Cons.prems by fastforce
  moreover obtain ys where "map_result f xs = Inr ys" using Cons by fastforce
  ultimately show ?case by simp
qed

lemma map_result_inverse:
  "(\<And>x. x \<in> set xs \<Longrightarrow> f (g x) = Inr (h x)) \<Longrightarrow> map_result f (map g xs) = Inr (map h xs)"
  by (induction xs) auto

section \<open>Insertion-ordered dictionaries\<close>

text \<open>
  A Python \<open>dict\<close> is an association list in insertion order whose keys are distinct.
  \<open>d[k] = v\<close> is \<open>AList.update\<close> (in place for a known key, at the end for a new one),
  \<open>del d[k]\<close> is \<open>AList.delete\<close>, \<open>d.get(k)\<close> is \<open>map_of\<close>.
\<close>

type_synonym ('k, 'v) pydict = "('k \<times> 'v) list"

abbreviation dict_keys :: "('k, 'v) pydict \<Rightarrow> 'k list" where
  "dict_keys d \<equiv> map fst d"

abbreviation dict_values :: "('k, 'v) pydict \<Rightarrow> 'v list" where
  "dict_values d \<equiv> map snd d"

abbreviation dict_wf :: "('k, 'v) pydict \<Rightarrow> bool" where
  "dict_wf d \<equiv> distinct (dict_keys d)"

definition dict_lookup :: "('k, 'v) pydict \<Rightarrow> 'k \<Rightarrow> exn \<Rightarrow> 'v result" where
  "dict_lookup d k e = (case map_of d k of None \<Rightarrow> Inl e | Some v \<Rightarrow> Inr v)"

lemma dict_lookup_Inr [result_simps]: "dict_lookup d k e = Inr v \<longleftrightarrow> map_of d k = Some v"
  by (auto simp: dict_lookup_def split: option.splits)

lemma dict_lookup_Inl [result_simps]:
  "dict_lookup d k e = Inl e' \<longleftrightarrow> map_of d k = None \<and> e' = e"
  by (auto simp: dict_lookup_def split: option.splits)

text \<open>Lookups stay in the form \<open>map_of d k = Some v\<close>; membership in the list is rewritten
  to it, never the other way.\<close>

declare map_of_eq_Some_iff [simp del]
declare Some_eq_map_of_iff [simp del]
declare map_of_is_SomeI [simp del]

lemma map_of_update [simp]: "map_of (AList.update k v d) = (map_of d)(k \<mapsto> v)"
  by (rule ext) (simp add: update_conv)

lemma map_of_delete [simp]: "map_of (AList.delete k d) = (map_of d)(k := None)"
  by (rule ext) (simp add: delete_conv)

lemma dict_wf_update [simp]: "dict_wf d \<Longrightarrow> dict_wf (AList.update k v d)"
  by (rule distinct_update)

lemma dict_wf_delete [simp]: "dict_wf d \<Longrightarrow> dict_wf (AList.delete k d)"
  by (rule distinct_delete)

lemma dict_keys_map_of: "k \<in> set (dict_keys d) \<longleftrightarrow> map_of d k \<noteq> None"
  by (simp add: map_of_eq_None_iff)

lemma map_of_key: "map_of d k = Some v \<Longrightarrow> k \<in> fst ` set d"
  using map_of_SomeD by force

lemma map_of_ex: "k \<in> fst ` set d \<Longrightarrow> \<exists>v. map_of d k = Some v"
  by (metis map_of_eq_None_iff not_None_eq)

lemma dict_mem_iff: "dict_wf d \<Longrightarrow> (k, v) \<in> set d \<longleftrightarrow> map_of d k = Some v"
  by (simp add: map_of_eq_Some_iff)

lemma dict_values_iff:
  assumes "dict_wf d"
  shows "v \<in> set (dict_values d) \<longleftrightarrow> (\<exists>k. map_of d k = Some v)"
proof
  assume "v \<in> set (dict_values d)"
  then obtain k where "(k, v) \<in> set d" by auto
  with assms show "\<exists>k. map_of d k = Some v" by (auto simp: dict_mem_iff)
next
  assume "\<exists>k. map_of d k = Some v"
  then obtain k where "map_of d k = Some v" by blast
  then have "(k, v) \<in> set d" by (rule map_of_SomeD)
  then show "v \<in> set (dict_values d)" by (metis snd_conv image_eqI list.set_map)
qed

lemma set_update_mem:
  assumes "dict_wf d"
  shows "(a, b) \<in> set (AList.update k v d) \<longleftrightarrow> (if a = k then b = v else (a, b) \<in> set d)"
  using assms by (auto simp: dict_mem_iff)

lemma update_new: "k \<notin> fst ` set d \<Longrightarrow> AList.update k v d = d @ [(k, v)]"
  by (induction d) auto

lemma set_dict_keys_update [simp]:
  "fst ` set (AList.update k v d) = insert k (fst ` set d)"
  using dom_update [of k v d] by simp

text \<open>\<open>d.update(items)\<close>.\<close>

fun dict_update :: "('k, 'v) pydict \<Rightarrow> ('k \<times> 'v) list \<Rightarrow> ('k, 'v) pydict" where
  "dict_update d [] = d"
| "dict_update d ((k, v) # items) = dict_update (AList.update k v d) items"

lemma dict_wf_dict_update [simp]: "dict_wf d \<Longrightarrow> dict_wf (dict_update d items)"
  by (induction d items rule: dict_update.induct) simp_all

lemma dict_update_append: "dict_update d (xs @ ys) = dict_update (dict_update d xs) ys"
  by (induction d xs rule: dict_update.induct) simp_all

lemma map_of_dict_update_consistent:
  assumes "\<And>k v. (k, v) \<in> set items \<Longrightarrow> m k = Some v"
  shows "map_of (dict_update d items) k = (if k \<in> fst ` set items then m k else map_of d k)"
  using assms
proof (induction d items rule: dict_update.induct)
  case (2 d a v items)
  have m: "m a = Some v" by (rule 2(2)) simp
  have "map_of (dict_update (AList.update a v d) items) k
      = (if k \<in> fst ` set items then m k else map_of (AList.update a v d) k)"
    by (rule 2(1)) (rule 2(2), simp)
  with m show ?case by simp
qed simp

text \<open>Restricting a dictionary to some of its keys keeps order and distinctness.\<close>

definition dict_restrict :: "('k \<Rightarrow> bool) \<Rightarrow> ('k, 'v) pydict \<Rightarrow> ('k, 'v) pydict" where
  "dict_restrict P d = filter (\<lambda>(k, _). P k) d"

lemma dict_wf_restrict [simp]: "dict_wf d \<Longrightarrow> dict_wf (dict_restrict P d)"
  by (induction d) (auto simp: dict_restrict_def)

lemma map_of_restrict:
  "map_of (dict_restrict P d) k = (if P k then map_of d k else None)"
  by (induction d) (auto simp: dict_restrict_def)

section \<open>Slices and searches\<close>

text \<open>\<open>xs[-n:]\<close> for positive \<open>n\<close>.\<close>

definition last_n :: "nat \<Rightarrow> 'a list \<Rightarrow> 'a list" where
  "last_n n xs = drop (length xs - n) xs"

lemma length_last_n [simp]: "length (last_n n xs) = min n (length xs)"
  by (simp add: last_n_def min_def)

lemma last_n_all: "length xs \<le> n \<Longrightarrow> last_n n xs = xs"
  by (simp add: last_n_def)

lemma set_last_n: "set (last_n n xs) \<subseteq> set xs"
  by (auto simp: last_n_def dest: in_set_dropD)

lemma distinct_last_n [simp]: "distinct xs \<Longrightarrow> distinct (last_n n xs)"
  by (simp add: last_n_def)

lemma last_n_snoc: "0 < n \<Longrightarrow> last_n n (xs @ [x]) = last_n (n - 1) xs @ [x]"
  by (simp add: last_n_def)

lemma map_last_n: "map f (last_n n xs) = last_n n (map f xs)"
  by (simp add: last_n_def drop_map)

text \<open>\<open>next((x for x in xs if p(x)), None)\<close> is \<open>List.find\<close>.\<close>

lemma find_SomeD: "List.find P xs = Some x \<Longrightarrow> x \<in> set xs \<and> P x"
  by (induction xs) (auto split: if_splits)

lemma find_NoneD: "List.find P xs = None \<Longrightarrow> x \<in> set xs \<Longrightarrow> \<not> P x"
  by (simp add: find_None_iff)

text \<open>\<open>key=...\<close> sorting, newest first, as \<open>sorted(..., reverse=True)\<close> does it: a stable sort
  in which equal keys keep their order.\<close>

definition sort_desc :: "('a \<Rightarrow> 'b::linorder) \<Rightarrow> 'a list \<Rightarrow> 'a list" where
  "sort_desc f xs = rev (sort_key f (rev xs))"

lemma set_sort_desc [simp]: "set (sort_desc f xs) = set xs"
  by (simp add: sort_desc_def)

lemma distinct_sort_desc [simp]: "distinct (sort_desc f xs) = distinct xs"
  by (simp add: sort_desc_def)

lemma length_sort_desc [simp]: "length (sort_desc f xs) = length xs"
  by (simp add: sort_desc_def)

lemma sorted_sort_desc: "sorted_wrt (\<lambda>x y. f y \<le> f x) (sort_desc f xs)"
proof -
  have "sorted (map f (sort_key f (rev xs)))" by simp
  then have "sorted_wrt (\<lambda>x y. f x \<le> f y) (sort_key f (rev xs))"
    by (simp add: sorted_map)
  then show ?thesis by (simp add: sort_desc_def sorted_wrt_rev)
qed

end
