(* ===== verification/PyText.thy ===== *)
theory PyText
  imports Prelude
begin

text \<open>
  The parts of Python's \<open>str\<close> and \<open>int\<close> the gateway uses: character classes of its regular
  expressions, \<open>fullmatch\<close> against a repeated class, \<open>strip\<close>, decimal and hexadecimal printing
  and reading. A \<open>str\<close> is the list of its code points, restricted to the range of \<open>char\<close>
  (code points below 256), so \<open>length\<close> is Python's \<open>len\<close>.
\<close>

section \<open>Character classes\<close>

definition char_in :: "int \<Rightarrow> int \<Rightarrow> char \<Rightarrow> bool" where
  "char_in lo hi c \<longleftrightarrow> lo \<le> of_char c \<and> of_char c \<le> hi"

definition is_digit :: "char \<Rightarrow> bool" where
  "is_digit c \<longleftrightarrow> char_in 48 57 c"

definition is_lower :: "char \<Rightarrow> bool" where
  "is_lower c \<longleftrightarrow> char_in 97 122 c"

definition is_upper :: "char \<Rightarrow> bool" where
  "is_upper c \<longleftrightarrow> char_in 65 90 c"

definition is_alnum :: "char \<Rightarrow> bool" where
  "is_alnum c \<longleftrightarrow> is_digit c \<or> is_lower c \<or> is_upper c"

text \<open>The class \<open>[0-9a-f]\<close>.\<close>

definition is_lower_hex :: "char \<Rightarrow> bool" where
  "is_lower_hex c \<longleftrightarrow> is_digit c \<or> char_in 97 102 c"

text \<open>What \<open>str.isspace\<close> and the default \<open>str.strip\<close> treat as white space, below 256.\<close>

definition is_space :: "char \<Rightarrow> bool" where
  "is_space c \<longleftrightarrow> char_in 9 13 c \<or> char_in 28 32 c \<or> of_char c = (133::int) \<or> of_char c = (160::int)"

text \<open>\<open>re.fullmatch(r"[class]{n}", s)\<close>.\<close>

definition fullmatch_n :: "(char \<Rightarrow> bool) \<Rightarrow> nat \<Rightarrow> string \<Rightarrow> bool" where
  "fullmatch_n P n s \<longleftrightarrow> length s = n \<and> list_all P s"

text \<open>\<open>re.fullmatch(r"[class]+", s)\<close>.\<close>

definition fullmatch_plus :: "(char \<Rightarrow> bool) \<Rightarrow> string \<Rightarrow> bool" where
  "fullmatch_plus P s \<longleftrightarrow> s \<noteq> [] \<and> list_all P s"

definition strip_by :: "(char \<Rightarrow> bool) \<Rightarrow> string \<Rightarrow> string" where
  "strip_by P s = rev (dropWhile P (rev (dropWhile P s)))"

abbreviation py_strip :: "string \<Rightarrow> string" where
  "py_strip s \<equiv> strip_by is_space s"

lemma length_dropWhile_rev_le: "length (strip_by P s) \<le> length s"
proof -
  have "length (strip_by P s) \<le> length (dropWhile P s)"
    by (simp add: strip_by_def) (metis length_dropWhile_le length_rev)
  also have "\<dots> \<le> length s" by (rule length_dropWhile_le)
  finally show ?thesis .
qed

lemma strip_by_none:
  assumes "list_all (\<lambda>c. \<not> P c) s"
  shows "strip_by P s = s"
proof -
  have 1: "dropWhile P t = t" if "list_all (\<lambda>c. \<not> P c) t" for t
    using that by (cases t) auto
  have "list_all (\<lambda>c. \<not> P c) (rev s)" using assms by (simp add: list_all_iff)
  then show ?thesis using assms by (simp add: strip_by_def 1)
qed

text \<open>\<open>s.split(sep)\<close> for a single separator character.\<close>

fun split_on :: "char \<Rightarrow> string \<Rightarrow> string list" where
  "split_on sep [] = [[]]"
| "split_on sep (c # cs) =
    (if c = sep then [] # split_on sep cs
     else (case split_on sep cs of [] \<Rightarrow> [[c]] | p # ps \<Rightarrow> (c # p) # ps))"

lemma split_on_nonempty [simp]: "split_on sep s \<noteq> []"
  by (induction s) (auto split: list.splits)

text \<open>\<open>s.replace(a, b)\<close> for a single-character \<open>a\<close>.\<close>

definition replace_char :: "char \<Rightarrow> string \<Rightarrow> string \<Rightarrow> string" where
  "replace_char a b s = concat (map (\<lambda>c. if c = a then b else [c]) s)"

text \<open>\<open>s.replace(a, "")\<close> for a text \<open>a\<close>: occurrences from the left, not overlapping.\<close>

fun remove_text_fuel :: "nat \<Rightarrow> string \<Rightarrow> string \<Rightarrow> string" where
  "remove_text_fuel 0 a s = s"
| "remove_text_fuel (Suc n) a [] = []"
| "remove_text_fuel (Suc n) a (c # cs) =
    (if take (length a) (c # cs) = a then remove_text_fuel n a (drop (length a) (c # cs))
     else c # remove_text_fuel n a cs)"

definition remove_text :: "string \<Rightarrow> string \<Rightarrow> string" where
  "remove_text a s = remove_text_fuel (Suc (length s)) a s"

section \<open>Numbers as text\<close>

definition digit_char :: "int \<Rightarrow> char" where
  "digit_char d = (if d < 10 then char_of (48 + d) else char_of (87 + d))"

definition hex_val :: "char \<Rightarrow> int option" where
  "hex_val c =
    (if is_digit c then Some (of_char c - 48)
     else if char_in 97 102 c then Some (of_char c - 87)
     else if char_in 65 70 c then Some (of_char c - 55)
     else None)"

lemma of_char_digit_char:
  "0 \<le> d \<Longrightarrow> d < 16 \<Longrightarrow> of_char (digit_char d) = (if d < 10 then 48 + d else 87 + d :: int)"
  by (auto simp: digit_char_def)

lemma hex_val_digit_char [simp]: "0 \<le> d \<Longrightarrow> d < 16 \<Longrightarrow> hex_val (digit_char d) = Some d"
  by (auto simp: hex_val_def is_digit_def char_in_def of_char_digit_char)

lemma is_digit_digit_char [simp]: "0 \<le> d \<Longrightarrow> d < 10 \<Longrightarrow> is_digit (digit_char d)"
  by (auto simp: is_digit_def char_in_def of_char_digit_char)

lemma is_lower_hex_digit_char [simp]: "0 \<le> d \<Longrightarrow> d < 16 \<Longrightarrow> is_lower_hex (digit_char d)"
  by (auto simp: is_lower_hex_def is_digit_def char_in_def of_char_digit_char)

text \<open>\<open>f"{n:0{w}d}"\<close> in base \<open>b\<close>: exactly \<open>w\<close> digits.\<close>

fun fixed_digits :: "int \<Rightarrow> nat \<Rightarrow> int \<Rightarrow> string" where
  "fixed_digits b 0 n = []"
| "fixed_digits b (Suc w) n = fixed_digits b w (n div b) @ [digit_char (n mod b)]"

definition digits_val :: "int \<Rightarrow> string \<Rightarrow> int" where
  "digits_val b s = foldl (\<lambda>a c. b * a + (case hex_val c of None \<Rightarrow> 0 | Some d \<Rightarrow> d)) 0 s"

lemma length_fixed_digits [simp]: "length (fixed_digits b w n) = w"
  by (induction w arbitrary: n) auto

lemma digits_val_snoc:
  "digits_val b (s @ [c]) = b * digits_val b s + (case hex_val c of None \<Rightarrow> 0 | Some d \<Rightarrow> d)"
  by (simp add: digits_val_def)

lemma digits_val_fixed:
  assumes "0 < b" and "b \<le> 16" and "0 \<le> n" and "n < b ^ w"
  shows "digits_val b (fixed_digits b w n) = n"
  using assms
proof (induction w arbitrary: n)
  case 0
  then show ?case by (simp add: digits_val_def)
next
  case (Suc w)
  have "b * (n div b) \<le> n"
    using mult_div_mod_eq [of b n] pos_mod_sign [of b n] Suc.prems(1) by linarith
  then have "b * (n div b) < b * b ^ w" using Suc.prems(4) by simp
  then have "n div b < b ^ w" using Suc.prems(1) by (simp add: mult_less_cancel_left_pos)
  moreover have "0 \<le> n div b" using Suc.prems by (simp add: pos_imp_zdiv_nonneg_iff)
  ultimately have IH: "digits_val b (fixed_digits b w (n div b)) = n div b" using Suc by simp
  have "0 \<le> n mod b" "n mod b < 16"
    using pos_mod_sign [of b n] pos_mod_bound [of b n] Suc.prems(1,2) by linarith+
  then show ?case using IH by (simp add: digits_val_snoc)
qed

lemma fixed_digits_all:
  assumes "0 < b" and "\<And>d. 0 \<le> d \<Longrightarrow> d < b \<Longrightarrow> P (digit_char d)"
  shows "list_all P (fixed_digits b w n)"
  using assms by (induction w arbitrary: n) auto

text \<open>\<open>str(n)\<close> for an integer.\<close>

function pos_str :: "int \<Rightarrow> string" where
  "pos_str n = (if n < 10 then [digit_char n] else pos_str (n div 10) @ [digit_char (n mod 10)])"
  by pat_completeness auto
termination
  by (relation "measure nat") auto

declare pos_str.simps [simp del]

definition int_str :: "int \<Rightarrow> string" where
  "int_str i = (if i < 0 then CHR ''-'' # pos_str (- i) else pos_str i)"

lemma digits_val_pos_str [simp]: "0 \<le> n \<Longrightarrow> digits_val 10 (pos_str n) = n"
proof (induction n rule: pos_str.induct)
  case (1 n)
  show ?case
  proof (cases "n < 10")
    case True
    with 1 show ?thesis by (simp add: pos_str.simps [of n] digits_val_def)
  next
    case False
    with 1 show ?thesis by (simp add: pos_str.simps [of n] digits_val_snoc)
  qed
qed

lemma pos_str_digits: "0 \<le> n \<Longrightarrow> list_all is_digit (pos_str n)"
proof (induction n rule: pos_str.induct)
  case (1 n)
  then show ?case by (cases "n < 10") (simp_all add: pos_str.simps [of n])
qed

lemma pos_str_nonempty [simp]: "pos_str n \<noteq> []"
  by (subst pos_str.simps) simp

lemma int_str_nonempty [simp]: "int_str n \<noteq> []"
  by (simp add: int_str_def)

lemma int_str_inject_nonneg [simp]:
  "0 \<le> i \<Longrightarrow> 0 \<le> j \<Longrightarrow> int_str i = int_str j \<longleftrightarrow> i = j"
  by (auto simp: int_str_def) (metis digits_val_pos_str)

end
