(* ===== verification/PyTime.thy ===== *)
theory PyTime
  imports PyText
begin

text \<open>
  The parts of Python's \<open>datetime\<close> the gateway uses: \<open>fromisoformat\<close>, \<open>isoformat\<close>,
  \<open>astimezone(UTC)\<close> and comparison. A \<open>datetime\<close> is its local wall-clock time, as microseconds
  since 0001-01-01T00:00, with the offset from UTC in microseconds (\<open>None\<close> for a naive value).
  The parser reads the extended calendar format (the one \<open>isoformat\<close> writes and GitHub sends);
  the basic and week-date formats of ISO 8601 are not accepted.
\<close>

record datetime =
  dt_local :: int
  dt_offset :: "int option"

section \<open>Calendar\<close>

definition leap_year :: "int \<Rightarrow> bool" where
  "leap_year y \<longleftrightarrow> y mod 4 = 0 \<and> (y mod 100 \<noteq> 0 \<or> y mod 400 = 0)"

definition month_lengths :: "int \<Rightarrow> int list" where
  "month_lengths y = [31, (if leap_year y then 29 else 28), 31, 30, 31, 30, 31, 31, 30, 31, 30, 31]"

definition days_before_year :: "int \<Rightarrow> int" where
  "days_before_year y = (let p = y - 1 in p * 365 + p div 4 - p div 100 + p div 400)"

text \<open>The day number of a date, 0 for 0001-01-01.\<close>

definition day_number :: "int \<Rightarrow> int \<Rightarrow> int \<Rightarrow> int" where
  "day_number y m d = days_before_year y + sum_list (take (nat (m - 1)) (month_lengths y)) + d - 1"

definition valid_date :: "int \<Rightarrow> int \<Rightarrow> int \<Rightarrow> bool" where
  "valid_date y m d \<longleftrightarrow> 1 \<le> y \<and> y \<le> 9999 \<and> 1 \<le> m \<and> m \<le> 12 \<and> 1 \<le> d
     \<and> d \<le> month_lengths y ! nat (m - 1)"

lemma div_step:
  fixes y k :: int
  assumes "0 < k"
  shows "y div k = (y - 1) div k + (if y mod k = 0 then 1 else 0)"
proof (cases "y mod k = 0")
  case True
  then have "y - 1 = k * (y div k - 1) + (k - 1)"
    using mult_div_mod_eq [of k y] by (simp add: algebra_simps)
  then have "(y - 1) div k = y div k - 1" by (rule int_div_pos_eq) (use assms in auto)
  with True show ?thesis by simp
next
  case False
  have "y - 1 = k * (y div k) + (y mod k - 1)" using mult_div_mod_eq [of k y] by simp
  moreover have "0 \<le> y mod k - 1"
    using False pos_mod_sign [OF assms, of y] by linarith
  moreover have "y mod k - 1 < k" using pos_mod_bound [OF assms, of y] by linarith
  ultimately have "(y - 1) div k = y div k" by (rule int_div_pos_eq)
  with False show ?thesis by simp
qed

lemma days_before_year_step:
  "days_before_year (y + 1) = days_before_year y + (if leap_year y then 366 else 365)"
proof -
  have sum: "\<lbrakk>n = y * 365 + a - b + c; o' = (y - 1) * 365 + a' - b' + c'; a = a' + u; b = b' + v; c = c' + w\<rbrakk>
      \<Longrightarrow> n - o' = 365 + u - v + w" for n o' a b c a' b' c' u v w :: int
    by (simp add: algebra_simps)
  have "days_before_year (y + 1) - days_before_year y
      = 365 + (if y mod 4 = 0 then 1 else 0) - (if y mod 100 = 0 then 1 else 0)
          + (if y mod 400 = 0 then 1 else 0)"
    by (rule sum [OF _ _ div_step [of 4 y] div_step [of 100 y] div_step [of 400 y]])
       (simp_all add: days_before_year_def Let_def)
  moreover have "y mod 400 = 0 \<longrightarrow> y mod 100 = 0" "y mod 100 = 0 \<longrightarrow> y mod 4 = 0"
    using dvd_trans [of 100 400 y] dvd_trans [of 4 100 y] by (simp_all add: mod_eq_0_iff_dvd)
  ultimately show ?thesis by (auto simp: leap_year_def split: if_splits)
qed

lemma sum_month_lengths: "sum_list (month_lengths y) = (if leap_year y then 366 else 365)"
  by (simp add: month_lengths_def)

text \<open>From a day number back to year, month and day: the year is searched upwards from an
  underestimate, the month down the list of month lengths.\<close>

function year_up :: "int \<Rightarrow> int \<Rightarrow> int" where
  "year_up y n = (if days_before_year (y + 1) \<le> n then year_up (y + 1) n else y)"
  by pat_completeness auto
termination
  by (relation "measure (\<lambda>(y, n). nat (n - days_before_year y + 1))")
     (auto simp: days_before_year_step split: if_splits)

declare year_up.simps [simp del]

definition year_of_day :: "int \<Rightarrow> int" where
  "year_of_day n = year_up (n div 366 + 1) n"

fun month_split :: "int list \<Rightarrow> int \<Rightarrow> int \<Rightarrow> int \<times> int" where
  "month_split [] m d = (m, d)"
| "month_split (l # ls) m d = (if d < l then (m, d) else month_split ls (m + 1) (d - l))"

definition date_of_day :: "int \<Rightarrow> int \<times> int \<times> int" where
  "date_of_day n =
    (let y = year_of_day n; (m, d) = month_split (month_lengths y) 1 (n - days_before_year y)
     in (y, m, d + 1))"

lemma year_up_bounds:
  "days_before_year y \<le> n \<Longrightarrow>
     y \<le> year_up y n \<and> days_before_year (year_up y n) \<le> n \<and> n < days_before_year (year_up y n + 1)"
proof (induction y n rule: year_up.induct)
  case (1 y n)
  show ?case
  proof (cases "days_before_year (y + 1) \<le> n")
    case True
    with 1(1) [OF True True] show ?thesis by (subst (1 2 3) year_up.simps) simp
  next
    case False
    with 1(2) show ?thesis by (subst (1 2 3) year_up.simps) simp
  qed
qed

lemma days_before_year_mono: "y \<le> z \<Longrightarrow> days_before_year y \<le> days_before_year z"
proof (induction "nat (z - y)" arbitrary: z)
  case 0
  then show ?case by simp
next
  case (Suc k)
  then have "days_before_year y \<le> days_before_year (z - 1)" by simp
  then show ?case using days_before_year_step [of "z - 1"] by (auto split: if_splits)
qed

lemma year_of_day_bounds:
  assumes "0 \<le> n"
  shows "1 \<le> year_of_day n" and "days_before_year (year_of_day n) \<le> n"
    and "n < days_before_year (year_of_day n + 1)"
proof -
  let ?p = "n div 366"
  have "0 \<le> ?p" using assms by (simp add: pos_imp_zdiv_nonneg_iff)
  have "?p * 366 \<le> n"
    using div_mult_mod_eq [of n 366] pos_mod_sign [of 366 n] by linarith
  have "?p div 4 \<le> ?p" "?p div 400 \<le> ?p div 100"
    using zdiv_mono2 [of ?p 1 4] zdiv_mono2 [of ?p 100 400] \<open>0 \<le> ?p\<close> by simp_all
  then have "?p div 4 - ?p div 100 + ?p div 400 \<le> ?p" by simp
  then have "days_before_year (?p + 1) \<le> n"
    using \<open>?p * 366 \<le> n\<close> by (simp add: days_before_year_def Let_def)
  from year_up_bounds [OF this] \<open>0 \<le> ?p\<close>
  show "1 \<le> year_of_day n" and "days_before_year (year_of_day n) \<le> n"
    and "n < days_before_year (year_of_day n + 1)"
    by (auto simp: year_of_day_def)
qed

lemma month_split_correct:
  assumes "0 \<le> d" and "d < sum_list ls" and "list_all (\<lambda>l. 0 < l) ls"
  shows "\<exists>k r. month_split ls m d = (m + int k, r) \<and> k < length ls \<and> 0 \<le> r \<and> r < ls ! k
           \<and> sum_list (take k ls) + r = d"
  using assms
proof (induction ls m d rule: month_split.induct)
  case (1 m d)
  then show ?case by simp
next
  case (2 l ls m d)
  show ?case
  proof (cases "d < l")
    case True
    with 2 have "month_split (l # ls) m d = (m + int 0, d) \<and> 0 < length (l # ls) \<and> 0 \<le> d
      \<and> d < (l # ls) ! 0 \<and> sum_list (take 0 (l # ls)) + d = d" by simp
    then show ?thesis by blast
  next
    case False
    with 2 obtain k r where "month_split ls (m + 1) (d - l) = (m + 1 + int k, r)" "k < length ls"
      "0 \<le> r" "r < ls ! k" "sum_list (take k ls) + r = d - l" by auto
    with False have "month_split (l # ls) m d = (m + int (Suc k), r) \<and> Suc k < length (l # ls)
      \<and> 0 \<le> r \<and> r < (l # ls) ! Suc k \<and> sum_list (take (Suc k) (l # ls)) + r = d" by simp
    then show ?thesis by blast
  qed
qed

lemma date_of_day_correct:
  assumes "0 \<le> n" and "n < days_before_year 10000" and "date_of_day n = (y, m, d)"
  shows "valid_date y m d" and "day_number y m d = n"
proof -
  have y: "y = year_of_day n" using assms(3)
    by (simp add: date_of_day_def Let_def split: prod.splits)
  note b = year_of_day_bounds [OF assms(1), folded y]
  have "y \<le> 9999"
  proof (rule ccontr)
    assume "\<not> y \<le> 9999"
    then have "days_before_year 10000 \<le> days_before_year y" by (intro days_before_year_mono) simp
    with b(2) assms(2) show False by simp
  qed
  have "n - days_before_year y < sum_list (month_lengths y)"
    using b(3) by (simp add: days_before_year_step sum_month_lengths split: if_splits)
  moreover have "list_all (\<lambda>l. 0 < l) (month_lengths y)" by (simp add: month_lengths_def)
  moreover have "0 \<le> n - days_before_year y" using b(2) by simp
  ultimately obtain k r where kr: "month_split (month_lengths y) 1 (n - days_before_year y) = (1 + int k, r)"
      "k < length (month_lengths y)" "0 \<le> r" "r < month_lengths y ! k"
      "sum_list (take k (month_lengths y)) + r = n - days_before_year y"
    using month_split_correct [of "n - days_before_year y" "month_lengths y" 1] by blast
  have md: "m = 1 + int k" "d = r + 1"
    using assms(3) kr(1) by (auto simp: date_of_day_def Let_def y)
  show "valid_date y m d" using b(1) \<open>y \<le> 9999\<close> kr md
    by (auto simp: valid_date_def month_lengths_def)
  show "day_number y m d = n" using kr md by (simp add: day_number_def)
qed

section \<open>Printing\<close>

abbreviation us_per_day :: int where "us_per_day \<equiv> 86400000000"

text \<open>The values a Python \<open>datetime\<close> can hold: years 1 to 9999.\<close>

definition dt_in_range :: "int \<Rightarrow> bool" where
  "dt_in_range us \<longleftrightarrow> 0 \<le> us \<and> us < days_before_year 10000 * us_per_day"

abbreviation dec :: "nat \<Rightarrow> int \<Rightarrow> string" where
  "dec w i \<equiv> fixed_digits 10 w i"

text \<open>\<open>hh:mm:ss\<close> and the microseconds when they are not zero.\<close>

definition time_text :: "int \<Rightarrow> string" where
  "time_text us =
    (let secs = us div 1000000; frac = us mod 1000000 in
     dec 2 (secs div 3600) @ '':'' @ dec 2 (secs div 60 mod 60) @ '':'' @ dec 2 (secs mod 60)
     @ (if frac = 0 then [] else CHR ''.'' # dec 6 frac))"

definition offset_text :: "int \<Rightarrow> string" where
  "offset_text off =
    (let a = \<bar>off\<bar>; secs = a div 1000000 in
     (if off < 0 then ''-'' else ''+'') @ dec 2 (secs div 3600) @ '':'' @ dec 2 (secs div 60 mod 60)
     @ (if a mod 60000000 = 0 then []
        else '':'' @ dec 2 (secs mod 60)
             @ (if a mod 1000000 = 0 then [] else CHR ''.'' # dec 6 (a mod 1000000))))"

definition isoformat :: "datetime \<Rightarrow> string" where
  "isoformat t =
    (let (y, m, d) = date_of_day (dt_local t div us_per_day) in
     dec 4 y @ ''-'' @ dec 2 m @ ''-'' @ dec 2 d @ ''T'' @ time_text (dt_local t mod us_per_day)
     @ (case dt_offset t of None \<Rightarrow> [] | Some off \<Rightarrow> offset_text off))"

text \<open>\<open>_as_utc(value)\<close> of the stores: naive values are refused, aware ones shifted to UTC; a
  shift out of the calendar's range overflows.\<close>

definition as_utc :: "datetime \<Rightarrow> datetime result" where
  "as_utc t = (case dt_offset t of
      None \<Rightarrow> Inl (ValueError ''timestamp must have a timezone'')
    | Some off \<Rightarrow>
        if dt_in_range (dt_local t - off)
        then Inr \<lparr>dt_local = dt_local t - off, dt_offset = Some 0\<rparr>
        else Inl OverflowError)"

text \<open>The instant an aware value denotes; comparisons of aware values compare it.\<close>

definition instant :: "datetime \<Rightarrow> int" where
  "instant t = dt_local t - (case dt_offset t of None \<Rightarrow> 0 | Some off \<Rightarrow> off)"

section \<open>Parsing\<close>

definition take_digits :: "nat \<Rightarrow> string \<Rightarrow> (int \<times> string) option" where
  "take_digits n s =
    (if n \<le> length s \<and> list_all is_digit (take n s)
     then Some (digits_val 10 (take n s), drop n s) else None)"

definition expect :: "char \<Rightarrow> string \<Rightarrow> string option" where
  "expect c s = (case s of [] \<Rightarrow> None | x # xs \<Rightarrow> if x = c then Some xs else None)"

definition parse_date :: "string \<Rightarrow> (int \<times> string) option" where
  "parse_date s =
    Option.bind (take_digits 4 s) (\<lambda>(y, s). Option.bind (expect CHR ''-'' s) (\<lambda>s.
    Option.bind (take_digits 2 s) (\<lambda>(m, s). Option.bind (expect CHR ''-'' s) (\<lambda>s.
    Option.bind (take_digits 2 s) (\<lambda>(d, s).
      if valid_date y m d then Some (day_number y m d, s) else None)))))"

text \<open>The fraction after the seconds: at least one digit, the first six count.\<close>

definition parse_fraction :: "string \<Rightarrow> (int \<times> string) option" where
  "parse_fraction s =
    (let ds = takeWhile is_digit s; rest = dropWhile is_digit s in
     if ds = [] then None
     else Some (digits_val 10 (take 6 (ds @ replicate 6 (CHR ''0''))), rest))"

text \<open>\<open>HH[:MM[:SS[.f+]]]\<close>: the four components and what follows.\<close>

definition parse_hms :: "string \<Rightarrow> ((int \<times> int \<times> int \<times> int) \<times> string) option" where
  "parse_hms s =
    Option.bind (take_digits 2 s) (\<lambda>(h, s).
      case expect CHR '':'' s of None \<Rightarrow> Some ((h, 0, 0, 0), s)
      | Some s \<Rightarrow> Option.bind (take_digits 2 s) (\<lambda>(m, s).
          case expect CHR '':'' s of None \<Rightarrow> Some ((h, m, 0, 0), s)
          | Some s \<Rightarrow> Option.bind (take_digits 2 s) (\<lambda>(sec, s).
              case s of c # s' \<Rightarrow>
                (if c = CHR ''.'' \<or> c = CHR '',''
                 then map_option (\<lambda>(f, s). ((h, m, sec, f), s)) (parse_fraction s')
                 else Some ((h, m, sec, 0), s))
              | [] \<Rightarrow> Some ((h, m, sec, 0), s))))"

definition hms_us :: "int \<times> int \<times> int \<times> int \<Rightarrow> int" where
  "hms_us t = (case t of (h, m, s, f) \<Rightarrow> ((h * 60 + m) * 60 + s) * 1000000 + f)"

definition valid_hms :: "int \<times> int \<times> int \<times> int \<Rightarrow> bool" where
  "valid_hms t = (case t of (h, m, s, f) \<Rightarrow> h < 24 \<and> m < 60 \<and> s < 60)"

definition parse_offset :: "string \<Rightarrow> int option option" where
  "parse_offset s = (case s of [] \<Rightarrow> Some None
    | c # cs \<Rightarrow>
        if c = CHR ''Z'' then (if cs = [] then Some (Some 0) else None)
        else if c = CHR ''+'' \<or> c = CHR ''-'' then
          (case parse_hms cs of
             Some (t, []) \<Rightarrow>
               if hms_us t < us_per_day
               then Some (Some (if c = CHR ''-'' then - hms_us t else hms_us t)) else None
           | _ \<Rightarrow> None)
        else None)"

definition fromisoformat :: "string \<Rightarrow> datetime option" where
  "fromisoformat s =
    Option.bind (parse_date s) (\<lambda>(day, s).
      case s of [] \<Rightarrow> Some \<lparr>dt_local = day * us_per_day, dt_offset = None\<rparr>
      | [_] \<Rightarrow> Some \<lparr>dt_local = day * us_per_day, dt_offset = None\<rparr>
      | _ # s \<Rightarrow> Option.bind (parse_hms s) (\<lambda>(t, s).
          if valid_hms t then
            map_option (\<lambda>off. \<lparr>dt_local = day * us_per_day + hms_us t, dt_offset = off\<rparr>)
              (parse_offset s)
          else None))"

section \<open>Reading back what was printed\<close>

lemma dropWhile_head: "s = [] \<or> \<not> P (hd s) \<Longrightarrow> dropWhile P s = s"
  by (cases s) auto

lemma takeWhile_head: "s = [] \<or> \<not> P (hd s) \<Longrightarrow> takeWhile P s = []"
  by (cases s) auto

lemma dec_digits: "list_all is_digit (dec w i)"
  by (rule fixed_digits_all) auto

lemma take_digits_dec [simp]:
  "0 \<le> i \<Longrightarrow> i < 10 ^ w \<Longrightarrow> take_digits w (dec w i @ s) = Some (i, s)"
  using dec_digits [of w i]
  by (simp add: take_digits_def digits_val_fixed)

lemma take_digits_dec_end [simp]:
  "0 \<le> i \<Longrightarrow> i < 10 ^ w \<Longrightarrow> take_digits w (dec w i) = Some (i, [])"
  using take_digits_dec [of i w "[]"] by simp

lemma parse_fraction_dec:
  assumes "0 \<le> f" and "f < 1000000" and "s = [] \<or> \<not> is_digit (hd s)"
  shows "parse_fraction (dec 6 f @ s) = Some (f, s)"
proof -
  have all: "\<And>c. c \<in> set (dec 6 f) \<Longrightarrow> is_digit c"
    using dec_digits [of 6 f] by (simp add: list_all_iff)
  have "takeWhile is_digit (dec 6 f @ s) = dec 6 f"
    using all takeWhile_head [of s is_digit] assms(3) by (subst takeWhile_append2) auto
  moreover have "dropWhile is_digit (dec 6 f @ s) = s"
    using all dropWhile_head [of s is_digit] assms(3) by (subst dropWhile_append2) auto
  moreover have "dec 6 f \<noteq> []" using length_fixed_digits [of 10 6 f] by fastforce
  moreover have "digits_val 10 (dec 6 f) = f"
    using assms by (intro digits_val_fixed) auto
  ultimately show ?thesis using assms by (simp add: parse_fraction_def Let_def)
qed

lemma parse_hms_parts:
  assumes "0 \<le> h" "h < 100" "0 \<le> m" "m < 100" "0 \<le> sec" "sec < 100" "0 \<le> f" "f < 1000000"
    and nd: "s = [] \<or> hd s \<in> {CHR ''+'', CHR ''-'', CHR ''Z''}"
  shows "parse_hms (dec 2 h @ '':'' @ dec 2 m @ '':'' @ dec 2 sec
           @ (if f = 0 then [] else CHR ''.'' # dec 6 f) @ s) = Some ((h, m, sec, f), s)"
proof (cases "f = 0")
  case True
  then show ?thesis using assms(1-6) nd
    by (cases s) (auto simp: parse_hms_def expect_def)
next
  case False
  have "s = [] \<or> \<not> is_digit (hd s)" using nd by (auto simp: is_digit_def char_in_def)
  then have "parse_fraction (dec 6 f @ s) = Some (f, s)"
    using assms(7,8) by (intro parse_fraction_dec)
  then show ?thesis using False assms(1-6)
    by (simp add: parse_hms_def expect_def)
qed

lemma parse_hms_time_text:
  assumes "0 \<le> us" and "us < us_per_day" and nd: "s = [] \<or> hd s \<in> {CHR ''+'', CHR ''-'', CHR ''Z''}"
  obtains t where "parse_hms (time_text us @ s) = Some (t, s)" and "valid_hms t" and "hms_us t = us"
proof -
  define secs f where "secs = us div 1000000" and "f = us mod 1000000"
  define h m sec where "h = secs div 3600" and "m = secs div 60 mod 60" and "sec = secs mod 60"
  have us: "us = secs * 1000000 + f" by (simp add: secs_def f_def)
  have f: "0 \<le> f" "f < 1000000" by (simp_all add: f_def)
  have secs: "0 \<le> secs" "secs < 86400"
    using assms(1,2) f us by linarith+
  have h: "0 \<le> h" "h < 24" using secs by (simp_all add: h_def pos_imp_zdiv_nonneg_iff)
  have ms: "0 \<le> m" "m < 60" "0 \<le> sec" "sec < 60" by (simp_all add: m_def sec_def)
  have "time_text us @ s = dec 2 h @ '':'' @ dec 2 m @ '':'' @ dec 2 sec
      @ (if f = 0 then [] else CHR ''.'' # dec 6 f) @ s"
    by (simp only: time_text_def Let_def secs_def [symmetric] f_def [symmetric] h_def [symmetric]
        m_def [symmetric] sec_def [symmetric] append_assoc)
  then have "parse_hms (time_text us @ s) = Some ((h, m, sec, f), s)"
    using parse_hms_parts [of h m sec f s] h ms f nd by simp
  moreover have "valid_hms (h, m, sec, f)" using h ms by (simp add: valid_hms_def)
  moreover have "secs div 3600 = secs div 60 div 60" using zdiv_zmult2_eq [of 60 secs 60] by simp
  then have "secs = h * 3600 + m * 60 + sec"
    using mult_div_mod_eq [of 60 secs] mult_div_mod_eq [of 60 "secs div 60"]
    unfolding h_def m_def sec_def by linarith
  then have "hms_us (h, m, sec, f) = us" by (simp add: hms_us_def us)
  ultimately show ?thesis using that by blast
qed

lemma parse_date_dec:
  assumes "valid_date y m d"
  shows "parse_date (dec 4 y @ CHR ''-'' # dec 2 m @ CHR ''-'' # dec 2 d @ s) = Some (day_number y m d, s)"
proof -
  have "month_lengths y ! nat (m - 1) \<le> 31" using assms
    by (auto simp: valid_date_def month_lengths_def nth_Cons' )
  then have "0 \<le> d" "d < 100" using assms by (auto simp: valid_date_def)
  then show ?thesis using assms
    by (simp add: parse_date_def expect_def valid_date_def)
qed

text \<open>The text the gateway writes for a UTC time reads back as the same time.\<close>

theorem fromisoformat_isoformat_utc:
  assumes "dt_in_range us"
  shows "fromisoformat (isoformat \<lparr>dt_local = us, dt_offset = Some 0\<rparr>)
           = Some \<lparr>dt_local = us, dt_offset = Some 0\<rparr>"
proof -
  let ?n = "us div us_per_day" and ?r = "us mod us_per_day"
  obtain y m d where ymd: "date_of_day ?n = (y, m, d)" by (cases "date_of_day ?n") auto
  have n: "0 \<le> ?n" "?n < days_before_year 10000"
    using assms by (auto simp: dt_in_range_def pos_imp_zdiv_nonneg_iff div_less_iff_less_mult)
  note c = date_of_day_correct [OF n ymd]
  have off: "offset_text 0 = ''+00:00''" by code_simp
  obtain t where t: "parse_hms (time_text ?r @ ''+00:00'') = Some (t, ''+00:00'')"
      "valid_hms t" "hms_us t = ?r"
    by (rule parse_hms_time_text [of ?r "''+00:00''"]) auto
  have po: "parse_offset ''+00:00'' = Some (Some 0)" by code_simp
  have tt: "\<exists>b rest. time_text ?r @ ''+00:00'' = b # rest"
    using length_fixed_digits [of 10 2] by (cases "time_text ?r @ ''+00:00''") auto
  show ?thesis
    using parse_date_dec [OF c(1)] c(2) t po
    using tt by (auto simp: isoformat_def ymd off fromisoformat_def)
qed

end
