(* ===== verification/PyUuid.thy ===== *)
theory PyUuid
  imports PyText
begin

text \<open>
  Python's \<open>uuid.UUID\<close> as the gateway uses it: construction from text (which is lenient: URN
  prefixes, braces and hyphens are dropped, and the rest is read by \<open>int(..., 16)\<close>), the \<open>hex\<close>
  attribute and \<open>str()\<close>. A UUID is its 128-bit value.
\<close>

text \<open>Hexadecimal digits with single underscores between them, as \<open>int\<close> reads them; the flag
  says that the last character was a digit.\<close>

fun hex_digits :: "bool \<Rightarrow> int \<Rightarrow> string \<Rightarrow> int option" where
  "hex_digits prev acc [] = (if prev then Some acc else None)"
| "hex_digits prev acc (c # cs) =
    (if c = CHR ''_'' then (if prev then hex_digits False acc cs else None)
     else (case hex_val c of None \<Rightarrow> None | Some d \<Rightarrow> hex_digits True (16 * acc + d) cs))"

text \<open>\<open>int(s, 16)\<close>, without negative numbers: the caller has removed every minus sign.\<close>

definition int_base16 :: "string \<Rightarrow> int option" where
  "int_base16 s =
    (let t = py_strip s;
         t = (if take 1 t = ''+'' then drop 1 t else t) in
     if take 2 t = ''0x'' \<or> take 2 t = ''0X''
     then (let r = drop 2 t in hex_digits False 0 (if take 1 r = ''_'' then drop 1 r else r))
     else hex_digits False 0 t)"

definition uuid_parse :: "string \<Rightarrow> int option" where
  "uuid_parse s =
    (let h = remove_text ''uuid:'' (remove_text ''urn:'' s);
         h = filter (\<lambda>c. c \<noteq> CHR ''-'') (strip_by (\<lambda>c. c = CHR ''{'' \<or> c = CHR ''}'') h) in
     if length h = 32
     then (case int_base16 h of Some n \<Rightarrow> if 0 \<le> n \<and> n < 16 ^ 32 then Some n else None | None \<Rightarrow> None)
     else None)"

abbreviation uuid_hex :: "int \<Rightarrow> string" where
  "uuid_hex n \<equiv> fixed_digits 16 32 n"

definition uuid_str :: "int \<Rightarrow> string" where
  "uuid_str n =
    (let h = uuid_hex n in
     take 8 h @ ''-'' @ take 4 (drop 8 h) @ ''-'' @ take 4 (drop 12 h) @ ''-'' @ take 4 (drop 16 h)
     @ ''-'' @ drop 20 h)"

lemma uuid_hex_chars: "list_all is_lower_hex (uuid_hex n)"
  by (rule fixed_digits_all) auto

lemma lower_hex_facts:
  assumes "is_lower_hex c"
  shows "c \<notin> {CHR ''u'', CHR ''{'', CHR ''}'', CHR ''-'', CHR ''_'', CHR ''x'', CHR ''X'', CHR ''+''}"
    and "\<not> is_space c" and "hex_val c \<noteq> None"
  using assms
  by (auto simp: is_lower_hex_def is_digit_def char_in_def is_space_def hex_val_def)

lemma not_lower_hex [simp]:
  "\<not> is_lower_hex CHR ''u''" "\<not> is_lower_hex CHR ''{''" "\<not> is_lower_hex CHR ''}''"
  "\<not> is_lower_hex CHR ''-''"
  by code_simp+

lemma uuid_hex_mem: "c \<in> set (uuid_hex n) \<Longrightarrow> is_lower_hex c"
  using uuid_hex_chars [of n] by (simp add: list_all_iff)

lemma uuid_hex_absent [simp]: "\<not> is_lower_hex c \<Longrightarrow> c \<notin> set (uuid_hex n)"
  using uuid_hex_mem by blast

lemma remove_text_fuel_absent: "a \<noteq> [] \<Longrightarrow> hd a \<notin> set s \<Longrightarrow> remove_text_fuel n a s = s"
proof (induction n a s rule: remove_text_fuel.induct)
  case (3 n a c cs)
  then have "take (length a) (c # cs) \<noteq> a" by (cases a) auto
  with 3 show ?case by auto
qed auto

lemma remove_text_absent: "a \<noteq> [] \<Longrightarrow> hd a \<notin> set s \<Longrightarrow> remove_text a s = s"
  by (simp add: remove_text_def remove_text_fuel_absent)

lemma hex_digits_all:
  assumes "list_all is_lower_hex s"
  shows "hex_digits b acc s = (if s = [] \<and> \<not> b then None
           else Some (foldl (\<lambda>a c. 16 * a + (case hex_val c of None \<Rightarrow> 0 | Some d \<Rightarrow> d)) acc s))"
  using assms
proof (induction s arbitrary: b acc)
  case Nil
  then show ?case by simp
next
  case (Cons c s)
  then obtain d where "hex_val c = Some d" using lower_hex_facts(3) by fastforce
  moreover have "c \<noteq> CHR ''_''" using Cons.prems lower_hex_facts(1) by auto
  ultimately show ?case using Cons by simp
qed

lemma int_base16_uuid_hex:
  assumes "0 \<le> n" and "n < 16 ^ 32"
  shows "int_base16 (uuid_hex n) = Some n"
proof -
  let ?h = "uuid_hex n"
  have all: "\<And>c. c \<in> set ?h \<Longrightarrow> is_lower_hex c"
    using uuid_hex_chars [of n] by (simp add: list_all_iff)
  have len: "length ?h = 32" by simp
  then obtain a b r where h: "?h = a # b # r"
    by (auto simp: eval_nat_numeral length_Suc_conv simp del: fixed_digits.simps length_fixed_digits)
  have "py_strip ?h = ?h"
    using all lower_hex_facts(2) by (intro strip_by_none) (auto simp: list_all_iff)
  moreover have "take 1 ?h \<noteq> ''+''" "take 2 ?h \<noteq> ''0x''" "take 2 ?h \<noteq> ''0X''"
    using all lower_hex_facts(1) [of a] lower_hex_facts(1) [of b] by (auto simp: h)
  moreover have "hex_digits False 0 ?h = Some (digits_val 16 ?h)"
    using hex_digits_all [OF uuid_hex_chars [of n], of False 0] h by (simp add: digits_val_def)
  moreover have "digits_val 16 ?h = n" using assms by (intro digits_val_fixed) auto
  ultimately show ?thesis by (simp add: int_base16_def Let_def)
qed

lemma filter_hyphens_uuid_str: "filter (\<lambda>c. c \<noteq> CHR ''-'') (uuid_str n) = uuid_hex n"
proof -
  let ?h = "uuid_hex n"
  have all: "\<And>c. c \<in> set ?h \<Longrightarrow> c \<noteq> CHR ''-''"
    using uuid_hex_chars [of n] lower_hex_facts(1) by (auto simp: list_all_iff)
  have f: "filter (\<lambda>c. c \<noteq> CHR ''-'') s = s" if "set s \<subseteq> set ?h" for s
    using that all by (auto simp: filter_id_conv)
  have sub: "set (take k (drop j ?h)) \<subseteq> set ?h" "set (take k ?h) \<subseteq> set ?h" "set (drop j ?h) \<subseteq> set ?h"
    for j k by (auto dest: in_set_takeD in_set_dropD)
  have "take 8 ?h @ take 4 (drop 8 ?h) @ take 4 (drop 12 ?h) @ take 4 (drop 16 ?h) @ drop 20 ?h = ?h"
    by (simp add: append_take_drop_id [of 4 "drop 16 ?h", simplified]
        append_take_drop_id [of 4 "drop 12 ?h", simplified]
        append_take_drop_id [of 4 "drop 8 ?h", simplified] append_take_drop_id [of 8 ?h])
  then show ?thesis by (simp add: uuid_str_def Let_def f sub)
qed

lemma uuid_str_chars: "c \<in> set (uuid_str n) \<Longrightarrow> is_lower_hex c \<or> c = CHR ''-''"
  using uuid_hex_chars [of n]
  by (auto simp: uuid_str_def Let_def list_all_iff dest: in_set_takeD in_set_dropD)

lemma strip_braces_absent:
  "CHR ''{'' \<notin> set s \<Longrightarrow> CHR ''}'' \<notin> set s \<Longrightarrow> strip_by (\<lambda>c. c = CHR ''{'' \<or> c = CHR ''}'') s = s"
  by (rule strip_by_none) (auto simp: list_all_iff)

lemma uuid_str_absent:
  "\<not> is_lower_hex c \<Longrightarrow> c \<noteq> CHR ''-'' \<Longrightarrow> c \<notin> set (uuid_str n)"
  using uuid_str_chars by blast

lemma filter_hyphens_uuid_hex: "filter (\<lambda>c. c \<noteq> CHR ''-'') (uuid_hex n) = uuid_hex n"
  using uuid_hex_absent [of "CHR ''-''" n] by (auto simp: filter_id_conv simp del: uuid_hex_absent)

lemma uuid_parse_absent:
  assumes "CHR ''u'' \<notin> set s" "CHR ''{'' \<notin> set s" "CHR ''}'' \<notin> set s"
    and "filter (\<lambda>c. c \<noteq> CHR ''-'') s = uuid_hex n" and "0 \<le> n" and "n < 16 ^ 32"
  shows "uuid_parse s = Some n"
  using assms int_base16_uuid_hex [OF assms(5,6)]
  by (simp add: uuid_parse_def remove_text_absent strip_braces_absent)

theorem uuid_parse_hex: "0 \<le> n \<Longrightarrow> n < 16 ^ 32 \<Longrightarrow> uuid_parse (uuid_hex n) = Some n"
  by (rule uuid_parse_absent) (simp_all only: filter_hyphens_uuid_hex not_lower_hex uuid_hex_absent not_False_eq_True)

lemma uuid_str_absent_chars [simp]:
  "CHR ''u'' \<notin> set (uuid_str n)" "CHR ''{'' \<notin> set (uuid_str n)" "CHR ''}'' \<notin> set (uuid_str n)"
  by (rule uuid_str_absent; simp)+

theorem uuid_parse_str: "0 \<le> n \<Longrightarrow> n < 16 ^ 32 \<Longrightarrow> uuid_parse (uuid_str n) = Some n"
  by (rule uuid_parse_absent)
     (simp_all only: filter_hyphens_uuid_str uuid_str_absent_chars not_False_eq_True)

lemma uuid_parse_bound: "uuid_parse s = Some n \<Longrightarrow> 0 \<le> n \<and> n < 16 ^ 32"
  by (auto simp: uuid_parse_def Let_def split: if_splits option.splits)

lemma uuid_hex_inject: "0 \<le> m \<Longrightarrow> 0 \<le> n \<Longrightarrow> m < 16 ^ 32 \<Longrightarrow> n < 16 ^ 32 \<Longrightarrow> uuid_hex m = uuid_hex n \<longleftrightarrow> m = n"
  by (metis digits_val_fixed [of 16 _ 32] order_refl zero_less_numeral)

text \<open>The values whose text is canonical: \<open>str(UUID(value)) == value\<close>.\<close>

definition canonical_uuid :: "string \<Rightarrow> bool" where
  "canonical_uuid s \<longleftrightarrow> (case uuid_parse s of None \<Rightarrow> False | Some n \<Rightarrow> uuid_str n = s)"

lemma canonical_uuid_inject:
  "canonical_uuid s \<Longrightarrow> canonical_uuid t \<Longrightarrow> uuid_parse s = uuid_parse t \<Longrightarrow> s = t"
  by (auto simp: canonical_uuid_def split: option.splits)

end
