(* ===== verification/TaskModel.thy ===== *)
theory TaskModel
  imports PyTime PyUuid
begin

text \<open>
  \<open>discord_task_model.py\<close>: the task record with the checks of its constructor, the state machine
  of a task, the transition function with its bookkeeping of failures and attempts, and the
  interruption claim. A dataclass is a record; its \<open>__post_init__\<close> is the list of checks that
  \<open>make_task_record\<close> runs, so that every \<open>replace\<close> of the source, which runs the constructor
  again, is \<open>make_task_record\<close> of the updated record.
\<close>

section \<open>Data\<close>

datatype task_state =
    STARTING | RECOVERING | RUNNING | STOPPING | DELIVERING | COMPLETED | DELIVERY_FAILED
  | FAILED | TIMED_OUT | STOPPED | INTERRUPTED

datatype source_kind = MENTION | SLASH | CONTEXT_ACTION | CONTINUATION

datatype intent = GENERAL | REVIEW | SECURITY_REVIEW | VULNERABILITY_SCAN | IMPLEMENTATION

datatype interruption_cause = USER_STOP | CAUSE_TIMEOUT | RUNTIME_EXIT | GATEWAY_RESTART

datatype failure_category =
    CAT_TIMEOUT | RUNTIME_DISCONNECTED | AGENT_PROCESS_FAILED | INVALID_AGENT_OUTPUT
  | RUNTIME_INCOMPATIBLE | CONFIGURATION | WORKSPACE_OR_ATTACHMENT | DISCORD_DELIVERY | INTERNAL

datatype retry_mode = CONTINUE_SESSION | RETRY_DELIVERY | NO_RETRY

record task_failure =
  f_category :: failure_category
  f_summary :: string
  f_retry_mode :: retry_mode

definition make_failure :: "failure_category \<Rightarrow> string \<Rightarrow> retry_mode \<Rightarrow> task_failure result" where
  "make_failure c s m =
    (if s = [] \<or> 500 < length s
     then Inl (ValueError ''failure summary must be between 1 and 500 characters'')
     else Inr \<lparr>f_category = c, f_summary = s, f_retry_mode = m\<rparr>)"

definition valid_failure :: "task_failure \<Rightarrow> bool" where
  "valid_failure f \<longleftrightarrow> f_summary f \<noteq> [] \<and> length (f_summary f) \<le> 500"

record task_record =
  t_task_id :: string
  t_revision :: int
  t_owner_id :: int
  t_guild_id :: int
  t_origin_channel_id :: int
  t_execution_channel_id :: int
  t_trigger_event_id :: int
  t_source_message_id :: "int option"
  t_card_message_id :: "int option"
  t_result_message_id :: "int option"
  t_source_kind :: source_kind
  t_source_label :: string
  t_created_at :: string
  t_updated_at :: string
  t_attempt :: int
  t_state :: task_state
  t_failure :: "task_failure option"
  t_interruption_cause :: "interruption_cause option"
  t_continued_from :: "string option"
  t_continued_to :: "string option"
  t_intent :: intent
  t_source_reference_id :: "string option"
  t_repository_commit_sha :: "string option"

definition ACTIVE_STATES :: "task_state list" where
  "ACTIVE_STATES = [RECOVERING, STARTING, RUNNING, STOPPING, DELIVERING]"

definition FAILURE_STATES :: "task_state list" where
  "FAILURE_STATES = [FAILED, TIMED_OUT, DELIVERY_FAILED]"

abbreviation active :: "task_record \<Rightarrow> bool" where
  "active r \<equiv> t_state r \<in> set ACTIVE_STATES"

section \<open>The constructor's checks\<close>

definition bad_uuid :: "string option \<Rightarrow> bool" where
  "bad_uuid v = (case v of None \<Rightarrow> False | Some s \<Rightarrow> uuid_parse s = None)"

definition timestamp_check :: "string \<Rightarrow> string \<Rightarrow> (bool \<times> exn) list" where
  "timestamp_check value name =
    [(fromisoformat value = None, ValueError (name @ '' must be an ISO timestamp'')),
     (case fromisoformat value of None \<Rightarrow> False | Some t \<Rightarrow> dt_offset t = None,
      ValueError (name @ '' must have a timezone''))]"

definition valid_source_reference_id :: "string option \<Rightarrow> bool" where
  "valid_source_reference_id v = (case v of None \<Rightarrow> True | Some s \<Rightarrow> fullmatch_n is_lower_hex 32 s)"

definition valid_repository_commit_sha :: "string option \<Rightarrow> bool" where
  "valid_repository_commit_sha v = (case v of None \<Rightarrow> True | Some s \<Rightarrow> fullmatch_n is_lower_hex 40 s)"

definition delivery_failure_checks :: "task_failure option \<Rightarrow> (bool \<times> exn) list" where
  "delivery_failure_checks fo =
    [(fo = None, ValueError ''delivery failure requires a failure''),
     (\<exists>f \<in> set_option fo. f_category f \<noteq> DISCORD_DELIVERY,
      ValueError ''delivery failure must be categorized as Discord delivery''),
     (\<exists>f \<in> set_option fo. f_retry_mode f \<notin> {RETRY_DELIVERY, NO_RETRY},
      ValueError ''delivery failure cannot continue the agent session'')]"

definition positive_checks :: "(string \<times> int) list \<Rightarrow> (bool \<times> exn) list" where
  "positive_checks nvs =
    map (\<lambda>(n, v). (v \<le> 0, ValueError (n @ '' must be a positive integer''))) nvs"

definition optional_positive_checks :: "(string \<times> int option) list \<Rightarrow> (bool \<times> exn) list" where
  "optional_positive_checks nvs =
    map (\<lambda>(n, v). (\<exists>i \<in> set_option v. i \<le> 0,
                    ValueError (n @ '' must be a positive integer or None''))) nvs"

definition task_record_checks :: "task_record \<Rightarrow> (bool \<times> exn) list" where
  "task_record_checks r =
    [(bad_uuid (Some (t_task_id r)), ValueError ''task_id must be a UUID''),
     (bad_uuid (t_continued_from r), ValueError ''continued_from_task_id must be a UUID''),
     (bad_uuid (t_continued_to r), ValueError ''continued_to_task_id must be a UUID''),
     (Some (t_task_id r) \<in> {t_continued_from r, t_continued_to r},
      ValueError ''a task cannot continue itself''),
     (\<not> valid_source_reference_id (t_source_reference_id r),
      ValueError ''source_reference_id must be 32 lowercase hexadecimal characters''),
     (\<not> valid_repository_commit_sha (t_repository_commit_sha r),
      ValueError ''repository_commit_sha must be 40 lowercase hexadecimal characters''),
     (t_revision r < 0, ValueError ''revision must be non-negative''),
     (t_attempt r < 1, ValueError ''attempt must be at least one''),
     (t_source_label r = [] \<or> 200 < length (t_source_label r),
      ValueError ''source_label must be between 1 and 200 characters'')]
    @ positive_checks
       [(''owner_id'', t_owner_id r), (''guild_id'', t_guild_id r),
        (''origin_channel_id'', t_origin_channel_id r),
        (''execution_channel_id'', t_execution_channel_id r),
        (''trigger_event_id'', t_trigger_event_id r)]
    @ optional_positive_checks
       [(''source_message_id'', t_source_message_id r), (''card_message_id'', t_card_message_id r),
        (''result_message_id'', t_result_message_id r)]
    @ timestamp_check (t_created_at r) ''created_at''
    @ timestamp_check (t_updated_at r) ''updated_at''
    @ [(t_state r \<in> set FAILURE_STATES \<and> t_failure r = None, ValueError ''state requires a failure''),
       (t_state r \<in> {COMPLETED, STOPPED} \<and> t_failure r \<noteq> None,
        ValueError ''state cannot carry failure metadata'')]
    @ (if t_state r = DELIVERY_FAILED then delivery_failure_checks (t_failure r) else [])
    @ [(\<exists>f \<in> set_option (t_failure r).
          (f_category f = DISCORD_DELIVERY \<or> f_retry_mode f = RETRY_DELIVERY)
          \<and> t_state r \<noteq> DELIVERY_FAILED,
        ValueError ''delivery retry metadata is exclusive to delivery failure'')]"

definition make_task_record :: "task_record \<Rightarrow> task_record result" where
  "make_task_record r = and_then (raise_first (task_record_checks r)) (\<lambda>_. Inr r)"

text \<open>A record the constructor accepts, with a failure its own constructor accepts.\<close>

definition valid_task :: "task_record \<Rightarrow> bool" where
  "valid_task r \<longleftrightarrow> first_failure (task_record_checks r) = None
     \<and> (\<forall>f \<in> set_option (t_failure r). valid_failure f)"

section \<open>The state machine\<close>

fun transitions :: "task_state \<Rightarrow> task_state list" where
  "transitions FAILED = [RECOVERING]"
| "transitions TIMED_OUT = [RECOVERING]"
| "transitions INTERRUPTED = [RECOVERING]"
| "transitions RECOVERING = [STARTING, FAILED, STOPPING]"
| "transitions STARTING = [RUNNING, FAILED, STOPPING]"
| "transitions RUNNING = [DELIVERING, FAILED, TIMED_OUT, STOPPING, INTERRUPTED]"
| "transitions STOPPING = [STOPPED, FAILED, INTERRUPTED]"
| "transitions DELIVERING = [COMPLETED, DELIVERY_FAILED]"
| "transitions DELIVERY_FAILED = [DELIVERING]"
| "transitions COMPLETED = []"
| "transitions STOPPED = []"

definition can_transition :: "task_state \<Rightarrow> task_state \<Rightarrow> bool" where
  "can_transition current target \<longleftrightarrow> target \<in> set (transitions current)"

definition attempt_after_transition :: "task_record \<Rightarrow> task_state \<Rightarrow> int" where
  "attempt_after_transition r target =
    (let retrying_agent = (target = RECOVERING \<and> t_state r \<in> {FAILED, TIMED_OUT, INTERRUPTED});
         retrying_delivery = (t_state r = DELIVERY_FAILED \<and> target = DELIVERING)
     in if retrying_agent \<or> retrying_delivery then t_attempt r + 1 else t_attempt r)"

definition next_failure :: "task_record \<Rightarrow> task_state \<Rightarrow> task_failure option \<Rightarrow> task_failure option" where
  "next_failure r target failure =
    (if target \<in> {COMPLETED, STOPPED} \<or> (t_state r = DELIVERY_FAILED \<and> target = DELIVERING)
     then None
     else (case failure of Some f \<Rightarrow> Some f | None \<Rightarrow> t_failure r))"

definition transition ::
    "task_record \<Rightarrow> task_state \<Rightarrow> string \<Rightarrow> task_failure option \<Rightarrow> task_record result" where
  "transition r target updated_at failure =
    (if \<not> can_transition (t_state r) target then Inl InvalidTransition
     else make_task_record
       (r\<lparr>t_state := target, t_updated_at := updated_at, t_failure := next_failure r target failure,
          t_attempt := attempt_after_transition r target\<rparr>))"

definition claim_interruption :: "task_record \<Rightarrow> interruption_cause \<Rightarrow> task_record result" where
  "claim_interruption r cause =
    (if t_state r \<in> {DELIVERING, COMPLETED} then Inr r
     else if t_interruption_cause r \<noteq> None then Inr r
     else make_task_record (r\<lparr>t_interruption_cause := Some cause\<rparr>))"

section \<open>What the checks amount to\<close>

text \<open>A timestamp text the checks accept: it parses and carries a timezone.\<close>

definition aware_text :: "string \<Rightarrow> bool" where
  "aware_text s \<longleftrightarrow> (case fromisoformat s of None \<Rightarrow> False | Some t \<Rightarrow> dt_offset t \<noteq> None)"

text \<open>The part of a record no update may change, and the part that moves with the task.\<close>

definition task_identity_ok :: "task_record \<Rightarrow> bool" where
  "task_identity_ok r \<longleftrightarrow> \<not> bad_uuid (Some (t_task_id r)) \<and> \<not> bad_uuid (t_continued_from r)
     \<and> \<not> bad_uuid (t_continued_to r) \<and> t_continued_from r \<noteq> Some (t_task_id r)
     \<and> t_continued_to r \<noteq> Some (t_task_id r)
     \<and> valid_source_reference_id (t_source_reference_id r)
     \<and> valid_repository_commit_sha (t_repository_commit_sha r)
     \<and> t_source_label r \<noteq> [] \<and> length (t_source_label r) \<le> 200
     \<and> 0 < t_owner_id r \<and> 0 < t_guild_id r \<and> 0 < t_origin_channel_id r
     \<and> 0 < t_execution_channel_id r \<and> 0 < t_trigger_event_id r
     \<and> (\<forall>i \<in> set_option (t_source_message_id r). 0 < i) \<and> aware_text (t_created_at r)"

definition failure_fits :: "task_state \<Rightarrow> task_failure option \<Rightarrow> bool" where
  "failure_fits s fo \<longleftrightarrow> (case fo of
      None \<Rightarrow> s \<notin> set FAILURE_STATES
    | Some f \<Rightarrow> s \<notin> {COMPLETED, STOPPED}
        \<and> (if s = DELIVERY_FAILED then f_category f = DISCORD_DELIVERY \<and> f_retry_mode f \<noteq> CONTINUE_SESSION
           else f_category f \<noteq> DISCORD_DELIVERY \<and> f_retry_mode f \<noteq> RETRY_DELIVERY))"

definition task_progress_ok :: "task_record \<Rightarrow> bool" where
  "task_progress_ok r \<longleftrightarrow> 0 \<le> t_revision r \<and> 1 \<le> t_attempt r
     \<and> (\<forall>i \<in> set_option (t_card_message_id r). 0 < i)
     \<and> (\<forall>i \<in> set_option (t_result_message_id r). 0 < i)
     \<and> aware_text (t_updated_at r) \<and> failure_fits (t_state r) (t_failure r)"

lemma timestamp_check_ok:
  "(\<forall>(bad, e) \<in> set (timestamp_check s n). \<not> bad) \<longleftrightarrow> aware_text s"
  by (auto simp: timestamp_check_def aware_text_def split: option.splits)

lemma failure_checks_ok:
  "(\<not> (s \<in> set FAILURE_STATES \<and> fo = None) \<and> \<not> (s \<in> {COMPLETED, STOPPED} \<and> fo \<noteq> None)
     \<and> (s = DELIVERY_FAILED \<longrightarrow> (\<forall>(bad, e) \<in> set (delivery_failure_checks fo). \<not> bad))
     \<and> \<not> (\<exists>f \<in> set_option fo. (f_category f = DISCORD_DELIVERY \<or> f_retry_mode f = RETRY_DELIVERY)
            \<and> s \<noteq> DELIVERY_FAILED))
   \<longleftrightarrow> failure_fits s fo"
proof (cases fo)
  case None
  then show ?thesis
    by (cases s) (simp_all add: failure_fits_def delivery_failure_checks_def FAILURE_STATES_def)
next
  case (Some f)
  then show ?thesis
    by (cases s; cases "f_retry_mode f")
       (simp_all add: failure_fits_def delivery_failure_checks_def FAILURE_STATES_def)
qed

lemma checks_ok:
  "(\<forall>(bad, e) \<in> set (task_record_checks r). \<not> bad) \<longleftrightarrow> task_identity_ok r \<and> task_progress_ok r"
  unfolding task_record_checks_def set_append ball_Un
  by (simp only: timestamp_check_ok task_identity_ok_def task_progress_ok_def
        failure_checks_ok [symmetric])
     (auto simp: positive_checks_def optional_positive_checks_def not_le)

lemma valid_task_iff:
  "valid_task r \<longleftrightarrow> task_identity_ok r \<and> task_progress_ok r
     \<and> (\<forall>f \<in> set_option (t_failure r). valid_failure f)"
  by (simp add: valid_task_def checks_ok)

lemma make_task_record_Inr [result_simps]:
  "make_task_record r = Inr r' \<longleftrightarrow> r' = r \<and> task_identity_ok r \<and> task_progress_ok r"
  by (auto simp: make_task_record_def and_then_eq_Inr raise_first_Inr checks_ok)

lemma make_task_record_valid:
  "make_task_record r = Inr r' \<Longrightarrow> (\<And>f. t_failure r = Some f \<Longrightarrow> valid_failure f) \<Longrightarrow> valid_task r'"
  by (auto simp: make_task_record_Inr valid_task_iff)

text \<open>\<open>valid_task\<close> only looks at the failure through these, so a field update that touches
  neither part is harmless.\<close>

lemma task_identity_ok_update [simp]:
  "task_identity_ok (r\<lparr>t_revision := v\<rparr>) = task_identity_ok r"
  "task_identity_ok (r\<lparr>t_state := s\<rparr>) = task_identity_ok r"
  "task_identity_ok (r\<lparr>t_updated_at := u\<rparr>) = task_identity_ok r"
  "task_identity_ok (r\<lparr>t_failure := f\<rparr>) = task_identity_ok r"
  "task_identity_ok (r\<lparr>t_attempt := a\<rparr>) = task_identity_ok r"
  "task_identity_ok (r\<lparr>t_interruption_cause := c\<rparr>) = task_identity_ok r"
  "task_identity_ok (r\<lparr>t_card_message_id := m\<rparr>) = task_identity_ok r"
  "task_identity_ok (r\<lparr>t_result_message_id := m\<rparr>) = task_identity_ok r"
  by (simp_all add: task_identity_ok_def)

lemma attempt_after_transition_mono: "t_attempt r \<le> attempt_after_transition r target"
  by (simp add: attempt_after_transition_def Let_def)

end
