(* ===== verification/TaskMachine.thy ===== *)
theory TaskMachine
  imports TaskModel
begin

text \<open>
  The behaviour of the task state machine of \<open>discord_task_model.py\<close>: when a transition succeeds
  and what it returns, what a whole run of transitions does to attempts and identity, which
  states are final, what can follow a started delivery, and the interruption claim.
\<close>

section \<open>One transition\<close>

text \<open>The fields \<open>_validate_update\<close> of the store lists as immutable.\<close>

definition immutable_fields where
  "immutable_fields r =
    (t_task_id r, t_owner_id r, t_guild_id r, t_origin_channel_id r, t_execution_channel_id r,
     t_trigger_event_id r, t_source_message_id r, t_source_kind r, t_source_label r, t_intent r,
     t_source_reference_id r, t_repository_commit_sha r, t_created_at r, t_continued_from r,
     t_continued_to r)"

lemma task_identity_ok_cong:
  "immutable_fields r = immutable_fields r' \<Longrightarrow> task_identity_ok r = task_identity_ok r'"
  by (simp add: immutable_fields_def task_identity_ok_def)

text \<open>The record a permitted transition builds.\<close>

definition moved :: "task_record \<Rightarrow> task_state \<Rightarrow> string \<Rightarrow> task_failure option \<Rightarrow> task_record" where
  "moved r target ts failure =
    r\<lparr>t_state := target, t_updated_at := ts, t_failure := next_failure r target failure,
      t_attempt := attempt_after_transition r target\<rparr>"

lemma moved_fields [simp]:
  "t_state (moved r s ts f) = s" "t_updated_at (moved r s ts f) = ts"
  "t_failure (moved r s ts f) = next_failure r s f"
  "t_attempt (moved r s ts f) = attempt_after_transition r s"
  "t_revision (moved r s ts f) = t_revision r"
  "t_interruption_cause (moved r s ts f) = t_interruption_cause r"
  "t_card_message_id (moved r s ts f) = t_card_message_id r"
  "t_result_message_id (moved r s ts f) = t_result_message_id r"
  "immutable_fields (moved r s ts f) = immutable_fields r"
  "task_identity_ok (moved r s ts f) = task_identity_ok r"
  by (simp_all add: moved_def immutable_fields_def)

lemma transition_Inr [result_simps]:
  "transition r target ts fo = Inr r' \<longleftrightarrow> can_transition (t_state r) target
     \<and> task_identity_ok r \<and> task_progress_ok (moved r target ts fo) \<and> r' = moved r target ts fo"
  by (auto simp: transition_def moved_def make_task_record_Inr)

lemma next_failure_cases:
  "next_failure r target fo \<in> {None, fo, t_failure r}"
  by (auto simp: next_failure_def split: option.splits)

lemma transition_valid:
  assumes "valid_task r" and "\<And>f. fo = Some f \<Longrightarrow> valid_failure f"
    and "transition r target ts fo = Inr r'"
  shows "valid_task r'"
  using assms next_failure_cases [of r target fo]
  by (auto simp: transition_Inr valid_task_iff)

lemma transition_progress:
  assumes "valid_task r"
  shows "task_progress_ok (moved r target ts fo)
     \<longleftrightarrow> aware_text ts \<and> failure_fits target (next_failure r target fo)"
  using assms attempt_after_transition_mono [of r target]
  by (auto simp: valid_task_iff task_progress_ok_def)

text \<open>
  On a valid record a transition succeeds exactly when the state machine allows it, the new
  timestamp is an aware ISO timestamp, and the failure that results (none for a completed or
  stopped task and for a retried delivery, otherwise the given one or the old one) is one the
  target state may carry; then it changes state, timestamp, failure and attempt and nothing else.
\<close>

theorem transition_exact:
  assumes "valid_task r"
  shows "transition r target ts fo = Inr r' \<longleftrightarrow>
     can_transition (t_state r) target \<and> aware_text ts
     \<and> failure_fits target (next_failure r target fo)
     \<and> r' = r\<lparr>t_state := target, t_updated_at := ts, t_failure := next_failure r target fo,
               t_attempt := attempt_after_transition r target\<rparr>"
  using assms transition_progress [OF assms, of target ts fo]
  by (auto simp: transition_Inr valid_task_iff moved_def)

text \<open>A record for the witnesses.\<close>

definition example_task :: task_record where
  "example_task =
    \<lparr>t_task_id = ''00000000000000000000000000000001'', t_revision = 0, t_owner_id = 7,
     t_guild_id = 5, t_origin_channel_id = 11, t_execution_channel_id = 12,
     t_trigger_event_id = 99, t_source_message_id = Some 99, t_card_message_id = None,
     t_result_message_id = None, t_source_kind = MENTION, t_source_label = ''Discord mention'',
     t_created_at = ''2026-07-17T10:00:00+00:00'', t_updated_at = ''2026-07-17T10:00:00+00:00'',
     t_attempt = 1, t_state = STARTING, t_failure = None, t_interruption_cause = None,
     t_continued_from = None, t_continued_to = None, t_intent = GENERAL,
     t_source_reference_id = None, t_repository_commit_sha = None\<rparr>"

lemma example_aware: "aware_text ''2026-07-17T10:00:00+00:00''"
  by code_simp

lemma example_task_valid: "valid_task example_task"
  by code_simp

theorem transition_exact_witness:
  "valid_task example_task \<and>
   transition example_task RUNNING ''2026-07-17T10:00:00+00:00'' None
     = Inr (example_task\<lparr>t_state := RUNNING\<rparr>)"
proof -
  have "t_state example_task = STARTING" "t_failure example_task = None"
    "t_updated_at example_task = ''2026-07-17T10:00:00+00:00''" "t_attempt example_task = 1"
    by (simp_all add: example_task_def)
  then show ?thesis
    using transition_exact [OF example_task_valid, of RUNNING "''2026-07-17T10:00:00+00:00''" None]
      example_task_valid example_aware
    by (simp add: can_transition_def failure_fits_def next_failure_def FAILURE_STATES_def
        attempt_after_transition_def example_task_def)
qed

section \<open>Runs of transitions\<close>

fun task_run :: "task_record \<Rightarrow> (task_state \<times> string \<times> task_failure option) list \<Rightarrow> task_record result" where
  "task_run r [] = Inr r"
| "task_run r ((s, ts, fo) # steps) = and_then (transition r s ts fo) (\<lambda>r'. task_run r' steps)"

text \<open>A step that starts the agent or the delivery again.\<close>

definition is_retry :: "task_state \<Rightarrow> task_state \<Rightarrow> bool" where
  "is_retry s t \<longleftrightarrow> s \<in> {FAILED, TIMED_OUT, INTERRUPTED, DELIVERY_FAILED}"

fun count_retries :: "task_state \<Rightarrow> task_state list \<Rightarrow> nat" where
  "count_retries s [] = 0"
| "count_retries s (t # ts) = (if is_retry s t then 1 else 0) + count_retries t ts"

lemma attempt_step:
  assumes "can_transition (t_state r) s"
  shows "attempt_after_transition r s = t_attempt r + (if is_retry (t_state r) s then 1 else 0)"
  using assms
  by (cases "t_state r") (auto simp: can_transition_def attempt_after_transition_def is_retry_def)

text \<open>
  C28. A run of transitions leaves every immutable field (identity, scope, origin, links,
  creation time), the revision and the interruption cause as they were, keeps the record valid,
  ends in the state of its last step, and raises the attempt counter by exactly the number of
  its steps that leave a failed, timed-out, interrupted or undelivered state.
\<close>

theorem task_run_effect:
  assumes "task_run r steps = Inr r'" and "valid_task r"
    and "\<forall>(s, ts, fo) \<in> set steps. \<forall>f. fo = Some f \<longrightarrow> valid_failure f"
  shows "valid_task r' \<and> immutable_fields r' = immutable_fields r
     \<and> t_revision r' = t_revision r \<and> t_interruption_cause r' = t_interruption_cause r
     \<and> t_state r' = last (t_state r # map fst steps)
     \<and> t_attempt r' = t_attempt r + int (count_retries (t_state r) (map fst steps))"
  using assms
proof (induction r steps rule: task_run.induct)
  case (1 r)
  then show ?case by simp
next
  case (2 r s ts fo steps)
  from 2(2) obtain m where m: "transition r s ts fo = Inr m" and run: "task_run m steps = Inr r'"
    by (auto simp: and_then_eq_Inr)
  have "valid_task m" using 2(3) _ m by (rule transition_valid) (use 2(4) in auto)
  moreover have "\<forall>(s, ts, fo) \<in> set steps. \<forall>f. fo = Some f \<longrightarrow> valid_failure f" using 2(4) by simp
  ultimately have IH: "valid_task r' \<and> immutable_fields r' = immutable_fields m
     \<and> t_revision r' = t_revision m \<and> t_interruption_cause r' = t_interruption_cause m
     \<and> t_state r' = last (t_state m # map fst steps)
     \<and> t_attempt r' = t_attempt m + int (count_retries (t_state m) (map fst steps))"
    using 2(1) run by blast
  from m have step: "can_transition (t_state r) s" "m = moved r s ts fo"
    by (simp_all add: transition_Inr)
  show ?case using IH step attempt_step [OF step(1)] by auto
qed

theorem task_run_effect_witness:
  "(\<exists>r'. task_run example_task [(STOPPING, ''2026-07-17T10:00:00+00:00'', None),
      (INTERRUPTED, ''2026-07-17T10:00:00+00:00'', None),
      (RECOVERING, ''2026-07-17T10:00:00+00:00'', None)] = Inr r'
     \<and> t_attempt r' = 2 \<and> t_state r' = RECOVERING)"
proof -
  let ?ts = "''2026-07-17T10:00:00+00:00''"
  let ?steps = "[(STOPPING, ?ts, None), (INTERRUPTED, ?ts, None), (RECOVERING, ?ts, None)]"
  have "\<not> isl (task_run example_task ?steps)" by code_simp
  then obtain r' where r': "task_run example_task ?steps = Inr r'"
    by (cases "task_run example_task ?steps") auto
  have s: "t_state example_task = STARTING" "t_attempt example_task = 1"
    by (simp_all add: example_task_def)
  show ?thesis
    using task_run_effect [OF r' example_task_valid] r' s by (auto simp: is_retry_def)
qed

text \<open>
  The states no run leaves are \<open>COMPLETED\<close> and \<open>STOPPED\<close>, and once delivery of a result has
  begun no run returns to the agent: what can follow is more delivery, its failure, or
  completion.
\<close>

theorem delivery_is_one_way:
  "(can_transition\<^sup>*\<^sup>* DELIVERING t \<longleftrightarrow> t \<in> {DELIVERING, DELIVERY_FAILED, COMPLETED})
   \<and> ((\<nexists>u. can_transition t u) \<longleftrightarrow> t \<in> {COMPLETED, STOPPED})"
proof
  have step: "t \<in> {DELIVERING, DELIVERY_FAILED, COMPLETED} \<Longrightarrow> can_transition t u
      \<Longrightarrow> u \<in> {DELIVERING, DELIVERY_FAILED, COMPLETED}" for t u
    by (cases t) (auto simp: can_transition_def)
  have "can_transition\<^sup>*\<^sup>* s t \<Longrightarrow> s = DELIVERING \<Longrightarrow> t \<in> {DELIVERING, DELIVERY_FAILED, COMPLETED}" for s
    by (induction rule: rtranclp_induct) (use step in blast)+
  moreover have "can_transition DELIVERING DELIVERY_FAILED" "can_transition DELIVERING COMPLETED"
    by (simp_all add: can_transition_def)
  ultimately show "can_transition\<^sup>*\<^sup>* DELIVERING t \<longleftrightarrow> t \<in> {DELIVERING, DELIVERY_FAILED, COMPLETED}"
    by auto
  show "(\<nexists>u. can_transition t u) \<longleftrightarrow> t \<in> {COMPLETED, STOPPED}"
    by (cases t) (auto simp: can_transition_def)
qed

section \<open>The interruption claim\<close>

lemma claim_interruption_Inr:
  assumes "valid_task r"
  shows "claim_interruption r c =
     Inr (if t_state r \<in> {DELIVERING, COMPLETED} \<or> t_interruption_cause r \<noteq> None then r
          else r\<lparr>t_interruption_cause := Some c\<rparr>)"
proof -
  have "make_task_record (r\<lparr>t_interruption_cause := Some c\<rparr>) = Inr (r\<lparr>t_interruption_cause := Some c\<rparr>)"
    using assms by (simp add: make_task_record_Inr valid_task_iff task_progress_ok_def)
  then show ?thesis by (simp add: claim_interruption_def)
qed

text \<open>
  Claiming an interruption always succeeds on a valid record, and the first claim wins: a
  second claim with any cause changes nothing, and a task that is delivering or completed is
  never marked as interrupted.
\<close>

theorem first_interruption_wins:
  assumes "valid_task r"
  shows "\<exists>r'. claim_interruption r c = Inr r' \<and> valid_task r' \<and> claim_interruption r' d = Inr r'
     \<and> t_interruption_cause r' =
         (if t_state r \<in> {DELIVERING, COMPLETED} then t_interruption_cause r
          else if t_interruption_cause r = None then Some c else t_interruption_cause r)"
proof -
  have "valid_task (r\<lparr>t_interruption_cause := Some c\<rparr>)"
    using assms by (auto simp: valid_task_iff task_progress_ok_def)
  then show ?thesis using assms by (auto simp: claim_interruption_Inr)
qed

theorem first_interruption_wins_witness:
  "\<exists>r'. claim_interruption example_task USER_STOP = Inr r'
      \<and> claim_interruption r' GATEWAY_RESTART = Inr r' \<and> t_interruption_cause r' = Some USER_STOP"
proof -
  have "t_state example_task = STARTING" "t_interruption_cause example_task = None"
    by (simp_all add: example_task_def)
  then show ?thesis
    using first_interruption_wins [OF example_task_valid, of USER_STOP GATEWAY_RESTART] by auto
qed

end
