(* ===== verification/TaskPolicy.thy ===== *)
theory TaskPolicy
  imports TaskMachine "HOL-Library.Product_Lexorder"
begin

text \<open>
  \<open>discord_task_ids.py\<close>, \<open>discord_task_store_policy.py\<close> and \<open>discord_task_store_mutations.py\<close>: how
  task identifiers are looked up, the continuation graph and its validation, the retention of
  finished tasks, and forgetting a task. Sets the source pops from are lists here, popped at the
  head; the source's own order is the unspecified iteration order of a Python set.
\<close>

type_synonym tasks = "(string, task_record) pydict"

section \<open>Identifiers\<close>

text \<open>\<open>UUID(value).hex\<close>, when the text is a UUID.\<close>

definition canonical_hex :: "string \<Rightarrow> string option" where
  "canonical_hex s = map_option uuid_hex (uuid_parse s)"

fun scan_keys :: "string list \<Rightarrow> string \<Rightarrow> string \<Rightarrow> string result" where
  "scan_keys [] canonical task_id = Inl (KeyError task_id)"
| "scan_keys (k # ks) canonical task_id =
    (case canonical_hex k of
       None \<Rightarrow> Inl (ValueError ''badly formed hexadecimal UUID string'')
     | Some h \<Rightarrow> if h = canonical then Inr k else scan_keys ks canonical task_id)"

definition lookup_task_key :: "tasks \<Rightarrow> string \<Rightarrow> string result" where
  "lookup_task_key tasks task_id =
    (if task_id \<in> set (dict_keys tasks) then Inr task_id
     else (case canonical_hex task_id of
        None \<Rightarrow> Inl (KeyError task_id)
      | Some h \<Rightarrow> scan_keys (dict_keys tasks) h task_id))"

definition contains_task_id :: "tasks \<Rightarrow> string \<Rightarrow> bool result" where
  "contains_task_id tasks task_id =
    (case lookup_task_key tasks task_id of
       Inr _ \<Rightarrow> Inr True
     | Inl (KeyError _) \<Rightarrow> Inr False
     | Inl e \<Rightarrow> Inl e)"

fun unique_ids :: "string list \<Rightarrow> string list \<Rightarrow> unit result" where
  "unique_ids seen [] = Inr ()"
| "unique_ids seen (k # ks) =
    (case canonical_hex k of
       None \<Rightarrow> Inl (ValueError ''badly formed hexadecimal UUID string'')
     | Some h \<Rightarrow>
         if h \<in> set seen then Inl (ValueError ''task identifiers must be unique UUIDs'')
         else unique_ids (h # seen) ks)"

definition validate_unique_task_ids :: "tasks \<Rightarrow> unit result" where
  "validate_unique_task_ids tasks = unique_ids [] (dict_keys tasks)"

section \<open>The continuation graph\<close>

definition same_task_scope :: "task_record \<Rightarrow> task_record \<Rightarrow> bool" where
  "same_task_scope parent child \<longleftrightarrow>
     t_owner_id parent = t_owner_id child \<and> t_guild_id parent = t_guild_id child
     \<and> t_origin_channel_id parent = t_origin_channel_id child
     \<and> t_execution_channel_id parent = t_execution_channel_id child
     \<and> t_intent parent = t_intent child
     \<and> t_source_reference_id parent = t_source_reference_id child
     \<and> t_repository_commit_sha parent = t_repository_commit_sha child"

definition child_link_checks :: "tasks \<Rightarrow> task_record \<Rightarrow> (bool \<times> exn) list" where
  "child_link_checks tasks r = (case t_continued_to r of None \<Rightarrow> [] | Some c \<Rightarrow>
     (case map_of tasks c of
        None \<Rightarrow> [(True, ValueError ''continuation child is missing or not reciprocal'')]
      | Some child \<Rightarrow>
          [(t_continued_from child \<noteq> Some (t_task_id r),
            ValueError ''continuation child is missing or not reciprocal''),
           (t_state r \<noteq> COMPLETED \<or> \<not> same_task_scope r child,
            ValueError ''continuation link has an invalid parent or scope'')]))"

definition parent_link_checks :: "tasks \<Rightarrow> task_record \<Rightarrow> (bool \<times> exn) list" where
  "parent_link_checks tasks r = (case t_continued_from r of None \<Rightarrow> [] | Some p \<Rightarrow>
     (case map_of tasks p of
        None \<Rightarrow> [(True, ValueError ''continuation parent is missing or not reciprocal'')]
      | Some parent \<Rightarrow>
          [(t_continued_to parent \<noteq> Some (t_task_id r),
            ValueError ''continuation parent is missing or not reciprocal''),
           (t_state parent \<noteq> COMPLETED \<or> \<not> same_task_scope parent r,
            ValueError ''continuation link has an invalid parent or scope'')]))"

lemma card_Diff_insert_less:
  "finite A \<Longrightarrow> x \<in> A \<Longrightarrow> x \<notin> B \<Longrightarrow> card (A - insert x B) < card (A - B)"
  by (intro psubset_card_mono) auto

text \<open>One task's walk along \<open>continued_to_task_id\<close>, collecting the chain.\<close>

function walk_chain :: "tasks \<Rightarrow> string list \<Rightarrow> string list \<Rightarrow> string option \<Rightarrow> string list result" where
  "walk_chain tasks visited chain current =
    (case current of
       None \<Rightarrow> Inr chain
     | Some c \<Rightarrow>
         if c \<in> set visited then Inr chain
         else if c \<in> set chain then Inl (ValueError ''continuation links must be acyclic'')
         else (case map_of tasks c of
             None \<Rightarrow> Inl (KeyError c)
           | Some r \<Rightarrow> walk_chain tasks visited (c # chain) (t_continued_to r)))"
  by pat_completeness auto

termination
proof (relation "measure (\<lambda>(tasks, visited, chain, current). card (set (dict_keys tasks) - set chain))",
    goal_cases)
  case (2 tasks visited chain current c r)
  then have "c \<in> set (dict_keys tasks)" by (simp add: map_of_key)
  with 2 show ?case using card_Diff_insert_less [of "set (dict_keys tasks)" c "set chain"] by simp
qed simp

declare walk_chain.simps [simp del]

fun acyclic_loop :: "tasks \<Rightarrow> string list \<Rightarrow> string list \<Rightarrow> unit result" where
  "acyclic_loop tasks visited [] = Inr ()"
| "acyclic_loop tasks visited (k # ks) =
    and_then (walk_chain tasks visited [] (Some k)) (\<lambda>chain. acyclic_loop tasks (chain @ visited) ks)"

definition assert_acyclic :: "tasks \<Rightarrow> unit result" where
  "assert_acyclic tasks = acyclic_loop tasks [] (dict_keys tasks)"

definition validate_continuation_graph :: "tasks \<Rightarrow> unit result" where
  "validate_continuation_graph tasks =
    and_then
      (raise_first (concat (map (\<lambda>r. child_link_checks tasks r @ parent_link_checks tasks r)
                             (dict_values tasks))))
      (\<lambda>_. assert_acyclic tasks)"

section \<open>Linked components\<close>

definition add_link :: "string list \<times> string list \<Rightarrow> string option \<Rightarrow> string list \<times> string list" where
  "add_link cp l = (case l of None \<Rightarrow> cp | Some x \<Rightarrow>
     (case cp of (found, pending) \<Rightarrow> if x \<in> set found then cp else (x # found, x # pending)))"

definition links_of :: "task_record \<Rightarrow> string set" where
  "links_of r = set_option (t_continued_from r) \<union> set_option (t_continued_to r)"

definition link_universe :: "tasks \<Rightarrow> string set" where
  "link_universe tasks = set (dict_keys tasks) \<union> (\<Union>r \<in> set (dict_values tasks). links_of r)"

lemma finite_link_universe [simp]: "finite (link_universe tasks)"
  by (auto simp: link_universe_def links_of_def)

lemma map_of_in_values: "map_of d k = Some v \<Longrightarrow> v \<in> set (dict_values d)"
  by (metis map_of_SomeD image_eqI list.set_map snd_conv)

lemma add_link_measure:
  assumes "\<And>x. l = Some x \<Longrightarrow> x \<in> U" and "finite U"
  shows "set (fst cp) \<subseteq> set (fst (add_link cp l))"
    and "(card (U - set (fst (add_link cp l))) < card (U - set (fst cp)))
         \<or> (set (fst (add_link cp l)) = set (fst cp) \<and> length (snd (add_link cp l)) = length (snd cp))"
  using assms
  by (auto simp: add_link_def card_Diff_insert_less simp del: card_Diff_insert
      split: option.splits prod.splits)

function grow_component :: "tasks \<Rightarrow> string list \<Rightarrow> string list \<Rightarrow> string list result" where
  "grow_component tasks found [] = Inr found"
| "grow_component tasks found (p # ps) =
    (case map_of tasks p of
       None \<Rightarrow> Inl (KeyError p)
     | Some r \<Rightarrow>
         (let cp = add_link (add_link (found, ps) (t_continued_from r)) (t_continued_to r)
          in grow_component tasks (fst cp) (snd cp)))"
  by pat_completeness auto

termination
proof (relation "measures [\<lambda>(tasks, found, pending). card (link_universe tasks - set found),
                           \<lambda>(tasks, found, pending). length pending]", goal_cases)
  case (2 tasks found p ps r cp)
  let ?U = "link_universe tasks"
  define c1 where "c1 = add_link (found, ps) (t_continued_from r)"
  have "links_of r \<subseteq> ?U" using map_of_in_values [OF 2(1)] by (auto simp: link_universe_def)
  then have l: "t_continued_from r = Some x \<Longrightarrow> x \<in> ?U" "t_continued_to r = Some x \<Longrightarrow> x \<in> ?U" for x
    by (auto simp: links_of_def)
  have cp: "cp = add_link c1 (t_continued_to r)" using 2(2) by (simp add: c1_def)
  have "card (?U - set (fst c1)) < card (?U - set found)
      \<or> (set (fst c1) = set found \<and> length (snd c1) = length ps)"
    using add_link_measure(2) [of "t_continued_from r" ?U "(found, ps)"] l(1) by (simp add: c1_def)
  moreover have "card (?U - set (fst cp)) < card (?U - set (fst c1))
      \<or> (set (fst cp) = set (fst c1) \<and> length (snd cp) = length (snd c1))"
    using add_link_measure(2) [of "t_continued_to r" ?U c1] l(2) by (simp add: cp)
  ultimately show ?case by (cases cp) auto
qed simp

function components_from :: "tasks \<Rightarrow> string list \<Rightarrow> string list list result" where
  "components_from tasks [] = Inr []"
| "components_from tasks (k # ks) =
    and_then (grow_component tasks [k] [k]) (\<lambda>c.
      and_then (components_from tasks (filter (\<lambda>x. x \<notin> set c) ks)) (\<lambda>cs. Inr (c # cs)))"
  by pat_completeness auto

termination
  by (relation "measure (\<lambda>(tasks, remaining). length remaining)") (auto simp: le_imp_less_Suc)

definition components :: "tasks \<Rightarrow> string list list result" where
  "components tasks = components_from tasks (dict_keys tasks)"

section \<open>Retention\<close>

abbreviation RETENTION_US :: int where "RETENTION_US \<equiv> 30 * us_per_day"
abbreviation MAX_INACTIVE_TASKS :: nat where "MAX_INACTIVE_TASKS \<equiv> 500"

text \<open>\<open>_updated_at(record)\<close>, as an instant.\<close>

definition updated_instant :: "task_record \<Rightarrow> int result" where
  "updated_instant r = (case fromisoformat (t_updated_at r) of
      None \<Rightarrow> Inl (ValueError ''Invalid isoformat string'')
    | Some t \<Rightarrow> and_then (as_utc t) (\<lambda>u. Inr (instant u)))"

definition max_list :: "'a::linorder list \<Rightarrow> 'a" where
  "max_list xs = fold max (tl xs) (hd xs)"

text \<open>
  What the loop over the components does with one: it is retained with its records, it competes
  for the places of finished tasks with its newest update, or it is dropped.
\<close>

datatype fate =
    Live "task_record list"
  | Recent "int \<times> string" "(string \<times> task_record) list"
  | Expired

definition component_fate :: "tasks \<Rightarrow> int \<Rightarrow> string list \<Rightarrow> fate result" where
  "component_fate tasks cutoff c =
    and_then (map_result (\<lambda>k. dict_lookup tasks k (KeyError k)) c) (\<lambda>rs.
      if list_ex (\<lambda>r. t_state r \<in> set ACTIVE_STATES) rs then Inr (Live rs)
      else and_then (map_result updated_instant rs) (\<lambda>ts.
        if cutoff \<le> max_list ts then Inr (Recent (max_list (zip ts c)) (zip c rs)) else Inr Expired))"

text \<open>The newest inactive components that still fit; one that does not fit is skipped, not a stop.\<close>

fun select_inactive :: "nat \<Rightarrow> 'a list list \<Rightarrow> 'a list list" where
  "select_inactive n [] = []"
| "select_inactive n (c # cs) =
    (if MAX_INACTIVE_TASKS < n + length c then select_inactive n cs
     else c # select_inactive (n + length c) cs)"

fun live_items :: "fate \<Rightarrow> (string \<times> task_record) list" where
  "live_items (Live rs) = map (\<lambda>r. (t_task_id r, r)) rs"
| "live_items _ = []"

fun inactive_items :: "fate \<Rightarrow> ((int \<times> string) \<times> (string \<times> task_record) list) list" where
  "inactive_items (Recent k items) = [(k, items)]"
| "inactive_items _ = []"

definition apply_retention :: "tasks \<Rightarrow> datetime \<Rightarrow> tasks result" where
  "apply_retention tasks now =
    and_then (as_utc now) (\<lambda>u.
      let cutoff = instant u - RETENTION_US in
      if \<not> dt_in_range cutoff then Inl OverflowError
      else and_then (components tasks) (\<lambda>cs.
        and_then (map_result (component_fate tasks cutoff) cs) (\<lambda>fates.
          let live = concat (map live_items fates);
              inactive = sort_desc fst (concat (map inactive_items fates));
              chosen = select_inactive 0 (map snd inactive)
          in Inr (dict_update (dict_update [] live) (concat chosen)))))"

section \<open>Forgetting a task\<close>

definition unlink_parent :: "tasks \<Rightarrow> string \<Rightarrow> string \<Rightarrow> (tasks \<times> task_record) result" where
  "unlink_parent tasks p ts =
    and_then (dict_lookup tasks p (KeyError p)) (\<lambda>parent.
    and_then (make_task_record (parent\<lparr>t_continued_to := None, t_revision := t_revision parent + 1,
                                       t_updated_at := ts\<rparr>)) (\<lambda>parent'.
    Inr (AList.update (t_task_id parent') parent' tasks, parent')))"

definition unlink_child :: "tasks \<Rightarrow> string \<Rightarrow> string \<Rightarrow> (tasks \<times> task_record) result" where
  "unlink_child tasks c ts =
    and_then (dict_lookup tasks c (KeyError c)) (\<lambda>child.
    and_then (make_task_record (child\<lparr>t_continued_from := None, t_revision := t_revision child + 1,
                                      t_updated_at := ts\<rparr>)) (\<lambda>child'.
    Inr (AList.update (t_task_id child') child' tasks, child')))"

definition forget_inactive_task :: "tasks \<Rightarrow> string \<Rightarrow> string \<Rightarrow> (tasks \<times> task_record list) result" where
  "forget_inactive_task tasks task_id ts =
    and_then (dict_lookup tasks task_id (KeyError task_id)) (\<lambda>target.
    if active target then Inl (ValueError ''active tasks cannot be forgotten'')
    else
      let updated = AList.delete task_id tasks in
      and_then (case t_continued_from target of
          None \<Rightarrow> Inr (updated, [])
        | Some p \<Rightarrow> and_then (unlink_parent updated p ts) (\<lambda>(u, r). Inr (u, [r]))) (\<lambda>(u1, n1).
      and_then (case t_continued_to target of
          None \<Rightarrow> Inr (u1, n1)
        | Some c \<Rightarrow> and_then (unlink_child u1 c ts) (\<lambda>(u, r). Inr (u, n1 @ [r]))) (\<lambda>(u2, n2).
      and_then (validate_continuation_graph u2) (\<lambda>_. Inr (u2, n2)))))"

end
