(* ===== verification/TaskGraph.thy ===== *)
theory TaskGraph
  imports TaskPolicy
begin

text \<open>
  What the continuation-graph validation of \<open>discord_task_store_policy.py\<close> establishes: a
  declarative description of a good graph, the equivalence of the validator with it, and how the
  property survives the changes the store makes (a new unlinked task, an update that keeps the
  links, a new continuation, a forgotten task, a restriction to linked components).
\<close>

section \<open>Chains that end\<close>

inductive ends :: "tasks \<Rightarrow> string \<Rightarrow> bool" for tasks where
  last: "map_of tasks k = Some r \<Longrightarrow> t_continued_to r = None \<Longrightarrow> ends tasks k"
| step: "map_of tasks k = Some r \<Longrightarrow> t_continued_to r = Some c \<Longrightarrow> ends tasks c \<Longrightarrow> ends tasks k"

definition continuation :: "tasks \<Rightarrow> (string \<times> string) set" where
  "continuation tasks = {(a, b). \<exists>r. map_of tasks a = Some r \<and> t_continued_to r = Some b}"

lemma ends_no_cycle: "ends tasks k \<Longrightarrow> (k, k) \<notin> (continuation tasks)\<^sup>+"
proof (induction rule: ends.induct)
  case (last k r)
  then have "\<nexists>b. (k, b) \<in> continuation tasks" by (auto simp: continuation_def)
  then show ?case by (meson tranclD)
next
  case (step k r c)
  show ?case
  proof
    assume "(k, k) \<in> (continuation tasks)\<^sup>+"
    then obtain b where b: "(k, b) \<in> continuation tasks" "(b, k) \<in> (continuation tasks)\<^sup>*"
      by (meson tranclD)
    with step.hyps have "b = c" by (auto simp: continuation_def)
    with b have "(c, c) \<in> (continuation tasks)\<^sup>+" by (meson rtrancl_into_trancl1)
    with step.IH show False by blast
  qed
qed

text \<open>A successful walk covers only ending chains, and a walk over an acyclic, closed graph succeeds.\<close>

lemma walk_chain_ends:
  assumes "walk_chain tasks visited chain current = Inr res"
    and "\<And>v. v \<in> set visited \<Longrightarrow> ends tasks v"
    and "\<And>x. x \<in> set chain \<Longrightarrow> (case current of None \<Rightarrow> ends tasks x | Some c \<Rightarrow> ends tasks c \<longrightarrow> ends tasks x)"
  shows "(\<forall>x \<in> set res. ends tasks x) \<and> (case current of None \<Rightarrow> True | Some c \<Rightarrow> ends tasks c)
     \<and> set chain \<subseteq> set res"
  using assms
proof (induction tasks visited chain current rule: walk_chain.induct)
  case (1 tasks visited chain current)
  show ?case
  proof (cases current)
    case None
    with 1(2,4) show ?thesis by (auto simp: walk_chain.simps [of _ _ _ None])
  next
    case (Some c)
    show ?thesis
    proof (cases "c \<in> set visited")
      case True
      with 1(2-4) Some show ?thesis by (auto simp: walk_chain.simps [of _ _ _ "Some c"])
    next
      case nv: False
      with 1(2) Some have nc: "c \<notin> set chain"
        by (auto simp: walk_chain.simps [of _ _ _ "Some c"] split: if_splits)
      with nv 1(2) Some obtain r where r: "map_of tasks c = Some r"
        and w: "walk_chain tasks visited (c # chain) (t_continued_to r) = Inr res"
        by (auto simp: walk_chain.simps [of _ _ _ "Some c"] split: option.splits)
      have "case t_continued_to r of None \<Rightarrow> ends tasks x | Some d \<Rightarrow> ends tasks d \<longrightarrow> ends tasks x"
        if "x \<in> set (c # chain)" for x
      proof -
        have "case t_continued_to r of None \<Rightarrow> ends tasks c | Some d \<Rightarrow> ends tasks d \<longrightarrow> ends tasks c"
          using r by (auto intro: ends.intros split: option.splits)
        with that 1(4) Some show ?thesis by (auto split: option.splits)
      qed
      with 1(1) [OF Some nv nc r w 1(3)] have IH: "(\<forall>x \<in> set res. ends tasks x)" "set (c # chain) \<subseteq> set res"
        by blast+
      then show ?thesis using Some by auto
    qed
  qed
qed

lemma walk_chain_succeeds:
  assumes "\<And>v. (v, v) \<notin> (continuation tasks)\<^sup>+"
    and "\<And>a b. (a, b) \<in> continuation tasks \<Longrightarrow> b \<in> set (dict_keys tasks)"
    and "\<And>c. current = Some c \<Longrightarrow> c \<in> set (dict_keys tasks)
            \<and> (\<forall>x \<in> set chain. (x, c) \<in> (continuation tasks)\<^sup>+)"
  shows "\<exists>res. walk_chain tasks visited chain current = Inr res"
  using assms
proof (induction tasks visited chain current rule: walk_chain.induct)
  case (1 tasks visited chain current)
  show ?case
  proof (cases current)
    case None
    then show ?thesis by (simp add: walk_chain.simps [of _ _ _ None])
  next
    case (Some c)
    with 1(4) [OF Some] 1(2) have c: "c \<in> set (dict_keys tasks)" "c \<notin> set chain"
      and to: "\<And>x. x \<in> set chain \<Longrightarrow> (x, c) \<in> (continuation tasks)\<^sup>+" by auto
  from c(1) map_of_ex [of c tasks] obtain r where r: "map_of tasks c = Some r" by auto
    show ?thesis
    proof (cases "c \<in> set visited")
      case True
      then show ?thesis using Some by (simp add: walk_chain.simps [of _ _ _ "Some c"])
    next
      case False
      have "d \<in> set (dict_keys tasks) \<and> (\<forall>x \<in> set (c # chain). (x, d) \<in> (continuation tasks)\<^sup>+)"
        if "t_continued_to r = Some d" for d
      proof -
        have "(c, d) \<in> continuation tasks" using r that by (auto simp: continuation_def)
        then show ?thesis using 1(3) to by (auto intro: trancl_into_trancl)
      qed
      from 1(1) [OF Some False c(2) r 1(2,3) this] show ?thesis
        using Some False c(2) r by (simp add: walk_chain.simps [of _ _ _ "Some c"])
    qed
  qed
qed

lemma acyclic_loop_ends:
  assumes "acyclic_loop tasks visited ks = Inr ()"
    and "\<And>v. v \<in> set visited \<Longrightarrow> ends tasks v"
  shows "\<forall>k \<in> set ks. ends tasks k"
  using assms
proof (induction tasks visited ks rule: acyclic_loop.induct)
  case (1 tasks visited)
  then show ?case by simp
next
  case (2 tasks visited k ks)
  from 2(2) obtain ch where ch: "walk_chain tasks visited [] (Some k) = Inr ch"
    "acyclic_loop tasks (ch @ visited) ks = Inr ()" by (auto simp: and_then_eq_Inr)
  have w: "(\<forall>x \<in> set ch. ends tasks x) \<and> ends tasks k"
    using walk_chain_ends [OF ch(1) 2(3)] by simp
  then have "\<And>v. v \<in> set (ch @ visited) \<Longrightarrow> ends tasks v" using 2(3) by auto
  from 2(1) [OF ch(2) this] w show ?case by simp
qed

lemma acyclic_loop_succeeds:
  assumes "\<And>v. (v, v) \<notin> (continuation tasks)\<^sup>+"
    and "\<And>a b. (a, b) \<in> continuation tasks \<Longrightarrow> b \<in> set (dict_keys tasks)"
    and "set ks \<subseteq> set (dict_keys tasks)"
  shows "acyclic_loop tasks visited ks = Inr ()"
  using assms(3)
proof (induction ks arbitrary: visited)
  case Nil
  then show ?case by simp
next
  case (Cons k ks)
  have "\<exists>res. walk_chain tasks visited [] (Some k) = Inr res"
    by (rule walk_chain_succeeds [OF assms(1,2)]) (use Cons.prems in auto)
  then show ?case using Cons by auto
qed

text \<open>
  C30. On a graph whose links stay inside the store, the cycle check of the validator accepts
  exactly the graphs whose continuation relation is acyclic (the check walks every chain once,
  remembering what it has visited; the specification is the textbook one).
\<close>

theorem assert_acyclic_iff:
  assumes "\<And>a b. (a, b) \<in> continuation tasks \<Longrightarrow> b \<in> set (dict_keys tasks)"
  shows "assert_acyclic tasks = Inr () \<longleftrightarrow> acyclic (continuation tasks)"
proof
  assume "assert_acyclic tasks = Inr ()"
  then have "\<forall>k \<in> set (dict_keys tasks). ends tasks k"
    using acyclic_loop_ends [of tasks "[]"] by (simp add: assert_acyclic_def)
  then have "(k, k) \<notin> (continuation tasks)\<^sup>+" if "k \<in> set (dict_keys tasks)" for k
    using that ends_no_cycle by blast
  moreover have "(k, k) \<notin> (continuation tasks)\<^sup>+" if "k \<notin> set (dict_keys tasks)" for k
    using that assms by (metis tranclD2)
  ultimately show "acyclic (continuation tasks)" unfolding acyclic_def by blast
next
  assume "acyclic (continuation tasks)"
  then show "assert_acyclic tasks = Inr ()"
    using acyclic_loop_succeeds [OF _ assms, where ks = "dict_keys tasks" and visited = "[]"]
    by (auto simp: assert_acyclic_def acyclic_def)
qed

text \<open>Two tasks, the second continuing the first.\<close>

definition example_chain :: tasks where
  "example_chain =
    (let p = example_task\<lparr>t_state := COMPLETED, t_continued_to := Some ''00000000000000000000000000000002''\<rparr>;
         c = example_task\<lparr>t_task_id := ''00000000000000000000000000000002'',
               t_continued_from := Some (t_task_id example_task)\<rparr>
     in [(t_task_id p, p), (t_task_id c, c)])"

theorem assert_acyclic_iff_witness:
  "assert_acyclic example_chain = Inr () \<and> acyclic (continuation example_chain)"
proof -
  have "b \<in> set (dict_keys example_chain)" if "(a, b) \<in> continuation example_chain" for a b
    using that by (auto simp: continuation_def example_chain_def Let_def example_task_def split: if_splits)
  moreover have "assert_acyclic example_chain = Inr ()" by code_simp
  ultimately show ?thesis using assert_acyclic_iff by blast
qed

section \<open>The declarative graph invariant\<close>

definition links_ok :: "tasks \<Rightarrow> task_record \<Rightarrow> bool" where
  "links_ok tasks r \<longleftrightarrow>
     (\<forall>c. t_continued_to r = Some c \<longrightarrow> t_state r = COMPLETED
        \<and> (\<exists>child. map_of tasks c = Some child \<and> t_continued_from child = Some (t_task_id r)
             \<and> same_task_scope r child))
     \<and> (\<forall>p. t_continued_from r = Some p \<longrightarrow>
          (\<exists>parent. map_of tasks p = Some parent \<and> t_continued_to parent = Some (t_task_id r)
             \<and> t_state parent = COMPLETED \<and> same_task_scope parent r))"

definition graph_ok :: "tasks \<Rightarrow> bool" where
  "graph_ok tasks \<longleftrightarrow>
     (\<forall>k r. map_of tasks k = Some r \<longrightarrow> links_ok tasks r) \<and> (\<forall>k \<in> set (dict_keys tasks). ends tasks k)"

lemma child_link_checks_ok:
  "(\<forall>(bad, e) \<in> set (child_link_checks tasks r). \<not> bad) \<longleftrightarrow>
     (\<forall>c. t_continued_to r = Some c \<longrightarrow> t_state r = COMPLETED
        \<and> (\<exists>child. map_of tasks c = Some child \<and> t_continued_from child = Some (t_task_id r)
             \<and> same_task_scope r child))"
proof (cases "t_continued_to r")
  case None
  then show ?thesis by (simp add: child_link_checks_def)
next
  case (Some c)
  then show ?thesis by (cases "map_of tasks c") (auto simp: child_link_checks_def)
qed

lemma parent_link_checks_ok:
  "(\<forall>(bad, e) \<in> set (parent_link_checks tasks r). \<not> bad) \<longleftrightarrow>
     (\<forall>p. t_continued_from r = Some p \<longrightarrow>
        (\<exists>parent. map_of tasks p = Some parent \<and> t_continued_to parent = Some (t_task_id r)
           \<and> t_state parent = COMPLETED \<and> same_task_scope parent r))"
proof (cases "t_continued_from r")
  case None
  then show ?thesis by (simp add: parent_link_checks_def)
next
  case (Some p)
  then show ?thesis by (cases "map_of tasks p") (auto simp: parent_link_checks_def)
qed

lemma link_checks_ok:
  "(\<forall>(bad, e) \<in> set (child_link_checks tasks r @ parent_link_checks tasks r). \<not> bad) \<longleftrightarrow> links_ok tasks r"
  unfolding set_append ball_Un by (simp only: child_link_checks_ok parent_link_checks_ok links_ok_def)

lemma links_closed:
  assumes "\<And>k r. map_of tasks k = Some r \<Longrightarrow> links_ok tasks r" and "(a, b) \<in> continuation tasks"
  shows "b \<in> set (dict_keys tasks)"
proof -
  from assms(2) obtain r where r: "map_of tasks a = Some r" "t_continued_to r = Some b"
    by (auto simp: continuation_def)
  from assms(1) [OF r(1)] r(2) obtain child where "map_of tasks b = Some child"
    by (auto simp: links_ok_def)
  then show ?thesis by (simp add: map_of_key)
qed

theorem validate_graph_iff:
  assumes "dict_wf tasks"
  shows "validate_continuation_graph tasks = Inr () \<longleftrightarrow> graph_ok tasks"
proof -
  let ?links = "\<forall>k r. map_of tasks k = Some r \<longrightarrow> links_ok tasks r"
  have "(\<forall>(bad, e) \<in> set (concat (map (\<lambda>r. child_link_checks tasks r @ parent_link_checks tasks r)
           (dict_values tasks))). \<not> bad) \<longleftrightarrow> (\<forall>r \<in> set (dict_values tasks). links_ok tasks r)"
    by (simp only: link_checks_ok [symmetric] set_concat set_map ball_UN) blast
  then have "validate_continuation_graph tasks = Inr () \<longleftrightarrow>
      (\<forall>r \<in> set (dict_values tasks). links_ok tasks r) \<and> assert_acyclic tasks = Inr ()"
    by (simp only: validate_continuation_graph_def and_then_eq_Inr raise_first_Inr) simp
  also have "(\<forall>r \<in> set (dict_values tasks). links_ok tasks r) \<longleftrightarrow> ?links"
    by (simp only: Ball_def dict_values_iff [OF assms]) blast
  also have "?links \<and> assert_acyclic tasks = Inr () \<longleftrightarrow> graph_ok tasks"
  proof (rule conj_cong [OF refl, THEN trans])
    assume l: ?links
    then have cl: "\<And>a b. (a, b) \<in> continuation tasks \<Longrightarrow> b \<in> set (dict_keys tasks)"
      using links_closed by blast
    show "assert_acyclic tasks = Inr () \<longleftrightarrow> (\<forall>k \<in> set (dict_keys tasks). ends tasks k)"
    proof
      assume "assert_acyclic tasks = Inr ()"
      then show "\<forall>k \<in> set (dict_keys tasks). ends tasks k"
        using acyclic_loop_ends [of tasks "[]"] by (simp add: assert_acyclic_def)
    next
      assume e: "\<forall>k \<in> set (dict_keys tasks). ends tasks k"
      have "(v, v) \<notin> (continuation tasks)\<^sup>+" for v
      proof (cases "v \<in> set (dict_keys tasks)")
        case True
        with e show ?thesis using ends_no_cycle by blast
      next
        case False
        with cl show ?thesis by (metis tranclD2)
      qed
      then show "assert_acyclic tasks = Inr ()"
        using acyclic_loop_succeeds [OF _ cl, where ks = "dict_keys tasks" and visited = "[]"] by (simp add: assert_acyclic_def)
    qed
  qed (simp add: graph_ok_def)
  finally show ?thesis .
qed

section \<open>Changes that keep the graph\<close>

text \<open>Following the links of another store that only cuts some of them still ends.\<close>

lemma ends_transfer:
  assumes "ends tasks k" and "Q k"
    and "\<And>a r. Q a \<Longrightarrow> map_of tasks a = Some r \<Longrightarrow>
           \<exists>r'. map_of tasks' a = Some r'
              \<and> (t_continued_to r' = None \<or> (t_continued_to r' = t_continued_to r
                   \<and> (\<forall>b. t_continued_to r = Some b \<longrightarrow> Q b)))"
  shows "ends tasks' k"
  using assms(1,2)
proof (induction rule: ends.induct)
  case (last k r)
  then obtain r' where "map_of tasks' k = Some r'" "t_continued_to r' = None" using assms(3) by metis
  then show ?case by (rule ends.last)
next
  case (step k r c)
  then obtain r' where r': "map_of tasks' k = Some r'"
    "t_continued_to r' = None \<or> (t_continued_to r' = Some c \<and> Q c)" using assms(3) by metis
  then show ?case using step.IH by (auto intro: ends.intros)
qed

lemma links_ok_local:
  assumes "links_ok tasks r" and "\<And>x. x \<in> links_of r \<Longrightarrow> map_of tasks' x = map_of tasks x"
  shows "links_ok tasks' r"
  using assms by (simp add: links_ok_def links_of_def)

lemma graph_okD:
  assumes "graph_ok tasks" and "map_of tasks k = Some r"
  shows "links_ok tasks r" and "ends tasks k"
  using assms map_of_key [OF assms(2)] by (auto simp: graph_ok_def)

lemma graph_okI:
  assumes "\<And>k r. map_of tasks k = Some r \<Longrightarrow> links_ok tasks r"
    and "\<And>k r. map_of tasks k = Some r \<Longrightarrow> ends tasks k"
  shows "graph_ok tasks"
  unfolding graph_ok_def
proof (intro conjI allI impI ballI)
  fix k assume "k \<in> set (dict_keys tasks)"
  then show "ends tasks k" using map_of_ex [of k tasks] assms(2) by auto
qed (rule assms(1))

lemma links_of_dom:
  assumes "graph_ok tasks" and "map_of tasks k = Some r" and "x \<in> links_of r"
  shows "\<exists>r'. map_of tasks x = Some r'"
  using graph_okD(1) [OF assms(1,2)] assms(3) by (auto simp: links_ok_def links_of_def)

text \<open>A new task without links.\<close>

lemma graph_ok_insert:
  assumes "graph_ok tasks" and "map_of tasks k = None"
    and "t_continued_from r = None" and "t_continued_to r = None"
  shows "graph_ok (AList.update k r tasks)"
proof (rule graph_okI)
  fix a q assume aq: "map_of (AList.update k r tasks) a = Some q"
  show "links_ok (AList.update k r tasks) q"
  proof (cases "a = k")
    case True
    with aq assms(3,4) show ?thesis by (auto simp: links_ok_def)
  next
    case False
    with aq have q: "map_of tasks a = Some q" by simp
    show ?thesis
      by (rule links_ok_local [OF graph_okD(1) [OF assms(1) q]])
         (use links_of_dom [OF assms(1) q] assms(2) in fastforce)
  qed
  show "ends (AList.update k r tasks) a"
  proof (cases "a = k")
    case True
    with assms(4) show ?thesis by (intro ends.last [of _ _ r]) simp_all
  next
    case False
    with aq have q: "map_of tasks a = Some q" by simp
    show ?thesis
    proof (rule ends_transfer [OF graph_okD(2) [OF assms(1) q], where Q = "\<lambda>x. x \<noteq> k"])
      fix b s assume "b \<noteq> k" and bs: "map_of tasks b = Some s"
      moreover have "c \<noteq> k" if "t_continued_to s = Some c" for c
        using links_of_dom [OF assms(1) bs, of c] that assms(2) by (auto simp: links_of_def)
      ultimately show "\<exists>r'. map_of (AList.update k r tasks) b = Some r' \<and> (t_continued_to r' = None \<or>
          t_continued_to r' = t_continued_to s \<and> (\<forall>c. t_continued_to s = Some c \<longrightarrow> c \<noteq> k))" by auto
    qed (use False in simp)
  qed
qed

text \<open>Updates that keep identity, scope and links, and keep linked parents completed.\<close>

definition same_links :: "task_record \<Rightarrow> task_record \<Rightarrow> bool" where
  "same_links r r' \<longleftrightarrow> t_task_id r' = t_task_id r \<and> t_continued_from r' = t_continued_from r
     \<and> t_continued_to r' = t_continued_to r
     \<and> (\<forall>q. same_task_scope r' q = same_task_scope r q) \<and> (\<forall>q. same_task_scope q r' = same_task_scope q r)
     \<and> (t_continued_to r \<noteq> None \<longrightarrow> t_state r = COMPLETED \<longrightarrow> t_state r' = COMPLETED)"

lemma same_links_refl [simp]: "same_links r r"
  by (simp add: same_links_def)

lemma graph_ok_same_links:
  assumes "graph_ok tasks"
    and rel: "\<And>a. rel_option same_links (map_of tasks a) (map_of tasks' a)"
  shows "graph_ok tasks'"
proof (rule graph_okI)
  fix a q' assume aq: "map_of tasks' a = Some q'"
  with rel [of a] obtain q where q: "map_of tasks a = Some q" "same_links q q'"
    by (auto simp: option_rel_Some2)
  have img: "\<exists>y'. map_of tasks' x = Some y' \<and> same_links y y'" if "map_of tasks x = Some y" for x y
    using rel [of x] that by (auto simp: option_rel_Some1)
  show "links_ok tasks' q'"
    unfolding links_ok_def
  proof (intro conjI allI impI)
    fix c assume c: "t_continued_to q' = Some c"
    with q have "t_continued_to q = Some c" by (simp add: same_links_def)
    with graph_okD(1) [OF assms(1) q(1)] obtain child where child: "map_of tasks c = Some child"
      "t_continued_from child = Some (t_task_id q)" "same_task_scope q child" "t_state q = COMPLETED"
      by (auto simp: links_ok_def)
    with q \<open>t_continued_to q = Some c\<close> show "t_state q' = COMPLETED" by (simp add: same_links_def)
    from img [OF child(1)] child(2,3) q(2)
    show "\<exists>child. map_of tasks' c = Some child \<and> t_continued_from child = Some (t_task_id q')
        \<and> same_task_scope q' child"
      by (auto simp: same_links_def)
  next
    fix p assume "t_continued_from q' = Some p"
    with q have "t_continued_from q = Some p" by (simp add: same_links_def)
    with graph_okD(1) [OF assms(1) q(1)] obtain parent where parent: "map_of tasks p = Some parent"
      "t_continued_to parent = Some (t_task_id q)" "t_state parent = COMPLETED" "same_task_scope parent q"
      by (auto simp: links_ok_def)
    from img [OF parent(1)] obtain g where g: "map_of tasks' p = Some g" "same_links parent g" by blast
    have "t_continued_to g = Some (t_task_id q')" "t_state g = COMPLETED" "same_task_scope g q'"
      using parent(2-4) q(2) g(2) by (simp_all add: same_links_def)
    with g(1) show "\<exists>parent. map_of tasks' p = Some parent \<and> t_continued_to parent = Some (t_task_id q')
        \<and> t_state parent = COMPLETED \<and> same_task_scope parent q'" by blast
  qed
  show "ends tasks' a"
    by (rule ends_transfer [OF graph_okD(2) [OF assms(1) q(1)], where Q = "\<lambda>_. True"])
       (auto dest!: img simp: same_links_def)
qed

text \<open>A new continuation: the parent gets the link to a fresh child that points back.\<close>

lemma graph_ok_link:
  assumes "graph_ok tasks" and keys: "\<And>k r. map_of tasks k = Some r \<Longrightarrow> t_task_id r = k"
    and p: "map_of tasks p = Some parent" "t_continued_to parent = None" "t_state parent = COMPLETED"
    and c: "map_of tasks c = None" "t_task_id child = c" "t_continued_from child = Some p"
      "t_continued_to child = None" "same_task_scope parent child"
    and p': "t_continued_to parent' = Some c" "t_continued_from parent' = t_continued_from parent"
      "t_task_id parent' = t_task_id parent" "t_state parent' = COMPLETED"
      "\<And>q. same_task_scope parent' q = same_task_scope parent q"
      "\<And>q. same_task_scope q parent' = same_task_scope q parent"
  shows "graph_ok (AList.update c child (AList.update p parent' tasks))" (is "graph_ok ?new")
proof -
  have pc: "p \<noteq> c" using p(1) c(1) by auto
  have map: "map_of ?new = (map_of tasks)(p \<mapsto> parent', c \<mapsto> child)" by simp
  have end_c: "ends ?new c" using c(4) ends.last [of ?new c child] by simp
  then have end_p: "ends ?new p" using p'(1) pc ends.step [of ?new p parent' c] by simp
  show ?thesis
  proof (rule graph_okI)
    fix a q assume aq: "map_of ?new a = Some q"
    consider "a = c" "q = child" | "a = p" "q = parent'" | "a \<noteq> c" "a \<noteq> p" "map_of tasks a = Some q"
      using aq by (auto simp: map split: if_splits)
    then show "links_ok ?new q"
    proof cases
      case 1
      have "map_of ?new p = Some parent'" using pc by (simp add: map)
      moreover have "t_continued_to parent' = Some (t_task_id child)" "same_task_scope parent' child"
        using p'(1,5) c(2,5) by simp_all
      ultimately show ?thesis using 1 c(3,4) p'(4) by (simp add: links_ok_def)
    next
      case 2
      have kp: "t_task_id parent' = p" using keys [OF p(1)] p'(3) by simp
      have "map_of ?new c = Some child" by (simp add: map)
      then have to: "\<exists>g. map_of ?new c = Some g \<and> t_continued_from g = Some (t_task_id parent')
          \<and> same_task_scope parent' g" using c(3,5) kp p'(5) by simp
      have lp: "links_ok tasks parent" using assms(1) p(1) by (rule graph_okD)
      have "\<exists>g. map_of ?new x = Some g \<and> t_continued_to g = Some (t_task_id parent')
          \<and> t_state g = COMPLETED \<and> same_task_scope g parent'" if "t_continued_from parent = Some x" for x
      proof -
        from lp that obtain g where g: "map_of tasks x = Some g"
          "t_continued_to g = Some (t_task_id parent)" "t_state g = COMPLETED" "same_task_scope g parent"
          by (auto simp: links_ok_def)
        moreover have "x \<noteq> c" "x \<noteq> p" using g(1,2) c(1) p(1,2) by auto
        ultimately show ?thesis using p'(3,6) by (simp add: map)
      qed
      with to 2 p'(1,2,4) show ?thesis by (simp add: links_ok_def)
    next
      case 3
      have lq: "links_ok tasks q" using assms(1) 3(3) by (rule graph_okD)
      show ?thesis
        unfolding links_ok_def
      proof (intro conjI allI impI)
        fix x assume x: "t_continued_to q = Some x"
        from lq x obtain g where g: "map_of tasks x = Some g" "t_continued_from g = Some (t_task_id q)"
          "same_task_scope q g" "t_state q = COMPLETED" by (auto simp: links_ok_def)
        then show "t_state q = COMPLETED" by simp
        have "x \<noteq> c" using g(1) c(1) by auto
        then show "\<exists>g. map_of ?new x = Some g \<and> t_continued_from g = Some (t_task_id q)
            \<and> same_task_scope q g"
          using g p(1) p'(2,6) by (cases "x = p") auto
      next
        fix x assume "t_continued_from q = Some x"
        with lq obtain g where g: "map_of tasks x = Some g" "t_continued_to g = Some (t_task_id q)"
          "t_state g = COMPLETED" "same_task_scope g q" by (auto simp: links_ok_def)
        moreover have "x \<noteq> c" "x \<noteq> p" using g(1,2) c(1) p(1,2) by auto
        ultimately show "\<exists>g. map_of ?new x = Some g \<and> t_continued_to g = Some (t_task_id q)
            \<and> t_state g = COMPLETED \<and> same_task_scope g q" by simp
      qed
    qed
    show "ends ?new a"
    proof (cases "a = c \<or> a = p")
      case True
      then show ?thesis using end_c end_p by auto
    next
      case False
      with aq have "map_of tasks a = Some q" by (simp add: map)
      from graph_okD(2) [OF assms(1) this] show ?thesis
      proof (induction rule: ends.induct)
        case (last k r)
        then show ?case using end_c end_p
          using ends.last [of ?new k r] by (cases "k = c \<or> k = p") auto
      next
        case (step k r d)
        then show ?case using end_c end_p
          using ends.step [of ?new k r d] by (cases "k = c \<or> k = p") auto
      qed
    qed
  qed
qed

text \<open>Keeping only some tasks, together with everything linked to them.\<close>

lemma graph_ok_restrict:
  assumes "graph_ok tasks"
    and closed: "\<And>k r x. P k \<Longrightarrow> map_of tasks k = Some r \<Longrightarrow> x \<in> links_of r \<Longrightarrow> P x"
  shows "graph_ok (dict_restrict P tasks)"
proof (rule graph_okI)
  fix a q assume "map_of (dict_restrict P tasks) a = Some q"
  then have q: "P a" "map_of tasks a = Some q" by (auto simp: map_of_restrict split: if_splits)
  show "links_ok (dict_restrict P tasks) q"
    by (rule links_ok_local [OF graph_okD(1) [OF assms(1) q(2)]])
       (use closed [OF q] in \<open>auto simp: map_of_restrict\<close>)
  show "ends (dict_restrict P tasks) a"
    by (rule ends_transfer [OF graph_okD(2) [OF assms(1) q(2)], where Q = P])
       (use q closed in \<open>auto simp: map_of_restrict links_of_def\<close>)
qed

end
