(* ===== verification/TaskRetention.thy ===== *)
theory TaskRetention
  imports TaskGraph "HOL-Library.Multiset"
begin

text \<open>
  The retention policy of \<open>discord_task_store_policy.py\<close>: the linked components the worklist
  loop finds are closed, disjoint and cover the store, so that retention drops whole components,
  never an active one, and keeps a good graph; at most 500 finished tasks survive.
\<close>

section \<open>Closed sets of tasks\<close>

definition linked :: "tasks \<Rightarrow> (string \<times> string) set" where
  "linked tasks = {(a, b). \<exists>r. map_of tasks a = Some r \<and> b \<in> links_of r}"

definition link_closed :: "tasks \<Rightarrow> string set \<Rightarrow> bool" where
  "link_closed tasks S \<longleftrightarrow> (\<forall>a \<in> S. \<forall>b. (a, b) \<in> linked tasks \<longrightarrow> b \<in> S)"

definition keys_match :: "tasks \<Rightarrow> bool" where
  "keys_match tasks \<longleftrightarrow> (\<forall>k r. map_of tasks k = Some r \<longrightarrow> t_task_id r = k)"

lemma linked_sym:
  assumes "graph_ok tasks" and "keys_match tasks" and "(a, b) \<in> linked tasks"
  shows "(b, a) \<in> linked tasks"
proof -
  from assms(3) obtain r where r: "map_of tasks a = Some r" "b \<in> links_of r"
    by (auto simp: linked_def)
  have "t_task_id r = a" using assms(2) r(1) by (simp add: keys_match_def)
  with graph_okD(1) [OF assms(1) r(1)] r(2) show ?thesis
    by (auto simp: links_ok_def links_of_def linked_def)
qed

lemma linked_dom:
  assumes "graph_ok tasks" and "(a, b) \<in> linked tasks"
  shows "b \<in> set (dict_keys tasks)"
proof -
  from assms(2) obtain r where r: "map_of tasks a = Some r" "b \<in> links_of r"
    by (auto simp: linked_def)
  from links_of_dom [OF assms(1) r] map_of_key [of tasks b] show ?thesis by auto
qed

lemma link_closed_rtrancl:
  "(a, b) \<in> (linked tasks)\<^sup>* \<Longrightarrow> link_closed tasks S \<Longrightarrow> a \<in> S \<Longrightarrow> b \<in> S"
  by (induction rule: rtrancl_induct) (auto simp: link_closed_def)

lemma add_link_sets [simp]:
  "set (fst (add_link (found, ps) l)) = set found \<union> set_option l"
  "set (snd (add_link (found, ps) l)) = set ps \<union> (set_option l - set found)"
  "distinct found \<Longrightarrow> distinct (fst (add_link (found, ps) l))"
  by (auto simp: add_link_def split: option.splits)

lemma add_two_links:
  assumes cp_def: "cp = add_link (add_link (found, ps) (t_continued_from r)) (t_continued_to r)"
  shows "set (fst cp) = set found \<union> links_of r"
    and "set (snd cp) \<subseteq> set ps \<union> links_of r"
    and "set ps \<union> (links_of r - set found) \<subseteq> set (snd cp)"
    and "distinct found \<Longrightarrow> distinct (fst cp)"
proof -
  obtain f p where fp: "add_link (found, ps) (t_continued_from r) = (f, p)" by fastforce
  have f: "set f = set found \<union> set_option (t_continued_from r)"
    and p: "set p = set ps \<union> (set_option (t_continued_from r) - set found)"
    and d: "distinct found \<Longrightarrow> distinct f"
    using add_link_sets [of found ps "t_continued_from r"] by (simp_all add: fp)
  show "set (fst cp) = set found \<union> links_of r" by (auto simp: cp_def fp f links_of_def)
  show "set (snd cp) \<subseteq> set ps \<union> links_of r"
    and "set ps \<union> (links_of r - set found) \<subseteq> set (snd cp)"
    by (auto simp: cp_def fp f p links_of_def)
  show "distinct found \<Longrightarrow> distinct (fst cp)" using d by (simp add: cp_def fp)
qed

lemma grow_component_spec:
  assumes "graph_ok tasks"
    and "set pending \<subseteq> set found" and "set found \<subseteq> set (dict_keys tasks)" and "distinct found"
    and "\<And>a b. a \<in> set found - set pending \<Longrightarrow> (a, b) \<in> linked tasks \<Longrightarrow> b \<in> set found"
  shows "\<exists>res. grow_component tasks found pending = Inr res \<and> set found \<subseteq> set res
     \<and> set res \<subseteq> set (dict_keys tasks) \<and> distinct res \<and> link_closed tasks (set res)
     \<and> (\<forall>x \<in> set res. \<exists>y \<in> set found. (y, x) \<in> (linked tasks)\<^sup>*)"
  using assms
proof (induction tasks found pending rule: grow_component.induct)
  case (1 tasks found)
  then show ?case by (auto simp: link_closed_def)
next
  case (2 tasks found p ps)
  from 2(3,4) map_of_ex [of p tasks] obtain r where r: "map_of tasks p = Some r" by auto
  define cp where "cp = add_link (add_link (found, ps) (t_continued_from r)) (t_continued_to r)"
  note cps = add_two_links [OF cp_def]
  have pl: "(p, b) \<in> linked tasks \<longleftrightarrow> b \<in> links_of r" for b using r by (simp add: linked_def)
  have sub: "links_of r \<subseteq> set (dict_keys tasks)" using pl linked_dom [OF 2(2)] by blast
  have "set (snd cp) \<subseteq> set (fst cp)" using cps(1,2) 2(3) by auto
  moreover have "set (fst cp) \<subseteq> set (dict_keys tasks)" using cps(1) 2(4) sub by auto
  moreover have "b \<in> set (fst cp)" if "a \<in> set (fst cp) - set (snd cp)" "(a, b) \<in> linked tasks" for a b
  proof (cases "a = p")
    case True
    with that(2) pl cps(1) show ?thesis by auto
  next
    case False
    with that(1) cps(1,3) have "a \<in> set found - set (p # ps)" by auto
    with 2(6) that(2) cps(1) show ?thesis by blast
  qed
  ultimately obtain res where res: "grow_component tasks (fst cp) (snd cp) = Inr res"
    "set (fst cp) \<subseteq> set res" "set res \<subseteq> set (dict_keys tasks)" "distinct res"
    "link_closed tasks (set res)" "\<forall>x \<in> set res. \<exists>y \<in> set (fst cp). (y, x) \<in> (linked tasks)\<^sup>*"
    using 2(1) [OF r cp_def 2(2)] cps(4) [OF 2(5)] by blast
  have "\<exists>y \<in> set found. (y, x) \<in> (linked tasks)\<^sup>*" if "x \<in> set res" for x
  proof -
    from res(6) that obtain y where y: "y \<in> set (fst cp)" "(y, x) \<in> (linked tasks)\<^sup>*" by blast
    show ?thesis
    proof (cases "y \<in> set found")
      case True
      with y show ?thesis by blast
    next
      case False
      with y(1) cps(1) pl have "(p, y) \<in> linked tasks" by auto
      then have "(p, x) \<in> (linked tasks)\<^sup>*" using y(2) by (rule converse_rtrancl_into_rtrancl)
      then show ?thesis using 2(3) by auto
    qed
  qed
  with res cps(1) show ?case by (simp add: r cp_def [symmetric])
qed

lemma components_from_spec:
  assumes "graph_ok tasks" and "keys_match tasks"
    and "set ks \<subseteq> set (dict_keys tasks)" and "distinct ks" and "link_closed tasks (set ks)"
  shows "\<exists>cs. components_from tasks ks = Inr cs \<and> distinct (concat cs) \<and> set (concat cs) = set ks
     \<and> (\<forall>c \<in> set cs. link_closed tasks (set c) \<and> c \<noteq> []
          \<and> (\<forall>x \<in> set c. \<forall>y \<in> set c. (x, y) \<in> (linked tasks)\<^sup>*))"
  using assms
proof (induction tasks ks rule: components_from.induct)
  case (1 tasks)
  then show ?case by simp
next
  case (2 tasks k ks)
  obtain c where c: "grow_component tasks [k] [k] = Inr c" "k \<in> set c" "distinct c"
    "link_closed tasks (set c)" "\<forall>x \<in> set c. (k, x) \<in> (linked tasks)\<^sup>*"
    using grow_component_spec [OF 2(2), of "[k]" "[k]"] 2(4) by auto
  have sub: "set c \<subseteq> set (k # ks)"
    using c(5) link_closed_rtrancl [OF _ 2(6), of k] by auto
  let ?rest = "filter (\<lambda>x. x \<notin> set c) ks"
  have "link_closed tasks (set ?rest)"
    unfolding link_closed_def
  proof (intro ballI allI impI)
    fix a b assume a: "a \<in> set ?rest" and ab: "(a, b) \<in> linked tasks"
    have "b \<in> set (k # ks)" using 2(6) a ab by (auto simp: link_closed_def)
    moreover have "b \<notin> set c"
      using linked_sym [OF 2(2,3) ab] c(4) a by (auto simp: link_closed_def)
    ultimately show "b \<in> set ?rest" using c(2) by auto
  qed
  moreover have "set ?rest \<subseteq> set (dict_keys tasks)" "distinct ?rest" using 2(4,5) by auto
  ultimately obtain cs where cs: "components_from tasks ?rest = Inr cs" "distinct (concat cs)"
    "set (concat cs) = set ?rest" "\<forall>d \<in> set cs. link_closed tasks (set d) \<and> d \<noteq> []
       \<and> (\<forall>x \<in> set d. \<forall>y \<in> set d. (x, y) \<in> (linked tasks)\<^sup>*)"
    using 2(1) [of c] 2(2,3) by blast
  have sym: "sym ((linked tasks)\<^sup>*)"
    by (rule sym_rtrancl) (auto intro!: symI dest: linked_sym [OF 2(2,3)])
  have "(x, y) \<in> (linked tasks)\<^sup>*" if "x \<in> set c" "y \<in> set c" for x y
    using c(5) that sym by (meson rtrancl_trans symD)
  then show ?case using c cs sub by (auto simp: set_concat [symmetric] simp del: set_concat)
qed

text \<open>The tasks a task is linked to, through any number of continuations.\<close>

definition chain_of :: "tasks \<Rightarrow> string \<Rightarrow> string set" where
  "chain_of tasks k = {x. (k, x) \<in> (linked tasks)\<^sup>*}"

definition chains_partition :: "tasks \<Rightarrow> string list list \<Rightarrow> bool" where
  "chains_partition tasks cs \<longleftrightarrow> distinct (concat cs) \<and> set (concat cs) = set (dict_keys tasks)
     \<and> [] \<notin> set cs \<and> (\<forall>c \<in> set cs. \<forall>k \<in> set c. set c = chain_of tasks k)"

lemma linked_class:
  assumes "link_closed tasks S" and "\<forall>x \<in> S. \<forall>y \<in> S. (x, y) \<in> (linked tasks)\<^sup>*" and "k \<in> S"
  shows "S = chain_of tasks k"
  unfolding chain_of_def
proof
  show "S \<subseteq> {x. (k, x) \<in> (linked tasks)\<^sup>*}" using assms(2,3) by blast
  show "{x. (k, x) \<in> (linked tasks)\<^sup>*} \<subseteq> S" using link_closed_rtrancl [OF _ assms(1,3)] by blast
qed

lemma components_spec:
  assumes "graph_ok tasks" and "keys_match tasks" and "dict_wf tasks"
  shows "\<exists>cs. components tasks = Inr cs \<and> chains_partition tasks cs"
proof -
  have "link_closed tasks (set (dict_keys tasks))"
    using linked_dom [OF assms(1)] unfolding link_closed_def by blast
  from components_from_spec [OF assms(1,2) order_refl assms(3) this] obtain cs where
    cs: "components tasks = Inr cs" "distinct (concat cs)" "set (concat cs) = set (dict_keys tasks)"
    and c: "\<forall>c \<in> set cs. link_closed tasks (set c) \<and> c \<noteq> []
      \<and> (\<forall>x \<in> set c. \<forall>y \<in> set c. (x, y) \<in> (linked tasks)\<^sup>*)"
    unfolding components_def by blast
  have "set c = chain_of tasks k" if "c \<in> set cs" "k \<in> set c" for c k
    using c that by (intro linked_class) blast+
  moreover have "[] \<notin> set cs" using c by blast
  ultimately show ?thesis using cs unfolding chains_partition_def by blast
qed

section \<open>What retention keeps\<close>

lemma select_inactive_bound:
  "n \<le> MAX_INACTIVE_TASKS \<Longrightarrow> n + length (concat (select_inactive n cs)) \<le> MAX_INACTIVE_TASKS"
proof (induction n cs rule: select_inactive.induct)
  case (2 n c cs)
  then show ?case by (cases "MAX_INACTIVE_TASKS < n + length c") auto
qed simp

lemma select_inactive_subset: "set (select_inactive n cs) \<subseteq> set cs"
  by (induction n cs rule: select_inactive.induct) auto

lemma select_inactive_all:
  "n + length (concat cs) \<le> MAX_INACTIVE_TASKS \<Longrightarrow> select_inactive n cs = cs"
  by (induction n cs rule: select_inactive.induct) auto

definition active_in :: "tasks \<Rightarrow> string set \<Rightarrow> bool" where
  "active_in tasks S \<longleftrightarrow> (\<exists>k \<in> S. \<exists>r. map_of tasks k = Some r \<and> active r)"

definition updated_since :: "tasks \<Rightarrow> int \<Rightarrow> string set \<Rightarrow> bool" where
  "updated_since tasks cutoff S \<longleftrightarrow>
     (\<exists>k \<in> S. \<exists>r t. map_of tasks k = Some r \<and> updated_instant r = Inr t \<and> cutoff \<le> t)"

lemma max_list_ge: "xs \<noteq> [] \<Longrightarrow> (\<exists>x \<in> set xs. c \<le> x) \<longleftrightarrow> c \<le> max_list xs"
proof -
  have f: "c \<le> fold max ys a \<longleftrightarrow> c \<le> a \<or> (\<exists>x \<in> set ys. c \<le> x)" for a ys
    by (induction ys arbitrary: a) (auto simp: le_max_iff_disj)
  assume "xs \<noteq> []"
  then show ?thesis by (cases xs) (auto simp: max_list_def f)
qed

lemma list_all2_in2: "list_all2 P xs ys \<Longrightarrow> y \<in> set ys \<Longrightarrow> \<exists>x \<in> set xs. P x y"
  by (induction xs ys rule: list_all2_induct) auto

lemma list_all2_in1: "list_all2 P xs ys \<Longrightarrow> x \<in> set xs \<Longrightarrow> \<exists>y \<in> set ys. P x y"
  by (induction xs ys rule: list_all2_induct) auto

lemma component_fate_spec:
  assumes "component_fate tasks cutoff c = Inr f" and "c \<noteq> []" and "keys_match tasks"
  shows "active_in tasks (set c) \<Longrightarrow> map fst (live_items f) = c \<and> inactive_items f = []"
    and "\<not> active_in tasks (set c) \<Longrightarrow> live_items f = []"
    and "\<not> active_in tasks (set c) \<Longrightarrow> updated_since tasks cutoff (set c)
           \<Longrightarrow> \<exists>k items. inactive_items f = [(k, items)] \<and> map fst items = c"
    and "\<not> updated_since tasks cutoff (set c) \<Longrightarrow> inactive_items f = []"
    and "(k, r) \<in> set (live_items f) \<union> set (concat (map snd (inactive_items f))) \<Longrightarrow> map_of tasks k = Some r"
proof -
  from assms(1) obtain rs where rs: "list_all2 (\<lambda>k r. map_of tasks k = Some r) c rs"
    and f: "(if list_ex (\<lambda>r. t_state r \<in> set ACTIVE_STATES) rs then Inr (Live rs)
      else and_then (map_result updated_instant rs) (\<lambda>ts.
        if cutoff \<le> max_list ts then Inr (Recent (max_list (zip ts c)) (zip c rs)) else Inr Expired)) = Inr f"
    by (auto simp: component_fate_def and_then_eq_Inr map_result_Inr dict_lookup_Inr)
  have act: "list_ex (\<lambda>r. t_state r \<in> set ACTIVE_STATES) rs \<longleftrightarrow> active_in tasks (set c)"
    using list_all2_in1 [OF rs] list_all2_in2 [OF rs]
    by (fastforce simp: list_ex_iff active_in_def)
  have len: "length c = length rs" using rs by (rule list_all2_lengthD)
  have pairs: "map_of tasks k = Some r" if "(k, r) \<in> set (zip c rs)" for k r
    using rs that by (auto simp: list_all2_iff)
  have ids: "map t_task_id rs = c"
    using rs assms(3) by (auto simp: list_all2_conv_all_nth keys_match_def intro: nth_equalityI)
  have live: "live_items (Live rs) = zip c rs"
    using ids by (auto simp: zip_map1 zip_same_conv_map simp flip: ids)
  have since: "updated_since tasks cutoff (set c) \<longleftrightarrow> cutoff \<le> max_list ts"
    if "list_all2 (\<lambda>r t. updated_instant r = Inr t) rs ts" for ts
  proof -
    have "ts \<noteq> []" using that rs assms(2) by auto
    moreover have "(\<exists>t \<in> set ts. cutoff \<le> t) \<longleftrightarrow> updated_since tasks cutoff (set c)"
      using list_all2_in1 [OF rs] list_all2_in2 [OF rs] list_all2_in1 [OF that] list_all2_in2 [OF that]
      unfolding updated_since_def by (metis (mono_tags, lifting) Inr_inject option.inject)
    ultimately show ?thesis using max_list_ge by blast
  qed
  have cases: "(active_in tasks (set c) \<and> f = Live rs)
     \<or> (\<not> active_in tasks (set c) \<and> updated_since tasks cutoff (set c) \<and> (\<exists>k. f = Recent k (zip c rs)))
     \<or> (\<not> active_in tasks (set c) \<and> \<not> updated_since tasks cutoff (set c) \<and> f = Expired)"
    using f act since by (auto simp: and_then_eq_Inr map_result_Inr split: if_splits)
  show "active_in tasks (set c) \<Longrightarrow> map fst (live_items f) = c \<and> inactive_items f = []"
    and "\<not> active_in tasks (set c) \<Longrightarrow> live_items f = []"
    using cases live len by auto
  show "\<exists>k items. inactive_items f = [(k, items)] \<and> map fst items = c"
    if "\<not> active_in tasks (set c)" "updated_since tasks cutoff (set c)"
    using cases that len by auto
  show "\<not> updated_since tasks cutoff (set c) \<Longrightarrow> inactive_items f = []" using cases by auto
  show "(k, r) \<in> set (live_items f) \<union> set (concat (map snd (inactive_items f))) \<Longrightarrow> map_of tasks k = Some r"
    using cases live pairs by auto
qed

text \<open>Which components the loop keeps, read off the fates.\<close>

definition all_live :: "fate list \<Rightarrow> (string \<times> task_record) list" where
  "all_live fates = concat (map live_items fates)"

definition all_inactive :: "fate list \<Rightarrow> (string \<times> task_record) list list" where
  "all_inactive fates = map snd (sort_desc fst (concat (map inactive_items fates)))"

lemma apply_retention_Inr:
  "apply_retention tasks now = Inr kept \<longleftrightarrow>
    (\<exists>u cs fates. as_utc now = Inr u \<and> dt_in_range (instant u - RETENTION_US)
       \<and> components tasks = Inr cs
       \<and> list_all2 (\<lambda>c f. component_fate tasks (instant u - RETENTION_US) c = Inr f) cs fates
       \<and> kept = dict_update (dict_update [] (all_live fates))
                  (concat (select_inactive 0 (all_inactive fates))))"
  by (auto simp: apply_retention_def and_then_eq_Inr map_result_Inr all_live_def all_inactive_def Let_def
      split: if_splits)

definition fates_ok :: "tasks \<Rightarrow> int \<Rightarrow> string list list \<Rightarrow> fate list \<Rightarrow> bool" where
  "fates_ok tasks cutoff cs fates \<longleftrightarrow> keys_match tasks \<and> chains_partition tasks cs
     \<and> list_all2 (\<lambda>c f. component_fate tasks cutoff c = Inr f) cs fates"

abbreviation live_keys :: "tasks \<Rightarrow> string set" where
  "live_keys tasks \<equiv> {k \<in> set (dict_keys tasks). active_in tasks (chain_of tasks k)}"

abbreviation recent_keys :: "tasks \<Rightarrow> int \<Rightarrow> string set" where
  "recent_keys tasks cutoff \<equiv> {k \<in> set (dict_keys tasks). \<not> active_in tasks (chain_of tasks k)
     \<and> updated_since tasks cutoff (chain_of tasks k)}"

lemma fates_okD:
  assumes "fates_ok tasks cutoff cs fates"
  shows "c \<in> set cs \<Longrightarrow> \<exists>f \<in> set fates. component_fate tasks cutoff c = Inr f"
    and "f \<in> set fates \<Longrightarrow> \<exists>c \<in> set cs. component_fate tasks cutoff c = Inr f"
    and "c \<in> set cs \<Longrightarrow> k \<in> set c \<Longrightarrow> set c = chain_of tasks k \<and> k \<in> set (dict_keys tasks)"
    and "k \<in> set (dict_keys tasks) \<Longrightarrow> \<exists>c \<in> set cs. k \<in> set c"
    and "c \<in> set cs \<Longrightarrow> c \<noteq> []"
proof -
  have all: "list_all2 (\<lambda>c f. component_fate tasks cutoff c = Inr f) cs fates"
    and part: "chains_partition tasks cs" using assms by (auto simp: fates_ok_def)
  show "c \<in> set cs \<Longrightarrow> \<exists>f \<in> set fates. component_fate tasks cutoff c = Inr f"
    by (rule list_all2_in1 [OF all])
  show "f \<in> set fates \<Longrightarrow> \<exists>c \<in> set cs. component_fate tasks cutoff c = Inr f"
    by (rule list_all2_in2 [OF all])
  have keys: "(\<Union>c \<in> set cs. set c) = set (dict_keys tasks)"
    using part unfolding chains_partition_def set_concat by blast
  then show "k \<in> set (dict_keys tasks) \<Longrightarrow> \<exists>c \<in> set cs. k \<in> set c" by blast
  show "c \<in> set cs \<Longrightarrow> k \<in> set c \<Longrightarrow> set c = chain_of tasks k \<and> k \<in> set (dict_keys tasks)"
    using part keys unfolding chains_partition_def by blast
  show "c \<in> set cs \<Longrightarrow> c \<noteq> []" using part unfolding chains_partition_def by metis
qed

lemma all_live_keys:
  assumes ok: "fates_ok tasks cutoff cs fates"
  shows "fst ` set (all_live fates) = live_keys tasks"
proof (intro set_eqI iffI)
  have km: "keys_match tasks" using ok by (simp add: fates_ok_def)
  fix k
  {
    assume "k \<in> fst ` set (all_live fates)"
    then obtain f where f: "f \<in> set fates" "k \<in> set (map fst (live_items f))"
      by (auto simp: all_live_def)
    then obtain c where c: "c \<in> set cs" "component_fate tasks cutoff c = Inr f"
      using fates_okD(2) [OF ok] by blast
    note spec = component_fate_spec [OF c(2) fates_okD(5) [OF ok c(1)] km]
    have "active_in tasks (set c)" using spec(2) f(2) by fastforce
    with spec(1) f(2) fates_okD(3) [OF ok c(1)] show "k \<in> live_keys tasks" by auto
  next
    assume k: "k \<in> live_keys tasks"
    then obtain c f where c: "c \<in> set cs" "k \<in> set c" "f \<in> set fates" "component_fate tasks cutoff c = Inr f"
      using fates_okD(1,4) [OF ok] by blast
    note spec = component_fate_spec [OF c(4) fates_okD(5) [OF ok c(1)] km]
    have "active_in tasks (set c)" using k fates_okD(3) [OF ok c(1,2)] by simp
    then have "k \<in> fst ` set (live_items f)" using spec(1) c(2) by force
    with c(3) show "k \<in> fst ` set (all_live fates)" by (auto simp: all_live_def)
  }
qed

lemma all_inactive_keys:
  assumes ok: "fates_ok tasks cutoff cs fates"
  shows "items \<in> set (all_inactive fates) \<Longrightarrow> \<exists>c \<in> set cs. map fst items = c
           \<and> \<not> active_in tasks (set c) \<and> updated_since tasks cutoff (set c)"
    and "fst ` set (concat (all_inactive fates)) = recent_keys tasks cutoff"
proof -
  have km: "keys_match tasks" using ok by (simp add: fates_ok_def)
  have one: "\<exists>c \<in> set cs. map fst items = c
           \<and> \<not> active_in tasks (set c) \<and> updated_since tasks cutoff (set c)"
    if "items \<in> set (all_inactive fates)" for items
  proof -
    from that obtain f k where f: "f \<in> set fates" "(k, items) \<in> set (inactive_items f)"
      by (auto simp: all_inactive_def)
    then obtain c where c: "c \<in> set cs" "component_fate tasks cutoff c = Inr f"
      using fates_okD(2) [OF ok] by blast
    note spec = component_fate_spec [OF c(2) fates_okD(5) [OF ok c(1)] km]
    have "\<not> active_in tasks (set c)" "updated_since tasks cutoff (set c)"
      using spec(1,4) f(2) by fastforce+
    with spec(3) f(2) c(1) show ?thesis by auto
  qed
  then show "items \<in> set (all_inactive fates) \<Longrightarrow> \<exists>c \<in> set cs. map fst items = c
           \<and> \<not> active_in tasks (set c) \<and> updated_since tasks cutoff (set c)" .
  have "k \<in> recent_keys tasks cutoff" if "items \<in> set (all_inactive fates)" "k \<in> set (map fst items)" for k items
  proof -
    from one [OF that(1)] that(2) obtain c where "c \<in> set cs" "k \<in> set c"
      "\<not> active_in tasks (set c)" "updated_since tasks cutoff (set c)" by metis
    with fates_okD(3) [OF ok] show ?thesis by auto
  qed
  moreover have "\<exists>items \<in> set (all_inactive fates). k \<in> set (map fst items)"
    if k: "k \<in> recent_keys tasks cutoff" for k
  proof -
    from k obtain c f where c: "c \<in> set cs" "k \<in> set c" "f \<in> set fates" "component_fate tasks cutoff c = Inr f"
      using fates_okD(1,4) [OF ok] by blast
    note spec = component_fate_spec [OF c(4) fates_okD(5) [OF ok c(1)] km]
    have "set c = chain_of tasks k" using fates_okD(3) [OF ok c(1,2)] by simp
    with spec(3) k obtain key items where "inactive_items f = [(key, items)]" "map fst items = c" by auto
    with c(3) have "items \<in> set (all_inactive fates)" by (force simp: all_inactive_def)
    with \<open>map fst items = c\<close> c(2) show ?thesis by blast
  qed
  ultimately have "(\<Union>items \<in> set (all_inactive fates). set (map fst items)) = recent_keys tasks cutoff"
    by blast
  then show "fst ` set (concat (all_inactive fates)) = recent_keys tasks cutoff"
    by (simp only: set_concat set_map image_UN)
qed

lemma entries_from_store:
  assumes ok: "fates_ok tasks cutoff cs fates"
    and "(k, r) \<in> set (all_live fates) \<union> set (concat (all_inactive fates))"
  shows "map_of tasks k = Some r"
proof -
  have km: "keys_match tasks" using ok by (simp add: fates_ok_def)
  from assms(2) obtain f where f: "f \<in> set fates"
    "(k, r) \<in> set (live_items f) \<union> set (concat (map snd (inactive_items f)))"
    by (auto simp: all_live_def all_inactive_def)
  then obtain c where c: "c \<in> set cs" "component_fate tasks cutoff c = Inr f"
    using fates_okD(2) [OF ok] by blast
  show ?thesis by (rule component_fate_spec(5) [OF c(2) fates_okD(5) [OF ok c(1)] km f(2)])
qed

lemma length_concat_sort_desc:
  fixes xs :: "('a \<times> 'c list) list"
  shows "length (concat (map snd (sort_desc f xs))) = length (concat (map snd xs))"
proof -
  have "mset (sort_desc f xs) = mset xs" by (simp add: sort_desc_def)
  then have "mset (map (length \<circ> snd) (sort_desc f xs)) = mset (map (length \<circ> snd) xs)"
    by (simp only: mset_map)
  then have "sum_list (map (length \<circ> snd) (sort_desc f xs)) = sum_list (map (length \<circ> snd) xs)"
    by (metis sum_mset_sum_list)
  then show ?thesis by (simp add: length_concat)
qed

lemma all_inactive_length:
  assumes ok: "fates_ok tasks cutoff cs fates"
  shows "length (concat (all_inactive fates)) = card (recent_keys tasks cutoff)"
proof -
  define ks where "ks fs = map fst (concat (map snd (concat (map inactive_items fs))))" for fs :: "fate list"
  have km: "keys_match tasks" and part: "chains_partition tasks cs"
    and all: "list_all2 (\<lambda>c f. component_fate tasks cutoff c = Inr f) cs fates"
    using ok by (auto simp: fates_ok_def)
  have one: "inactive_items f = [] \<or> (\<exists>k items. inactive_items f = [(k, items)] \<and> map fst items = c)"
    if "c \<noteq> []" "component_fate tasks cutoff c = Inr f" for c f
    using component_fate_spec [OF that(2,1) km] by blast
  have "distinct (concat cs) \<Longrightarrow> [] \<notin> set cs \<Longrightarrow> distinct (ks fates) \<and> set (ks fates) \<subseteq> set (concat cs)"
    using all
  proof (induction cs fates rule: list_all2_induct)
    case Nil
    then show ?case by (simp add: ks_def)
  next
    case (Cons c cs f fs)
    then have "ks (f # fs) = ks fs \<or> ks (f # fs) = c @ ks fs"
      using one [of c f] by (fastforce simp: ks_def)
    moreover have "distinct (ks fs)" "set (ks fs) \<subseteq> set (concat cs)" "set c \<inter> set (concat cs) = {}"
      "distinct c" using Cons by (auto simp del: set_concat)
    ultimately show ?case by (elim disjE; simp del: set_concat; blast)
  qed
  then have "distinct (ks fates)" using part by (auto simp: chains_partition_def)
  moreover have "set (ks fates) = fst ` set (concat (all_inactive fates))"
    by (auto simp: ks_def all_inactive_def)
  moreover have "length (concat (all_inactive fates)) = length (ks fates)"
    by (simp add: ks_def all_inactive_def length_concat_sort_desc)
  ultimately show ?thesis
    using all_inactive_keys(2) [OF ok] distinct_card [of "ks fates"] by simp
qed

lemma closed_keys:
  assumes good: "graph_ok tasks" "keys_match tasks" "dict_wf tasks"
    and ok: "fates_ok tasks cutoff cs fates" and sub: "set chosen \<subseteq> set (all_inactive fates)"
  shows "link_closed tasks (live_keys tasks \<union> fst ` set (concat chosen))"
  unfolding link_closed_def
proof (intro ballI allI impI)
  fix a b assume a: "a \<in> live_keys tasks \<union> fst ` set (concat chosen)" and ab: "(a, b) \<in> linked tasks"
  have b: "b \<in> chain_of tasks a" "b \<in> set (dict_keys tasks)"
    using ab linked_dom [OF good(1) ab] by (auto simp: chain_of_def)
  have whole: "b \<in> set c \<and> chain_of tasks b = chain_of tasks a" if "c \<in> set cs" "a \<in> set c" for c
    using fates_okD(3) [OF ok that(1)] that(2) b(1) by blast
  from a show "b \<in> live_keys tasks \<union> fst ` set (concat chosen)"
  proof
    assume l: "a \<in> live_keys tasks"
    then obtain c where "c \<in> set cs" "a \<in> set c" using fates_okD(4) [OF ok] by blast
    with l show ?thesis using whole b(2) by simp
  next
    assume "a \<in> fst ` set (concat chosen)"
    then obtain items where items: "items \<in> set chosen" "a \<in> set (map fst items)" by auto
    then obtain c where "c \<in> set cs" "map fst items = c" using all_inactive_keys(1) [OF ok] sub by blast
    then have "b \<in> set (map fst items)" using whole items(2) by blast
    with items(1) show ?thesis by auto
  qed
qed

text \<open>The whole policy, on a store with a good graph.\<close>

definition keeps_exactly :: "tasks \<Rightarrow> tasks \<Rightarrow> string set \<Rightarrow> bool" where
  "keeps_exactly tasks kept K \<longleftrightarrow> dict_wf kept \<and> K \<subseteq> set (dict_keys tasks)
     \<and> (\<forall>k. map_of kept k = (if k \<in> K then map_of tasks k else None))"

lemma retention_kept:
  assumes good: "graph_ok tasks" "keys_match tasks" "dict_wf tasks"
    and "apply_retention tasks now = Inr kept" and "as_utc now = Inr u"
  shows "\<exists>R. keeps_exactly tasks kept (live_keys tasks \<union> R)
    \<and> R \<subseteq> recent_keys tasks (instant u - RETENTION_US) \<and> card R \<le> MAX_INACTIVE_TASKS
    \<and> link_closed tasks (live_keys tasks \<union> R)
    \<and> (card (recent_keys tasks (instant u - RETENTION_US)) \<le> MAX_INACTIVE_TASKS
        \<longrightarrow> R = recent_keys tasks (instant u - RETENTION_US))"
proof -
  define cutoff where "cutoff = instant u - RETENTION_US"
  obtain cs fates where ok: "fates_ok tasks cutoff cs fates"
    and kept: "kept = dict_update (dict_update [] (all_live fates))
                 (concat (select_inactive 0 (all_inactive fates)))"
    using assms(4,5) components_spec [OF good] good(2)
    by (auto simp: apply_retention_Inr cutoff_def fates_ok_def)
  define chosen where "chosen = select_inactive 0 (all_inactive fates)"
  define R where "R = fst ` set (concat chosen)"
  have sub: "set chosen \<subseteq> set (all_inactive fates)"
    by (simp add: chosen_def select_inactive_subset)
  then have sub2: "set (concat chosen) \<subseteq> set (concat (all_inactive fates))" by auto
  have R: "R \<subseteq> recent_keys tasks cutoff"
    using all_inactive_keys(2) [OF ok] sub2 unfolding R_def by blast
  have "card R \<le> length (concat chosen)"
    unfolding R_def by (metis card_length length_map list.set_map)
  also have "\<dots> \<le> MAX_INACTIVE_TASKS"
    using select_inactive_bound [of 0 "all_inactive fates"] by (simp add: chosen_def)
  finally have bound: "card R \<le> MAX_INACTIVE_TASKS" .
  have all: "R = recent_keys tasks cutoff" if "card (recent_keys tasks cutoff) \<le> MAX_INACTIVE_TASKS"
    using that all_inactive_keys(2) [OF ok] all_inactive_length [OF ok]
      select_inactive_all [of 0 "all_inactive fates"] by (simp add: R_def chosen_def)
  have mem: "map_of tasks k = Some v" if "(k, v) \<in> set (all_live fates @ concat chosen)" for k v
    using entries_from_store [OF ok, of k v] that sub2 by auto
  have "map_of kept k = (if k \<in> live_keys tasks \<union> R then map_of tasks k else None)" for k
    using map_of_dict_update_consistent [of "all_live fates @ concat chosen" "map_of tasks" "[]" k] mem
      all_live_keys [OF ok]
    by (simp add: kept dict_update_append chosen_def [symmetric] R_def image_Un)
  moreover have "dict_wf kept" by (simp add: kept)
  ultimately have "keeps_exactly tasks kept (live_keys tasks \<union> R)"
    using R by (auto simp: keeps_exactly_def)
  moreover have "link_closed tasks (live_keys tasks \<union> R)"
    using closed_keys [OF good ok sub] by (simp add: R_def)
  ultimately show ?thesis using R bound all unfolding cutoff_def by blast
qed

lemma keeps_exactly_sub:
  "keeps_exactly tasks kept K \<Longrightarrow> map_of kept k = Some r \<Longrightarrow> k \<in> K \<and> map_of tasks k = Some r"
  by (auto simp: keeps_exactly_def split: if_splits)

lemma graph_ok_cong:
  assumes "graph_ok tasks" and eq: "\<And>k. map_of kept k = map_of tasks k"
  shows "graph_ok kept"
  by (rule graph_ok_same_links [OF assms(1)]) (simp add: eq option.rel_refl)

lemma retention_graph_ok:
  assumes good: "graph_ok tasks" "keys_match tasks" "dict_wf tasks"
    and ret: "apply_retention tasks now = Inr kept"
  shows "graph_ok kept" and "dict_wf kept" and "map_of kept k = Some r \<Longrightarrow> map_of tasks k = Some r"
proof -
  obtain u where u: "as_utc now = Inr u" using ret by (auto simp: apply_retention_Inr)
  obtain K where K: "keeps_exactly tasks kept K" "link_closed tasks K"
    using retention_kept [OF good ret u] by blast
  show "dict_wf kept" using K(1) by (simp add: keeps_exactly_def)
  show "map_of kept k = Some r \<Longrightarrow> map_of tasks k = Some r" using keeps_exactly_sub [OF K(1)] by blast
  have "graph_ok (dict_restrict (\<lambda>k. k \<in> K) tasks)"
    by (rule graph_ok_restrict [OF good(1)]) (use K(2) in \<open>auto simp: link_closed_def linked_def\<close>)
  then show "graph_ok kept"
    by (rule graph_ok_cong) (use K(1) in \<open>simp add: keeps_exactly_def map_of_restrict\<close>)
qed

lemma retention_keeps_active:
  assumes good: "graph_ok tasks" "keys_match tasks" "dict_wf tasks"
    and ret: "apply_retention tasks now = Inr kept" and "map_of tasks k = Some r" and "active r"
  shows "map_of kept k = Some r"
proof -
  obtain u where u: "as_utc now = Inr u" using ret by (auto simp: apply_retention_Inr)
  obtain R where "keeps_exactly tasks kept (live_keys tasks \<union> R)"
    using retention_kept [OF good ret u] by blast
  moreover have "k \<in> live_keys tasks"
    using assms(5,6) map_of_key [OF assms(5)] by (auto simp: active_in_def chain_of_def)
  ultimately show ?thesis using assms(5) by (simp add: keeps_exactly_def)
qed

text \<open>Retention always has an answer when the clock and the timestamps are representable.\<close>

lemma retention_total:
  assumes good: "graph_ok tasks" "keys_match tasks" "dict_wf tasks"
    and "\<And>k r. map_of tasks k = Some r \<Longrightarrow> \<exists>t. updated_instant r = Inr t"
    and u: "as_utc now = Inr u" "dt_in_range (instant u - RETENTION_US)"
  shows "\<exists>kept. apply_retention tasks now = Inr kept"
proof -
  obtain cs where cs: "components tasks = Inr cs" "chains_partition tasks cs"
    using components_spec [OF good] by blast
  have "\<exists>f. component_fate tasks (instant u - RETENTION_US) c = Inr f" if c: "c \<in> set cs" for c
  proof -
    have "\<exists>r. dict_lookup tasks k (KeyError k) = Inr r" if "k \<in> set c" for k
      using that c cs(2) map_of_ex [of k tasks]
      by (fastforce simp: chains_partition_def dict_lookup_Inr)
    then obtain rs where rs: "map_result (\<lambda>k. dict_lookup tasks k (KeyError k)) c = Inr rs"
      using map_result_total by metis
    have "\<exists>t. updated_instant r = Inr t" if "r \<in> set rs" for r
      using rs list_all2_in2 [OF _ that] assms(4) by (fastforce simp: map_result_Inr dict_lookup_Inr)
    then obtain ts where "map_result updated_instant rs = Inr ts" using map_result_total by metis
    with rs show ?thesis by (simp add: component_fate_def)
  qed
  then obtain fates where "map_result (component_fate tasks (instant u - RETENTION_US)) cs = Inr fates"
    using map_result_total by metis
  with u cs(1) show ?thesis by (simp add: apply_retention_def Let_def)
qed

text \<open>
  C16. On a store with a good continuation graph the retention policy keeps tasks unchanged and
  only drops whole linked components: every active task is kept with everything linked to it,
  of the others only components updated in the last 30 days and at most 500 tasks of them, all
  of them when there are no more than 500; the graph that is left is good again.
\<close>

theorem retention_policy:
  assumes "graph_ok tasks" and "keys_match tasks" and "dict_wf tasks"
    and "apply_retention tasks now = Inr kept" and "as_utc now = Inr u"
  shows "graph_ok kept \<and> (\<exists>R. keeps_exactly tasks kept (live_keys tasks \<union> R)
    \<and> R \<subseteq> recent_keys tasks (instant u - RETENTION_US) \<and> card R \<le> MAX_INACTIVE_TASKS
    \<and> (card (recent_keys tasks (instant u - RETENTION_US)) \<le> MAX_INACTIVE_TASKS
        \<longrightarrow> R = recent_keys tasks (instant u - RETENTION_US)))"
  using retention_kept [OF assms] retention_graph_ok(1) [OF assms(1-4)] by blast

text \<open>A store with an active task, and the moment it was created.\<close>

definition example_tasks :: tasks where
  "example_tasks = [(t_task_id example_task, example_task)]"

definition example_now :: datetime where
  "example_now = \<lparr>dt_local = 63919879200000000, dt_offset = Some 0\<rparr>"

lemma example_graph_ok: "graph_ok example_tasks" "keys_match example_tasks" "dict_wf example_tasks"
proof -
  have "validate_continuation_graph example_tasks = Inr ()" by code_simp
  moreover show "dict_wf example_tasks" by (simp add: example_tasks_def)
  ultimately show "graph_ok example_tasks" by (simp add: validate_graph_iff)
  show "keys_match example_tasks" by (simp add: example_tasks_def keys_match_def)
qed

theorem retention_policy_witness:
  "graph_ok example_tasks \<and> apply_retention example_tasks example_now = Inr example_tasks"
proof -
  have r: "apply_retention example_tasks example_now = Inr example_tasks" by code_simp
  have u: "as_utc example_now = Inr example_now" by code_simp
  show ?thesis using retention_policy [OF example_graph_ok r u] r by blast
qed

end
