(* ===== verification/PyJson.thy ===== *)
theory PyJson
  imports PyTime
begin

text \<open>
  What the stores use of Python's \<open>json\<close>: the values \<open>json.loads\<close> returns and \<open>json.dumps\<close>
  takes, with \<open>sort_keys=True\<close> as the sorting of every object by its keys, and the readers both
  serialization modules apply to such values. A document on disk is represented by the value
  \<open>json.loads\<close> returns for its text, \<open>None\<close> for a text that is not JSON.
\<close>

datatype json =
    JNull
  | JBool bool
  | JInt int
  | JFloat string
  | JStr string
  | JArr "json list"
  | JObj "(string \<times> json) list"

definition sorted_dict :: "(string, 'v) pydict \<Rightarrow> (string, 'v) pydict" where
  "sorted_dict d = sort_key fst d"

abbreviation json_dict :: "(string \<times> json) list \<Rightarrow> json" where
  "json_dict kvs \<equiv> JObj (sorted_dict kvs)"

lemma set_sorted_dict [simp]: "set (sorted_dict d) = set d"
  by (simp add: sorted_dict_def)

lemma dict_wf_sorted [simp]: "dict_wf (sorted_dict d) = dict_wf d"
  by (simp add: sorted_dict_def distinct_map)

lemma map_of_sorted [simp]: "dict_wf d \<Longrightarrow> map_of (sorted_dict d) = map_of d"
proof (rule ext)
  fix k assume "dict_wf d"
  then have "map_of (sorted_dict d) k = Some v \<longleftrightarrow> map_of d k = Some v" for v
    by (simp flip: dict_mem_iff)
  then show "map_of (sorted_dict d) k = map_of d k" by (metis not_None_eq)
qed

section \<open>Readers\<close>

definition json_object :: "json \<Rightarrow> string \<Rightarrow> (string \<times> json) list result" where
  "json_object v name = (case v of JObj kvs \<Rightarrow> Inr kvs
    | _ \<Rightarrow> Inl (ValueError (name @ '' must be an object'')))"

definition json_integer :: "json \<Rightarrow> string \<Rightarrow> int result" where
  "json_integer v name = (case v of JInt i \<Rightarrow> Inr i
    | _ \<Rightarrow> Inl (ValueError (name @ '' must be an integer'')))"

definition json_string :: "json \<Rightarrow> string \<Rightarrow> string result" where
  "json_string v name = (case v of JStr s \<Rightarrow> Inr s
    | _ \<Rightarrow> Inl (ValueError (name @ '' must be a string'')))"

definition json_optional :: "(json \<Rightarrow> string \<Rightarrow> 'a result) \<Rightarrow> json \<Rightarrow> string \<Rightarrow> 'a option result" where
  "json_optional reader v name =
    (if v = JNull then Inr None else map_sum id Some (reader v name))"

text \<open>\<open>data[name]\<close> handed to a reader under the same name.\<close>

definition json_field :: "(string \<times> json) list \<Rightarrow> (json \<Rightarrow> string \<Rightarrow> 'a result) \<Rightarrow> string \<Rightarrow> 'a result" where
  "json_field data reader name =
    and_then (dict_lookup data name (KeyError name)) (\<lambda>v. reader v name)"

text \<open>An enumeration read from its value: \<open>DiscordTaskState("running")\<close>.\<close>

definition json_enum :: "('e \<times> string) list \<Rightarrow> json \<Rightarrow> string \<Rightarrow> 'e result" where
  "json_enum table v name =
    and_then (json_string v name) (\<lambda>s.
      case List.find (\<lambda>(e, t). t = s) table of
        Some (e, _) \<Rightarrow> Inr e
      | None \<Rightarrow> Inl (ValueError (s @ '' is not a valid value'')))"

definition opt_json :: "('a \<Rightarrow> json) \<Rightarrow> 'a option \<Rightarrow> json" where
  "opt_json f v = (case v of None \<Rightarrow> JNull | Some x \<Rightarrow> f x)"

lemma json_readers [simp]:
  "json_object (JObj kvs) name = Inr kvs"
  "json_integer (JInt i) name = Inr i"
  "json_string (JStr s) name = Inr s"
  by (simp_all add: json_object_def json_integer_def json_string_def)

lemma json_optional_opt [simp]:
  assumes "\<And>x. x \<in> set_option v \<Longrightarrow> reader (f x) name = Inr x" and "\<And>x. f x \<noteq> JNull"
  shows "json_optional reader (opt_json f v) name = Inr v"
  using assms by (cases v) (auto simp: json_optional_def opt_json_def)

lemma json_field_Some: "map_of data name = Some v \<Longrightarrow> json_field data reader name = reader v name"
  by (simp add: json_field_def dict_lookup_def)

text \<open>\<open>member.value\<close>, by the table of the enumeration.\<close>

definition enum_json :: "('e \<times> string) list \<Rightarrow> 'e \<Rightarrow> json" where
  "enum_json table e = JStr (case map_of table e of Some s \<Rightarrow> s | None \<Rightarrow> [])"

definition enum_ok :: "('e \<times> string) list \<Rightarrow> bool" where
  "enum_ok table \<longleftrightarrow> distinct (map fst table) \<and> distinct (map snd table)"

lemma find_value:
  "distinct (map snd table) \<Longrightarrow> (e, s) \<in> set table \<Longrightarrow> List.find (\<lambda>(e, t). t = s) table = Some (e, s)"
  by (induction table) (auto simp: image_iff)

lemma json_enum_roundtrip:
  assumes "enum_ok table" and "e \<in> fst ` set table"
  shows "json_enum table (enum_json table e) name = Inr e"
proof -
  obtain s where s: "map_of table e = Some s" using assms(2) by (metis map_of_ex)
  then have "(e, s) \<in> set table" by (rule map_of_SomeD)
  with assms(1) s find_value [of table e s] show ?thesis
    by (simp add: enum_ok_def json_enum_def enum_json_def)
qed

lemma sorted_dict_map: "sorted_dict (map (\<lambda>(k, v). (k, f v)) d) = map (\<lambda>(k, v). (k, f v)) (sorted_dict d)"
proof -
  have ins: "insort_key fst ((k, f v)) (map (\<lambda>(k, v). (k, f v)) d)
      = map (\<lambda>(k, v). (k, f v)) (insort_key fst (k, v) d)" for k v d
    by (induction d) auto
  show ?thesis by (induction d) (auto simp: sorted_dict_def ins)
qed

end
