(* ===== verification/TaskSerialization.thy ===== *)
theory TaskSerialization
  imports TaskPolicy PyJson
begin

text \<open>
  \<open>discord_task_serialization.py\<close>: the document the task store writes and reads, in schema
  version 2, and the upgrade of version 1 documents. The round trip: what is written is read
  back as the same records, in the order of the sorted keys.
\<close>

section \<open>Encoding\<close>

definition state_values :: "(task_state \<times> string) list" where
  "state_values =
    [(STARTING, ''starting''), (RECOVERING, ''recovering''), (RUNNING, ''running''),
     (STOPPING, ''stopping''), (DELIVERING, ''delivering''), (COMPLETED, ''completed''),
     (DELIVERY_FAILED, ''delivery_failed''), (FAILED, ''failed''), (TIMED_OUT, ''timed_out''),
     (STOPPED, ''stopped''), (INTERRUPTED, ''interrupted'')]"

definition source_kind_values :: "(source_kind \<times> string) list" where
  "source_kind_values =
    [(MENTION, ''mention''), (SLASH, ''slash''), (CONTEXT_ACTION, ''context_action''),
     (CONTINUATION, ''continuation'')]"

definition intent_values :: "(intent \<times> string) list" where
  "intent_values =
    [(GENERAL, ''general''), (REVIEW, ''review''), (SECURITY_REVIEW, ''security_review''),
     (VULNERABILITY_SCAN, ''vulnerability_scan''), (IMPLEMENTATION, ''implementation'')]"

definition cause_values :: "(interruption_cause \<times> string) list" where
  "cause_values =
    [(USER_STOP, ''user_stop''), (CAUSE_TIMEOUT, ''timeout''), (RUNTIME_EXIT, ''runtime_exit''),
     (GATEWAY_RESTART, ''gateway_restart'')]"

definition category_values :: "(failure_category \<times> string) list" where
  "category_values =
    [(CAT_TIMEOUT, ''timeout''), (RUNTIME_DISCONNECTED, ''runtime_disconnected''),
     (AGENT_PROCESS_FAILED, ''agent_process_failed''),
     (INVALID_AGENT_OUTPUT, ''invalid_agent_output''),
     (RUNTIME_INCOMPATIBLE, ''runtime_incompatible''), (CONFIGURATION, ''configuration''),
     (WORKSPACE_OR_ATTACHMENT, ''workspace_or_attachment''),
     (DISCORD_DELIVERY, ''discord_delivery''), (INTERNAL, ''internal'')]"

definition retry_mode_values :: "(retry_mode \<times> string) list" where
  "retry_mode_values =
    [(CONTINUE_SESSION, ''continue_session''), (RETRY_DELIVERY, ''retry_delivery''),
     (NO_RETRY, ''none'')]"

definition SCHEMA_VERSION :: int where "SCHEMA_VERSION = 2"

definition V1_RECORD_KEYS :: "string list" where
  "V1_RECORD_KEYS =
    [''task_id'', ''revision'', ''owner_id'', ''guild_id'', ''origin_channel_id'',
     ''execution_channel_id'', ''trigger_event_id'', ''source_message_id'', ''card_message_id'',
     ''result_message_id'', ''source_kind'', ''source_label'', ''created_at'', ''updated_at'',
     ''attempt'', ''state'', ''failure'', ''interruption_cause'', ''continued_from_task_id'',
     ''continued_to_task_id'']"

definition RECORD_KEYS :: "string list" where
  "RECORD_KEYS = V1_RECORD_KEYS @ [''intent'', ''source_reference_id'', ''repository_commit_sha'']"

definition FAILURE_KEYS :: "string list" where
  "FAILURE_KEYS = [''category'', ''summary'', ''retry_mode'']"

definition encode_failure :: "task_failure \<Rightarrow> json" where
  "encode_failure f = json_dict
    [(''category'', enum_json category_values (f_category f)),
     (''summary'', JStr (f_summary f)),
     (''retry_mode'', enum_json retry_mode_values (f_retry_mode f))]"

definition record_items :: "task_record \<Rightarrow> (string \<times> json) list" where
  "record_items r =
    [(''task_id'', JStr (t_task_id r)),
     (''revision'', JInt (t_revision r)),
     (''owner_id'', JInt (t_owner_id r)),
     (''guild_id'', JInt (t_guild_id r)),
     (''origin_channel_id'', JInt (t_origin_channel_id r)),
     (''execution_channel_id'', JInt (t_execution_channel_id r)),
     (''trigger_event_id'', JInt (t_trigger_event_id r)),
     (''source_message_id'', opt_json JInt (t_source_message_id r)),
     (''card_message_id'', opt_json JInt (t_card_message_id r)),
     (''result_message_id'', opt_json JInt (t_result_message_id r)),
     (''source_kind'', enum_json source_kind_values (t_source_kind r)),
     (''source_label'', JStr (t_source_label r)),
     (''created_at'', JStr (t_created_at r)),
     (''updated_at'', JStr (t_updated_at r)),
     (''attempt'', JInt (t_attempt r)),
     (''state'', enum_json state_values (t_state r)),
     (''failure'', opt_json encode_failure (t_failure r)),
     (''interruption_cause'', opt_json (enum_json cause_values) (t_interruption_cause r)),
     (''continued_from_task_id'', opt_json JStr (t_continued_from r)),
     (''continued_to_task_id'', opt_json JStr (t_continued_to r)),
     (''intent'', enum_json intent_values (t_intent r)),
     (''source_reference_id'', opt_json JStr (t_source_reference_id r)),
     (''repository_commit_sha'', opt_json JStr (t_repository_commit_sha r))]"

definition encode_record :: "task_record \<Rightarrow> json" where
  "encode_record r = json_dict (record_items r)"

definition encode_document :: "tasks \<Rightarrow> json" where
  "encode_document tasks = json_dict
    [(''version'', JInt SCHEMA_VERSION),
     (''tasks'', json_dict (map (\<lambda>(k, r). (k, encode_record r)) tasks))]"

section \<open>Decoding\<close>

definition decode_failure :: "json \<Rightarrow> string \<Rightarrow> task_failure result" where
  "decode_failure payload name =
    and_then (json_object payload ''failure'') (\<lambda>data.
      if set (dict_keys data) \<noteq> set FAILURE_KEYS
      then Inl (ValueError ''failure keys do not match schema'')
      else
        and_then (json_field data (json_enum category_values) ''category'') (\<lambda>c.
        and_then (json_field data json_string ''summary'') (\<lambda>s.
        and_then (json_field data (json_enum retry_mode_values) ''retry_mode'') (\<lambda>m.
        make_failure c s m))))"

definition decode_timestamp :: "json \<Rightarrow> string \<Rightarrow> string result" where
  "decode_timestamp v name =
    and_then (json_string v name) (\<lambda>s.
      case fromisoformat s of
        None \<Rightarrow> Inl (ValueError ''Invalid isoformat string'')
      | Some t \<Rightarrow>
          if dt_offset t = None then Inl (ValueError (name @ '' must have a timezone''))
          else and_then (as_utc t) (\<lambda>_. Inr s))"

text \<open>The fields schema version 1 did not have.\<close>

definition decode_v2_fields ::
    "(string \<times> json) list \<Rightarrow> int \<Rightarrow> (intent \<times> string option \<times> string option) result" where
  "decode_v2_fields data version =
    (if version = 1 then Inr (GENERAL, None, None)
     else
       and_then (json_field data (json_enum intent_values) ''intent'') (\<lambda>i.
       and_then (json_field data (json_optional json_string) ''source_reference_id'') (\<lambda>ref.
       and_then (json_field data (json_optional json_string) ''repository_commit_sha'') (\<lambda>sha.
       Inr (i, ref, sha)))))"

definition decode_record :: "json \<Rightarrow> int \<Rightarrow> task_record result" where
  "decode_record payload version =
    and_then (json_object payload ''task'') (\<lambda>data.
    if set (dict_keys data) \<noteq> set (if version = 1 then V1_RECORD_KEYS else RECORD_KEYS)
    then Inl (ValueError ''task keys do not match schema'')
    else
    and_then (json_field data (json_optional decode_failure) ''failure'') (\<lambda>failure.
    and_then (json_field data json_string ''task_id'') (\<lambda>task_id.
    and_then (json_field data json_integer ''revision'') (\<lambda>revision.
    and_then (json_field data json_integer ''owner_id'') (\<lambda>owner_id.
    and_then (json_field data json_integer ''guild_id'') (\<lambda>guild_id.
    and_then (json_field data json_integer ''origin_channel_id'') (\<lambda>origin.
    and_then (json_field data json_integer ''execution_channel_id'') (\<lambda>execution.
    and_then (json_field data json_integer ''trigger_event_id'') (\<lambda>trigger.
    and_then (json_field data (json_optional json_integer) ''source_message_id'') (\<lambda>source_message.
    and_then (json_field data (json_optional json_integer) ''card_message_id'') (\<lambda>card.
    and_then (json_field data (json_optional json_integer) ''result_message_id'') (\<lambda>res.
    and_then (json_field data (json_enum source_kind_values) ''source_kind'') (\<lambda>source_kind.
    and_then (json_field data json_string ''source_label'') (\<lambda>label.
    and_then (json_field data decode_timestamp ''created_at'') (\<lambda>created_at.
    and_then (json_field data decode_timestamp ''updated_at'') (\<lambda>updated_at.
    and_then (json_field data json_integer ''attempt'') (\<lambda>attempt.
    and_then (json_field data (json_enum state_values) ''state'') (\<lambda>state.
    and_then (json_field data (json_optional (json_enum cause_values)) ''interruption_cause'') (\<lambda>cause.
    and_then (json_field data (json_optional json_string) ''continued_from_task_id'') (\<lambda>parent.
    and_then (json_field data (json_optional json_string) ''continued_to_task_id'') (\<lambda>child.
    and_then (decode_v2_fields data version) (\<lambda>(i, ref, sha).
    make_task_record
      \<lparr>t_task_id = task_id, t_revision = revision, t_owner_id = owner_id, t_guild_id = guild_id,
       t_origin_channel_id = origin, t_execution_channel_id = execution,
       t_trigger_event_id = trigger, t_source_message_id = source_message,
       t_card_message_id = card, t_result_message_id = res, t_source_kind = source_kind,
       t_source_label = label, t_created_at = created_at, t_updated_at = updated_at,
       t_attempt = attempt, t_state = state, t_failure = failure, t_interruption_cause = cause,
       t_continued_from = parent, t_continued_to = child, t_intent = i,
       t_source_reference_id = ref, t_repository_commit_sha = sha\<rparr>))))))))))))))))))))))"

fun decode_tasks :: "int \<Rightarrow> (string \<times> json) list \<Rightarrow> tasks \<Rightarrow> tasks result" where
  "decode_tasks version [] result = Inr result"
| "decode_tasks version ((task_id, raw) # items) result =
    and_then (decode_record raw version) (\<lambda>r.
      if t_task_id r \<noteq> task_id then Inl (ValueError ''task key does not match task id'')
      else decode_tasks version items (AList.update task_id r result))"

definition decode_document :: "json option \<Rightarrow> tasks result" where
  "decode_document serialized = (case serialized of
      None \<Rightarrow> Inl (ValueError ''document is not JSON'')
    | Some payload \<Rightarrow>
        and_then (json_object payload ''document'') (\<lambda>document.
        if set (dict_keys document) \<noteq> {''version'', ''tasks''}
        then Inl (ValueError ''unsupported document'')
        else
          and_then (json_field document json_integer ''version'') (\<lambda>version.
          if version \<notin> {1, SCHEMA_VERSION} then Inl (ValueError ''unsupported document'')
          else
            and_then (json_field document json_object ''tasks'') (\<lambda>tasks.
            decode_tasks version tasks []))))"

section \<open>Round trip\<close>

lemma enum_tables_ok:
  "enum_ok state_values" "enum_ok source_kind_values" "enum_ok intent_values"
  "enum_ok cause_values" "enum_ok category_values" "enum_ok retry_mode_values"
  by code_simp+

lemma enum_tables_complete:
  "st \<in> fst ` set state_values" "sk \<in> fst ` set source_kind_values" "i \<in> fst ` set intent_values"
  "c \<in> fst ` set cause_values" "fc \<in> fst ` set category_values" "rm \<in> fst ` set retry_mode_values"
proof -
  show "st \<in> fst ` set state_values" by (cases st; simp add: state_values_def)
  show "sk \<in> fst ` set source_kind_values" by (cases sk; simp add: source_kind_values_def)
  show "i \<in> fst ` set intent_values" by (cases i; simp add: intent_values_def)
  show "c \<in> fst ` set cause_values" by (cases c; simp add: cause_values_def)
  show "fc \<in> fst ` set category_values" by (cases fc; simp add: category_values_def)
  show "rm \<in> fst ` set retry_mode_values" by (cases rm; simp add: retry_mode_values_def)
qed

lemmas enum_roundtrips [simp] =
  json_enum_roundtrip [OF enum_tables_ok(1) enum_tables_complete(1)]
  json_enum_roundtrip [OF enum_tables_ok(2) enum_tables_complete(2)]
  json_enum_roundtrip [OF enum_tables_ok(3) enum_tables_complete(3)]
  json_enum_roundtrip [OF enum_tables_ok(4) enum_tables_complete(4)]
  json_enum_roundtrip [OF enum_tables_ok(5) enum_tables_complete(5)]
  json_enum_roundtrip [OF enum_tables_ok(6) enum_tables_complete(6)]

text \<open>A timestamp the decoder accepts: aware, and convertible to UTC.\<close>

definition utc_text :: "string \<Rightarrow> bool" where
  "utc_text s \<longleftrightarrow> (case fromisoformat s of None \<Rightarrow> False
     | Some t \<Rightarrow> dt_offset t \<noteq> None \<and> \<not> isl (as_utc t))"

definition storable :: "task_record \<Rightarrow> bool" where
  "storable r \<longleftrightarrow> valid_task r \<and> utc_text (t_created_at r) \<and> utc_text (t_updated_at r)"

lemma decode_timestamp_Inr:
  "decode_timestamp (JStr s) name = Inr s' \<longleftrightarrow> s' = s \<and> utc_text s"
proof (cases "fromisoformat s")
  case (Some t)
  then show ?thesis by (cases "as_utc t") (auto simp: decode_timestamp_def utc_text_def)
qed (simp add: decode_timestamp_def utc_text_def)

lemma enum_json_not_null [simp]: "enum_json table e \<noteq> JNull" "encode_failure f \<noteq> JNull"
  by (simp_all add: enum_json_def encode_failure_def)

lemma decode_failure_encode:
  assumes "valid_failure f"
  shows "decode_failure (encode_failure f) name = Inr f"
proof -
  let ?d = "sorted_dict [(''category'', enum_json category_values (f_category f)),
     (''summary'', JStr (f_summary f)), (''retry_mode'', enum_json retry_mode_values (f_retry_mode f))]"
  have "map_of ?d ''category'' = Some (enum_json category_values (f_category f))"
    "map_of ?d ''summary'' = Some (JStr (f_summary f))"
    "map_of ?d ''retry_mode'' = Some (enum_json retry_mode_values (f_retry_mode f))" by simp_all
  then show ?thesis using assms
    by (simp add: decode_failure_def encode_failure_def json_field_Some make_failure_def valid_failure_def
        FAILURE_KEYS_def)
qed

lemma record_items_keys: "dict_keys (record_items r) = RECORD_KEYS"
  by (simp add: record_items_def RECORD_KEYS_def V1_RECORD_KEYS_def)

lemma record_items_wf: "dict_wf (record_items r)"
  unfolding record_items_keys by code_simp

lemma task_record_eta:
  "\<lparr>t_task_id = t_task_id r, t_revision = t_revision r, t_owner_id = t_owner_id r,
    t_guild_id = t_guild_id r, t_origin_channel_id = t_origin_channel_id r,
    t_execution_channel_id = t_execution_channel_id r, t_trigger_event_id = t_trigger_event_id r,
    t_source_message_id = t_source_message_id r, t_card_message_id = t_card_message_id r,
    t_result_message_id = t_result_message_id r, t_source_kind = t_source_kind r,
    t_source_label = t_source_label r, t_created_at = t_created_at r,
    t_updated_at = t_updated_at r, t_attempt = t_attempt r, t_state = t_state r,
    t_failure = t_failure r, t_interruption_cause = t_interruption_cause r,
    t_continued_from = t_continued_from r, t_continued_to = t_continued_to r,
    t_intent = t_intent r, t_source_reference_id = t_source_reference_id r,
    t_repository_commit_sha = t_repository_commit_sha r\<rparr> = r"
  by simp

lemma record_lookups [simp]:
  "map_of (sorted_dict (record_items r)) ''task_id'' = Some (JStr (t_task_id r))"
  "map_of (sorted_dict (record_items r)) ''revision'' = Some (JInt (t_revision r))"
  "map_of (sorted_dict (record_items r)) ''owner_id'' = Some (JInt (t_owner_id r))"
  "map_of (sorted_dict (record_items r)) ''guild_id'' = Some (JInt (t_guild_id r))"
  "map_of (sorted_dict (record_items r)) ''origin_channel_id'' = Some (JInt (t_origin_channel_id r))"
  "map_of (sorted_dict (record_items r)) ''execution_channel_id'' = Some (JInt (t_execution_channel_id r))"
  "map_of (sorted_dict (record_items r)) ''trigger_event_id'' = Some (JInt (t_trigger_event_id r))"
  "map_of (sorted_dict (record_items r)) ''source_message_id'' = Some (opt_json JInt (t_source_message_id r))"
  "map_of (sorted_dict (record_items r)) ''card_message_id'' = Some (opt_json JInt (t_card_message_id r))"
  "map_of (sorted_dict (record_items r)) ''result_message_id'' = Some (opt_json JInt (t_result_message_id r))"
  "map_of (sorted_dict (record_items r)) ''source_kind'' = Some (enum_json source_kind_values (t_source_kind r))"
  "map_of (sorted_dict (record_items r)) ''source_label'' = Some (JStr (t_source_label r))"
  "map_of (sorted_dict (record_items r)) ''created_at'' = Some (JStr (t_created_at r))"
  "map_of (sorted_dict (record_items r)) ''updated_at'' = Some (JStr (t_updated_at r))"
  "map_of (sorted_dict (record_items r)) ''attempt'' = Some (JInt (t_attempt r))"
  "map_of (sorted_dict (record_items r)) ''state'' = Some (enum_json state_values (t_state r))"
  "map_of (sorted_dict (record_items r)) ''failure'' = Some (opt_json encode_failure (t_failure r))"
  "map_of (sorted_dict (record_items r)) ''interruption_cause''
     = Some (opt_json (enum_json cause_values) (t_interruption_cause r))"
  "map_of (sorted_dict (record_items r)) ''continued_from_task_id'' = Some (opt_json JStr (t_continued_from r))"
  "map_of (sorted_dict (record_items r)) ''continued_to_task_id'' = Some (opt_json JStr (t_continued_to r))"
  "map_of (sorted_dict (record_items r)) ''intent'' = Some (enum_json intent_values (t_intent r))"
  "map_of (sorted_dict (record_items r)) ''source_reference_id'' = Some (opt_json JStr (t_source_reference_id r))"
  "map_of (sorted_dict (record_items r)) ''repository_commit_sha''
     = Some (opt_json JStr (t_repository_commit_sha r))"
  unfolding map_of_sorted [OF record_items_wf] by (simp_all add: record_items_def)

lemma decode_encode_record:
  assumes "storable r"
  shows "decode_record (encode_record r) 2 = Inr r"
proof -
  have f: "json_optional decode_failure (opt_json encode_failure (t_failure r)) ''failure'' = Inr (t_failure r)"
    using assms by (intro json_optional_opt) (auto simp: storable_def valid_task_def decode_failure_encode)
  have t: "decode_timestamp (JStr (t_created_at r)) ''created_at'' = Inr (t_created_at r)"
    "decode_timestamp (JStr (t_updated_at r)) ''updated_at'' = Inr (t_updated_at r)"
    using assms by (simp_all add: decode_timestamp_Inr storable_def)
  have k: "fst ` set (record_items r) = set RECORD_KEYS"
    by (metis record_items_keys list.set_map)
  have v: "make_task_record r = Inr r"
    using assms by (simp add: make_task_record_Inr storable_def valid_task_iff)
  have "decode_v2_fields (sorted_dict (record_items r)) 2
      = Inr (t_intent r, t_source_reference_id r, t_repository_commit_sha r)"
    by (simp add: decode_v2_fields_def json_field_Some)
  then show ?thesis
    unfolding decode_record_def encode_record_def
    by (simp add: json_field_Some f t k v task_record_eta)
qed

lemma decode_tasks_encode:
  assumes "\<forall>(k, r) \<in> set kvs. t_task_id r = k \<and> storable r" and "dict_wf (acc @ kvs)"
  shows "decode_tasks 2 (map (\<lambda>(k, r). (k, encode_record r)) kvs) acc = Inr (acc @ kvs)"
  using assms
proof (induction kvs arbitrary: acc)
  case Nil
  then show ?case by simp
next
  case (Cons kr kvs)
  obtain k r where kr: "kr = (k, r)" by fastforce
  have "t_task_id r = k" "storable r" using Cons.prems(1) kr by auto
  moreover have "AList.update k r acc = acc @ [(k, r)]"
    using Cons.prems(2) kr by (auto intro: update_new)
  moreover have "decode_tasks 2 (map (\<lambda>(k, r). (k, encode_record r)) kvs) (acc @ [(k, r)])
      = Inr ((acc @ [(k, r)]) @ kvs)"
    by (rule Cons.IH) (use Cons.prems kr in auto)
  ultimately show ?case by (simp add: kr decode_encode_record)
qed

lemma document_roundtrip:
  assumes "dict_wf tasks" and "\<forall>(k, r) \<in> set tasks. t_task_id r = k \<and> storable r"
  shows "decode_document (Some (encode_document tasks)) = Inr (sorted_dict tasks)"
proof -
  let ?items = "sorted_dict (map (\<lambda>(k, r). (k, encode_record r)) tasks)"
  let ?doc = "sorted_dict [(''version'', JInt SCHEMA_VERSION), (''tasks'', JObj ?items)]"
  have "map_of ?doc ''version'' = Some (JInt SCHEMA_VERSION)" "map_of ?doc ''tasks'' = Some (JObj ?items)"
    by simp_all
  moreover have "decode_tasks 2 ?items [] = Inr (sorted_dict tasks)"
    unfolding sorted_dict_map
    by (subst decode_tasks_encode) (use assms in auto)
  ultimately show ?thesis
    by (simp add: decode_document_def encode_document_def json_field_Some SCHEMA_VERSION_def
        insert_commute)
qed

text \<open>
  C22. What the task store writes it reads back: decoding the encoded document returns the same
  records under the same keys, sorted by key, for every store whose records their constructor
  accepts and whose timestamps convert to UTC.
\<close>

theorem task_document_roundtrip:
  assumes "dict_wf tasks" and "\<forall>(k, r) \<in> set tasks. t_task_id r = k \<and> storable r"
  shows "decode_document (Some (encode_document tasks)) = Inr (sorted_dict tasks)"
  using document_roundtrip [OF assms] .

theorem task_document_roundtrip_witness:
  "decode_document (Some (encode_document [(t_task_id example_task, example_task)]))
     = Inr [(t_task_id example_task, example_task)]"
proof -
  have "storable example_task" by code_simp
  then show ?thesis
    using task_document_roundtrip [of "[(t_task_id example_task, example_task)]"]
    by (simp add: sorted_dict_def)
qed

lemma decode_timestamp_utc: "decode_timestamp v name = Inr s \<Longrightarrow> utc_text s"
proof (cases v)
  case (JStr x)
  then show "decode_timestamp v name = Inr s \<Longrightarrow> utc_text s" by (simp add: decode_timestamp_Inr)
qed (simp_all add: decode_timestamp_def json_string_def)

lemma decode_failure_valid: "decode_failure v name = Inr f \<Longrightarrow> valid_failure f"
proof -
  assume "decode_failure v name = Inr f"
  then obtain c t m where "make_failure c t m = Inr f"
    by (auto simp: decode_failure_def and_then_eq_Inr split: if_splits)
  then show "valid_failure f" by (auto simp: make_failure_def valid_failure_def split: if_splits)
qed

lemma json_field_Inr: "json_field data reader name = Inr x \<Longrightarrow> \<exists>v. reader v name = Inr x"
  by (auto simp: json_field_def and_then_eq_Inr)

lemma json_optional_Inr: "json_optional reader v name = Inr (Some x) \<Longrightarrow> reader v name = Inr x"
  by (cases "reader v name") (auto simp: json_optional_def split: if_splits)

lemma decode_record_storable:
  assumes "decode_record j v = Inr r"
  shows "storable r"
proof -
  from assms obtain data failure c u where
    r: "make_task_record r = Inr r" "t_failure r = failure" "t_created_at r = c" "t_updated_at r = u"
    and d: "json_field data (json_optional decode_failure) ''failure'' = Inr failure"
      "json_field data decode_timestamp ''created_at'' = Inr c"
      "json_field data decode_timestamp ''updated_at'' = Inr u"
    by (auto simp: decode_record_def and_then_eq_Inr make_task_record_Inr split: if_splits)
  have "valid_failure f" if "failure = Some f" for f
    using d(1) that json_field_Inr json_optional_Inr decode_failure_valid by metis
  with r have "valid_task r" by (auto simp: make_task_record_Inr valid_task_iff)
  with r(3,4) d(2,3) show ?thesis
    using json_field_Inr decode_timestamp_utc unfolding storable_def by metis
qed

lemma decode_tasks_storable:
  assumes "decode_tasks v items acc = Inr tasks"
    and "\<forall>(k, r) \<in> set acc. t_task_id r = k \<and> storable r" and "dict_wf acc"
  shows "dict_wf tasks \<and> (\<forall>(k, r) \<in> set tasks. t_task_id r = k \<and> storable r)"
  using assms
proof (induction v items acc rule: decode_tasks.induct)
  case (1 version result)
  then show ?case by simp
next
  case (2 version task_id raw items result)
  from 2(2) obtain r where r: "decode_record raw version = Inr r" "t_task_id r = task_id"
    "decode_tasks version items (AList.update task_id r result) = Inr tasks"
    by (auto simp: and_then_eq_Inr split: if_splits)
  have "\<forall>(k, q) \<in> set (AList.update task_id r result). t_task_id q = k \<and> storable q"
    using 2(3,4) r(2) decode_record_storable [OF r(1)] by (auto simp: set_update_mem split: if_splits)
  with 2(1) [of r] r 2(4) show ?case by simp
qed

lemma decode_document_storable:
  assumes "decode_document doc = Inr tasks"
  shows "dict_wf tasks \<and> (\<forall>(k, r) \<in> set tasks. t_task_id r = k \<and> storable r)"
proof -
  obtain v items where "decode_tasks v items [] = Inr tasks"
    using assms by (auto simp: decode_document_def and_then_eq_Inr split: option.splits if_splits)
  then show ?thesis using decode_tasks_storable [of v items "[]" tasks] by simp
qed

text \<open>
  C29. Everything the decoder accepts is a well-formed store: distinct keys, every record under
  its own identifier and accepted by the record's constructor, with convertible timestamps; so
  what a start-up loads can always be written back and read again.
\<close>

theorem decoded_document_storable:
  assumes "decode_document doc = Inr tasks"
  shows "dict_wf tasks \<and> (\<forall>(k, r) \<in> set tasks. t_task_id r = k \<and> storable r)
     \<and> decode_document (Some (encode_document tasks)) = Inr (sorted_dict tasks)"
  using decode_document_storable [OF assms] document_roundtrip by blast

text \<open>A version 1 document: the fields version 2 added are filled in.\<close>

definition v1_document :: json where
  "v1_document = JObj [(''version'', JInt 1), (''tasks'', JObj
     [(t_task_id example_task,
       JObj (filter (\<lambda>(k, _). k \<in> set V1_RECORD_KEYS) (record_items example_task)))])]"

theorem decoded_document_storable_witness:
  "decode_document (Some v1_document) = Inr [(t_task_id example_task, example_task)]
   \<and> storable example_task"
proof -
  have d: "decode_document (Some v1_document) = Inr [(t_task_id example_task, example_task)]"
    by code_simp
  show ?thesis using decoded_document_storable [OF d] d by simp
qed

end
