(* ===== verification/Persistence.thy ===== *)
theory Persistence
  imports PyJson
begin

text \<open>
  \<open>discord_task_persistence.py\<close>: the replacement of a store's document with its failure points,
  used by the task store and by the mirror store. A directory holds the document and, while one
  is written, the temporary file.
\<close>

section \<open>Writing the document\<close>

text \<open>The system calls of \<open>write_document\<close> that can raise \<open>OSError\<close>.\<close>

datatype io_step = MKDIR | MKSTEMP | FCHMOD | WRITE | FSYNC | REPLACE | UNLINK_TEMPORARY | SYNC_DIRECTORY

text \<open>The document file (\<open>None\<close> when there is none) and the temporary file of a write in progress.\<close>

record store_directory =
  sd_document :: "json option option"
  sd_temporary :: "json option option"

definition discard_temporary :: "io_step list \<Rightarrow> store_directory \<Rightarrow> store_directory" where
  "discard_temporary faults d =
    (if UNLINK_TEMPORARY \<in> set faults then d else d\<lparr>sd_temporary := None\<rparr>)"

text \<open>The flushing of the directory entry, after the file has been replaced.\<close>

definition confirm_document_durability :: "io_step list \<Rightarrow> unit result" where
  "confirm_document_durability faults =
    guarded (SYNC_DIRECTORY \<notin> set faults) TaskStoreDurabilityError"

definition write_document ::
    "io_step list \<Rightarrow> store_directory \<Rightarrow> json \<Rightarrow> unit result \<times> store_directory" where
  "write_document faults d document =
    (if MKDIR \<in> set faults \<or> MKSTEMP \<in> set faults then (Inl OSError, d)
     else
       let opened = d\<lparr>sd_temporary := Some None\<rparr> in
       if FCHMOD \<in> set faults then (Inl OSError, discard_temporary faults opened)
       else if WRITE \<in> set faults then (Inl OSError, discard_temporary faults opened)
       else
         let written = d\<lparr>sd_temporary := Some (Some document)\<rparr> in
         if FSYNC \<in> set faults then (Inl OSError, discard_temporary faults written)
         else if REPLACE \<in> set faults then (Inl OSError, discard_temporary faults written)
         else (confirm_document_durability faults, \<lparr>sd_document = Some (Some document), sd_temporary = None\<rparr>))"

lemma write_document_cases:
  assumes "write_document faults d doc = (res, d')"
  shows "(res = Inl OSError \<and> sd_document d' = sd_document d)
     \<or> ((res = Inr () \<or> res = Inl TaskStoreDurabilityError) \<and> sd_document d' = Some (Some doc))"
  using assms
  by (auto simp: write_document_def Let_def discard_temporary_def confirm_document_durability_def
      guarded_def split: if_splits)

text \<open>
  C27. Replacing the document is atomic: whatever system call fails, the file holds either the
  complete old document (and the call raised \<open>OSError\<close>) or the complete new one (and the call
  returned, or reported that the directory could not be flushed); the temporary file is gone
  unless removing it failed.
\<close>

theorem write_document_atomic:
  "case write_document faults d doc of (res, d') \<Rightarrow>
     (if \<exists>s \<in> set faults. s \<in> {MKDIR, MKSTEMP, FCHMOD, WRITE, FSYNC, REPLACE}
      then res = Inl OSError \<and> sd_document d' = sd_document d
      else sd_document d' = Some (Some doc)
         \<and> res = (if SYNC_DIRECTORY \<in> set faults then Inl TaskStoreDurabilityError else Inr ()))
     \<and> (UNLINK_TEMPORARY \<in> set faults \<or> sd_temporary d' \<in> {None, sd_temporary d})"
  by (auto simp: write_document_def Let_def discard_temporary_def confirm_document_durability_def
      guarded_def)

end
