(* ===== verification/TaskStore.thy ===== *)
theory TaskStore
  imports TaskRetention TaskSerialization Persistence
begin

text \<open>
  \<open>discord_task_store.py\<close>: the task store with all its operations. A store is the dictionary in memory
  and the directory on disk; an operation returns its result (a value or the exception it raises)
  and the store it leaves behind. The lock makes every operation one step.
\<close>

section \<open>The store and its operations\<close>

record task_store =
  ts_tasks :: tasks
  ts_directory :: store_directory

text \<open>What one operation finds in its environment: the clock when it makes a timestamp, the
  clock when it commits, the failing system calls of the write, and whether the second directory
  flush fails as well.\<close>

record store_env =
  se_now :: datetime
  se_commit_now :: datetime
  se_faults :: "io_step list"
  se_confirm_faults :: "io_step list"

type_synonym 'a store_op = "'a result \<times> task_store"

definition timestamp_text :: "datetime \<Rightarrow> string result" where
  "timestamp_text now = and_then (as_utc now) (\<lambda>u. Inr (isoformat u))"

definition load_tasks :: "store_directory \<Rightarrow> tasks result" where
  "load_tasks d = (case sd_document d of
      None \<Rightarrow> Inr []
    | Some doc \<Rightarrow>
        (case and_then (decode_document doc) (\<lambda>tasks.
                and_then (validate_unique_task_ids tasks) (\<lambda>_.
                and_then (validate_continuation_graph tasks) (\<lambda>_. Inr tasks))) of
           Inr tasks \<Rightarrow> Inr tasks
         | Inl e \<Rightarrow> Inl (if is_value_error e then TaskStoreCorruptionError else e)))"

definition commit :: "store_env \<Rightarrow> task_store \<Rightarrow> tasks \<Rightarrow> unit store_op" where
  "commit env st tasks =
    (case apply_retention tasks (se_commit_now env) of
       Inl e \<Rightarrow> (Inl e, st)
     | Inr retained \<Rightarrow>
         (case write_document (se_faults env) (ts_directory st) (encode_document retained) of
            (Inr _, d) \<Rightarrow> (Inr (), \<lparr>ts_tasks = retained, ts_directory = d\<rparr>)
          | (Inl e, d) \<Rightarrow>
              if e = TaskStoreDurabilityError
              then (confirm_document_durability (se_confirm_faults env),
                    \<lparr>ts_tasks = retained, ts_directory = d\<rparr>)
              else (Inl e, st\<lparr>ts_directory := d\<rparr>)))"

text \<open>The tail of every mutating operation: commit what the checks computed, then return.\<close>

definition commit_then :: "store_env \<Rightarrow> task_store \<Rightarrow> (tasks \<times> 'a) result \<Rightarrow> 'a store_op" where
  "commit_then env st r = (case r of
      Inl e \<Rightarrow> (Inl e, st)
    | Inr (tasks, v) \<Rightarrow> (case commit env st tasks of (c, st') \<Rightarrow> (and_then c (\<lambda>_. Inr v), st')))"

definition ensure_execution_available :: "task_record \<Rightarrow> tasks \<Rightarrow> string option \<Rightarrow> unit result" where
  "ensure_execution_available r tasks ignore =
    (if \<not> active r then Inr ()
     else guarded
       (\<not> list_ex (\<lambda>t. Some (t_task_id t) \<noteq> ignore
                     \<and> t_execution_channel_id t = t_execution_channel_id r \<and> active t)
          (dict_values tasks))
       (ValueError ''an execution channel already has an active task''))"

definition validate_update :: "task_record \<Rightarrow> task_record \<Rightarrow> unit result" where
  "validate_update current candidate = raise_first
    [(immutable_fields current \<noteq> immutable_fields candidate,
      ValueError ''task identity fields cannot change''),
     (t_revision candidate \<noteq> t_revision current, ValueError ''task revision cannot be supplied''),
     (t_state candidate \<noteq> t_state current \<and> \<not> can_transition (t_state current) (t_state candidate),
      ValueError ''task state transition is not allowed''),
     (t_attempt candidate \<noteq> attempt_after_transition current (t_state candidate),
      ValueError ''task attempt does not match its state transition''),
     (t_interruption_cause current \<noteq> None
        \<and> t_interruption_cause candidate \<noteq> t_interruption_cause current,
      ValueError ''the first interruption cause is immutable''),
     (t_interruption_cause current = None \<and> t_interruption_cause candidate \<noteq> None
        \<and> t_state current \<in> {DELIVERING, COMPLETED},
      ValueError ''delivery and completion cannot claim interruption'')]"

definition create_checked :: "tasks \<Rightarrow> task_record \<Rightarrow> (tasks \<times> unit) result" where
  "create_checked tasks r =
    and_then (contains_task_id tasks (t_task_id r)) (\<lambda>known.
    if known then Inl (TaskAlreadyExists (t_task_id r))
    else if t_continued_from r \<noteq> None \<or> t_continued_to r \<noteq> None
    then Inl (ValueError ''continuation links may only be created by link_child'')
    else if t_attempt r \<noteq> 1 then Inl (ValueError ''new tasks must start at attempt one'')
    else and_then (ensure_execution_available r tasks None) (\<lambda>_.
      Inr (AList.update (t_task_id r) r tasks, ())))"

definition create_task :: "store_env \<Rightarrow> task_store \<Rightarrow> task_record \<Rightarrow> unit store_op" where
  "create_task env st r = commit_then env st (create_checked (ts_tasks st) r)"

definition get_task :: "task_store \<Rightarrow> string \<Rightarrow> task_record result" where
  "get_task st task_id =
    and_then (lookup_task_key (ts_tasks st) task_id) (\<lambda>key.
    dict_lookup (ts_tasks st) key (KeyError key))"

definition task_records :: "task_store \<Rightarrow> task_record list" where
  "task_records st = dict_values (ts_tasks st)"

text \<open>The lookup every mutation of an existing task starts with.\<close>

definition expect_revision :: "tasks \<Rightarrow> string \<Rightarrow> int \<Rightarrow> (string \<times> task_record) result" where
  "expect_revision tasks task_id expected =
    (if expected < 0 then Inl (ValueError ''expected_revision must be a non-negative integer'')
     else
       and_then (lookup_task_key tasks task_id) (\<lambda>key.
       and_then (dict_lookup tasks key (KeyError key)) (\<lambda>current.
       if t_revision current \<noteq> expected then Inl (TaskRevisionConflict task_id)
       else Inr (key, current))))"

definition update_checked ::
    "tasks \<Rightarrow> string \<Rightarrow> int \<Rightarrow> (task_record \<Rightarrow> task_record result) \<Rightarrow> (tasks \<times> task_record) result" where
  "update_checked tasks task_id expected update =
    and_then (expect_revision tasks task_id expected) (\<lambda>(key, current).
    and_then (update current) (\<lambda>candidate.
    and_then (validate_update current candidate) (\<lambda>_.
    and_then (ensure_execution_available candidate tasks (Some key)) (\<lambda>_.
    and_then (make_task_record (candidate\<lparr>t_revision := t_revision current + 1\<rparr>)) (\<lambda>updated.
    Inr (AList.update key updated tasks, updated))))))"

definition compare_and_set ::
    "store_env \<Rightarrow> task_store \<Rightarrow> string \<Rightarrow> int \<Rightarrow> (task_record \<Rightarrow> task_record result)
     \<Rightarrow> task_record store_op" where
  "compare_and_set env st task_id expected update =
    commit_then env st (update_checked (ts_tasks st) task_id expected update)"

definition link_checked ::
    "tasks \<Rightarrow> string \<Rightarrow> int \<Rightarrow> task_record \<Rightarrow> datetime \<Rightarrow> (tasks \<times> task_record \<times> task_record) result" where
  "link_checked tasks parent_id expected child now =
    and_then (expect_revision tasks parent_id expected) (\<lambda>(key, parent).
    if t_state parent \<noteq> COMPLETED \<or> t_continued_to parent \<noteq> None
    then Inl (ValueError ''only an unlinked completed task can continue'')
    else and_then (contains_task_id tasks (t_task_id child)) (\<lambda>known.
    if known then Inl (TaskAlreadyExists (t_task_id child))
    else if t_attempt child \<noteq> 1
    then Inl (ValueError ''continuation child must start at attempt one'')
    else if t_state child \<noteq> STARTING \<or> t_continued_from child \<noteq> Some (t_task_id parent)
      \<or> t_revision child \<noteq> 0 \<or> \<not> same_task_scope parent child
    then Inl (ValueError ''child must be a new linked starting task'')
    else
      and_then (ensure_execution_available child tasks None) (\<lambda>_.
      and_then (timestamp_text now) (\<lambda>ts.
      and_then (make_task_record
          (parent\<lparr>t_continued_to := Some (t_task_id child), t_revision := t_revision parent + 1,
                  t_updated_at := ts\<rparr>)) (\<lambda>linked.
      Inr (AList.update (t_task_id child) child (AList.update key linked tasks), linked, child))))))"

definition link_child ::
    "store_env \<Rightarrow> task_store \<Rightarrow> string \<Rightarrow> int \<Rightarrow> task_record \<Rightarrow> (task_record \<times> task_record) store_op" where
  "link_child env st parent_id expected child =
    commit_then env st (link_checked (ts_tasks st) parent_id expected child (se_now env))"

definition delivery_retry_disabled :: "task_failure option \<Rightarrow> task_failure result" where
  "delivery_retry_disabled fo = (case fo of
      None \<Rightarrow> make_failure DISCORD_DELIVERY ''Discord could not deliver the result.'' NO_RETRY
    | Some f \<Rightarrow> make_failure (f_category f) (f_summary f) NO_RETRY)"

definition reconcile :: "task_record \<Rightarrow> string \<Rightarrow> task_record result" where
  "reconcile r ts =
    (if t_state r \<in> {RECOVERING, STARTING, RUNNING, STOPPING} then
       and_then (claim_interruption r GATEWAY_RESTART) (\<lambda>claimed.
       make_task_record (claimed\<lparr>t_state := INTERRUPTED, t_updated_at := ts\<rparr>))
     else if t_state r = DELIVERING \<and> t_result_message_id r \<noteq> None then
       make_task_record (r\<lparr>t_state := COMPLETED, t_updated_at := ts, t_failure := None\<rparr>)
     else if t_state r = DELIVERING then
       and_then (delivery_retry_disabled (t_failure r)) (\<lambda>f.
       make_task_record (r\<lparr>t_state := DELIVERY_FAILED, t_updated_at := ts, t_failure := Some f\<rparr>))
     else if t_state r = DELIVERY_FAILED
       \<and> (\<exists>f \<in> set_option (t_failure r). f_retry_mode f = RETRY_DELIVERY) then
       and_then (delivery_retry_disabled (t_failure r)) (\<lambda>f.
       make_task_record (r\<lparr>t_updated_at := ts, t_failure := Some f\<rparr>))
     else Inr r)"

text \<open>The start-up loop: the tasks as they will be and the records that changed.\<close>

fun reconcile_loop ::
    "string \<Rightarrow> (string \<times> task_record) list \<Rightarrow> tasks \<Rightarrow> task_record list \<Rightarrow> (tasks \<times> task_record list) result" where
  "reconcile_loop ts [] tasks changed = Inr (tasks, changed)"
| "reconcile_loop ts ((key, r) # items) tasks changed =
    and_then (reconcile r ts) (\<lambda>r'.
      if r' = r then reconcile_loop ts items tasks changed
      else and_then (make_task_record (r'\<lparr>t_revision := t_revision r + 1\<rparr>)) (\<lambda>r''.
        reconcile_loop ts items (AList.update key r'' tasks) (changed @ [r''])))"

definition reconcile_startup :: "store_env \<Rightarrow> task_store \<Rightarrow> datetime \<Rightarrow> task_record list store_op" where
  "reconcile_startup env st now =
    (case and_then (timestamp_text now) (\<lambda>ts. reconcile_loop ts (ts_tasks st) (ts_tasks st) []) of
       Inl e \<Rightarrow> (Inl e, st)
     | Inr (tasks, changed) \<Rightarrow>
         if changed = [] then (Inr [], st)
         else commit_then env st (Inr (tasks, changed)))"

definition forget_checked ::
    "tasks \<Rightarrow> string \<Rightarrow> int \<Rightarrow> datetime \<Rightarrow> (tasks \<times> task_record list) result" where
  "forget_checked tasks task_id expected now =
    and_then (expect_revision tasks task_id expected) (\<lambda>(key, current).
    and_then (timestamp_text now) (\<lambda>ts. forget_inactive_task tasks key ts))"

definition forget_task :: "store_env \<Rightarrow> task_store \<Rightarrow> string \<Rightarrow> int \<Rightarrow> task_record list store_op" where
  "forget_task env st task_id expected =
    commit_then env st (forget_checked (ts_tasks st) task_id expected (se_now env))"

end
