(* ===== verification/TaskStoreInv.thy ===== *)
theory TaskStoreInv
  imports TaskStore
begin

text \<open>
  The invariant of the task store (records under their own canonical identifiers, accepted by
  their constructor, a good continuation graph, one active task per execution channel, the file
  on disk decoding to what is in memory) and its preservation by every operation, for any
  clock, any failing system call and any update function that returns storable records.
\<close>

section \<open>Identifiers\<close>

lemma canonical_hex_Some: "\<not> bad_uuid (Some k) \<Longrightarrow> \<exists>h. canonical_hex k = Some h"
  by (auto simp: bad_uuid_def canonical_hex_def)

lemma unique_ids_iff:
  assumes "\<And>k. k \<in> set ks \<Longrightarrow> canonical_hex k \<noteq> None"
  shows "unique_ids seen ks = Inr () \<longleftrightarrow>
    distinct (map canonical_hex ks) \<and> Some ` set seen \<inter> canonical_hex ` set ks = {}"
  using assms
proof (induction seen ks rule: unique_ids.induct)
  case (1 seen)
  then show ?case by simp
next
  case (2 seen k ks)
  then obtain h where h: "canonical_hex k = Some h" by fastforce
  have "\<And>k. k \<in> set ks \<Longrightarrow> canonical_hex k \<noteq> None" using 2(2) by simp
  with 2(1) [OF h] h show ?case by (auto simp: image_iff)
qed

lemma scan_keys_spec:
  assumes "\<forall>k \<in> set ks. canonical_hex k \<noteq> None"
  shows "scan_keys ks h t = Inr k \<Longrightarrow> k \<in> set ks \<and> canonical_hex k = Some h"
    and "scan_keys ks h t = Inl e \<Longrightarrow> e = KeyError t \<and> Some h \<notin> canonical_hex ` set ks"
  using assms by (induction ks h t rule: scan_keys.induct) (auto split: if_splits option.splits)

definition stored_ids :: "tasks \<Rightarrow> string set" where
  "stored_ids tasks = set (dict_keys tasks)"

lemma stored_ids_iff: "k \<in> stored_ids tasks \<longleftrightarrow> (\<exists>r. map_of tasks k = Some r)"
  using map_of_key [of tasks k] map_of_ex [of k tasks] by (auto simp: stored_ids_def)

lemma stored_ids_update [simp]: "stored_ids (AList.update k r tasks) = insert k (stored_ids tasks)"
  by (simp add: stored_ids_def)

definition ids_ok :: "tasks \<Rightarrow> bool" where
  "ids_ok tasks \<longleftrightarrow> (\<forall>k \<in> stored_ids tasks. canonical_hex k \<noteq> None)
     \<and> inj_on canonical_hex (stored_ids tasks)"

lemma validate_unique_iff:
  assumes "dict_wf tasks" and "\<And>k. k \<in> stored_ids tasks \<Longrightarrow> canonical_hex k \<noteq> None"
  shows "validate_unique_task_ids tasks = Inr () \<longleftrightarrow> ids_ok tasks"
proof -
  have "distinct (map canonical_hex (dict_keys tasks)) \<longleftrightarrow> inj_on canonical_hex (stored_ids tasks)"
    unfolding stored_ids_def distinct_map [of canonical_hex "dict_keys tasks"] using assms(1) by blast
  moreover have "validate_unique_task_ids tasks = Inr ()
      \<longleftrightarrow> distinct (map canonical_hex (dict_keys tasks))"
    unfolding validate_unique_task_ids_def
    using unique_ids_iff [of "dict_keys tasks" "[]"] assms(2) unfolding stored_ids_def by simp
  moreover have "\<forall>k \<in> stored_ids tasks. canonical_hex k \<noteq> None" using assms(2) by blast
  ultimately show ?thesis unfolding ids_ok_def by blast
qed

lemma ids_okD:
  assumes "ids_ok tasks"
  shows "\<forall>k \<in> set (dict_keys tasks). canonical_hex k \<noteq> None"
    and "j \<in> stored_ids tasks \<Longrightarrow> k \<in> stored_ids tasks \<Longrightarrow> canonical_hex j = canonical_hex k \<Longrightarrow> j = k"
  using assms unfolding ids_ok_def stored_ids_def by (blast dest: inj_onD)+

lemma lookup_task_key_cases:
  "lookup_task_key tasks t = (if t \<in> stored_ids tasks then Inr t
     else (case canonical_hex t of None \<Rightarrow> Inl (KeyError t) | Some h \<Rightarrow> scan_keys (dict_keys tasks) h t))"
  by (simp add: lookup_task_key_def stored_ids_def)

lemma lookup_task_key_Inr:
  assumes "ids_ok tasks" and "lookup_task_key tasks t = Inr k"
  shows "k \<in> stored_ids tasks \<and> canonical_hex k = canonical_hex t"
proof (cases "t \<in> stored_ids tasks")
  case True
  with assms(2) show ?thesis by (simp add: lookup_task_key_cases)
next
  case False
  with assms(2) obtain h where h: "canonical_hex t = Some h" "scan_keys (dict_keys tasks) h t = Inr k"
    by (auto simp: lookup_task_key_cases split: option.splits)
  with scan_keys_spec(1) [OF ids_okD(1) [OF assms(1)] h(2)] show ?thesis
    unfolding stored_ids_def by simp
qed

text \<open>Any spelling of a stored identifier finds its key, and only that.\<close>

lemma lookup_task_key_finds:
  assumes "ids_ok tasks" and "k \<in> stored_ids tasks" and "canonical_hex t = canonical_hex k"
  shows "lookup_task_key tasks t = Inr k"
proof (cases "lookup_task_key tasks t")
  case (Inr j)
  with lookup_task_key_Inr [OF assms(1) Inr] assms ids_okD(2) [OF assms(1)] show ?thesis by simp
next
  case (Inl e)
  obtain h where h: "canonical_hex k = Some h" using assms(1,2) by (auto simp: ids_ok_def)
  with Inl assms(3) have "scan_keys (dict_keys tasks) h t = Inl e"
    by (auto simp: lookup_task_key_cases split: if_splits)
  from scan_keys_spec(2) [OF ids_okD(1) [OF assms(1)] this] assms(2) h
  show ?thesis unfolding stored_ids_def by (metis image_eqI)
qed

lemma contains_task_id_Inr:
  assumes "ids_ok tasks" and "canonical_hex t \<noteq> None"
  shows "contains_task_id tasks t = Inr (canonical_hex t \<in> canonical_hex ` stored_ids tasks)"
proof (cases "lookup_task_key tasks t")
  case (Inr k)
  with lookup_task_key_Inr [OF assms(1) Inr] have "canonical_hex t \<in> canonical_hex ` stored_ids tasks"
    by (metis image_eqI)
  with Inr show ?thesis by (simp add: contains_task_id_def)
next
  case (Inl e)
  obtain h where h: "canonical_hex t = Some h" using assms(2) by auto
  from Inl h have "scan_keys (dict_keys tasks) h t = Inl e"
    by (auto simp: lookup_task_key_cases split: if_splits)
  from scan_keys_spec(2) [OF ids_okD(1) [OF assms(1)] this] h have "e = KeyError t"
    "canonical_hex t \<notin> canonical_hex ` stored_ids tasks" by (simp_all add: stored_ids_def)
  with Inl show ?thesis by (simp add: contains_task_id_def)
qed

lemma ids_ok_insert:
  assumes "ids_ok tasks" and "canonical_hex k \<noteq> None"
    and "canonical_hex k \<notin> canonical_hex ` stored_ids tasks"
  shows "ids_ok (AList.update k r tasks)"
  using assms by (auto simp: ids_ok_def)

lemma ids_ok_subset:
  "ids_ok tasks \<Longrightarrow> stored_ids tasks' \<subseteq> stored_ids tasks \<Longrightarrow> ids_ok tasks'"
  unfolding ids_ok_def by (meson inj_on_subset subsetD)

section \<open>The invariant\<close>

definition entries_ok :: "tasks \<Rightarrow> bool" where
  "entries_ok tasks \<longleftrightarrow> dict_wf tasks
     \<and> (\<forall>k r. map_of tasks k = Some r \<longrightarrow> t_task_id r = k \<and> storable r)"

definition tasks_ok :: "tasks \<Rightarrow> bool" where
  "tasks_ok tasks \<longleftrightarrow> entries_ok tasks \<and> ids_ok tasks \<and> graph_ok tasks"

text \<open>At most one active task per execution channel.\<close>

definition exclusive :: "tasks \<Rightarrow> bool" where
  "exclusive tasks \<longleftrightarrow> (\<forall>j k r q. map_of tasks j = Some r \<longrightarrow> map_of tasks k = Some q
     \<longrightarrow> active r \<longrightarrow> active q \<longrightarrow> t_execution_channel_id r = t_execution_channel_id q \<longrightarrow> j = k)"

text \<open>What a restart would load is what is in memory.\<close>

definition synced :: "task_store \<Rightarrow> bool" where
  "synced st \<longleftrightarrow> (\<exists>t. load_tasks (ts_directory st) = Inr t \<and> map_of t = map_of (ts_tasks st))"

definition store_ok :: "task_store \<Rightarrow> bool" where
  "store_ok st \<longleftrightarrow> tasks_ok (ts_tasks st) \<and> exclusive (ts_tasks st) \<and> synced st"

lemma entries_okD:
  assumes "entries_ok tasks"
  shows "dict_wf tasks" and "keys_match tasks"
    and "map_of tasks k = Some r \<Longrightarrow> t_task_id r = k" and "map_of tasks k = Some r \<Longrightarrow> storable r"
  using assms by (auto simp: entries_ok_def keys_match_def)

lemma tasks_okD:
  assumes "tasks_ok tasks"
  shows "entries_ok tasks" and "ids_ok tasks" and "graph_ok tasks" and "dict_wf tasks"
    and "keys_match tasks"
    and "map_of tasks k = Some r \<Longrightarrow> t_task_id r = k" and "map_of tasks k = Some r \<Longrightarrow> storable r"
  using assms entries_okD by (auto simp: tasks_ok_def)

lemma storable_id: "storable r \<Longrightarrow> canonical_hex (t_task_id r) \<noteq> None"
  using canonical_hex_Some [of "t_task_id r"]
  by (auto simp: storable_def valid_task_iff task_identity_ok_def)

lemma storable_updated: "storable r \<Longrightarrow> \<exists>t. updated_instant r = Inr t"
proof -
  assume "storable r"
  then obtain t u where "fromisoformat (t_updated_at r) = Some t" "as_utc t = Inr u"
    by (auto simp: storable_def utc_text_def isl_def split: option.splits sum.splits)
       (metis sum.exhaust)
  then show ?thesis by (simp add: updated_instant_def)
qed

lemma timestamp_text_utc:
  assumes "timestamp_text now = Inr ts"
  shows "utc_text ts" and "aware_text ts"
proof -
  from assms obtain u where u: "as_utc now = Inr u" "ts = isoformat u"
    by (auto simp: timestamp_text_def and_then_eq_Inr)
  then have "dt_in_range (dt_local u)" "dt_offset u = Some 0"
    by (auto simp: as_utc_def split: option.splits if_splits)
  moreover from this have "u = \<lparr>dt_local = dt_local u, dt_offset = Some 0\<rparr>" by simp
  ultimately have "fromisoformat ts = Some u" "as_utc u = Inr u"
    using fromisoformat_isoformat_utc [of "dt_local u"] u(2) by (metis, simp add: as_utc_def)
  with \<open>u = \<lparr>dt_local = dt_local u, dt_offset = Some 0\<rparr>\<close> show "utc_text ts" and "aware_text ts"
    unfolding utc_text_def aware_text_def by (cases u; simp)+
qed

lemma tasks_ok_sorted:
  assumes "tasks_ok tasks"
  shows "tasks_ok (sorted_dict tasks)"
proof -
  have m: "map_of (sorted_dict tasks) k = map_of tasks k" for k
    using tasks_okD(4) [OF assms] by simp
  have "stored_ids (sorted_dict tasks) = stored_ids tasks" by (simp add: stored_ids_def)
  then have "ids_ok (sorted_dict tasks)" using tasks_okD(2) [OF assms] by (simp add: ids_ok_def)
  moreover have "graph_ok (sorted_dict tasks)" using tasks_okD(3) [OF assms] m by (rule graph_ok_cong)
  moreover have "entries_ok (sorted_dict tasks)"
    using tasks_okD(1) [OF assms] unfolding entries_ok_def m by simp
  ultimately show ?thesis by (simp add: tasks_ok_def)
qed

lemma entries_ok_items:
  "entries_ok tasks \<Longrightarrow> \<forall>(k, r) \<in> set tasks. t_task_id r = k \<and> storable r"
proof (intro ballI, clarify)
  fix k r assume e: "entries_ok tasks" and "(k, r) \<in> set tasks"
  then have "map_of tasks k = Some r" using dict_mem_iff [OF entries_okD(1) [OF e]] by blast
  then show "t_task_id r = k \<and> storable r" using entries_okD(3,4) [OF e] by blast
qed

lemma load_written:
  assumes "tasks_ok tasks" and "sd_document d = Some (Some (encode_document tasks))"
  shows "load_tasks d = Inr (sorted_dict tasks)"
proof -
  have ok: "tasks_ok (sorted_dict tasks)" using assms(1) by (rule tasks_ok_sorted)
  have "decode_document (Some (encode_document tasks)) = Inr (sorted_dict tasks)"
    using tasks_okD(1,4) [OF assms(1)] entries_ok_items by (intro document_roundtrip) auto
  moreover have "validate_unique_task_ids (sorted_dict tasks) = Inr ()"
    using validate_unique_iff tasks_okD(2,4) [OF ok] by (simp add: ids_ok_def)
  moreover have "validate_continuation_graph (sorted_dict tasks) = Inr ()"
    using validate_graph_iff tasks_okD(3,4) [OF ok] by blast
  ultimately show ?thesis using assms(2) by (simp add: load_tasks_def)
qed

text \<open>Loading only succeeds on a document that satisfies the per-task and graph invariants.\<close>

lemma load_tasks_ok:
  assumes "load_tasks d = Inr tasks"
  shows "tasks_ok tasks"
proof (cases "sd_document d")
  case None
  with assms show ?thesis
    by (simp add: load_tasks_def tasks_ok_def entries_ok_def ids_ok_def stored_ids_def graph_ok_def)
next
  case (Some doc)
  with assms have d: "decode_document doc = Inr tasks" "validate_unique_task_ids tasks = Inr ()"
    "validate_continuation_graph tasks = Inr ()"
    by (auto simp: load_tasks_def and_then_eq_Inr split: sum.splits)
  then have e: "dict_wf tasks" "\<forall>(k, r) \<in> set tasks. t_task_id r = k \<and> storable r"
    using decode_document_storable by blast+
  then have "entries_ok tasks" by (auto simp: entries_ok_def dest!: map_of_SomeD)
  moreover have "ids_ok tasks"
    using validate_unique_iff [OF e(1)] d(2) entries_okD(3,4) [OF \<open>entries_ok tasks\<close>] storable_id
    by (metis stored_ids_iff)
  moreover have "graph_ok tasks" using validate_graph_iff [OF e(1)] d(3) by blast
  ultimately show ?thesis by (simp add: tasks_ok_def)
qed

section \<open>Committing\<close>

text \<open>The two ends of a commit: nothing changed but a temporary file, or the retained tasks are
  in memory and on disk.\<close>

definition commit_done :: "store_env \<Rightarrow> task_store \<Rightarrow> tasks \<Rightarrow> task_store \<Rightarrow> bool" where
  "commit_done env st tasks st' \<longleftrightarrow> (\<exists>retained. apply_retention tasks (se_commit_now env) = Inr retained
     \<and> ts_tasks st' = retained \<and> sd_document (ts_directory st') = Some (Some (encode_document retained)))"

definition commit_undone :: "task_store \<Rightarrow> task_store \<Rightarrow> bool" where
  "commit_undone st st' \<longleftrightarrow> ts_tasks st' = ts_tasks st
     \<and> sd_document (ts_directory st') = sd_document (ts_directory st)"

lemma commit_cases:
  assumes "commit env st tasks = (res, st')"
  shows "(commit_done env st tasks st' \<and> (res = Inr () \<or> res = Inl TaskStoreDurabilityError))
     \<or> (commit_undone st st' \<and> (\<exists>e. res = Inl e))"
proof (cases "apply_retention tasks (se_commit_now env)")
  case (Inl e)
  with assms show ?thesis by (auto simp: commit_def commit_undone_def)
next
  case (Inr kept)
  obtain w d where w: "write_document (se_faults env) (ts_directory st) (encode_document kept) = (w, d)"
    by fastforce
  from write_document_cases [OF w] assms Inr w show ?thesis
    by (cases w)
       (auto simp: commit_def commit_done_def commit_undone_def confirm_document_durability_def guarded_def)
qed

lemma synced_document:
  "sd_document (ts_directory st') = sd_document (ts_directory st) \<Longrightarrow> ts_tasks st' = ts_tasks st
     \<Longrightarrow> synced st' = synced st"
  by (simp add: synced_def load_tasks_def)

lemma exclusive_sub:
  assumes "exclusive tasks" and "\<And>k r. map_of kept k = Some r \<Longrightarrow> map_of tasks k = Some r"
  shows "exclusive kept"
  using assms unfolding exclusive_def by blast

lemma retained_ok:
  assumes "tasks_ok tasks" and "apply_retention tasks now = Inr kept"
  shows "tasks_ok kept"
proof -
  note good = tasks_okD [OF assms(1)]
  note r = retention_graph_ok [OF good(3,5,4) assms(2)]
  have "entries_ok kept" unfolding entries_ok_def
    using r(2) r(3) good(6,7) by blast
  moreover have "stored_ids kept \<subseteq> stored_ids tasks" using r(3) by (auto simp: stored_ids_iff)
  ultimately show ?thesis using r(1) ids_ok_subset [OF good(2)] by (simp add: tasks_ok_def)
qed

lemma commit_ok:
  assumes "store_ok st" and "tasks_ok tasks" and "exclusive tasks" and "commit env st tasks = (res, st')"
  shows "store_ok st'"
proof -
  consider "commit_done env st tasks st'" | "commit_undone st st'"
    using commit_cases [OF assms(4)] by blast
  then show ?thesis
  proof cases
  case 1
  then obtain kept where kept: "apply_retention tasks (se_commit_now env) = Inr kept"
    "ts_tasks st' = kept" "sd_document (ts_directory st') = Some (Some (encode_document kept))"
    by (auto simp: commit_done_def)
  have ok: "tasks_ok kept" by (rule retained_ok [OF assms(2) kept(1)])
  moreover have "exclusive kept"
    by (rule exclusive_sub [OF assms(3)]) (rule retention_graph_ok(3) [OF tasks_okD(3,5,4) [OF assms(2)] kept(1)])
  moreover have "synced st'"
    using load_written [OF ok kept(3)] map_of_sorted [OF tasks_okD(4) [OF ok]] kept(2)
    by (auto simp: synced_def)
  ultimately show ?thesis by (simp add: store_ok_def kept(2))
  next
    case 2
    then show ?thesis using assms(1) synced_document [of st' st]
      by (simp add: store_ok_def commit_undone_def)
  qed
qed

lemma commit_then_ok:
  assumes "store_ok st" and "\<And>tasks v. r = Inr (tasks, v) \<Longrightarrow> tasks_ok tasks \<and> exclusive tasks"
  shows "store_ok (snd (commit_then env st r))"
proof (cases r)
  case (Inl e)
  with assms(1) show ?thesis by (simp add: commit_then_def)
next
  case (Inr tv)
  obtain tasks v where tv: "tv = (tasks, v)" by fastforce
  obtain c st' where c: "commit env st tasks = (c, st')" by fastforce
  from commit_ok [OF assms(1) _ _ c] assms(2) [of tasks v] Inr tv c show ?thesis
    by (simp add: commit_then_def)
qed

section \<open>The operations keep the invariant\<close>

lemma ensure_available_iff:
  assumes "dict_wf tasks" and "keys_match tasks"
  shows "ensure_execution_available r tasks ign = Inr () \<longleftrightarrow> (active r \<longrightarrow>
    (\<forall>k q. map_of tasks k = Some q \<longrightarrow> Some k \<noteq> ign \<longrightarrow> active q
       \<longrightarrow> t_execution_channel_id q \<noteq> t_execution_channel_id r))"
proof -
  have "(\<exists>q \<in> set (dict_values tasks). Some (t_task_id q) \<noteq> ign \<and> active q
        \<and> t_execution_channel_id q = t_execution_channel_id r)
     \<longleftrightarrow> (\<exists>k q. map_of tasks k = Some q \<and> Some k \<noteq> ign \<and> active q
        \<and> t_execution_channel_id q = t_execution_channel_id r)"
    unfolding Bex_def dict_values_iff [OF assms(1)] using assms(2) by (auto simp: keys_match_def)
  then show ?thesis
    unfolding ensure_execution_available_def guarded_def list_ex_iff by auto
qed

lemma exclusive_update:
  assumes "exclusive tasks"
    and "active r \<Longrightarrow> \<forall>k q. map_of tasks k = Some q \<longrightarrow> k \<noteq> key \<longrightarrow> active q
       \<longrightarrow> t_execution_channel_id q \<noteq> t_execution_channel_id r"
  shows "exclusive (AList.update key r tasks)"
  using assms unfolding exclusive_def by (simp add: fun_upd_apply split: if_splits) metis

lemma entries_ok_update:
  "entries_ok tasks \<Longrightarrow> t_task_id r = key \<Longrightarrow> storable r \<Longrightarrow> entries_ok (AList.update key r tasks)"
  by (simp add: entries_ok_def)

lemma create_checked_ok:
  assumes ok: "tasks_ok tasks" "exclusive tasks" and r: "storable r"
    and "create_checked tasks r = Inr (tasks', u)"
  shows "tasks_ok tasks' \<and> exclusive tasks'" and "tasks' = AList.update (t_task_id r) r tasks"
    and "map_of tasks (t_task_id r) = None"
proof -
  note d = tasks_okD [OF ok(1)]
  from assms(4) have c: "contains_task_id tasks (t_task_id r) = Inr False"
    "t_continued_from r = None" "t_continued_to r = None"
    "ensure_execution_available r tasks None = Inr ()"
    and tasks': "tasks' = AList.update (t_task_id r) r tasks"
    by (auto simp: create_checked_def and_then_eq_Inr split: if_splits)
  have new: "canonical_hex (t_task_id r) \<notin> canonical_hex ` stored_ids tasks"
    using contains_task_id_Inr [OF d(2) storable_id [OF r]] c(1) by simp
  then have none: "map_of tasks (t_task_id r) = None" by (auto simp: stored_ids_iff)
  show "tasks' = AList.update (t_task_id r) r tasks" "map_of tasks (t_task_id r) = None"
    using tasks' none by auto
  have "graph_ok tasks'" unfolding tasks' by (rule graph_ok_insert [OF d(3) none c(2,3)])
  moreover have "ids_ok tasks'" unfolding tasks' by (rule ids_ok_insert [OF d(2) storable_id [OF r] new])
  moreover have "entries_ok tasks'" unfolding tasks' by (rule entries_ok_update [OF d(1) refl r])
  moreover have "exclusive tasks'" unfolding tasks'
    using c(4) ensure_available_iff [OF d(4,5)] by (intro exclusive_update [OF ok(2)]) blast
  ultimately show "tasks_ok tasks' \<and> exclusive tasks'" by (simp add: tasks_ok_def)
qed

lemma expect_revision_Inr:
  assumes "tasks_ok tasks" and "expect_revision tasks t expected = Inr (key, r)"
  shows "map_of tasks key = Some r" and "t_revision r = expected" and "canonical_hex key = canonical_hex t"
    and "t_task_id r = key" and "storable r"
proof -
  from assms(2) have e: "lookup_task_key tasks t = Inr key" "map_of tasks key = Some r" "t_revision r = expected"
    by (auto simp: expect_revision_def and_then_eq_Inr dict_lookup_Inr split: if_splits)
  show "map_of tasks key = Some r" "t_revision r = expected" using e by auto
  show "canonical_hex key = canonical_hex t"
    using lookup_task_key_Inr [OF tasks_okD(2) [OF assms(1)] e(1)] by simp
  show "t_task_id r = key" "storable r" using tasks_okD(6,7) [OF assms(1) e(2)] by auto
qed

text \<open>An update that keeps the identity leaves the rest of the store good.\<close>

lemma graph_ok_update_same:
  assumes "graph_ok tasks" and "map_of tasks key = Some r" and "same_links r r'"
  shows "graph_ok (AList.update key r' tasks)"
  by (rule graph_ok_same_links [OF assms(1)]) (use assms(2,3) in \<open>auto simp: option.rel_refl\<close>)

lemma tasks_ok_update_same:
  assumes "tasks_ok tasks" and "map_of tasks key = Some r" and "same_links r r'" and "storable r'"
  shows "tasks_ok (AList.update key r' tasks)"
proof -
  note d = tasks_okD [OF assms(1)]
  have "t_task_id r' = key" using d(6) [OF assms(2)] assms(3) by (simp add: same_links_def)
  moreover have "insert key (stored_ids tasks) = stored_ids tasks" using assms(2) stored_ids_iff by blast
  ultimately show ?thesis
    using d graph_ok_update_same [OF d(3) assms(2,3)] entries_ok_update [OF d(1) _ assms(4)]
    by (simp add: tasks_ok_def ids_ok_def)
qed

lemma immutable_same_links:
  assumes "immutable_fields r' = immutable_fields r"
    and "t_state r = COMPLETED \<Longrightarrow> t_state r' = COMPLETED"
  shows "same_links r r'"
  using assms by (auto simp: same_links_def immutable_fields_def same_task_scope_def)

lemma immutable_fields_revision [simp]:
  "immutable_fields (r\<lparr>t_revision := n\<rparr>) = immutable_fields r"
  by (simp add: immutable_fields_def)

lemma storable_revision:
  "storable r \<Longrightarrow> 0 \<le> n \<Longrightarrow> storable (r\<lparr>t_revision := n\<rparr>)"
  by (simp add: storable_def valid_task_iff task_progress_ok_def)

lemma storable_revision_nonneg: "storable r \<Longrightarrow> 0 \<le> t_revision r"
  by (simp add: storable_def valid_task_iff task_progress_ok_def)

lemma update_checked_Inr:
  assumes "update_checked tasks t expected update = Inr (tasks', updated)"
  obtains key current candidate where
    "expect_revision tasks t expected = Inr (key, current)" and "update current = Inr candidate"
    and "validate_update current candidate = Inr ()"
    and "ensure_execution_available candidate tasks (Some key) = Inr ()"
    and "updated = candidate\<lparr>t_revision := t_revision current + 1\<rparr>"
    and "tasks' = AList.update key updated tasks"
  using assms by (auto simp: update_checked_def and_then_eq_Inr make_task_record_Inr split: prod.splits)

lemma validate_update_Inr:
  "validate_update current candidate = Inr u \<longleftrightarrow>
     immutable_fields candidate = immutable_fields current \<and> t_revision candidate = t_revision current
     \<and> (t_state candidate = t_state current \<or> can_transition (t_state current) (t_state candidate))
     \<and> t_attempt candidate = attempt_after_transition current (t_state candidate)
     \<and> (t_interruption_cause current \<noteq> None
          \<longrightarrow> t_interruption_cause candidate = t_interruption_cause current)
     \<and> (t_state current \<in> {DELIVERING, COMPLETED}
          \<longrightarrow> t_interruption_cause candidate = t_interruption_cause current)"
  by (auto simp: validate_update_def raise_first_Inr)

lemma update_checked_ok:
  assumes ok: "tasks_ok tasks" "exclusive tasks"
    and upd: "\<And>r r'. storable r \<Longrightarrow> update r = Inr r' \<Longrightarrow> storable r'"
    and "update_checked tasks t expected update = Inr (tasks', updated)"
  shows "tasks_ok tasks' \<and> exclusive tasks'"
proof -
  note d = tasks_okD [OF ok(1)]
  obtain key current candidate where c: "expect_revision tasks t expected = Inr (key, current)"
    "update current = Inr candidate" "validate_update current candidate = Inr ()"
    "ensure_execution_available candidate tasks (Some key) = Inr ()"
    "updated = candidate\<lparr>t_revision := t_revision current + 1\<rparr>"
    "tasks' = AList.update key updated tasks"
    using assms(4) by (rule update_checked_Inr)
  note e = expect_revision_Inr [OF ok(1) c(1)]
  note v = c(3) [unfolded validate_update_Inr]
  have "storable updated"
    using upd [OF e(5) c(2)] storable_revision_nonneg [OF e(5)] by (simp add: c(5) storable_revision)
  moreover have "same_links current updated"
    by (rule immutable_same_links) (use v in \<open>auto simp: c(5) can_transition_def\<close>)
  ultimately have "tasks_ok tasks'" unfolding c(6) by (intro tasks_ok_update_same [OF ok(1) e(1)])
  moreover have "exclusive tasks'" unfolding c(6)
    using c(4) ensure_available_iff [OF d(4,5), of candidate "Some key"]
    by (intro exclusive_update [OF ok(2)]) (auto simp: c(5))
  ultimately show ?thesis by blast
qed

lemma link_checked_Inr:
  assumes "link_checked tasks t expected child now = Inr (tasks', lp, child')"
  obtains key parent ts where
    "expect_revision tasks t expected = Inr (key, parent)" and "t_state parent = COMPLETED"
    and "t_continued_to parent = None" and "contains_task_id tasks (t_task_id child) = Inr False"
    and "t_attempt child = 1" and "t_state child = STARTING"
    and "t_continued_from child = Some (t_task_id parent)" and "t_revision child = 0"
    and "same_task_scope parent child" and "ensure_execution_available child tasks None = Inr ()"
    and "timestamp_text now = Inr ts"
    and "lp = parent\<lparr>t_continued_to := Some (t_task_id child), t_revision := t_revision parent + 1,
                          t_updated_at := ts\<rparr>"
    and "task_identity_ok lp" and "child' = child"
    and "tasks' = AList.update (t_task_id child) child (AList.update key lp tasks)"
  using assms
  by (auto simp: link_checked_def and_then_eq_Inr make_task_record_Inr split: prod.splits if_splits)

lemma storable_linked:
  assumes "storable r" and "timestamp_text now = Inr ts"
    and "r' = r\<lparr>t_continued_to := c, t_revision := t_revision r + 1, t_updated_at := ts\<rparr>"
    and "task_identity_ok r'"
  shows "storable r'"
  using assms timestamp_text_utc [OF assms(2)]
  by (simp add: storable_def valid_task_iff task_progress_ok_def)

text \<open>A continuation keeps the store good when the child has no continuation of its own yet; the
  operation does not check that.\<close>

lemma link_checked_ok:
  assumes ok: "tasks_ok tasks" "exclusive tasks"
    and child: "storable child" "t_continued_to child = None"
    and "link_checked tasks t expected child now = Inr (tasks', lp, child')"
  shows "tasks_ok tasks' \<and> exclusive tasks'"
proof -
  note d = tasks_okD [OF ok(1)]
  obtain key parent ts where c: "expect_revision tasks t expected = Inr (key, parent)"
    "t_state parent = COMPLETED" "t_continued_to parent = None"
    "contains_task_id tasks (t_task_id child) = Inr False"
    "t_continued_from child = Some (t_task_id parent)" "same_task_scope parent child"
    "ensure_execution_available child tasks None = Inr ()" "timestamp_text now = Inr ts"
    "lp = parent\<lparr>t_continued_to := Some (t_task_id child), t_revision := t_revision parent + 1,
                     t_updated_at := ts\<rparr>" "task_identity_ok lp"
    "tasks' = AList.update (t_task_id child) child (AList.update key lp tasks)"
    using assms(5) by (rule link_checked_Inr)
  note e = expect_revision_Inr [OF ok(1) c(1)]
  have new: "canonical_hex (t_task_id child) \<notin> canonical_hex ` stored_ids tasks"
    using contains_task_id_Inr [OF d(2) storable_id [OF child(1)]] c(4) by simp
  then have none: "map_of tasks (t_task_id child) = None" by (auto simp: stored_ids_iff)
  have keyin: "key \<in> stored_ids tasks" using e(1) by (auto simp: stored_ids_iff)
  have lp: "storable lp" using storable_linked [OF e(5) c(8,9,10)] .
  have fields: "t_task_id lp = key" "t_state lp = COMPLETED"
    "t_continued_to lp = Some (t_task_id child)"
    "t_continued_from lp = t_continued_from parent"
    "same_task_scope lp q = same_task_scope parent q"
    "same_task_scope q lp = same_task_scope q parent" for q
    using e(4) c(2) by (simp_all add: c(9) same_task_scope_def)
  have "graph_ok tasks'" unfolding c(11)
    by (rule graph_ok_link [OF d(3) _ e(1) c(3,2) none refl])
       (use d(6) c(5,6) child(2) fields e(4) in auto)
  moreover have "ids_ok tasks'"
  proof -
    have same: "stored_ids (AList.update key lp tasks) = stored_ids tasks" using keyin by auto
    then have "ids_ok (AList.update key lp tasks)" using d(2) unfolding ids_ok_def by simp
    moreover have "canonical_hex (t_task_id child) \<notin> canonical_hex ` stored_ids (AList.update key lp tasks)"
      using new unfolding same .
    ultimately show ?thesis unfolding c(11) by (rule ids_ok_insert [OF _ storable_id [OF child(1)]])
  qed
  moreover have "entries_ok tasks'" unfolding c(11)
    using entries_ok_update [OF entries_ok_update [OF d(1) fields(1) lp] refl child(1)] .
  moreover have "exclusive tasks'" unfolding c(11)
  proof (rule exclusive_update)
    show "exclusive (AList.update key lp tasks)"
      by (rule exclusive_update [OF ok(2)]) (simp add: fields(2) ACTIVE_STATES_def)
    show "active child \<Longrightarrow> \<forall>k q. map_of (AList.update key lp tasks) k = Some q
        \<longrightarrow> k \<noteq> t_task_id child \<longrightarrow> active q \<longrightarrow> t_execution_channel_id q \<noteq> t_execution_channel_id child"
      using c(7) ensure_available_iff [OF d(4,5), of child None] fields(2)
      by (auto simp: ACTIVE_STATES_def)
  qed
  ultimately show ?thesis by (simp add: tasks_ok_def)
qed

section \<open>Start-up\<close>

definition reconciled :: "string \<Rightarrow> task_record \<Rightarrow> task_record" where
  "reconciled ts r = (case reconcile r ts of
      Inl _ \<Rightarrow> r
    | Inr r' \<Rightarrow> if r' = r then r else r'\<lparr>t_revision := t_revision r + 1\<rparr>)"

lemma reconciled_Inr:
  assumes "reconcile r ts = Inr r'"
  shows "r' = r \<Longrightarrow> reconciled ts r = r"
    and "r' \<noteq> r \<Longrightarrow> reconciled ts r = r'\<lparr>t_revision := t_revision r + 1\<rparr>"
  using assms by (simp_all add: reconciled_def)

lemma delivery_retry_disabled_Inr:
  "delivery_retry_disabled fo = Inr f \<Longrightarrow> valid_failure f \<and> f_retry_mode f = NO_RETRY
     \<and> (\<forall>g. fo = Some g \<longrightarrow> f_category f = f_category g) \<and> (fo = None \<longrightarrow> f_category f = DISCORD_DELIVERY)"
  by (auto simp: delivery_retry_disabled_def make_failure_def valid_failure_def split: option.splits if_splits)

lemma claimed_fields:
  assumes "valid_task r" and "claim_interruption r c = Inr q"
  shows "immutable_fields q = immutable_fields r" "t_revision q = t_revision r" "t_failure q = t_failure r"
    "t_state q = t_state r" "t_created_at q = t_created_at r"
  using assms by (auto simp: claim_interruption_Inr immutable_fields_def split: if_splits)

text \<open>What start-up makes of one record: nothing of its identity changes, it stays storable, and
  it is not active afterwards.\<close>

lemma reconcile_effect:
  assumes "storable r" and "utc_text ts" and "reconcile r ts = Inr r'"
  shows "storable r'" and "immutable_fields r' = immutable_fields r" and "t_revision r' = t_revision r"
    and "\<not> active r'" and "t_state r = COMPLETED \<Longrightarrow> r' = r"
proof -
  have v: "valid_task r" and created: "utc_text (t_created_at r)"
    and old: "\<forall>f \<in> set_option (t_failure r). valid_failure f"
    using assms(1) by (auto simp: storable_def valid_task_iff)
  have made: "storable q \<and> q = q'" if "make_task_record q' = Inr q" "utc_text (t_updated_at q')"
    "t_created_at q' = t_created_at r" "\<forall>f \<in> set_option (t_failure q'). valid_failure f" for q q'
    using that created by (auto simp: make_task_record_Inr storable_def valid_task_iff)
  consider (claim) q where "t_state r \<in> {RECOVERING, STARTING, RUNNING, STOPPING}"
      "claim_interruption r GATEWAY_RESTART = Inr q"
      "make_task_record (q\<lparr>t_state := INTERRUPTED, t_updated_at := ts\<rparr>) = Inr r'"
    | (delivered) "t_state r = DELIVERING"
      "make_task_record (r\<lparr>t_state := COMPLETED, t_updated_at := ts, t_failure := None\<rparr>) = Inr r'"
    | (undelivered) f where "t_state r = DELIVERING" "valid_failure f"
      "make_task_record (r\<lparr>t_state := DELIVERY_FAILED, t_updated_at := ts, t_failure := Some f\<rparr>) = Inr r'"
    | (disabled) f where "t_state r = DELIVERY_FAILED" "valid_failure f"
      "make_task_record (r\<lparr>t_updated_at := ts, t_failure := Some f\<rparr>) = Inr r'"
    | (same) "t_state r \<notin> set ACTIVE_STATES" "r' = r"
    using assms(3) delivery_retry_disabled_Inr [of "t_failure r"]
    by (cases "t_state r")
       (auto simp: reconcile_def and_then_eq_Inr ACTIVE_STATES_def split: if_splits)
  then have "storable r' \<and> immutable_fields r' = immutable_fields r \<and> t_revision r' = t_revision r
     \<and> \<not> active r' \<and> (t_state r = COMPLETED \<longrightarrow> r' = r)"
  proof cases
    case claim
    note c = claimed_fields [OF v claim(2)]
    have "storable r' \<and> r' = q\<lparr>t_state := INTERRUPTED, t_updated_at := ts\<rparr>"
      using made [OF claim(3)] assms(2) c old by auto
    with c claim(1) show ?thesis by (auto simp: immutable_fields_def ACTIVE_STATES_def)
  next
    case delivered
    from made [OF delivered(2)] assms(2) delivered(1) show ?thesis
      by (auto simp: immutable_fields_def ACTIVE_STATES_def)
  next
    case undelivered
    from made [OF undelivered(3)] assms(2) undelivered(1,2) show ?thesis
      by (auto simp: immutable_fields_def ACTIVE_STATES_def)
  next
    case disabled
    from made [OF disabled(3)] assms(2) disabled(1,2) show ?thesis
      by (auto simp: immutable_fields_def ACTIVE_STATES_def)
  next
    case same
    with assms(1) show ?thesis by simp
  qed
  then show "storable r'" and "immutable_fields r' = immutable_fields r"
    and "t_revision r' = t_revision r" and "\<not> active r'" and "t_state r = COMPLETED \<Longrightarrow> r' = r" by blast+
qed

lemma reconciled_effect:
  assumes "storable r" and "utc_text ts" and "\<not> isl (reconcile r ts)"
  shows "storable (reconciled ts r)" and "same_links r (reconciled ts r)" and "\<not> active (reconciled ts r)"
    and "t_execution_channel_id (reconciled ts r) = t_execution_channel_id r"
proof -
  obtain r' where r': "reconcile r ts = Inr r'" using assms(3) by (cases "reconcile r ts") auto
  note e = reconcile_effect [OF assms(1,2) r']
  have f: "reconciled ts r = r \<or> reconciled ts r = r'\<lparr>t_revision := t_revision r + 1\<rparr>"
    using reconciled_Inr [OF r'] by blast
  have l: "same_links r (r'\<lparr>t_revision := t_revision r + 1\<rparr>)"
    using e(2,5) by (intro immutable_same_links) auto
  show "storable (reconciled ts r)"
    using f e(1) assms(1) storable_revision [of r'] storable_revision_nonneg [OF assms(1)] by auto
  show "same_links r (reconciled ts r)" using f l by auto
  show "\<not> active (reconciled ts r)"
    using e(4) reconciled_Inr [OF r'] by (cases "r' = r") auto
  show "t_execution_channel_id (reconciled ts r) = t_execution_channel_id r"
    using f e(2) by (auto simp: immutable_fields_def)
qed

lemma reconciled_changed:
  "reconcile r ts = Inr r' \<Longrightarrow> reconciled ts r = r \<longleftrightarrow> r' = r"
  by (cases "r' = r") (auto simp: reconciled_def dest!: arg_cong [of _ _ t_revision])

lemma reconcile_loop_spec:
  assumes "reconcile_loop ts items tasks changed = Inr (tasks', changed')" and "dict_wf items"
    and "\<forall>k r. map_of items k = Some r \<longrightarrow> map_of tasks k = Some r" and "dict_wf tasks"
  shows "dict_wf tasks' \<and> (\<forall>k. map_of tasks' k =
      (case map_of items k of Some r \<Rightarrow> Some (reconciled ts r) | None \<Rightarrow> map_of tasks k))
    \<and> (\<forall>r \<in> set (dict_values items). \<not> isl (reconcile r ts))
    \<and> changed' = changed @ map (reconciled ts) (filter (\<lambda>r. reconciled ts r \<noteq> r) (dict_values items))"
  using assms
proof (induction ts items tasks changed rule: reconcile_loop.induct)
  case (1 ts tasks changed)
  then show ?case by simp
next
  case (2 ts key r items tasks changed)
  from 2(3) obtain r' where r': "reconcile r ts = Inr r'" by (auto simp: and_then_eq_Inr)
  have none: "map_of items key = None" using 2(4) by (simp add: map_of_eq_None_iff)
  have others: "\<forall>k q. map_of items k = Some q \<longrightarrow> map_of tasks k = Some q"
    using 2(5) none by (metis map_of_Cons_code(2) option.distinct(1))
  have keyr: "map_of tasks key = Some r" using 2(5) by simp
  have wf: "dict_wf items" using 2(4) by simp
  show ?case
  proof (cases "r' = r")
    case True
    with 2(3) r' have "reconcile_loop ts items tasks changed = Inr (tasks', changed')" by simp
    from 2(1) [OF refl this wf others 2(6)] 2(4) True r' none keyr reconciled_changed [OF r']
    show ?thesis by (auto split: option.splits)
  next
    case False
    note rec = reconciled_Inr(2) [OF r' False]
    from 2(3) r' False have run: "reconcile_loop ts items (AList.update key (reconciled ts r) tasks)
        (changed @ [reconciled ts r]) = Inr (tasks', changed')"
      by (auto simp: and_then_eq_Inr make_task_record_Inr rec)
    have "\<forall>k q. map_of items k = Some q \<longrightarrow> map_of (AList.update key (reconciled ts r) tasks) k = Some q"
      using others none by auto
    from 2(2) [OF False run wf this] 2(4,6) r' none reconciled_changed [OF r'] False
    show ?thesis by (auto split: option.splits)
  qed
qed

lemma reconcile_loop_ok:
  assumes ok: "tasks_ok tasks" and "utc_text ts"
    and run: "reconcile_loop ts tasks tasks [] = Inr (tasks', changed)"
  shows "tasks_ok tasks' \<and> (\<forall>k r. map_of tasks' k = Some r \<longrightarrow> \<not> active r)"
    and "map_of tasks' k = map_option (reconciled ts) (map_of tasks k)"
    and "changed = map (reconciled ts) (filter (\<lambda>r. reconciled ts r \<noteq> r) (dict_values tasks))"
proof -
  note d = tasks_okD [OF ok]
  note spec = reconcile_loop_spec [OF run d(4) _ d(4)]
  show map: "map_of tasks' k = map_option (reconciled ts) (map_of tasks k)" for k
    using spec by (auto split: option.splits)
  show "changed = map (reconciled ts) (filter (\<lambda>r. reconciled ts r \<noteq> r) (dict_values tasks))"
    using spec by simp
  have good: "storable (reconciled ts r)" "same_links r (reconciled ts r)" "\<not> active (reconciled ts r)"
    if "map_of tasks k = Some r" for k r
    using reconciled_effect [OF d(7) [OF that] assms(2)] spec map_of_in_values [OF that] by auto
  have img: "\<exists>q. map_of tasks k = Some q \<and> r = reconciled ts q" if "map_of tasks' k = Some r" for k r
    using that map [of k] by auto
  have "entries_ok tasks'" unfolding entries_ok_def
  proof (intro conjI allI impI)
    show "dict_wf tasks'" using spec by blast
    fix k r assume "map_of tasks' k = Some r"
    from img [OF this] obtain q where q: "map_of tasks k = Some q" "r = reconciled ts q" by blast
    show "t_task_id r = k" using good(2) [OF q(1)] d(6) [OF q(1)] q(2) by (simp add: same_links_def)
    show "storable r" using good(1) [OF q(1)] q(2) by simp
  qed
  moreover have "ids_ok tasks'"
  proof -
    have "stored_ids tasks' = stored_ids tasks" by (auto simp: stored_ids_iff map)
    then show ?thesis using d(2) by (simp add: ids_ok_def)
  qed
  moreover have "graph_ok tasks'"
  proof (rule graph_ok_same_links [OF d(3)])
    fix k show "rel_option same_links (map_of tasks k) (map_of tasks' k)"
      unfolding map using good(2) [of k] by (cases "map_of tasks k") auto
  qed
  moreover have "\<not> active r" if "map_of tasks' k = Some r" for k r
    using img [OF that] good(3) by blast
  ultimately show "tasks_ok tasks' \<and> (\<forall>k r. map_of tasks' k = Some r \<longrightarrow> \<not> active r)"
    unfolding tasks_ok_def by blast
qed

end
