(* ===== verification/TaskForget.thy ===== *)
theory TaskForget
  imports TaskStoreInv
begin

text \<open>
  Forgetting a task (\<open>discord_task_store_mutations.py\<close>): on a good store it cannot fail, removes
  exactly the one task, unlinks its neighbours in the continuation chain and leaves a good store.
\<close>

definition cut_links :: "string \<Rightarrow> string \<Rightarrow> task_record \<Rightarrow> task_record" where
  "cut_links key ts r =
    (if Some key \<in> {t_continued_from r, t_continued_to r}
     then r\<lparr>t_continued_from := (if t_continued_from r = Some key then None else t_continued_from r),
            t_continued_to := (if t_continued_to r = Some key then None else t_continued_to r),
            t_revision := t_revision r + 1, t_updated_at := ts\<rparr>
     else r)"

lemma cut_fields [simp]:
  "t_task_id (cut_links key ts r) = t_task_id r" "t_state (cut_links key ts r) = t_state r"
  "t_execution_channel_id (cut_links key ts r) = t_execution_channel_id r"
  "same_task_scope (cut_links key ts r) q = same_task_scope r q"
  "same_task_scope q (cut_links key ts r) = same_task_scope q r"
  "t_continued_to (cut_links key ts r) = (if t_continued_to r = Some key then None else t_continued_to r)"
  "t_continued_from (cut_links key ts r) = (if t_continued_from r = Some key then None else t_continued_from r)"
  by (auto simp: cut_links_def same_task_scope_def)

lemma storable_cut:
  assumes "storable r" and "utc_text ts" and "aware_text ts"
  shows "storable (cut_links key ts r)"
  using assms
  by (auto simp: cut_links_def storable_def valid_task_iff task_progress_ok_def task_identity_ok_def bad_uuid_def)

lemma graph_ok_cut:
  assumes ok: "tasks_ok tasks"
    and m: "\<And>k. map_of u k = (if k = key then None else map_option (cut_links key ts) (map_of tasks k))"
  shows "graph_ok u"
proof (rule graph_okI)
  note d = tasks_okD [OF ok]
  fix a q' assume "map_of u a = Some q'"
  then obtain q where q: "a \<noteq> key" "map_of tasks a = Some q" "q' = cut_links key ts q"
    by (auto simp: m split: if_splits)
  have l: "links_ok tasks q" by (rule graph_okD(1) [OF d(3) q(2)])
  have id: "t_task_id q \<noteq> key" using d(6) [OF q(2)] q(1) by simp
  have img: "x \<noteq> key \<Longrightarrow> map_of tasks x = Some g \<Longrightarrow> map_of u x = Some (cut_links key ts g)" for x g
    by (simp add: m)
  show "links_ok u q'"
    unfolding links_ok_def
  proof (intro conjI allI impI)
    fix c assume "t_continued_to q' = Some c"
    then have c: "t_continued_to q = Some c" "c \<noteq> key" by (auto simp: q(3) split: if_splits)
    from l c(1) obtain g where g: "map_of tasks c = Some g" "t_continued_from g = Some (t_task_id q)"
      "same_task_scope q g" "t_state q = COMPLETED" by (auto simp: links_ok_def)
    show "t_state q' = COMPLETED" using g(4) by (simp add: q(3))
    show "\<exists>g. map_of u c = Some g \<and> t_continued_from g = Some (t_task_id q') \<and> same_task_scope q' g"
      using img [OF c(2) g(1)] g(2,3) id by (simp add: q(3))
  next
    fix p assume "t_continued_from q' = Some p"
    then have p: "t_continued_from q = Some p" "p \<noteq> key" by (auto simp: q(3) split: if_splits)
    from l p(1) obtain g where g: "map_of tasks p = Some g" "t_continued_to g = Some (t_task_id q)"
      "t_state g = COMPLETED" "same_task_scope g q" by (auto simp: links_ok_def)
    show "\<exists>g. map_of u p = Some g \<and> t_continued_to g = Some (t_task_id q') \<and> t_state g = COMPLETED
        \<and> same_task_scope g q'"
      using img [OF p(2) g(1)] g(2-4) id by (simp add: q(3))
  qed
  show "ends u a"
    by (rule ends_transfer [OF graph_okD(2) [OF d(3) q(2)], where Q = "\<lambda>x. x \<noteq> key"])
       (use q(1) in \<open>auto simp: m\<close>)
qed

text \<open>The two neighbours are there, are different, and the others are not touched.\<close>

lemma unlink_parent_total:
  assumes "map_of tasks p = Some g" and "t_task_id g = p" and "t_continued_to g = Some key"
    and "t_continued_from g \<noteq> Some key" and "storable g" and "utc_text ts" and "aware_text ts"
  shows "unlink_parent tasks p ts = Inr (AList.update p (cut_links key ts g) tasks, cut_links key ts g)"
proof -
  have e: "g\<lparr>t_continued_to := None, t_revision := t_revision g + 1, t_updated_at := ts\<rparr> = cut_links key ts g"
    using assms(3,4) by (simp add: cut_links_def)
  have "storable (cut_links key ts g)" using storable_cut assms(5-7) by blast
  then have "make_task_record (cut_links key ts g) = Inr (cut_links key ts g)"
    by (simp add: make_task_record_Inr storable_def valid_task_iff)
  then show ?thesis unfolding unlink_parent_def e [symmetric] using assms(1,2) e
    by (simp add: dict_lookup_def)
qed

lemma unlink_child_total:
  assumes "map_of tasks c = Some g" and "t_task_id g = c" and "t_continued_from g = Some key"
    and "t_continued_to g \<noteq> Some key" and "storable g" and "utc_text ts" and "aware_text ts"
  shows "unlink_child tasks c ts = Inr (AList.update c (cut_links key ts g) tasks, cut_links key ts g)"
proof -
  have e: "g\<lparr>t_continued_from := None, t_revision := t_revision g + 1, t_updated_at := ts\<rparr> = cut_links key ts g"
    using assms(3,4) by (simp add: cut_links_def)
  have "storable (cut_links key ts g)" using storable_cut assms(5-7) by blast
  then have "make_task_record (cut_links key ts g) = Inr (cut_links key ts g)"
    by (simp add: make_task_record_Inr storable_def valid_task_iff)
  then show ?thesis unfolding unlink_child_def e [symmetric] using assms(1,2) e
    by (simp add: dict_lookup_def)
qed

lemma linked_both_ways:
  assumes "tasks_ok tasks" and "map_of tasks a = Some r" and "map_of tasks b = Some q"
  shows "t_continued_to r = Some b \<longleftrightarrow> t_continued_from q = Some a"
    and "t_continued_to r = Some b \<Longrightarrow> t_continued_from r \<noteq> Some b"
proof -
  note d = tasks_okD [OF assms(1)]
  show iff: "t_continued_to r = Some b \<longleftrightarrow> t_continued_from q = Some a"
    using graph_okD(1) [OF d(3) assms(2)] graph_okD(1) [OF d(3) assms(3)] d(6) [OF assms(2)]
      d(6) [OF assms(3)] assms(2,3) by (auto simp: links_ok_def)
  show "t_continued_from r \<noteq> Some b" if to: "t_continued_to r = Some b"
  proof
    assume "t_continued_from r = Some b"
    then have "t_continued_to q = Some a"
      using graph_okD(1) [OF d(3) assms(2)] d(6) [OF assms(2)] assms(3) by (auto simp: links_ok_def)
    with to assms(2,3) have "(a, b) \<in> continuation tasks" "(b, a) \<in> continuation tasks"
      by (auto simp: continuation_def)
    then have "(a, a) \<in> (continuation tasks)\<^sup>+" by (meson trancl.simps)
    with ends_no_cycle [OF graph_okD(2) [OF d(3) assms(2)]] show False by blast
  qed
qed

text \<open>The task gone and the links of some of its neighbours cut.\<close>

definition cut_in :: "tasks \<Rightarrow> string \<Rightarrow> string \<Rightarrow> string set \<Rightarrow> tasks \<Rightarrow> bool" where
  "cut_in tasks key ts S u \<longleftrightarrow> dict_wf u \<and> (\<forall>k. map_of u k =
     (if k = key then None else if k \<in> S then map_option (cut_links key ts) (map_of tasks k)
      else map_of tasks k))"

definition reported :: "tasks \<Rightarrow> task_record list \<Rightarrow> string list \<Rightarrow> bool" where
  "reported u n ids \<longleftrightarrow> map t_task_id n = ids \<and> (\<forall>r \<in> set n. map_of u (t_task_id r) = Some r)"

definition opt_list :: "'a option \<Rightarrow> 'a list" where
  "opt_list v = (case v of None \<Rightarrow> [] | Some x \<Rightarrow> [x])"

lemma unlink_parent_step:
  assumes ok: "tasks_ok tasks" and t: "map_of tasks key = Some target"
    and ts: "utc_text ts" "aware_text ts"
  shows "\<exists>u n. (case t_continued_from target of None \<Rightarrow> Inr (AList.delete key tasks, [])
      | Some p \<Rightarrow> and_then (unlink_parent (AList.delete key tasks) p ts) (\<lambda>(u, r). Inr (u, [r]))) = Inr (u, n)
    \<and> cut_in tasks key ts (set_option (t_continued_from target)) u
    \<and> reported u n (opt_list (t_continued_from target))"
proof (cases "t_continued_from target")
  case None
  with tasks_okD(4) [OF ok] show ?thesis by (auto simp: cut_in_def reported_def opt_list_def)
next
  case (Some p)
  note d = tasks_okD [OF ok]
  let ?u = "AList.delete key tasks"
  obtain g where g: "map_of tasks p = Some g"
    using links_of_dom [OF d(3) t, of p] Some by (auto simp: links_of_def)
  have to: "t_continued_to g = Some key" using linked_both_ways(1) [OF ok g t] Some by simp
  then have not_from: "t_continued_from g \<noteq> Some key" using linked_both_ways(2) [OF ok g t] by simp
  have pk: "p \<noteq> key"
    using Some d(6,7) [OF t] by (auto simp: storable_def valid_task_iff task_identity_ok_def)
  then have gu: "map_of ?u p = Some g" using g by simp
  have un: "unlink_parent ?u p ts = Inr (AList.update p (cut_links key ts g) ?u, cut_links key ts g)"
    by (rule unlink_parent_total [OF gu d(6) [OF g] to not_from d(7) [OF g] ts])
  have "cut_in tasks key ts {p} (AList.update p (cut_links key ts g) ?u)"
    using d(4) g pk by (simp add: cut_in_def)
  with un d(6) [OF g] show ?thesis by (simp add: Some reported_def opt_list_def)
qed

lemma unlink_child_step:
  assumes ok: "tasks_ok tasks" and t: "map_of tasks key = Some target"
    and ts: "utc_text ts" "aware_text ts"
    and u: "cut_in tasks key ts (set_option (t_continued_from target)) u"
    and n: "reported u n (opt_list (t_continued_from target))"
  shows "\<exists>u' n'. (case t_continued_to target of None \<Rightarrow> Inr (u, n)
      | Some c \<Rightarrow> and_then (unlink_child u c ts) (\<lambda>(u, r). Inr (u, n @ [r]))) = Inr (u', n')
    \<and> cut_in tasks key ts (links_of target) u'
    \<and> reported u' n' (opt_list (t_continued_from target) @ opt_list (t_continued_to target))"
proof (cases "t_continued_to target")
  case None
  with u n show ?thesis by (simp add: links_of_def opt_list_def)
next
  case (Some c)
  note d = tasks_okD [OF ok]
  obtain g where g: "map_of tasks c = Some g"
    using links_of_dom [OF d(3) t, of c] Some by (auto simp: links_of_def)
  have fr: "t_continued_from g = Some key" using linked_both_ways(1) [OF ok t g] Some by simp
  have other: "t_continued_from target \<noteq> Some c" using linked_both_ways(2) [OF ok t g] Some by simp
  then have not_to: "t_continued_to g \<noteq> Some key" using linked_both_ways(1) [OF ok g t] by simp
  have ck: "c \<noteq> key"
    using Some d(6,7) [OF t] by (auto simp: storable_def valid_task_iff task_identity_ok_def)
  have gu: "map_of u c = Some g" using u g ck other by (auto simp: cut_in_def)
  have un: "unlink_child u c ts = Inr (AList.update c (cut_links key ts g) u, cut_links key ts g)"
    by (rule unlink_child_total [OF gu d(6) [OF g] fr not_to d(7) [OF g] ts])
  have "cut_in tasks key ts (links_of target) (AList.update c (cut_links key ts g) u)"
    using u g ck Some by (auto simp: cut_in_def links_of_def)
  moreover have "\<forall>r \<in> set n. t_task_id r \<noteq> c"
    using n other by (cases "t_continued_from target") (auto simp: reported_def opt_list_def)
  then have "reported (AList.update c (cut_links key ts g) u) (n @ [cut_links key ts g])
      (opt_list (t_continued_from target) @ [c])"
    using n d(6) [OF g] by (auto simp: reported_def)
  ultimately show ?thesis using un by (simp add: Some opt_list_def)
qed

lemma cut_in_all:
  assumes ok: "tasks_ok tasks" and t: "map_of tasks key = Some target"
    and "cut_in tasks key ts (links_of target) u"
  shows "map_of u k = (if k = key then None else map_option (cut_links key ts) (map_of tasks k))"
proof (cases "map_of tasks k")
  case None
  with assms(3) show ?thesis by (simp add: cut_in_def)
next
  case (Some r)
  have "Some key \<in> {t_continued_from r, t_continued_to r} \<longleftrightarrow> k \<in> links_of target"
    using linked_both_ways(1) [OF ok t Some] linked_both_ways(1) [OF ok Some t]
    by (auto simp: links_of_def)
  with assms(3) Some show ?thesis by (auto simp: cut_in_def cut_links_def)
qed

lemma forget_inactive_total:
  assumes ok: "tasks_ok tasks" and t: "map_of tasks key = Some target" "\<not> active target"
    and ts: "utc_text ts" "aware_text ts"
  shows "\<exists>u n. forget_inactive_task tasks key ts = Inr (u, n) \<and> tasks_ok u
    \<and> (\<forall>k. map_of u k = (if k = key then None else map_option (cut_links key ts) (map_of tasks k)))
    \<and> reported u n (opt_list (t_continued_from target) @ opt_list (t_continued_to target))"
proof -
  note d = tasks_okD [OF ok]
  obtain u1 n1 where u1: "(case t_continued_from target of None \<Rightarrow> Inr (AList.delete key tasks, [])
      | Some p \<Rightarrow> and_then (unlink_parent (AList.delete key tasks) p ts) (\<lambda>(u, r). Inr (u, [r]))) = Inr (u1, n1)"
    "cut_in tasks key ts (set_option (t_continued_from target)) u1"
    "reported u1 n1 (opt_list (t_continued_from target))"
    using unlink_parent_step [OF ok t(1) ts] by blast
  obtain u n where u: "(case t_continued_to target of None \<Rightarrow> Inr (u1, n1)
      | Some c \<Rightarrow> and_then (unlink_child u1 c ts) (\<lambda>(u, r). Inr (u, n1 @ [r]))) = Inr (u, n)"
    "cut_in tasks key ts (links_of target) u"
    "reported u n (opt_list (t_continued_from target) @ opt_list (t_continued_to target))"
    using unlink_child_step [OF ok t(1) ts u1(2,3)] by blast
  have wf: "dict_wf u" using u(2) by (simp add: cut_in_def)
  note m = cut_in_all [OF ok t(1) u(2)]
  have g: "graph_ok u" by (rule graph_ok_cut [OF ok m])
  then have "validate_continuation_graph u = Inr ()" using validate_graph_iff [OF wf] by blast
  then have "forget_inactive_task tasks key ts = Inr (u, n)"
    unfolding forget_inactive_task_def using t u1(1) u(1) by (simp add: dict_lookup_def Let_def)
  moreover have "entries_ok u"
    unfolding entries_ok_def
  proof (intro conjI allI impI)
    show "dict_wf u" by (rule wf)
    fix k r' assume "map_of u k = Some r'"
    then obtain r where r: "map_of tasks k = Some r" "r' = cut_links key ts r"
      by (auto simp: m split: if_splits)
    show "t_task_id r' = k" using d(6) [OF r(1)] r(2) by simp
    show "storable r'" using storable_cut [OF d(7) [OF r(1)] ts] r(2) by simp
  qed
  moreover have "stored_ids u \<subseteq> stored_ids tasks" by (auto simp: stored_ids_iff m split: if_splits)
  ultimately show ?thesis using g m u(3) ids_ok_subset [OF d(2)] unfolding tasks_ok_def by blast
qed

text \<open>
  C26. On a store that satisfies its invariant, forgetting an inactive task given with its
  current revision under any spelling of its identifier computes, without failing, the store
  with exactly that task removed and its neighbours in the continuation chain unlinked, one
  revision further; only these neighbours are reported; the result satisfies the invariant.
\<close>

theorem forget_exact:
  assumes "tasks_ok tasks" and "map_of tasks key = Some target" and "\<not> active target"
    and "canonical_hex task_id = canonical_hex key" and "timestamp_text now = Inr ts"
  shows "\<exists>u n. forget_checked tasks task_id (t_revision target) now = Inr (u, n) \<and> tasks_ok u
    \<and> (\<forall>k. map_of u k = (if k = key then None else map_option (cut_links key ts) (map_of tasks k)))
    \<and> reported u n (opt_list (t_continued_from target) @ opt_list (t_continued_to target))"
proof -
  note d = tasks_okD [OF assms(1)]
  have "key \<in> stored_ids tasks" using assms(2) by (auto simp: stored_ids_iff)
  then have "lookup_task_key tasks task_id = Inr key"
    using lookup_task_key_finds [OF d(2)] assms(4) by blast
  then have "expect_revision tasks task_id (t_revision target) = Inr (key, target)"
    using assms(2) storable_revision_nonneg [OF d(7) [OF assms(2)]]
    by (simp add: expect_revision_def dict_lookup_def)
  then have "forget_checked tasks task_id (t_revision target) now = forget_inactive_task tasks key ts"
    using assms(5) by (simp add: forget_checked_def)
  then show ?thesis
    using forget_inactive_total [OF assms(1-3) timestamp_text_utc [OF assms(5)]] by simp
qed

text \<open>Forgetting the first task of a chain of two, once the second has finished.\<close>

definition finished_chain :: tasks where
  "finished_chain = map (\<lambda>(k, r). (k, r\<lparr>t_state := COMPLETED\<rparr>)) example_chain"

lemma finished_chain_ok: "tasks_ok finished_chain"
proof -
  have wf: "dict_wf finished_chain" by code_simp
  have "\<forall>(k, r) \<in> set finished_chain. t_task_id r = k \<and> storable r" by code_simp
  then have e: "entries_ok finished_chain" using wf by (auto simp: entries_ok_def dest!: map_of_SomeD)
  have "validate_unique_task_ids finished_chain = Inr ()" by code_simp
  moreover have "canonical_hex k \<noteq> None" if "k \<in> stored_ids finished_chain" for k
    using that entries_okD(3,4) [OF e] storable_id by (metis stored_ids_iff)
  ultimately have "ids_ok finished_chain" using validate_unique_iff [OF wf] by blast
  moreover have "validate_continuation_graph finished_chain = Inr ()" by code_simp
  then have "graph_ok finished_chain" using validate_graph_iff [OF wf] by blast
  ultimately show ?thesis using e by (simp add: tasks_ok_def)
qed

theorem forget_exact_witness:
  "\<exists>u n. forget_checked finished_chain ''00000000-0000-0000-0000-000000000001'' 0 example_now = Inr (u, n)
     \<and> tasks_ok u \<and> map t_task_id n = [''00000000000000000000000000000002'']
     \<and> map_of u (t_task_id example_task) = None"
proof -
  let ?r = "example_task\<lparr>t_state := COMPLETED, t_continued_to := Some ''00000000000000000000000000000002''\<rparr>"
  have m: "map_of finished_chain (t_task_id example_task) = Some ?r" and na: "\<not> active ?r"
    and c: "canonical_hex ''00000000-0000-0000-0000-000000000001'' = canonical_hex (t_task_id example_task)"
    and ts: "timestamp_text example_now = Inr ''2026-07-17T10:00:00+00:00''"
    by code_simp+
  have "t_revision ?r = 0" "t_continued_from ?r = None" "t_continued_to ?r = Some ''00000000000000000000000000000002''"
    by (simp_all add: example_task_def)
  with forget_exact [OF finished_chain_ok m na c ts] show ?thesis
    by (fastforce simp: reported_def opt_list_def)
qed

end
