(* ===== verification/Interfaces.thy ===== *)
theory Interfaces
  imports Prelude
begin

text \<open>
  The contracts between the components, as locales: a state machine with an invariant, and a
  store whose records carry a revision and are changed by compare-and-set. The facts a client
  needs are proved here once, from the contract; the stores interpret the locales in their own
  theories.
\<close>

section \<open>A component with an invariant\<close>

locale invariant_system =
  fixes step :: "'s \<Rightarrow> 's \<Rightarrow> bool" and inv :: "'s \<Rightarrow> bool"
  assumes step_inv: "step s s' \<Longrightarrow> inv s \<Longrightarrow> inv s'"
begin

lemma reachable_inv: "step\<^sup>*\<^sup>* s s' \<Longrightarrow> inv s \<Longrightarrow> inv s'"
  by (induction rule: rtranclp_induct) (auto intro: step_inv)

end

section \<open>Compare-and-set on revisioned records\<close>

text \<open>
  \<open>cas e s k n f\<close> applies \<open>f\<close> to the record under \<open>k\<close> when its revision is \<open>n\<close>; \<open>e\<close> is the
  environment of the call (clock, I/O faults).
\<close>

locale cas_store =
  fixes get :: "'s \<Rightarrow> 'k \<Rightarrow> 'r result"
    and revision :: "'r \<Rightarrow> int"
    and cas :: "'e \<Rightarrow> 's \<Rightarrow> 'k \<Rightarrow> int \<Rightarrow> ('r \<Rightarrow> 'r result) \<Rightarrow> 'r result \<times> 's"
    and inv :: "'s \<Rightarrow> bool"
    and preserves :: "('r \<Rightarrow> 'r result) \<Rightarrow> bool"
  assumes cas_inv: "inv s \<Longrightarrow> preserves f \<Longrightarrow> inv (snd (cas e s k n f))"
    and cas_success: "inv s \<Longrightarrow> cas e s k n f = (Inr r, s') \<Longrightarrow>
          \<exists>cur. get s k = Inr cur \<and> revision cur = n \<and> revision r = n + 1"
    and cas_reads_back: "inv s \<Longrightarrow> preserves f \<Longrightarrow> cas e s k n f = (Inr r, s') \<Longrightarrow>
          get s' k = Inr r \<or> (\<exists>x. get s' k = Inl x)"
    and cas_refused: "inv s \<Longrightarrow> (\<nexists>cur. get s k = Inr cur \<and> revision cur = n) \<Longrightarrow>
          \<exists>x. cas e s k n f = (Inl x, s)"
begin

text \<open>Of two updates computed from the same revision at most one is applied.\<close>

lemma no_lost_update:
  assumes "inv s" and "preserves f" and "cas e s k n f = (Inr r, s')"
  shows "\<exists>x. cas e' s' k n g = (Inl x, s')"
proof -
  have s': "inv s'" using cas_inv [OF assms(1,2), of e k n] assms(3) by simp
  have "revision r = n + 1" using cas_success [OF assms(1,3)] by blast
  then have "\<nexists>cur. get s' k = Inr cur \<and> revision cur = n"
    using cas_reads_back [OF assms(1-3)] by auto
  with cas_refused [OF s'] show ?thesis by blast
qed

end

end
