(* ===== verification/TaskStoreProps.thy ===== *)
theory TaskStoreProps
  imports TaskForget Interfaces
begin

text \<open>
  The task store as a whole: its steps, its invariant in every reachable state, compare-and-set
  as an instance of the revisioned-store contract, what each outcome of an operation means for
  memory and disk, and what a restart does, including the two defects the model shows.
\<close>

section \<open>Steps\<close>

text \<open>Update functions that return records the constructor accepts.\<close>

definition update_storable :: "(task_record \<Rightarrow> task_record result) \<Rightarrow> bool" where
  "update_storable f \<longleftrightarrow> (\<forall>r r'. storable r \<longrightarrow> f r = Inr r' \<longrightarrow> storable r')"

definition restart :: "task_store \<Rightarrow> task_store result" where
  "restart st = and_then (load_tasks (ts_directory st)) (\<lambda>tasks. Inr (st\<lparr>ts_tasks := tasks\<rparr>))"

inductive task_step :: "task_store \<Rightarrow> task_store \<Rightarrow> bool" where
  creating: "storable r \<Longrightarrow> task_step st (snd (create_task env st r))"
| updating: "update_storable f \<Longrightarrow> task_step st (snd (compare_and_set env st task_id n f))"
| linking: "storable child \<Longrightarrow> t_continued_to child = None
    \<Longrightarrow> task_step st (snd (link_child env st task_id n child))"
| reconciling: "task_step st (snd (reconcile_startup env st now))"
| forgetting: "task_step st (snd (forget_task env st task_id n))"
| restarting: "restart st = Inr st' \<Longrightarrow> task_step st st'"

inductive_cases task_stepE: "task_step st st'"

lemma create_ok: "store_ok st \<Longrightarrow> storable r \<Longrightarrow> store_ok (snd (create_task env st r))"
  unfolding create_task_def
  by (rule commit_then_ok) (auto simp: store_ok_def dest: create_checked_ok(1))

lemma compare_and_set_ok:
  "store_ok st \<Longrightarrow> update_storable f \<Longrightarrow> store_ok (snd (compare_and_set env st task_id n f))"
  unfolding compare_and_set_def
  by (rule commit_then_ok)
     (use update_checked_ok [of "ts_tasks st" f] in \<open>auto simp: store_ok_def update_storable_def\<close>)

lemma link_child_ok:
  "store_ok st \<Longrightarrow> storable child \<Longrightarrow> t_continued_to child = None
     \<Longrightarrow> store_ok (snd (link_child env st task_id n child))"
  unfolding link_child_def
  by (rule commit_then_ok) (auto simp: store_ok_def dest: link_checked_ok)

lemma reconcile_startup_ok:
  assumes "store_ok st"
  shows "store_ok (snd (reconcile_startup env st now))"
proof (cases "and_then (timestamp_text now) (\<lambda>ts. reconcile_loop ts (ts_tasks st) (ts_tasks st) [])")
  case (Inl e)
  with assms show ?thesis by (simp add: reconcile_startup_def)
next
  case (Inr p)
  obtain tasks changed where p: "p = (tasks, changed)" by fastforce
  with Inr obtain ts where ts: "timestamp_text now = Inr ts"
    "reconcile_loop ts (ts_tasks st) (ts_tasks st) [] = Inr (tasks, changed)"
    by (auto simp: and_then_eq_Inr)
  have "tasks_ok (ts_tasks st)" using assms by (simp add: store_ok_def)
  from reconcile_loop_ok(1) [OF this timestamp_text_utc(1) [OF ts(1)] ts(2)]
  have "tasks_ok tasks" "exclusive tasks" by (auto simp: exclusive_def)
  then have "store_ok (snd (commit_then env st (Inr (tasks, changed))))"
    by (intro commit_then_ok [OF assms]) auto
  with assms Inr p show ?thesis by (simp add: reconcile_startup_def)
qed

lemma forget_checked_Inr:
  assumes "forget_checked tasks t n now = Inr (u, ns)"
  obtains key r ts where "expect_revision tasks t n = Inr (key, r)" and "timestamp_text now = Inr ts"
    and "forget_inactive_task tasks key ts = Inr (u, ns)"
  using assms by (auto simp: forget_checked_def and_then_eq_Inr)

lemma forget_ok:
  assumes "store_ok st"
  shows "store_ok (snd (forget_task env st task_id n))"
  unfolding forget_task_def
proof (rule commit_then_ok [OF assms])
  fix tasks ns
  assume f: "forget_checked (ts_tasks st) task_id n (se_now env) = Inr (tasks, ns)"
  have ok: "tasks_ok (ts_tasks st)" "exclusive (ts_tasks st)" using assms by (simp_all add: store_ok_def)
  obtain key r ts where k: "expect_revision (ts_tasks st) task_id n = Inr (key, r)"
    "timestamp_text (se_now env) = Inr ts" "forget_inactive_task (ts_tasks st) key ts = Inr (tasks, ns)"
    using f by (rule forget_checked_Inr)
  note e = expect_revision_Inr [OF ok(1) k(1)]
  have "\<not> active r" using k(3) e(1) by (auto simp: forget_inactive_task_def dict_lookup_def split: if_splits)
  from forget_inactive_total [OF ok(1) e(1) this timestamp_text_utc [OF k(2)]] k(3)
  have "tasks_ok tasks" and m: "\<And>k. map_of tasks k
      = (if k = key then None else map_option (cut_links key ts) (map_of (ts_tasks st) k))" by auto
  moreover have "exclusive tasks"
    using ok(2) unfolding exclusive_def by (auto simp: m split: if_splits)
  ultimately show "tasks_ok tasks \<and> exclusive tasks" by blast
qed

lemma restart_ok:
  assumes "store_ok st" and "restart st = Inr st'"
  shows "store_ok st'"
proof -
  obtain t where t: "load_tasks (ts_directory st) = Inr t" "map_of t = map_of (ts_tasks st)"
    using assms(1) by (auto simp: store_ok_def synced_def)
  with assms(2) have st': "st' = st\<lparr>ts_tasks := t\<rparr>" by (simp add: restart_def)
  have "tasks_ok t" using t(1) by (rule load_tasks_ok)
  moreover have "exclusive t" using assms(1) t(2) by (simp add: store_ok_def exclusive_def)
  ultimately show ?thesis using t by (simp add: st' store_ok_def synced_def)
qed

interpretation task_system: invariant_system task_step store_ok
proof
  fix st st' assume "task_step st st'" and "store_ok st"
  then show "store_ok st'"
    by (cases rule: task_step.cases)
       (auto intro: create_ok compare_and_set_ok link_child_ok reconcile_startup_ok forget_ok restart_ok)
qed

definition empty_store :: task_store where
  "empty_store = \<lparr>ts_tasks = [], ts_directory = \<lparr>sd_document = None, sd_temporary = None\<rparr>\<rparr>"

lemma empty_store_ok: "store_ok empty_store"
  by (simp add: empty_store_def store_ok_def tasks_ok_def entries_ok_def ids_ok_def stored_ids_def
      graph_ok_def exclusive_def synced_def load_tasks_def)

text \<open>
  C1. In every state a new store reaches by creating tasks, updating them with functions that return storable
  records, linking children that have no continuation of their own, reconciling, forgetting and
  restarting, in any order, whatever the clock says and whichever system calls of a write fail, every
  task is stored under its own identifier and accepted by its constructor, the continuation links form a good
  graph, no execution channel has two active tasks, and the file on disk loads to exactly the tasks in
  memory. (\<open>link_child\<close> itself does not refuse a child that is already continued; what happens then is shown at the end
  of this theory.)
\<close>

theorem task_store_invariant:
  assumes "task_step\<^sup>*\<^sup>* empty_store st"
  shows "tasks_ok (ts_tasks st) \<and> exclusive (ts_tasks st) \<and> synced st"
  using task_system.reachable_inv [OF assms empty_store_ok] by (simp add: store_ok_def)

definition example_env :: store_env where
  "example_env = \<lparr>se_now = example_now, se_commit_now = example_now, se_faults = [], se_confirm_faults = []\<rparr>"

lemma example_storable: "storable example_task"
  by code_simp

definition example_store :: task_store where
  "example_store = snd (create_task example_env empty_store example_task)"

lemma example_store_step: "task_step empty_store example_store"
  unfolding example_store_def by (rule task_step.creating [OF example_storable])

lemma example_store_eval:
  "create_task example_env empty_store example_task = (Inr (), example_store)"
  "ts_tasks example_store = [(t_task_id example_task, example_task)]"
  by code_simp+

theorem task_store_invariant_witness:
  "synced example_store \<and> ts_tasks example_store = [(t_task_id example_task, example_task)]"
proof -
  have "task_step\<^sup>*\<^sup>* empty_store example_store" using example_store_step by blast
  from task_store_invariant [OF this] example_store_eval(2) show ?thesis by blast
qed

section \<open>Compare-and-set\<close>

lemma commit_then_outcome:
  assumes "commit_then env st r = (res, st')"
  shows "(\<exists>tasks v. r = Inr (tasks, v) \<and> commit_done env st tasks st' \<and> res \<in> {Inr v, Inl TaskStoreDurabilityError})
     \<or> (commit_undone st st' \<and> (\<exists>e. res = Inl e))"
proof (cases r)
  case (Inl e)
  with assms show ?thesis by (auto simp: commit_then_def commit_undone_def)
next
  case (Inr tv)
  obtain tasks v where tv: "tv = (tasks, v)" by fastforce
  obtain c where c: "commit env st tasks = (c, st')" "res = and_then c (\<lambda>_. Inr v)"
    using assms Inr tv by (auto simp: commit_then_def split: prod.splits)
  from commit_cases [OF c(1)] c(2) Inr tv show ?thesis by auto
qed

lemma commit_done_map:
  assumes "tasks_ok tasks" and "commit_done env st tasks st'"
  shows "map_of (ts_tasks st') k = Some r \<Longrightarrow> map_of tasks k = Some r"
    and "map_of tasks k = Some r \<Longrightarrow> active r \<Longrightarrow> map_of (ts_tasks st') k = Some r"
    and "load_tasks (ts_directory st') = Inr (sorted_dict (ts_tasks st'))"
proof -
  obtain kept where kept: "apply_retention tasks (se_commit_now env) = Inr kept" "ts_tasks st' = kept"
    "sd_document (ts_directory st') = Some (Some (encode_document kept))"
    using assms(2) by (auto simp: commit_done_def)
  note d = tasks_okD [OF assms(1)]
  show "map_of (ts_tasks st') k = Some r \<Longrightarrow> map_of tasks k = Some r"
    using retention_graph_ok(3) [OF d(3,5,4) kept(1)] kept(2) by simp
  show "map_of tasks k = Some r \<Longrightarrow> active r \<Longrightarrow> map_of (ts_tasks st') k = Some r"
    using retention_keeps_active [OF d(3,5,4) kept(1)] kept(2) by simp
  show "load_tasks (ts_directory st') = Inr (sorted_dict (ts_tasks st'))"
    using load_written [OF retained_ok [OF assms(1) kept(1)] kept(3)] kept(2) by simp
qed

lemma get_task_Inr:
  assumes "tasks_ok (ts_tasks st)"
  shows "get_task st t = Inr r \<longleftrightarrow>
    (\<exists>k. map_of (ts_tasks st) k = Some r \<and> canonical_hex t = canonical_hex k)"
proof
  assume "get_task st t = Inr r"
  then show "\<exists>k. map_of (ts_tasks st) k = Some r \<and> canonical_hex t = canonical_hex k"
    using lookup_task_key_Inr [OF tasks_okD(2) [OF assms]]
    by (fastforce simp: get_task_def and_then_eq_Inr dict_lookup_Inr)
next
  assume "\<exists>k. map_of (ts_tasks st) k = Some r \<and> canonical_hex t = canonical_hex k"
  then obtain k where k: "map_of (ts_tasks st) k = Some r" "canonical_hex t = canonical_hex k" by blast
  then have "k \<in> stored_ids (ts_tasks st)" by (auto simp: stored_ids_iff)
  from lookup_task_key_finds [OF tasks_okD(2) [OF assms] this k(2)] k(1)
  show "get_task st t = Inr r" by (simp add: get_task_def dict_lookup_def)
qed

lemma expect_revision_get:
  assumes "tasks_ok (ts_tasks st)" and "expect_revision (ts_tasks st) t n = Inr (key, r)"
  shows "get_task st t = Inr r" and "t_revision r = n"
  using expect_revision_Inr [OF assms] get_task_Inr [OF assms(1)] by auto

lemma cas_outcome:
  assumes "store_ok st" and "compare_and_set env st t n f = (Inr r, st')"
  obtains key current candidate tasks where "expect_revision (ts_tasks st) t n = Inr (key, current)"
    and "f current = Inr candidate" and "validate_update current candidate = Inr ()"
    and "r = candidate\<lparr>t_revision := t_revision current + 1\<rparr>"
    and "tasks = AList.update key r (ts_tasks st)" and "commit_done env st tasks st'"
    and "update_checked (ts_tasks st) t n f = Inr (tasks, r)"
proof -
  obtain tasks where t: "update_checked (ts_tasks st) t n f = Inr (tasks, r)" "commit_done env st tasks st'"
    using commit_then_outcome [OF assms(2) [unfolded compare_and_set_def]] by auto
  from t(1) show thesis by (rule update_checked_Inr) (rule that, use t in auto)
qed

interpretation task_cas: cas_store get_task t_revision compare_and_set store_ok update_storable
proof
  fix st f env t n assume "store_ok st" "update_storable f"
  then show "store_ok (snd (compare_and_set env st t n f))" by (rule compare_and_set_ok)
next
  fix st env t n f r st' assume s: "store_ok st" and c: "compare_and_set env st t n f = (Inr r, st')"
  have ok: "tasks_ok (ts_tasks st)" using s by (simp add: store_ok_def)
  from s c show "\<exists>cur. get_task st t = Inr cur \<and> t_revision cur = n \<and> t_revision r = n + 1"
    by (rule cas_outcome) (use expect_revision_get [OF ok] in auto)
next
  fix st f env t n r st' assume s: "store_ok st" and f: "update_storable f"
    and c: "compare_and_set env st t n f = (Inr r, st')"
  have ok: "tasks_ok (ts_tasks st)" "exclusive (ts_tasks st)" using s by (simp_all add: store_ok_def)
  from s c show "get_task st' t = Inr r \<or> (\<exists>x. get_task st' t = Inl x)"
  proof (rule cas_outcome)
    fix key current candidate tasks
    assume e: "expect_revision (ts_tasks st) t n = Inr (key, current)"
      and tasks: "tasks = AList.update key r (ts_tasks st)" and done_: "commit_done env st tasks st'"
      and u: "update_checked (ts_tasks st) t n f = Inr (tasks, r)"
    have "tasks_ok tasks"
      using update_checked_ok [OF ok _ u] f by (auto simp: update_storable_def)
    have "store_ok st'" using compare_and_set_ok [OF s f, of env t n] c by simp
    have "q = r" if g: "get_task st' t = Inr q" for q
    proof -
      obtain k where k: "map_of (ts_tasks st') k = Some q" "canonical_hex t = canonical_hex k"
        using get_task_Inr [of st' t q] \<open>store_ok st'\<close> g by (auto simp: store_ok_def)
      have new: "map_of tasks k = Some q" using commit_done_map(1) [OF \<open>tasks_ok tasks\<close> done_ k(1)] .
      have key: "map_of tasks key = Some r" by (simp add: tasks)
      have "canonical_hex k = canonical_hex key" using k(2) expect_revision_Inr(3) [OF ok(1) e] by simp
      then have "k = key"
        using ids_okD(2) [OF tasks_okD(2) [OF \<open>tasks_ok tasks\<close>]] new key by (auto simp: stored_ids_iff)
      with new key show ?thesis by simp
    qed
    then show ?thesis by (cases "get_task st' t") auto
  qed
next
  fix st t n env f
  assume s: "store_ok st" and none: "\<nexists>cur. get_task st t = Inr cur \<and> t_revision cur = n"
  have ok: "tasks_ok (ts_tasks st)" using s by (simp add: store_ok_def)
  show "\<exists>x. compare_and_set env st t n f = (Inl x, st)"
  proof (cases "expect_revision (ts_tasks st) t n")
    case (Inl e)
    then show ?thesis by (simp add: compare_and_set_def update_checked_def commit_then_def)
  next
    case (Inr kr)
    with none expect_revision_get [OF ok] show ?thesis by (cases kr) auto
  qed
qed

text \<open>
  C25. A successful compare-and-set ran the update on the task stored under the given
  identifier (in any spelling) at exactly the expected revision, the update respected the state
  machine, the attempt count, the immutable fields and the first interruption cause, the
  returned record is the candidate with the revision raised by one, and the file holds the encoding of the store
  that is now in memory; when the update only returns storable records, a restart loads exactly that store.
\<close>

theorem compare_and_set_success:
  assumes "store_ok st" and "compare_and_set env st task_id n update = (Inr r, st')"
  shows "\<exists>key current candidate. map_of (ts_tasks st) key = Some current
     \<and> canonical_hex key = canonical_hex task_id \<and> t_revision current = n
     \<and> update current = Inr candidate \<and> r = candidate\<lparr>t_revision := n + 1\<rparr>
     \<and> immutable_fields candidate = immutable_fields current
     \<and> (t_state candidate = t_state current \<or> can_transition (t_state current) (t_state candidate))
     \<and> t_attempt candidate = attempt_after_transition current (t_state candidate)
     \<and> (t_interruption_cause current \<noteq> None
          \<longrightarrow> t_interruption_cause candidate = t_interruption_cause current)
     \<and> sd_document (ts_directory st') = Some (Some (encode_document (ts_tasks st')))
     \<and> (update_storable update \<longrightarrow>
           (\<exists>st''. restart st' = Inr st'' \<and> map_of (ts_tasks st'') = map_of (ts_tasks st')))"
  using assms
proof (rule cas_outcome)
  fix key current candidate tasks
  assume e: "expect_revision (ts_tasks st) task_id n = Inr (key, current)"
    and u: "update current = Inr candidate" and v: "validate_update current candidate = Inr ()"
    and r: "r = candidate\<lparr>t_revision := t_revision current + 1\<rparr>"
    and d: "commit_done env st tasks st'"
  have "tasks_ok (ts_tasks st)" using assms(1) by (simp add: store_ok_def)
  note e = expect_revision_Inr [OF this e]
  have "sd_document (ts_directory st') = Some (Some (encode_document (ts_tasks st')))"
    using d by (auto simp: commit_done_def)
  moreover have "update_storable update \<longrightarrow>
      (\<exists>st''. restart st' = Inr st'' \<and> map_of (ts_tasks st'') = map_of (ts_tasks st'))"
    using compare_and_set_ok [OF assms(1), of update env task_id n] assms(2) by (auto simp: store_ok_def synced_def restart_def)
  ultimately show ?thesis using e u r v [unfolded validate_update_Inr] by blast
qed

definition to_running :: "task_record \<Rightarrow> task_record result" where
  "to_running r = transition r RUNNING ''2026-07-17T10:00:00+00:00'' None"

lemma update_storable_running: "update_storable to_running"
proof -
  have "utc_text ''2026-07-17T10:00:00+00:00''" by code_simp
  moreover have "valid_task r'" if "valid_task r" "to_running r = Inr r'" for r r'
    using transition_valid [OF that(1), of None] that(2) by (simp add: to_running_def)
  ultimately show ?thesis
    by (auto simp: update_storable_def storable_def to_running_def transition_Inr moved_def)
qed

lemma example_store_ok: "store_ok example_store"
  using task_system.step_inv [OF example_store_step empty_store_ok] .

lemma example_cas:
  "fst (compare_and_set example_env example_store (t_task_id example_task) 0 to_running)
     = Inr (example_task\<lparr>t_state := RUNNING, t_revision := 1\<rparr>)"
  by code_simp

theorem compare_and_set_success_witness:
  "\<exists>candidate. to_running example_task = Inr candidate
     \<and> example_task\<lparr>t_state := RUNNING, t_revision := 1\<rparr> = candidate\<lparr>t_revision := 1\<rparr>"
proof -
  obtain st' where c: "compare_and_set example_env example_store (t_task_id example_task) 0 to_running
      = (Inr (example_task\<lparr>t_state := RUNNING, t_revision := 1\<rparr>), st')"
    using example_cas by (metis prod.collapse)
  have "example_task = current" if "map_of (ts_tasks example_store) key = Some current" for key current
    using that by (auto simp: example_store_eval(2) split: if_splits)
  with compare_and_set_success [OF example_store_ok c] show ?thesis by fastforce
qed

text \<open>
  C9. No update is lost: after a successful compare-and-set from some revision, a second one
  that was computed from the same revision is refused and changes nothing, whatever it would do
  and whatever the clock and the disk do.
\<close>

theorem no_lost_task_update:
  assumes "store_ok st" and "update_storable f"
    and "compare_and_set env st task_id n f = (Inr r, st')"
  shows "\<exists>e. compare_and_set env' st' task_id n g = (Inl e, st')"
  by (rule task_cas.no_lost_update [OF assms])

theorem no_lost_task_update_witness:
  "\<exists>st' e. fst (compare_and_set example_env example_store (t_task_id example_task) 0 to_running)
        = Inr (example_task\<lparr>t_state := RUNNING, t_revision := 1\<rparr>)
     \<and> compare_and_set example_env st' (t_task_id example_task) 0 to_running = (Inl e, st')"
proof -
  obtain st' where c: "compare_and_set example_env example_store (t_task_id example_task) 0 to_running
      = (Inr (example_task\<lparr>t_state := RUNNING, t_revision := 1\<rparr>), st')"
    using example_cas by (metis prod.collapse)
  from no_lost_task_update [OF example_store_ok update_storable_running c] show ?thesis
    using example_cas by blast
qed

section \<open>Failures, lookups, restarts\<close>

definition unchanged_on_error :: "task_store \<Rightarrow> 'a store_op \<Rightarrow> bool" where
  "unchanged_on_error st op = (case op of
      (Inl e, st') \<Rightarrow> e \<noteq> TaskStoreDurabilityError \<longrightarrow> ts_tasks st' = ts_tasks st
        \<and> sd_document (ts_directory st') = sd_document (ts_directory st)
    | _ \<Rightarrow> True)"

lemma commit_then_unchanged: "unchanged_on_error st (commit_then env st r)"
proof -
  obtain res st' where o: "commit_then env st r = (res, st')" by fastforce
  from commit_then_outcome [OF o] show ?thesis
    by (auto simp: unchanged_on_error_def o commit_undone_def)
qed

text \<open>
  An operation that raises anything but the durability error leaves the tasks in memory and
  the document on disk exactly as they were, whether the exception comes from a check, from the
  update function, from the retention or from a system call of the write.
\<close>

theorem failed_operation_unchanged:
  "unchanged_on_error st (create_task env st r)
   \<and> unchanged_on_error st (compare_and_set env st task_id n f)
   \<and> unchanged_on_error st (link_child env st task_id n r)
   \<and> unchanged_on_error st (forget_task env st task_id n)
   \<and> unchanged_on_error st (reconcile_startup env st now)"
  by (auto simp: commit_then_unchanged create_task_def compare_and_set_def link_child_def forget_task_def
      reconcile_startup_def unchanged_on_error_def [of st "(Inl _, st)"]
      unchanged_on_error_def [of st "(Inr _, st)"] split: sum.splits)

text \<open>
  A task created in an active state is found afterwards under any spelling of its
  identifier, as it was created; its identifier cannot be created again in any spelling, and no
  other active task can be created on its execution channel.
\<close>

theorem created_task_found:
  assumes "store_ok st" and "storable r" and "active r"
    and "create_task env st r = (Inr (), st')" and "canonical_hex t = canonical_hex (t_task_id r)"
    and "storable q"
  shows "get_task st' t = Inr r
    \<and> (t_task_id q = t \<longrightarrow> create_task env' st' q = (Inl (TaskAlreadyExists t), st'))
    \<and> (active q \<and> t_execution_channel_id q = t_execution_channel_id r
        \<longrightarrow> (\<exists>e. create_task env' st' q = (Inl e, st')))"
proof -
  have ok: "tasks_ok (ts_tasks st)" "exclusive (ts_tasks st)" using assms(1) by (simp_all add: store_ok_def)
  obtain tasks where c: "create_checked (ts_tasks st) r = Inr (tasks, ())" "commit_done env st tasks st'"
    using commit_then_outcome [OF assms(4) [unfolded create_task_def]] by auto
  note cr = create_checked_ok [OF ok assms(2) c(1)]
  have m: "map_of (ts_tasks st') (t_task_id r) = Some r"
    using commit_done_map(2) [OF _ c(2) _ assms(3)] cr(1,2) by simp
  have st': "tasks_ok (ts_tasks st')"
    using create_ok [OF assms(1,2), of env] assms(4) by (simp add: store_ok_def)
  have known: "contains_task_id (ts_tasks st') t = Inr True"
    using contains_task_id_Inr [OF tasks_okD(2) [OF st'], of t] m assms(5) storable_id [OF assms(2)]
    by (metis image_eqI stored_ids_iff)
  have "get_task st' t = Inr r" using get_task_Inr [OF st'] m assms(5) by blast
  moreover have "create_task env' st' q = (Inl (TaskAlreadyExists t), st')" if "t_task_id q = t"
    using known that by (simp add: create_task_def create_checked_def commit_then_def)
  moreover have "\<exists>e. create_task env' st' q = (Inl e, st')"
    if "active q" "t_execution_channel_id q = t_execution_channel_id r"
  proof (cases "create_checked (ts_tasks st') q")
    case (Inl e)
    then show ?thesis by (simp add: create_task_def commit_then_def)
  next
    case (Inr p)
    then have "ensure_execution_available q (ts_tasks st') None = Inr ()"
      by (auto simp: create_checked_def and_then_eq_Inr split: if_splits)
    with ensure_available_iff [OF tasks_okD(4,5) [OF st']] that m assms(3) show ?thesis by fastforce
  qed
  ultimately show ?thesis by blast
qed

theorem created_task_found_witness:
  "get_task example_store ''{00000000-0000-0000-0000-000000000001}'' = Inr example_task
   \<and> create_task example_env example_store example_task
       = (Inl (TaskAlreadyExists (t_task_id example_task)), example_store)"
proof -
  have a: "active example_task" by code_simp
  have c: "canonical_hex ''{00000000-0000-0000-0000-000000000001}'' = canonical_hex (t_task_id example_task)"
    by code_simp
  note w = created_task_found [OF empty_store_ok example_storable a example_store_eval(1)]
  show ?thesis using w [OF c example_storable] w [OF refl example_storable] by simp
qed





section \<open>Two defects\<close>

lemma make_delivery_failed:
  assumes "valid_task r" and "aware_text ts"
  shows "isl (make_task_record (r\<lparr>t_state := DELIVERY_FAILED, t_updated_at := ts, t_failure := Some f\<rparr>))
     \<longleftrightarrow> \<not> (f_category f = DISCORD_DELIVERY \<and> f_retry_mode f \<noteq> CONTINUE_SESSION)"
proof -
  let ?r = "r\<lparr>t_state := DELIVERY_FAILED, t_updated_at := ts, t_failure := Some f\<rparr>"
  have "task_identity_ok ?r" using assms(1) by (simp add: valid_task_iff)
  moreover have "task_progress_ok ?r \<longleftrightarrow> f_category f = DISCORD_DELIVERY \<and> f_retry_mode f \<noteq> CONTINUE_SESSION"
    using assms by (simp add: valid_task_iff task_progress_ok_def failure_fits_def)
  moreover have "isl (make_task_record ?r) \<longleftrightarrow> make_task_record ?r \<noteq> Inr ?r"
    by (cases "make_task_record ?r") (simp_all add: make_task_record_def and_then_def split: sum.splits)
  ultimately show ?thesis by (simp add: make_task_record_Inr)
qed

lemma reconcile_delivering:
  assumes "storable r" and "t_state r = DELIVERING" and "t_result_message_id r = None"
    and "utc_text ts"
  shows "isl (reconcile r ts) \<longleftrightarrow> t_failure r \<noteq> None"
proof -
  have v: "valid_task r" using assms(1) by (simp add: storable_def)
  have aw: "aware_text ts" using assms(4) by (simp add: utc_text_def aware_text_def split: option.splits)
  have rec: "reconcile r ts = and_then (delivery_retry_disabled (t_failure r)) (\<lambda>f. make_task_record
      (r\<lparr>t_state := DELIVERY_FAILED, t_updated_at := ts, t_failure := Some f\<rparr>))"
    using assms(2,3) by (simp add: reconcile_def)
  show ?thesis
  proof (cases "delivery_retry_disabled (t_failure r)")
    case (Inl e)
    moreover from this have "t_failure r \<noteq> None"
      by (cases "t_failure r") (simp_all add: delivery_retry_disabled_def make_failure_def)
    ultimately show ?thesis by (simp add: rec)
  next
    case (Inr f)
    note fd = delivery_retry_disabled_Inr [OF Inr]
    have "f_category f = DISCORD_DELIVERY \<longleftrightarrow> t_failure r = None"
    proof (cases "t_failure r")
      case (Some g)
      then have "f_category g \<noteq> DISCORD_DELIVERY"
        using v assms(2) by (simp add: valid_task_iff task_progress_ok_def failure_fits_def)
      with fd Some show ?thesis by simp
    qed (use fd in simp)
    then show ?thesis using make_delivery_failed [OF v aw, of f] fd by (simp add: rec Inr)
  qed
qed

text \<open>
  Start-up turns an interrupted delivery (whose result message is not known) into a failed
  one exactly when the record carries no failure. Its constructor refuses the failure metadata
  of an earlier timeout or agent failure, which the transitions of a retry keep while the task
  recovers, starts, runs and delivers: for such a record reconciliation raises.
\<close>

theorem reconcile_interrupted_delivery:
  assumes "storable r" and "t_state r = DELIVERING" and "t_result_message_id r = None"
    and "utc_text ts"
  shows "(\<exists>r'. reconcile r ts = Inr r') \<longleftrightarrow> t_failure r = None"
  using reconcile_delivering [OF assms] by (cases "reconcile r ts") auto

text \<open>A task that ran, timed out, was retried and is delivering its answer.\<close>

fun drive :: "task_store \<Rightarrow> int \<Rightarrow> (task_state \<times> task_failure option) list \<Rightarrow> task_store" where
  "drive st n [] = st"
| "drive st n ((s, fo) # moves) =
    drive (snd (compare_and_set example_env st (t_task_id example_task) n
      (\<lambda>r. transition r s ''2026-07-17T10:00:00+00:00'' fo))) (n + 1) moves"

lemma update_storable_transition:
  assumes "utc_text ts" and "\<forall>f \<in> set_option fo. valid_failure f"
  shows "update_storable (\<lambda>r. transition r s ts fo)"
proof -
  have "valid_task r'" if "valid_task r" "transition r s ts fo = Inr r'" for r r'
    using transition_valid [OF that(1) _ that(2)] assms(2) by auto
  with assms(1) show ?thesis
    by (auto simp: update_storable_def storable_def transition_Inr moved_def)
qed

lemma drive_reachable:
  assumes "\<forall>(s, fo) \<in> set moves. \<forall>f \<in> set_option fo. valid_failure f"
  shows "task_step\<^sup>*\<^sup>* st (drive st n moves)"
  using assms
proof (induction st n moves rule: drive.induct)
  case (1 st n)
  then show ?case by simp
next
  case (2 st n s fo moves)
  have "utc_text ''2026-07-17T10:00:00+00:00''" by code_simp
  then have "task_step st (snd (compare_and_set example_env st (t_task_id example_task) n
      (\<lambda>r. transition r s ''2026-07-17T10:00:00+00:00'' fo)))"
    using 2(2) by (intro task_step.updating update_storable_transition) auto
  with 2 show ?case by (auto intro: converse_rtranclp_into_rtranclp)
qed

definition timeout_failure :: task_failure where
  "timeout_failure = \<lparr>f_category = CAT_TIMEOUT, f_summary = ''The agent timed out.'', f_retry_mode = CONTINUE_SESSION\<rparr>"

definition retried_delivery :: task_record where
  "retried_delivery = example_task\<lparr>t_state := DELIVERING, t_revision := 6, t_attempt := 2, t_failure := Some timeout_failure\<rparr>"

definition retried_store :: task_store where
  "retried_store = drive example_store 0
     [(RUNNING, None), (TIMED_OUT, Some timeout_failure), (RECOVERING, None), (STARTING, None),
      (RUNNING, None), (DELIVERING, None)]"

lemma retried_store_reachable: "task_step\<^sup>*\<^sup>* empty_store retried_store"
proof -
  have "task_step\<^sup>*\<^sup>* example_store retried_store" unfolding retried_store_def
    by (rule drive_reachable) (simp add: valid_failure_def timeout_failure_def)
  with example_store_step show ?thesis by (rule converse_rtranclp_into_rtranclp)
qed

text \<open>The six moves, evaluated one at a time.\<close>

definition stored :: "tasks \<Rightarrow> task_store" where
  "stored tasks = \<lparr>ts_tasks = tasks, ts_directory =
     \<lparr>sd_document = Some (Some (encode_document tasks)), sd_temporary = None\<rparr>\<rparr>"

definition retrying :: "task_state \<Rightarrow> int \<Rightarrow> int \<Rightarrow> task_failure option \<Rightarrow> tasks" where
  "retrying s n a fo = [(t_task_id example_task,
     example_task\<lparr>t_state := s, t_revision := n, t_attempt := a, t_failure := fo\<rparr>)]"

lemma commit_example:
  "apply_retention tasks example_now = Inr tasks \<Longrightarrow> commit example_env st tasks = (Inr (), stored tasks)"
  by (simp add: commit_def example_env_def write_document_def confirm_document_durability_def
      guarded_def stored_def Let_def)

lemma move_example:
  "update_checked tasks (t_task_id example_task) n
      (\<lambda>r. transition r s ''2026-07-17T10:00:00+00:00'' fo) = Inr (tasks', r)
   \<Longrightarrow> apply_retention tasks' example_now = Inr tasks'
   \<Longrightarrow> snd (compare_and_set example_env (stored tasks) (t_task_id example_task) n
         (\<lambda>r. transition r s ''2026-07-17T10:00:00+00:00'' fo)) = stored tasks'"
  by (simp add: compare_and_set_def commit_then_def commit_example) (simp add: stored_def commit_example)

definition move_ok :: "tasks \<Rightarrow> int \<Rightarrow> task_state \<Rightarrow> task_failure option \<Rightarrow> tasks \<Rightarrow> bool" where
  "move_ok tasks n s fo tasks' \<longleftrightarrow> apply_retention tasks' example_now = Inr tasks' \<and>
     map_sum id fst (update_checked tasks (t_task_id example_task) n
       (\<lambda>r. transition r s ''2026-07-17T10:00:00+00:00'' fo)) = Inr tasks'"

lemma drive_step:
  assumes "move_ok tasks n s fo tasks'"
  shows "drive (stored tasks) n ((s, fo) # moves) = drive (stored tasks') (n + 1) moves"
proof -
  obtain r where "update_checked tasks (t_task_id example_task) n
      (\<lambda>r. transition r s ''2026-07-17T10:00:00+00:00'' fo) = Inr (tasks', r)"
    using assms unfolding move_ok_def
    by (cases "update_checked tasks (t_task_id example_task) n
      (\<lambda>r. transition r s ''2026-07-17T10:00:00+00:00'' fo)") auto
  from move_example [OF this] assms show ?thesis by (simp add: move_ok_def)
qed

lemma example_store_stored: "example_store = stored (retrying STARTING 0 1 None)"
proof -
  have "apply_retention example_tasks example_now = Inr example_tasks"
    "create_checked [] example_task = Inr (example_tasks, ())" by code_simp+
  moreover have "retrying STARTING 0 1 None = example_tasks"
    by (simp add: retrying_def example_tasks_def example_task_def)
  ultimately show ?thesis
    by (simp add: example_store_def create_task_def empty_store_def commit_then_def commit_example)
qed

lemma retry_moves:
  "move_ok (retrying STARTING 0 1 None) 0 RUNNING None (retrying RUNNING 1 1 None)"
  "move_ok (retrying RUNNING 1 1 None) 1 TIMED_OUT (Some timeout_failure)
     (retrying TIMED_OUT 2 1 (Some timeout_failure))"
  "move_ok (retrying TIMED_OUT 2 1 (Some timeout_failure)) 2 RECOVERING None
     (retrying RECOVERING 3 2 (Some timeout_failure))"
  "move_ok (retrying RECOVERING 3 2 (Some timeout_failure)) 3 STARTING None
     (retrying STARTING 4 2 (Some timeout_failure))"
  "move_ok (retrying STARTING 4 2 (Some timeout_failure)) 4 RUNNING None
     (retrying RUNNING 5 2 (Some timeout_failure))"
  "move_ok (retrying RUNNING 5 2 (Some timeout_failure)) 5 DELIVERING None
     (retrying DELIVERING 6 2 (Some timeout_failure))"
  "move_ok (retrying RUNNING 1 1 None) 1 DELIVERING None (retrying DELIVERING 2 1 None)"
  "move_ok (retrying DELIVERING 2 1 None) 2 COMPLETED None (retrying COMPLETED 3 1 None)"
  by code_simp+

lemmas retry_drive = retry_moves [THEN drive_step]

lemma retried_store_eval: "ts_tasks retried_store = [(t_task_id example_task, retried_delivery)]"
proof -
  have "retried_store = stored (retrying DELIVERING 6 2 (Some timeout_failure))"
    by (simp add: retried_store_def example_store_stored retry_drive del: drive.simps(2))
  moreover have "ts_tasks (stored (retrying DELIVERING 6 2 (Some timeout_failure)))
      = [(t_task_id example_task, retried_delivery)]"
    by (simp add: retrying_def stored_def retried_delivery_def example_task_def)
  ultimately show ?thesis by (simp only:)
qed

theorem reconcile_interrupted_delivery_witness:
  "storable retried_delivery \<and> \<not> (\<exists>r'. reconcile retried_delivery ''2026-07-17T10:00:00+00:00'' = Inr r')"
proof -
  have s: "storable retried_delivery" and u: "utc_text ''2026-07-17T10:00:00+00:00''" by code_simp+
  show ?thesis
    using reconcile_interrupted_delivery [OF s _ _ u] s by (simp add: retried_delivery_def example_task_def)
qed

text \<open>
  C31. A gateway that is stopped while it delivers the answer of a task that was retried after a
  timeout cannot start again: such a state is reachable, it survives the restart, and in it
  start-up reconciliation raises whatever the clock says and however the disk behaves, leaving
  the store as it was for the next attempt.
\<close>

theorem startup_crash_reachable:
  "task_step\<^sup>*\<^sup>* empty_store retried_store
   \<and> (\<exists>st. restart retried_store = Inr st
        \<and> (\<forall>env now. \<exists>e. reconcile_startup env st now = (Inl e, st)))"
proof (intro conjI)
  show "task_step\<^sup>*\<^sup>* empty_store retried_store" by (rule retried_store_reachable)
  have "synced retried_store"
    using task_system.reachable_inv [OF retried_store_reachable empty_store_ok] by (simp add: store_ok_def)
  then obtain t where t: "load_tasks (ts_directory retried_store) = Inr t"
    "map_of t = map_of (ts_tasks retried_store)" by (auto simp: synced_def)
  let ?st = "retried_store\<lparr>ts_tasks := t\<rparr>"
  have ok: "tasks_ok t" using t(1) by (rule load_tasks_ok)
  have m: "map_of t (t_task_id example_task) = Some retried_delivery" using t(2) retried_store_eval by simp
  have d: "t_state retried_delivery = DELIVERING" "t_result_message_id retried_delivery = None"
    "t_failure retried_delivery \<noteq> None"
    by (simp_all add: retried_delivery_def example_task_def)
  have "\<exists>e. reconcile_startup env ?st now = (Inl e, ?st)" for env now
  proof (cases "and_then (timestamp_text now) (\<lambda>ts. reconcile_loop ts t t [])")
    case (Inl e)
    then show ?thesis by (simp add: reconcile_startup_def)
  next
    case (Inr p)
    then obtain ts where ts: "timestamp_text now = Inr ts" "reconcile_loop ts t t [] = Inr p"
      by (auto simp: and_then_eq_Inr)
    have "\<not> isl (reconcile retried_delivery ts)"
      using reconcile_loop_spec [of ts t t "[]" "fst p" "snd p"] ts(2) tasks_okD(4) [OF ok] map_of_in_values [OF m]
      by auto
    moreover have "isl (reconcile retried_delivery ts)"
      using reconcile_delivering [OF tasks_okD(7) [OF ok m] d(1,2) timestamp_text_utc(1) [OF ts(1)]] d(3)
      by blast
    ultimately show ?thesis by simp
  qed
  then show "\<exists>st. restart retried_store = Inr st
      \<and> (\<forall>env now. \<exists>e. reconcile_startup env st now = (Inl e, st))"
    using t(1) by (auto simp: restart_def)
qed

text \<open>A completed task, and a child of it that names the parent as its own continuation too.\<close>

definition completed_store :: task_store where
  "completed_store = drive example_store 0 [(RUNNING, None), (DELIVERING, None), (COMPLETED, None)]"

definition looping_child :: task_record where
  "looping_child = example_task\<lparr>t_task_id := ''00000000000000000000000000000002'',
     t_continued_from := Some (t_task_id example_task),
     t_continued_to := Some (t_task_id example_task)\<rparr>"

lemma completed_store_reachable: "task_step\<^sup>*\<^sup>* empty_store completed_store"
proof -
  have "task_step\<^sup>*\<^sup>* example_store completed_store" unfolding completed_store_def
    by (rule drive_reachable) simp
  with example_store_step show ?thesis by (rule converse_rtranclp_into_rtranclp)
qed

lemma completed_store_eval: "completed_store = stored (retrying COMPLETED 3 1 None)"
  by (simp add: completed_store_def example_store_stored retry_drive del: drive.simps(2))

text \<open>
  C32. The continuation operation does not look at the child's own continuation link: on a
  reachable store it accepts a storable child that names its parent as its continuation, and the
  document it writes is one the next start refuses as corrupt.
\<close>

theorem link_child_accepts_loop:
  "task_step\<^sup>*\<^sup>* empty_store completed_store \<and> storable looping_child
   \<and> (case link_child example_env completed_store (t_task_id example_task) 3 looping_child of
        (Inr _, st') \<Rightarrow> restart st' = Inl TaskStoreCorruptionError
      | _ \<Rightarrow> False)"
proof (intro conjI)
  show "task_step\<^sup>*\<^sup>* empty_store completed_store" by (rule completed_store_reachable)
  show "storable looping_child" by code_simp
  show "case link_child example_env completed_store (t_task_id example_task) 3 looping_child of
        (Inr _, st') \<Rightarrow> restart st' = Inl TaskStoreCorruptionError | _ \<Rightarrow> False"
    unfolding completed_store_eval by code_simp
qed

end
