(* ===== verification/MirrorModel.thy ===== *)
theory MirrorModel
  imports PyTime PyUuid
begin

text \<open>
  \<open>github_mirror_model.py\<close>: the webhook event, the mirrored issue or pull request with its
  publication and action state, and the checks of their constructors. As for the task record,
  every \<open>replace\<close> of the source is \<open>make_mirror\<close> of the updated record.
\<close>

section \<open>Data\<close>

datatype item_kind = ISSUE | PULL_REQUEST

datatype item_state = OPEN | DRAFT | CLOSED | MERGED

datatype mirror_action = M_REVIEW | M_SECURITY_REVIEW | M_VULNERABILITY_SCAN | M_WORK

record handled_claim =
  h_interaction_id :: int
  h_action :: mirror_action
  h_task_id :: string
  h_succeeded :: bool

record pending_action =
  p_interaction_id :: int
  p_action :: mirror_action
  p_task_id :: string
  p_claimed_at :: string

record mirror_event =
  e_delivery_id :: string
  e_event_name :: string
  e_action :: string
  e_repository :: string
  e_item_kind :: item_kind
  e_item_number :: int
  e_item_url :: string
  e_title :: string
  e_state :: item_state
  e_author_login :: string
  e_labels :: "string list"
  e_base_ref :: "string option"
  e_head_ref :: "string option"
  e_base_sha :: "string option"
  e_head_sha :: "string option"
  e_activity :: string
  e_item_updated_at :: string

record mirror_record =
  m_mirror_id :: string
  m_revision :: int
  m_guild_id :: int
  m_channel_id :: int
  m_card_message_id :: "int option"
  m_card_create_pending :: bool
  m_card_create_nonce :: "string option"
  m_card_cleanup_nonce :: "string option"
  m_publication_pending :: bool
  m_thread_id :: "int option"
  m_repository :: string
  m_item_kind :: item_kind
  m_item_number :: int
  m_item_url :: string
  m_title :: string
  m_state :: item_state
  m_author_login :: string
  m_labels :: "string list"
  m_base_ref :: "string option"
  m_head_ref :: "string option"
  m_base_sha :: "string option"
  m_head_sha :: "string option"
  m_activity :: string
  m_item_updated_at :: string
  m_recent_delivery_ids :: "string list"
  m_pending_action :: "pending_action option"
  m_handled_claims :: "handled_claim list"
  m_active_task_id :: "string option"
  m_created_at :: string
  m_updated_at :: string

abbreviation MAX_TITLE_LENGTH :: nat where "MAX_TITLE_LENGTH \<equiv> 256"
abbreviation MAX_ACTIVITY_LENGTH :: nat where "MAX_ACTIVITY_LENGTH \<equiv> 160"
abbreviation MAX_LABELS :: nat where "MAX_LABELS \<equiv> 12"
abbreviation MAX_LABEL_LENGTH :: nat where "MAX_LABEL_LENGTH \<equiv> 64"
abbreviation MAX_RECENT_DELIVERIES :: nat where "MAX_RECENT_DELIVERIES \<equiv> 64"
abbreviation MAX_HANDLED_CLAIMS :: nat where "MAX_HANDLED_CLAIMS \<equiv> 64"

definition GITHUB_EVENT_ACTIONS :: "(string \<times> string list) list" where
  "GITHUB_EVENT_ACTIONS =
    [(''pull_request'', [''opened'', ''edited'', ''reopened'', ''ready_for_review'', ''synchronize'',
                         ''labeled'', ''unlabeled'', ''closed'']),
     (''issues'', [''opened'', ''edited'', ''reopened'', ''labeled'', ''unlabeled'', ''closed'']),
     (''issue_comment'', [''created'', ''edited'', ''deleted''])]"

definition event_actions :: "string \<Rightarrow> string list" where
  "event_actions event_name = (case map_of GITHUB_EVENT_ACTIONS event_name of None \<Rightarrow> [] | Some as \<Rightarrow> as)"

section \<open>Patterns and field checks\<close>

definition valid_repository :: "string \<Rightarrow> bool" where
  "valid_repository s \<longleftrightarrow> (case split_on CHR ''/'' s of
      [a, b] \<Rightarrow> fullmatch_plus (\<lambda>c. is_alnum c \<or> c \<in> set ''_.-'') a
        \<and> fullmatch_plus (\<lambda>c. is_alnum c \<or> c \<in> set ''_.-'') b
    | _ \<Rightarrow> False)"

definition valid_login :: "string \<Rightarrow> bool" where
  "valid_login s \<longleftrightarrow> (case s of [] \<Rightarrow> False
    | c # cs \<Rightarrow> is_alnum c \<and> length cs \<le> 38 \<and> list_all (\<lambda>c. is_alnum c \<or> c = CHR ''-'') cs)"

definition valid_sha :: "string \<Rightarrow> bool" where
  "valid_sha s \<longleftrightarrow> fullmatch_n is_lower_hex 40 s"

definition valid_delivery_id :: "string \<Rightarrow> bool" where
  "valid_delivery_id s \<longleftrightarrow> (case s of [] \<Rightarrow> False
    | c # cs \<Rightarrow> is_alnum c \<and> length cs \<le> 127 \<and> list_all (\<lambda>c. is_alnum c \<or> c \<in> set ''._:-'') cs)"

definition valid_card_nonce :: "string \<Rightarrow> bool" where
  "valid_card_nonce s \<longleftrightarrow> take 3 s = ''gm:''
     \<and> fullmatch_n (\<lambda>c. is_alnum c \<or> c \<in> set ''_-'') 22 (drop 3 s)"

definition url_fragment :: "string \<Rightarrow> string" where
  "url_fragment url = tl (dropWhile (\<lambda>c. c \<noteq> CHR ''#'') url)"

definition url_query :: "string \<Rightarrow> string" where
  "url_query url = tl (dropWhile (\<lambda>c. c \<noteq> CHR ''?'') (takeWhile (\<lambda>c. c \<noteq> CHR ''#'') url))"

type_synonym checks = "(bool \<times> exn) list"

definition positive_integer :: "int \<Rightarrow> string \<Rightarrow> checks" where
  "positive_integer v name =
    [(v \<le> 0 \<or> 2 ^ 64 - 1 < v, ValueError (name @ '' must be a positive integer''))]"

definition optional_positive_integer :: "int option \<Rightarrow> string \<Rightarrow> checks" where
  "optional_positive_integer v name = (case v of None \<Rightarrow> [] | Some i \<Rightarrow> positive_integer i name)"

definition optional_card_nonce :: "string option \<Rightarrow> string \<Rightarrow> checks" where
  "optional_card_nonce v name =
    [(\<exists>s \<in> set_option v. \<not> valid_card_nonce s,
      ValueError (name @ '' must be a bounded card-generation nonce''))]"

definition bounded_text :: "string \<Rightarrow> string \<Rightarrow> nat \<Rightarrow> checks" where
  "bounded_text s name n = [(s = [] \<or> n < length s, ValueError (name @ '' exceeds its bounds''))]"

definition optional_bounded_text :: "string option \<Rightarrow> string \<Rightarrow> nat \<Rightarrow> checks" where
  "optional_bounded_text v name n = (case v of None \<Rightarrow> [] | Some s \<Rightarrow> bounded_text s name n)"

text \<open>\<open>datetime.fromisoformat(value.replace("Z", "+00:00"))\<close>.\<close>

definition parse_zulu :: "string \<Rightarrow> datetime option" where
  "parse_zulu s = fromisoformat (replace_char CHR ''Z'' ''+00:00'' s)"

definition timestamp_checks :: "string \<Rightarrow> string \<Rightarrow> checks" where
  "timestamp_checks s name =
    [(parse_zulu s = None, ValueError (name @ '' must be an ISO timestamp'')),
     (\<exists>t \<in> set_option (parse_zulu s). dt_offset t = None,
      ValueError (name @ '' must include a timezone''))]"

definition opaque_task_id :: "string \<Rightarrow> string \<Rightarrow> checks" where
  "opaque_task_id s name =
    [(\<not> canonical_uuid s, ValueError (name @ '' must be an opaque UUID''))]"

definition canonical_item_url :: "string \<Rightarrow> item_kind \<Rightarrow> int \<Rightarrow> string" where
  "canonical_item_url repository kind number =
    ''https://github.com/'' @ repository @ ''/''
      @ (if kind = PULL_REQUEST then ''pull'' else ''issues'') @ ''/'' @ int_str number"

definition item_identity :: "string \<Rightarrow> item_kind \<Rightarrow> int \<Rightarrow> string \<Rightarrow> checks" where
  "item_identity repository kind number url =
    [(\<not> valid_repository repository, ValueError ''repository_full_name is invalid'')]
    @ positive_integer number ''item_number''
    @ [(url \<noteq> canonical_item_url repository kind number \<or> url_query url \<noteq> [] \<or> url_fragment url \<noteq> [],
        ValueError ''item URL is not the canonical GitHub URL'')]"

definition sha_check :: "string option \<Rightarrow> string \<Rightarrow> checks" where
  "sha_check v name =
    [(\<exists>s \<in> set_option v. \<not> valid_sha s,
      ValueError (name @ '' must be a lowercase 40-character SHA''))]"

definition references ::
    "item_kind \<Rightarrow> string option \<Rightarrow> string option \<Rightarrow> string option \<Rightarrow> string option \<Rightarrow> checks" where
  "references kind base_ref head_ref base_sha head_sha =
    [(kind = ISSUE \<and> (base_ref \<noteq> None \<or> head_ref \<noteq> None \<or> base_sha \<noteq> None \<or> head_sha \<noteq> None),
      ValueError ''issues cannot carry pull request revisions'')]
    @ optional_bounded_text base_ref ''base_ref'' 255
    @ optional_bounded_text head_ref ''head_ref'' 255
    @ sha_check base_sha ''base_sha'' @ sha_check head_sha ''head_sha''"

definition labels_checks :: "string list \<Rightarrow> checks" where
  "labels_checks ls =
    [(MAX_LABELS < length ls, ValueError ''too many labels''),
     (\<not> distinct ls, ValueError ''labels must be unique'')]
    @ concat (map (\<lambda>l. bounded_text l ''label'' MAX_LABEL_LENGTH) ls)"

section \<open>Constructors\<close>

definition claim_checks :: "handled_claim \<Rightarrow> checks" where
  "claim_checks c = positive_integer (h_interaction_id c) ''interaction_id''
     @ opaque_task_id (h_task_id c) ''task_id''"

definition make_claim :: "handled_claim \<Rightarrow> handled_claim result" where
  "make_claim c = and_then (raise_first (claim_checks c)) (\<lambda>_. Inr c)"

definition pending_checks :: "pending_action \<Rightarrow> checks" where
  "pending_checks p = positive_integer (p_interaction_id p) ''interaction_id''
     @ opaque_task_id (p_task_id p) ''task_id'' @ timestamp_checks (p_claimed_at p) ''claimed_at''"

definition make_pending :: "pending_action \<Rightarrow> pending_action result" where
  "make_pending p = and_then (raise_first (pending_checks p)) (\<lambda>_. Inr p)"

definition event_checks :: "mirror_event \<Rightarrow> checks" where
  "event_checks e =
    [(\<not> valid_delivery_id (e_delivery_id e), ValueError ''delivery_id must be a bounded identifier''),
     (e_action e \<notin> set (event_actions (e_event_name e)),
      ValueError ''event_name and action are not supported'')]
    @ item_identity (e_repository e) (e_item_kind e) (e_item_number e) (e_item_url e)
    @ bounded_text (e_title e) ''title'' MAX_TITLE_LENGTH
    @ [(\<not> valid_login (e_author_login e), ValueError ''author_login is not a valid GitHub login'')]
    @ labels_checks (e_labels e)
    @ references (e_item_kind e) (e_base_ref e) (e_head_ref e) (e_base_sha e) (e_head_sha e)
    @ bounded_text (e_activity e) ''activity'' MAX_ACTIVITY_LENGTH
    @ timestamp_checks (e_item_updated_at e) ''item_updated_at''"

definition make_event :: "mirror_event \<Rightarrow> mirror_event result" where
  "make_event e = and_then (raise_first (event_checks e)) (\<lambda>_. Inr e)"

definition card_checks :: "mirror_record \<Rightarrow> checks" where
  "card_checks r =
    optional_positive_integer (m_card_message_id r) ''card_message_id''
    @ optional_card_nonce (m_card_create_nonce r) ''card_create_nonce''
    @ optional_card_nonce (m_card_cleanup_nonce r) ''card_cleanup_nonce''
    @ [(m_card_create_pending r \<noteq> (m_card_create_nonce r \<noteq> None),
        ValueError ''pending card creation must have exactly one persisted nonce''),
       (m_card_message_id r \<noteq> None \<and> m_card_create_pending r,
        ValueError ''an attached card cannot have pending creation''),
       (m_card_message_id r = None \<and> m_card_cleanup_nonce r \<noteq> None,
        ValueError ''card cleanup requires an attached card'')]"

definition delivery_checks :: "mirror_record \<Rightarrow> checks" where
  "delivery_checks r =
    map (\<lambda>d. (\<not> valid_delivery_id d, ValueError ''delivery_id must be a bounded identifier''))
      (m_recent_delivery_ids r)
    @ [(MAX_RECENT_DELIVERIES < length (m_recent_delivery_ids r),
        ValueError ''too many recent delivery IDs''),
       (\<not> distinct (m_recent_delivery_ids r), ValueError ''recent delivery IDs must be unique'')]"

definition action_checks :: "mirror_record \<Rightarrow> checks" where
  "action_checks r =
    [(m_pending_action r \<noteq> None \<and> m_active_task_id r \<noteq> None,
      ValueError ''a mirror cannot have pending and active tasks''),
     (\<not> distinct (map h_interaction_id (m_handled_claims r)),
      ValueError ''handled interaction claims must be unique'')]
    @ (case m_active_task_id r of None \<Rightarrow> [] | Some t \<Rightarrow> opaque_task_id t ''active_task_id'')"

definition mirror_checks :: "mirror_record \<Rightarrow> checks" where
  "mirror_checks r =
    [(\<not> fullmatch_n is_lower_hex 32 (m_mirror_id r),
      ValueError ''mirror_id must be opaque lowercase UUID hex''),
     (m_revision r < 0, ValueError ''revision must be a non-negative integer'')]
    @ positive_integer (m_guild_id r) ''guild_id'' @ positive_integer (m_channel_id r) ''channel_id''
    @ card_checks r
    @ optional_positive_integer (m_thread_id r) ''thread_id''
    @ item_identity (m_repository r) (m_item_kind r) (m_item_number r) (m_item_url r)
    @ bounded_text (m_title r) ''title'' MAX_TITLE_LENGTH
    @ [(\<not> valid_login (m_author_login r), ValueError ''author_login is not a valid GitHub login'')]
    @ labels_checks (m_labels r)
    @ references (m_item_kind r) (m_base_ref r) (m_head_ref r) (m_base_sha r) (m_head_sha r)
    @ bounded_text (m_activity r) ''activity'' MAX_ACTIVITY_LENGTH
    @ timestamp_checks (m_item_updated_at r) ''item_updated_at''
    @ delivery_checks r @ action_checks r
    @ timestamp_checks (m_created_at r) ''created_at'' @ timestamp_checks (m_updated_at r) ''updated_at''"

definition make_mirror :: "mirror_record \<Rightarrow> mirror_record result" where
  "make_mirror r = and_then (raise_first (mirror_checks r)) (\<lambda>_. Inr r)"

definition logical_key :: "mirror_record \<Rightarrow> string \<times> item_kind \<times> int" where
  "logical_key r = (m_repository r, m_item_kind r, m_item_number r)"

section \<open>What the checks amount to\<close>

definition no_failure :: "checks \<Rightarrow> bool" where
  "no_failure cs \<longleftrightarrow> (\<forall>(bad, e) \<in> set cs. \<not> bad)"

lemma no_failure_simps [simp]:
  "no_failure []" "no_failure ((b, e) # cs) \<longleftrightarrow> \<not> b \<and> no_failure cs"
  "no_failure (cs @ ds) \<longleftrightarrow> no_failure cs \<and> no_failure ds"
  by (auto simp: no_failure_def)

text \<open>The item shown on a card: what a webhook event may change, and what identifies it.\<close>

definition item_ok ::
    "item_kind \<Rightarrow> string \<Rightarrow> string \<Rightarrow> string list \<Rightarrow> string option \<Rightarrow> string option \<Rightarrow> string option
     \<Rightarrow> string option \<Rightarrow> string \<Rightarrow> string \<Rightarrow> bool" where
  "item_ok kind title login ls base_ref head_ref base_sha head_sha activity ts \<longleftrightarrow>
     no_failure (bounded_text title ''title'' MAX_TITLE_LENGTH) \<and> valid_login login
     \<and> no_failure (labels_checks ls) \<and> no_failure (references kind base_ref head_ref base_sha head_sha)
     \<and> no_failure (bounded_text activity ''activity'' MAX_ACTIVITY_LENGTH)
     \<and> no_failure (timestamp_checks ts ''item_updated_at'')"

definition valid_event :: "mirror_event \<Rightarrow> bool" where
  "valid_event e \<longleftrightarrow> no_failure (event_checks e)"

definition claims_ok :: "mirror_record \<Rightarrow> bool" where
  "claims_ok r \<longleftrightarrow> (\<forall>p \<in> set_option (m_pending_action r). no_failure (pending_checks p))
     \<and> (\<forall>c \<in> set (m_handled_claims r). no_failure (claim_checks c))
     \<and> length (m_handled_claims r) \<le> MAX_HANDLED_CLAIMS"

text \<open>A record its constructor accepts, whose claims their constructors accept and the decoder's
  bound admits.\<close>

definition valid_mirror :: "mirror_record \<Rightarrow> bool" where
  "valid_mirror r \<longleftrightarrow> no_failure (mirror_checks r) \<and> claims_ok r"

lemma make_mirror_Inr [result_simps]: "make_mirror r = Inr r' \<longleftrightarrow> r' = r \<and> no_failure (mirror_checks r)"
  by (auto simp: make_mirror_def and_then_eq_Inr raise_first_Inr no_failure_def)

lemma make_event_Inr [result_simps]: "make_event e = Inr e' \<longleftrightarrow> e' = e \<and> valid_event e"
  by (auto simp: make_event_def and_then_eq_Inr raise_first_Inr valid_event_def no_failure_def)

lemma make_claim_Inr [result_simps]: "make_claim c = Inr c' \<longleftrightarrow> c' = c \<and> no_failure (claim_checks c)"
  by (auto simp: make_claim_def and_then_eq_Inr raise_first_Inr no_failure_def)

lemma make_pending_Inr [result_simps]: "make_pending p = Inr p' \<longleftrightarrow> p' = p \<and> no_failure (pending_checks p)"
  by (auto simp: make_pending_def and_then_eq_Inr raise_first_Inr no_failure_def)

lemma raise_first_total: "(\<exists>u. raise_first cs = Inr u) \<longleftrightarrow> no_failure cs"
  by (simp add: raise_first_Inr no_failure_def)

text \<open>The record's checks, by the part of the record they read.\<close>

definition identity_ok :: "mirror_record \<Rightarrow> bool" where
  "identity_ok r \<longleftrightarrow> fullmatch_n is_lower_hex 32 (m_mirror_id r)
     \<and> no_failure (positive_integer (m_guild_id r) ''guild_id'')
     \<and> no_failure (positive_integer (m_channel_id r) ''channel_id'')
     \<and> no_failure (item_identity (m_repository r) (m_item_kind r) (m_item_number r) (m_item_url r))
     \<and> no_failure (timestamp_checks (m_created_at r) ''created_at'')"

definition shown_item_ok :: "mirror_record \<Rightarrow> bool" where
  "shown_item_ok r \<longleftrightarrow> item_ok (m_item_kind r) (m_title r) (m_author_login r) (m_labels r) (m_base_ref r)
     (m_head_ref r) (m_base_sha r) (m_head_sha r) (m_activity r) (m_item_updated_at r)"

definition progress_ok :: "mirror_record \<Rightarrow> bool" where
  "progress_ok r \<longleftrightarrow> 0 \<le> m_revision r \<and> no_failure (card_checks r)
     \<and> no_failure (optional_positive_integer (m_thread_id r) ''thread_id'')
     \<and> no_failure (delivery_checks r) \<and> no_failure (action_checks r)
     \<and> no_failure (timestamp_checks (m_updated_at r) ''updated_at'')"

lemma mirror_checks_ok:
  "no_failure (mirror_checks r) \<longleftrightarrow> identity_ok r \<and> shown_item_ok r \<and> progress_ok r"
  unfolding mirror_checks_def no_failure_simps identity_ok_def shown_item_ok_def item_ok_def progress_ok_def
  by (simp only: no_failure_simps not_not not_less simp_thms) blast

lemma valid_mirror_iff:
  "valid_mirror r \<longleftrightarrow> identity_ok r \<and> shown_item_ok r \<and> progress_ok r \<and> claims_ok r"
  by (auto simp: valid_mirror_def mirror_checks_ok)

end
