(* ===== verification/MirrorUpdates.thy ===== *)
theory MirrorUpdates
  imports MirrorModel
begin

text \<open>
  \<open>github_mirror_store_updates.py\<close>: the record a first webhook event creates, the record a later
  event makes of an existing one, and the changes the store makes to the card fields. Events may
  arrive in any order: an event counts when its item time is newer than the record's, or equal
  with a state that is at least as final. That order is the lexicographic order on the pair of
  the item's instant and its state, with the states ordered by \<open>terminal_rank\<close>.
\<close>

section \<open>The order of the events of an item\<close>

fun terminal_rank :: "item_state \<Rightarrow> int" where
  "terminal_rank DRAFT = 0"
| "terminal_rank OPEN = 1"
| "terminal_rank CLOSED = 2"
| "terminal_rank MERGED = 3"

lemma terminal_rank_inject: "terminal_rank a = terminal_rank b \<longleftrightarrow> a = b"
  by (cases a; cases b) simp_all

instantiation item_state :: linorder
begin

definition less_eq_item_state :: "item_state \<Rightarrow> item_state \<Rightarrow> bool" where
  "less_eq_item_state a b \<longleftrightarrow> terminal_rank a \<le> terminal_rank b"

definition less_item_state :: "item_state \<Rightarrow> item_state \<Rightarrow> bool" where
  "less_item_state a b \<longleftrightarrow> terminal_rank a < terminal_rank b"

instance
  by standard (auto simp: less_eq_item_state_def less_item_state_def terminal_rank_inject)

end

text \<open>\<open>_parse_timestamp\<close>: only called on texts \<open>timestamp_checks\<close> accepted, which carry an offset.\<close>

definition parse_timestamp :: "string \<Rightarrow> datetime result" where
  "parse_timestamp s = (case parse_zulu s of
      None \<Rightarrow> Inl (ValueError ''Invalid isoformat string'')
    | Some t \<Rightarrow> as_utc t)"

definition should_apply_event :: "mirror_record \<Rightarrow> mirror_event \<Rightarrow> bool result" where
  "should_apply_event r e =
    and_then (parse_timestamp (e_item_updated_at e)) (\<lambda>event_timestamp.
    and_then (parse_timestamp (m_item_updated_at r)) (\<lambda>record_timestamp.
    Inr (if dt_local event_timestamp \<noteq> dt_local record_timestamp
         then dt_local record_timestamp < dt_local event_timestamp
         else terminal_rank (m_state r) \<le> terminal_rank (e_state e))))"

section \<open>Records from events\<close>

text \<open>\<open>n\<close> is the 128-bit value of \<open>uuid4()\<close>.\<close>

definition first_record :: "int \<Rightarrow> mirror_event \<Rightarrow> int \<Rightarrow> int \<Rightarrow> string \<Rightarrow> mirror_record" where
  "first_record n e guild_id channel_id ts =
    \<lparr>m_mirror_id = uuid_hex n, m_revision = 0, m_guild_id = guild_id, m_channel_id = channel_id,
     m_card_message_id = None, m_card_create_pending = False, m_card_create_nonce = None,
     m_card_cleanup_nonce = None, m_publication_pending = True, m_thread_id = None,
     m_repository = e_repository e, m_item_kind = e_item_kind e, m_item_number = e_item_number e,
     m_item_url = e_item_url e, m_title = e_title e, m_state = e_state e,
     m_author_login = e_author_login e, m_labels = e_labels e, m_base_ref = e_base_ref e,
     m_head_ref = e_head_ref e, m_base_sha = e_base_sha e, m_head_sha = e_head_sha e,
     m_activity = e_activity e, m_item_updated_at = e_item_updated_at e,
     m_recent_delivery_ids = [e_delivery_id e], m_pending_action = None, m_handled_claims = [],
     m_active_task_id = None, m_created_at = ts, m_updated_at = ts\<rparr>"

definition record_from_event :: "int \<Rightarrow> mirror_event \<Rightarrow> int \<Rightarrow> int \<Rightarrow> string \<Rightarrow> mirror_record result" where
  "record_from_event n e guild_id channel_id ts = make_mirror (first_record n e guild_id channel_id ts)"

definition or_else :: "'a option \<Rightarrow> 'a option \<Rightarrow> 'a option" where
  "or_else new old = (if new \<noteq> None then new else old)"

definition event_state :: "mirror_record \<Rightarrow> mirror_event \<Rightarrow> item_state" where
  "event_state r e =
    (if e_event_name e = ''issue_comment'' \<and> e_item_kind e = PULL_REQUEST then
       if m_state r = MERGED then MERGED
       else if m_state r = DRAFT \<and> e_state e = OPEN then DRAFT
       else e_state e
     else e_state e)"

definition apply_event :: "mirror_record \<Rightarrow> mirror_event \<Rightarrow> mirror_record" where
  "apply_event r e = r
    \<lparr>m_title := e_title e, m_state := event_state r e, m_author_login := e_author_login e,
     m_labels := e_labels e, m_base_ref := or_else (e_base_ref e) (m_base_ref r),
     m_head_ref := or_else (e_head_ref e) (m_head_ref r),
     m_base_sha := or_else (e_base_sha e) (m_base_sha r),
     m_head_sha := or_else (e_head_sha e) (m_head_sha r),
     m_activity := e_activity e, m_item_updated_at := e_item_updated_at e\<rparr>"

definition note_delivery :: "mirror_record \<Rightarrow> mirror_event \<Rightarrow> string \<Rightarrow> mirror_record" where
  "note_delivery r e ts = r
    \<lparr>m_recent_delivery_ids :=
       last_n MAX_RECENT_DELIVERIES (m_recent_delivery_ids r @ [e_delivery_id e]),
     m_publication_pending := True, m_revision := m_revision r + 1, m_updated_at := ts\<rparr>"

definition update_from_event :: "mirror_record \<Rightarrow> mirror_event \<Rightarrow> string \<Rightarrow> mirror_record result" where
  "update_from_event r e ts =
    and_then (should_apply_event r e) (\<lambda>newer.
    make_mirror (note_delivery (if newer then apply_event r e else r) e ts))"

section \<open>Updates through compare-and-set\<close>

definition immutable_part where
  "immutable_part (r :: mirror_record) =
    ((m_mirror_id r, m_revision r, m_guild_id r, m_channel_id r, m_repository r, m_item_kind r,
      m_item_number r, m_item_url r, m_created_at r, m_recent_delivery_ids r),
     (m_title r, m_state r, m_author_login r, m_labels r, m_base_ref r, m_head_ref r,
      m_base_sha r, m_head_sha r, m_activity r, m_item_updated_at r))"

definition validate_mirror_update :: "mirror_record \<Rightarrow> mirror_record \<Rightarrow> unit result" where
  "validate_mirror_update current candidate =
    guarded (immutable_part current = immutable_part candidate)
      (ValueError ''mirror identity and delivery fields cannot change through CAS'')"

definition updated_record ::
    "mirror_record \<Rightarrow> (mirror_record \<Rightarrow> mirror_record result) \<Rightarrow> string \<Rightarrow> mirror_record result" where
  "updated_record current update ts =
    and_then (update current) (\<lambda>candidate.
    and_then (validate_mirror_update current candidate) (\<lambda>_.
    make_mirror (candidate
      \<lparr>m_revision := m_revision current + 1,
       m_handled_claims := last_n MAX_HANDLED_CLAIMS (m_handled_claims candidate),
       m_updated_at := ts\<rparr>)))"

definition claim_card_record :: "mirror_record \<Rightarrow> string \<Rightarrow> string \<Rightarrow> mirror_record result" where
  "claim_card_record current nonce ts = updated_record current
    (\<lambda>r. make_mirror (r\<lparr>m_card_create_pending := True, m_card_create_nonce := Some nonce\<rparr>)) ts"

definition attach_card_record :: "mirror_record \<Rightarrow> int \<Rightarrow> string \<Rightarrow> string \<Rightarrow> mirror_record result" where
  "attach_card_record current message_id nonce ts = updated_record current
    (\<lambda>r. make_mirror (r\<lparr>m_card_message_id := Some message_id, m_card_create_pending := False,
       m_card_create_nonce := None, m_card_cleanup_nonce := Some nonce\<rparr>)) ts"

definition queue_card_cleanup_record :: "mirror_record \<Rightarrow> string \<Rightarrow> string \<Rightarrow> mirror_record result" where
  "queue_card_cleanup_record current nonce ts = updated_record current
    (\<lambda>r. make_mirror (r\<lparr>m_card_cleanup_nonce := Some nonce\<rparr>)) ts"

definition release_card_creation_record :: "mirror_record \<Rightarrow> string \<Rightarrow> mirror_record result" where
  "release_card_creation_record current ts = updated_record current
    (\<lambda>r. make_mirror (r\<lparr>m_card_create_pending := False, m_card_create_nonce := None\<rparr>)) ts"

definition complete_card_cleanup_record :: "mirror_record \<Rightarrow> string \<Rightarrow> mirror_record result" where
  "complete_card_cleanup_record current ts = updated_record current
    (\<lambda>r. make_mirror (r\<lparr>m_card_cleanup_nonce := None\<rparr>)) ts"

definition clear_card_record :: "mirror_record \<Rightarrow> string \<Rightarrow> mirror_record result" where
  "clear_card_record current ts = updated_record current
    (\<lambda>r. make_mirror (r\<lparr>m_card_message_id := None, m_card_create_pending := False,
       m_card_create_nonce := None, m_card_cleanup_nonce := None, m_publication_pending := True\<rparr>)) ts"

section \<open>The order of events as a lexicographic order\<close>

text \<open>A text the checks accept: a timestamp with an offset.\<close>

definition zoned :: "string \<Rightarrow> bool" where
  "zoned s \<longleftrightarrow> (case parse_zulu s of None \<Rightarrow> False | Some t \<Rightarrow> dt_offset t \<noteq> None)"

lemma timestamp_checks_zoned [simp]: "no_failure (timestamp_checks s name) \<longleftrightarrow> zoned s"
  by (auto simp: timestamp_checks_def zoned_def split: option.splits)

text \<open>One that also converts to UTC within the calendar.\<close>

definition convertible :: "string \<Rightarrow> bool" where
  "convertible s \<longleftrightarrow> (case parse_zulu s of None \<Rightarrow> False
     | Some t \<Rightarrow> dt_offset t \<noteq> None \<and> dt_in_range (instant t))"

definition moment :: "string \<Rightarrow> int" where
  "moment s = (case parse_zulu s of None \<Rightarrow> 0 | Some t \<Rightarrow> instant t)"

lemma parse_timestamp_convertible:
  "convertible s \<Longrightarrow> parse_timestamp s = Inr \<lparr>dt_local = moment s, dt_offset = Some 0\<rparr>"
  by (auto simp: convertible_def parse_timestamp_def as_utc_def moment_def instant_def split: option.splits)

lemma parse_timestamp_Inr: "parse_timestamp s = Inr t \<longleftrightarrow> convertible s \<and> t = \<lparr>dt_local = moment s, dt_offset = Some 0\<rparr>"
  by (auto simp: convertible_def parse_timestamp_def as_utc_def moment_def instant_def split: option.splits)

definition freshness :: "mirror_record \<Rightarrow> int \<times> item_state" where
  "freshness r = (moment (m_item_updated_at r), m_state r)"

definition event_freshness :: "mirror_event \<Rightarrow> int \<times> item_state" where
  "event_freshness e = (moment (e_item_updated_at e), e_state e)"

lemma should_apply_Inr:
  "should_apply_event r e = Inr b \<longleftrightarrow> convertible (m_item_updated_at r)
     \<and> convertible (e_item_updated_at e) \<and> b = (freshness r \<le> event_freshness e)"
  by (auto simp: should_apply_event_def and_then_eq_Inr parse_timestamp_Inr freshness_def
      event_freshness_def less_eq_item_state_def)

lemma event_state_fresh: "freshness r \<le> event_freshness e \<Longrightarrow> freshness r \<le> freshness (apply_event r e)"
  by (auto simp: freshness_def event_freshness_def apply_event_def event_state_def less_eq_item_state_def)

section \<open>What the operations do\<close>

definition fits :: "mirror_record \<Rightarrow> mirror_event \<Rightarrow> bool" where
  "fits r e \<longleftrightarrow> m_repository r = e_repository e \<and> m_item_kind r = e_item_kind e
     \<and> m_item_number r = e_item_number e"

lemma event_item_ok:
  assumes "valid_event e"
  shows "item_ok (e_item_kind e) (e_title e) (e_author_login e) (e_labels e) (e_base_ref e)
     (e_head_ref e) (e_base_sha e) (e_head_sha e) (e_activity e) (e_item_updated_at e)"
    and "no_failure (item_identity (e_repository e) (e_item_kind e) (e_item_number e) (e_item_url e))"
    and "valid_delivery_id (e_delivery_id e)" and "zoned (e_item_updated_at e)"
  using assms by (simp_all add: valid_event_def event_checks_def item_ok_def)

lemma references_or_else:
  assumes "no_failure (references kind a b c d)" and "no_failure (references kind a' b' c' d')"
  shows "no_failure (references kind (or_else a a') (or_else b b') (or_else c c') (or_else d d'))"
  using assms by (auto simp: references_def or_else_def)

lemma apply_event_shown:
  assumes "shown_item_ok r" and "valid_event e" and "fits r e"
  shows "shown_item_ok (apply_event r e)"
  using assms event_item_ok(1) [OF assms(2)]
  by (simp add: shown_item_ok_def item_ok_def apply_event_def fits_def references_or_else)

lemma note_delivery_ok:
  assumes "valid_mirror r" and "valid_delivery_id (e_delivery_id e)"
    and "e_delivery_id e \<notin> set (m_recent_delivery_ids r)" and "zoned ts"
  shows "progress_ok (note_delivery r e ts)"
proof -
  let ?ds = "last_n MAX_RECENT_DELIVERIES (m_recent_delivery_ids r @ [e_delivery_id e])"
  have d: "no_failure (delivery_checks r)" using assms(1) by (simp add: valid_mirror_iff progress_ok_def)
  have "set ?ds \<subseteq> insert (e_delivery_id e) (set (m_recent_delivery_ids r))" using set_last_n by fastforce
  moreover have "\<forall>x \<in> set (m_recent_delivery_ids r). valid_delivery_id x" "distinct (m_recent_delivery_ids r)"
    using d by (auto simp: delivery_checks_def no_failure_def)
  moreover have "distinct ?ds" using calculation(3) assms(3) by (intro distinct_last_n) simp
  ultimately have "no_failure (delivery_checks (note_delivery r e ts))"
    using assms(2) by (auto simp: delivery_checks_def note_delivery_def no_failure_def)
  moreover have "card_checks (note_delivery r e ts) = card_checks r"
    "action_checks (note_delivery r e ts) = action_checks r"
    by (simp_all add: card_checks_def action_checks_def note_delivery_def)
  ultimately show ?thesis
    using assms(1,4) by (simp add: valid_mirror_iff progress_ok_def) (simp add: note_delivery_def)
qed

lemma update_from_event_ok:
  assumes "valid_mirror r" and "valid_event e" and "fits r e"
    and "e_delivery_id e \<notin> set (m_recent_delivery_ids r)" and "zoned ts"
    and "convertible (m_item_updated_at r)" and "convertible (e_item_updated_at e)"
  defines "r' \<equiv> note_delivery (if freshness r \<le> event_freshness e then apply_event r e else r) e ts"
  shows "update_from_event r e ts = Inr r'" and "valid_mirror r'"
proof -
  let ?s = "if freshness r \<le> event_freshness e then apply_event r e else r"
  have same: "identity_ok (apply_event r e) = identity_ok r" "progress_ok (apply_event r e) = progress_ok r"
    "claims_ok (apply_event r e) = claims_ok r"
    by (simp_all add: identity_ok_def progress_ok_def claims_ok_def card_checks_def delivery_checks_def
        action_checks_def apply_event_def)
  have s: "valid_mirror ?s"
    using assms(1) apply_event_shown [OF _ assms(2,3)] by (simp add: valid_mirror_iff same)
  have "progress_ok r'" unfolding r'_def
    by (rule note_delivery_ok [OF s]) (use event_item_ok(3) [OF assms(2)] assms(4,5) in \<open>auto simp: apply_event_def\<close>)
  moreover have "identity_ok (note_delivery q e ts) = identity_ok q"
    "shown_item_ok (note_delivery q e ts) = shown_item_ok q"
    "claims_ok (note_delivery q e ts) = claims_ok q" for q
    by (simp_all add: identity_ok_def shown_item_ok_def claims_ok_def note_delivery_def)
  ultimately show v: "valid_mirror r'" using s by (simp add: valid_mirror_iff r'_def)
  have "should_apply_event r e = Inr (freshness r \<le> event_freshness e)"
    using assms(6,7) by (simp add: should_apply_Inr)
  then show "update_from_event r e ts = Inr r'"
    using v by (simp add: update_from_event_def make_mirror_Inr valid_mirror_def r'_def)
qed

lemma update_from_event_Inr:
  assumes "update_from_event r e ts = Inr r'"
  shows "r' = note_delivery (if freshness r \<le> event_freshness e then apply_event r e else r) e ts"
    and "convertible (m_item_updated_at r)" and "convertible (e_item_updated_at e)"
  using assms by (auto simp: update_from_event_def and_then_eq_Inr make_mirror_Inr should_apply_Inr)

lemma uuid_hex_match: "fullmatch_n is_lower_hex 32 (uuid_hex n)"
  by (simp add: fullmatch_n_def uuid_hex_chars)

lemma record_from_event_ok:
  assumes "valid_event e" and "0 < guild" "guild < 2 ^ 64" "0 < channel" "channel < 2 ^ 64" and "zoned ts"
  shows "\<exists>r. record_from_event n e guild channel ts = Inr r \<and> valid_mirror r \<and> fits r e
     \<and> m_mirror_id r = uuid_hex n \<and> m_recent_delivery_ids r = [e_delivery_id e]
     \<and> m_item_updated_at r = e_item_updated_at e \<and> m_state r = e_state e \<and> m_guild_id r = guild
     \<and> m_channel_id r = channel"
proof -
  define r where "r = first_record n e guild channel ts"
  then have r: "record_from_event n e guild channel ts = make_mirror r"
    "r = first_record n e guild channel ts" by (simp_all add: record_from_event_def)
  note f = event_item_ok [OF assms(1)]
  have "identity_ok r" using f(2) assms(2-) uuid_hex_match [of n]
    by (simp add: r(2) first_record_def identity_ok_def positive_integer_def)
  moreover have "shown_item_ok r" using f(1) by (simp add: r(2) first_record_def shown_item_ok_def)
  moreover have "progress_ok r" using f(3) assms(6)
    by (simp add: r(2) first_record_def progress_ok_def card_checks_def optional_positive_integer_def
        optional_card_nonce_def delivery_checks_def action_checks_def)
  moreover have "claims_ok r" by (simp add: r(2) first_record_def claims_ok_def)
  ultimately have "valid_mirror r" by (simp add: valid_mirror_iff)
  moreover from this have "record_from_event n e guild channel ts = Inr r"
    using r(1) by (simp add: make_mirror_Inr valid_mirror_def)
  ultimately show ?thesis
    by (intro exI [of _ r]) (simp, simp add: r(2) first_record_def fits_def)
qed

text \<open>A record an update function may return: the constructors accept it, the store truncates its
  claims.\<close>

definition constructed :: "mirror_record \<Rightarrow> bool" where
  "constructed r \<longleftrightarrow> no_failure (mirror_checks r)
     \<and> (\<forall>p \<in> set_option (m_pending_action r). no_failure (pending_checks p))
     \<and> (\<forall>c \<in> set (m_handled_claims r). no_failure (claim_checks c))"

lemma valid_constructed: "valid_mirror r \<longleftrightarrow> constructed r \<and> length (m_handled_claims r) \<le> MAX_HANDLED_CLAIMS"
  by (auto simp: valid_mirror_def constructed_def claims_ok_def)

definition stamped :: "mirror_record \<Rightarrow> mirror_record \<Rightarrow> string \<Rightarrow> mirror_record" where
  "stamped current candidate ts = candidate
      \<lparr>m_revision := m_revision current + 1,
       m_handled_claims := last_n MAX_HANDLED_CLAIMS (m_handled_claims candidate),
       m_updated_at := ts\<rparr>"

lemma stamped_ok:
  assumes "constructed c" and "0 \<le> m_revision r" and "zoned ts"
  shows "valid_mirror (stamped r c ts)"
proof -
  let ?q = "stamped r c ts"
  have c: "identity_ok c" "shown_item_ok c" "progress_ok c"
    using assms(1) by (simp_all add: constructed_def mirror_checks_ok)
  have "identity_ok ?q = identity_ok c" "shown_item_ok ?q = shown_item_ok c"
    by (simp_all add: identity_ok_def shown_item_ok_def stamped_def)
  moreover have "card_checks ?q = card_checks c" "delivery_checks ?q = delivery_checks c"
    by (simp_all add: card_checks_def delivery_checks_def stamped_def)
  moreover have "no_failure (action_checks c) \<Longrightarrow> no_failure (action_checks ?q)"
    by (simp add: action_checks_def stamped_def map_last_n)
  moreover have "claims_ok ?q"
    using assms(1) set_last_n [of MAX_HANDLED_CLAIMS "m_handled_claims c"]
    by (auto simp: constructed_def claims_ok_def stamped_def)
  moreover have "0 \<le> m_revision ?q" "m_thread_id ?q = m_thread_id c" "m_updated_at ?q = ts"
    using assms(2) by (simp_all add: stamped_def)
  ultimately show ?thesis using c assms(3) by (simp add: valid_mirror_iff progress_ok_def)
qed

lemma updated_record_Inr:
  "updated_record r f ts = Inr r' \<longleftrightarrow> (\<exists>c. f r = Inr c \<and> immutable_part r = immutable_part c
     \<and> r' = stamped r c ts \<and> no_failure (mirror_checks r'))"
  by (auto simp: updated_record_def and_then_eq_Inr make_mirror_Inr validate_mirror_update_def
      guarded_eq_Inr stamped_def)

lemma updated_record_ok:
  assumes "valid_mirror r" and "f r = Inr c" and "constructed c" and "immutable_part r = immutable_part c"
    and "zoned ts"
  shows "updated_record r f ts = Inr (stamped r c ts)" and "valid_mirror (stamped r c ts)"
proof -
  have "0 \<le> m_revision r" using assms(1) by (simp add: valid_mirror_iff progress_ok_def)
  from stamped_ok [OF assms(3) this assms(5)] show "valid_mirror (stamped r c ts)" .
  then show "updated_record r f ts = Inr (stamped r c ts)"
    using assms(2,4) by (auto simp: updated_record_Inr valid_mirror_def)
qed

text \<open>The card operations: what they need and what they leave.\<close>

definition card_change :: "mirror_record \<Rightarrow> mirror_record \<Rightarrow> bool" where
  "card_change r c \<longleftrightarrow> immutable_part r = immutable_part c \<and> m_thread_id c = m_thread_id r
     \<and> m_pending_action c = m_pending_action r \<and> m_handled_claims c = m_handled_claims r
     \<and> m_active_task_id c = m_active_task_id r \<and> m_updated_at c = m_updated_at r"

lemma card_change_constructed:
  assumes "valid_mirror r" and "card_change r c" and "no_failure (card_checks c)"
  shows "constructed c"
proof -
  have "identity_ok c = identity_ok r" "shown_item_ok c = shown_item_ok r"
    "delivery_checks c = delivery_checks r" "action_checks c = action_checks r"
    using assms(2) by (simp_all add: card_change_def immutable_part_def identity_ok_def shown_item_ok_def
        delivery_checks_def action_checks_def)
  moreover have "m_revision c = m_revision r" using assms(2) by (simp add: card_change_def immutable_part_def)
  ultimately show ?thesis using assms
    by (auto simp: constructed_def mirror_checks_ok valid_mirror_iff progress_ok_def claims_ok_def card_change_def)
qed

lemma card_update_ok:
  assumes "valid_mirror r" and "card_change r c" and "no_failure (card_checks c)" and "zoned ts"
  shows "updated_record r (\<lambda>_. make_mirror c) ts = Inr (stamped r c ts)" and "valid_mirror (stamped r c ts)"
proof -
  note c = card_change_constructed [OF assms(1-3)]
  then have "make_mirror c = Inr c" by (simp add: make_mirror_Inr constructed_def)
  with updated_record_ok [OF assms(1) _ c _ assms(4), of "\<lambda>_. make_mirror c"] assms(2)
  show "updated_record r (\<lambda>_. make_mirror c) ts = Inr (stamped r c ts)" "valid_mirror (stamped r c ts)"
    by (simp_all add: card_change_def)
qed

lemma updated_record_cong: "f r = g r \<Longrightarrow> updated_record r f ts = updated_record r g ts"
  by (simp add: updated_record_def)

end
