(* ===== verification/MirrorOrder.thy ===== *)
theory MirrorOrder
  imports MirrorUpdates
begin

text \<open>
  Webhook deliveries are neither ordered nor unique. Folding \<open>update_from_event\<close> over the events of
  one item only moves forward in the lexicographic order of \<open>MirrorUpdates\<close>, and what the
  card shows in the end does not depend on the order of delivery, as long as the events carry the
  whole item (\<open>complete_event\<close>).
\<close>

section \<open>Delivering a list of events to a record\<close>

fun deliver_all :: "mirror_record \<Rightarrow> (mirror_event \<times> string) list \<Rightarrow> mirror_record result" where
  "deliver_all r [] = Inr r"
| "deliver_all r ((e, ts) # es) = and_then (update_from_event r e ts) (\<lambda>r'. deliver_all r' es)"

definition record_view where
  "record_view (r :: mirror_record) = (m_title r, m_state r, m_author_login r, m_labels r,
     m_base_ref r, m_head_ref r, m_base_sha r, m_head_sha r, m_activity r, m_item_updated_at r)"

definition event_view where
  "event_view (e :: mirror_event) = (e_title e, e_state e, e_author_login e, e_labels e,
     e_base_ref e, e_head_ref e, e_base_sha e, e_head_sha e, e_activity e, e_item_updated_at e)"

text \<open>Comment events of a pull request carry neither its references nor its draft or merged state.\<close>

definition complete_event :: "mirror_event \<Rightarrow> bool" where
  "complete_event e \<longleftrightarrow> e_item_kind e = ISSUE \<or> (e_event_name e \<noteq> ''issue_comment''
     \<and> e_base_ref e \<noteq> None \<and> e_head_ref e \<noteq> None \<and> e_base_sha e \<noteq> None \<and> e_head_sha e \<noteq> None)"

lemma issue_references:
  "no_failure (references ISSUE a b c d) \<Longrightarrow> a = None \<and> b = None \<and> c = None \<and> d = None"
  by (simp add: references_def)

lemma apply_complete_view:
  assumes "complete_event e" and "fits r e" and "shown_item_ok r"
  shows "record_view (apply_event r e) = event_view e"
proof (cases "e_item_kind e")
  case ISSUE
  then have "no_failure (references ISSUE (m_base_ref r) (m_head_ref r) (m_base_sha r) (m_head_sha r))"
    using assms(2,3) by (simp add: fits_def shown_item_ok_def item_ok_def)
  from issue_references [OF this] ISSUE show ?thesis
    by (auto simp: record_view_def event_view_def apply_event_def event_state_def or_else_def)
next
  case PULL_REQUEST
  with assms(1) show ?thesis
    by (auto simp: record_view_def event_view_def apply_event_def event_state_def or_else_def complete_event_def)
qed

lemma note_delivery_simps [simp]:
  "record_view (note_delivery r e ts) = record_view r"
  "freshness (note_delivery r e ts) = freshness r"
  "fits (note_delivery r e ts) d = fits r d"
  by (simp_all add: record_view_def freshness_def fits_def note_delivery_def)

lemma fits_apply [simp]: "fits (apply_event r e) d = fits r d"
  by (simp add: fits_def apply_event_def)

lemma view_freshness:
  "record_view r = event_view e \<Longrightarrow> freshness r = event_freshness e"
  by (simp add: record_view_def event_view_def freshness_def event_freshness_def)

lemma update_step:
  assumes "update_from_event r e ts = Inr r'"
  shows "record_view r' = (if freshness r \<le> event_freshness e then record_view (apply_event r e) else record_view r)"
    and "freshness r \<le> freshness r'" and "fits r' d = fits r d" and "shown_item_ok r'"
proof -
  note u = update_from_event_Inr(1) [OF assms]
  show "record_view r' = (if freshness r \<le> event_freshness e then record_view (apply_event r e) else record_view r)"
    by (simp add: u)
  show "freshness r \<le> freshness r'" using event_state_fresh [of r e] by (simp add: u)
  show "fits r' d = fits r d" by (simp add: u)
  show "shown_item_ok r'" using assms
    by (auto simp: update_from_event_def and_then_eq_Inr make_mirror_Inr mirror_checks_ok)
qed

lemma deliver_all_mono: "deliver_all r es = Inr r' \<Longrightarrow> freshness r \<le> freshness r'"
proof (induction r es rule: deliver_all.induct)
  case (2 r e ts es)
  then obtain q where "update_from_event r e ts = Inr q" "deliver_all q es = Inr r'"
    by (auto simp: and_then_eq_Inr)
  with 2(1) [OF this(2)] update_step(2) [of r e ts q] show ?case by (auto intro: order_trans)
qed simp

text \<open>
  The record shows what it showed, or the freshest of the events.
\<close>

lemma deliver_all_view:
  assumes "deliver_all r es = Inr r'" and "shown_item_ok r"
    and "\<forall>(e, ts) \<in> set es. complete_event e \<and> fits r e"
  shows "(record_view r' = record_view r \<and> (\<forall>(e, ts) \<in> set es. event_freshness e < freshness r))
     \<or> (\<exists>(e, ts) \<in> set es. record_view r' = event_view e)"
    and "\<forall>(e, ts) \<in> set es. event_freshness e \<le> freshness r'"
  using assms
proof (induction r es rule: deliver_all.induct)
  case (1 r)
  { case 1 then show ?case by simp }
  { case 2 then show ?case by simp }
next
  case (2 r e ts es)
  { case prems: 1
    obtain q where q: "update_from_event r e ts = Inr q" "deliver_all q es = Inr r'"
      using prems(1) by (auto simp: and_then_eq_Inr)
    have e: "complete_event e" "fits r e" using prems(3) by auto
    have rest: "\<forall>(e, ts) \<in> set es. complete_event e \<and> fits q e" using prems(3) update_step(3) [OF q(1)] by auto
    note IH = "2.IH"(1) [OF q(2) update_step(4) [OF q(1)] rest]
    show ?case
    proof (cases "freshness r \<le> event_freshness e")
      case True
      then have "record_view q = event_view e"
        using update_step(1) [OF q(1)] apply_complete_view [OF e prems(2)] by simp
      with IH show ?thesis by auto
    next
      case False
      then have "record_view q = record_view r" using update_step(1) [OF q(1)] by simp
      moreover from this have "freshness q = freshness r" by (simp add: record_view_def freshness_def)
      ultimately show ?thesis using IH False by (auto simp: not_le)
    qed }
  { case prems: 2
    obtain q where q: "update_from_event r e ts = Inr q" "deliver_all q es = Inr r'"
      using prems(1) by (auto simp: and_then_eq_Inr)
    have e: "complete_event e" "fits r e" using prems(3) by auto
    have rest: "\<forall>(e, ts) \<in> set es. complete_event e \<and> fits q e" using prems(3) update_step(3) [OF q(1)] by auto
    note IH = "2.IH"(2) [OF q(2) update_step(4) [OF q(1)] rest]
    have "event_freshness e \<le> freshness q"
    proof (cases "freshness r \<le> event_freshness e")
      case True
      then have "record_view q = event_view e"
        using update_step(1) [OF q(1)] apply_complete_view [OF e prems(2)] by simp
      from view_freshness [OF this] show ?thesis by simp
    next
      case False
      then show ?thesis using update_step(2) [OF q(1)] by simp
    qed
    with deliver_all_mono [OF q(2)] IH show ?case by (auto intro: order_trans) }
qed

lemma deliver_all_outcome:
  assumes "deliver_all r es = Inr r'" and "shown_item_ok r"
    and "\<forall>e \<in> fst ` set es. complete_event e \<and> fits r e"
  shows "(record_view r' = record_view r \<and> (\<forall>e \<in> fst ` set es. event_freshness e < freshness r))
     \<or> (\<exists>e \<in> fst ` set es. record_view r' = event_view e)"
    and "\<forall>e \<in> fst ` set es. event_freshness e \<le> freshness r'"
proof -
  have "\<forall>(e, ts) \<in> set es. complete_event e \<and> fits r e" using assms(3) by auto
  note d = deliver_all_view [OF assms(1,2) this]
  show "(record_view r' = record_view r \<and> (\<forall>e \<in> fst ` set es. event_freshness e < freshness r))
     \<or> (\<exists>e \<in> fst ` set es. record_view r' = event_view e)"
    using d(1) by fastforce
  show "\<forall>e \<in> fst ` set es. event_freshness e \<le> freshness r'" using d(2) by fastforce
qed

section \<open>Properties\<close>

text \<open>
  C33. An update never takes an item back: whatever sequence of events a record absorbs, in
  whatever order they arrive, the pair of item time and state finality it ends with is at least
  the pair it started with.
\<close>

theorem events_never_go_back:
  assumes "deliver_all r es = Inr r'"
  shows "freshness r \<le> freshness r'"
  using assms by (rule deliver_all_mono)

text \<open>
  C21. The order of delivery does not matter: two sequences with the same events (each
  carrying the whole item, no two with the same time and state) lead to records that show the same
  title, state, author, labels, references, activity and item time.
\<close>

theorem events_converge:
  assumes "deliver_all r es = Inr a" and "deliver_all r es' = Inr b"
    and "mset (map fst es) = mset (map fst es')" and "shown_item_ok r"
    and "\<forall>(e, ts) \<in> set es. complete_event e \<and> fits r e"
    and "inj_on event_freshness (fst ` set es)"
  shows "record_view a = record_view b"
proof -
  have same: "fst ` set es = fst ` set es'" using arg_cong [OF assms(3), of set_mset] by simp
  have c: "\<forall>e \<in> fst ` set es. complete_event e \<and> fits r e" using assms(5) by auto
  note A = deliver_all_outcome [OF assms(1,4) c]
    and B = deliver_all_outcome [OF assms(2,4), folded same, OF c]
  have outcome: "record_view x = record_view r \<and> (\<forall>e \<in> fst ` set es. event_freshness e < freshness r)
      \<or> (\<exists>e \<in> fst ` set es. record_view x = event_view e)" if "x = a \<or> x = b" for x
    using that A(1) B(1) by blast
  have up: "freshness r \<le> freshness x" if "x \<in> {a, b}" for x
    using that assms(1,2) deliver_all_mono by auto
  note outcome_a = outcome [of a, OF disjI1, OF refl] and outcome_b = outcome [of b, OF disjI2, OF refl]
  from outcome_a show ?thesis
  proof (elim disjE)
    assume a: "record_view a = record_view r \<and> (\<forall>e \<in> fst ` set es. event_freshness e < freshness r)"
    have "\<not> (\<exists>e \<in> fst ` set es. record_view b = event_view e)"
      using a up [of b] view_freshness [of b] by (metis insertCI not_le)
    with outcome_b a show ?thesis by simp
  next
    assume "\<exists>e \<in> fst ` set es. record_view a = event_view e"
    then obtain e where e: "e \<in> fst ` set es" "record_view a = event_view e" by blast
    then have fe: "freshness a = event_freshness e" by (simp add: view_freshness)
    then have "\<not> event_freshness e < freshness r" using up [of a] by simp
    then obtain d where d : "d \<in> fst ` set es" "record_view b = event_view d" using outcome_b e(1) by auto
    then have "freshness b = event_freshness d" by (simp add: view_freshness)
    then have "event_freshness d = event_freshness e" using bspec [OF A(2) d(1)] bspec [OF B(2) e(1)] fe by simp
    then have "d = e" using assms(6) d(1) e(1) by (auto dest: inj_onD)
    with e d show ?thesis by simp
  qed
qed

section \<open>An item of the repository\<close>

definition example_event :: mirror_event where
  "example_event =
    \<lparr>e_delivery_id = ''d1'', e_event_name = ''issues'', e_action = ''opened'', e_repository = ''o/r'',
     e_item_kind = ISSUE, e_item_number = 7, e_item_url = ''https://github.com/o/r/issues/7'',
     e_title = ''T'', e_state = OPEN, e_author_login = ''ann'', e_labels = [''bug''],
     e_base_ref = None, e_head_ref = None, e_base_sha = None, e_head_sha = None,
     e_activity = ''Issue opened'', e_item_updated_at = ''2026-07-17T10:00:00Z''\<rparr>"

definition closing_event :: mirror_event where
  "closing_event = example_event\<lparr>e_delivery_id := ''d2'', e_action := ''closed'', e_state := CLOSED,
     e_activity := ''Issue closed'', e_item_updated_at := ''2026-07-17T11:00:00Z''\<rparr>"

definition example_stamp :: string where
  "example_stamp = ''2026-07-17T10:00:00+00:00''"

definition example_mirror :: mirror_record where
  "example_mirror =
    \<lparr>m_mirror_id = ''00000000000000000000000000000001'', m_revision = 0, m_guild_id = 5,
     m_channel_id = 6, m_card_message_id = None, m_card_create_pending = False,
     m_card_create_nonce = None, m_card_cleanup_nonce = None, m_publication_pending = True,
     m_thread_id = None, m_repository = ''o/r'', m_item_kind = ISSUE, m_item_number = 7,
     m_item_url = ''https://github.com/o/r/issues/7'', m_title = ''S'', m_state = OPEN,
     m_author_login = ''ann'', m_labels = [], m_base_ref = None, m_head_ref = None,
     m_base_sha = None, m_head_sha = None, m_activity = ''Issue opened'',
     m_item_updated_at = ''2026-07-17T09:00:00Z'', m_recent_delivery_ids = [''d0''],
     m_pending_action = None, m_handled_claims = [], m_active_task_id = None,
     m_created_at = example_stamp, m_updated_at = example_stamp\<rparr>"

lemma example_valid: "valid_event example_event" "valid_event closing_event" "shown_item_ok example_mirror"
  by code_simp+

lemma example_mirror_valid: "valid_mirror example_mirror"
  by code_simp

lemma example_record: "\<exists>r. record_from_event 1 example_event 5 6 example_stamp = Inr r \<and> freshness r = event_freshness example_event"
proof -
  have "zoned example_stamp" by code_simp
  from record_from_event_ok [OF example_valid(1) _ _ _ _ this, of 5 6 1]
  show ?thesis by (auto simp: freshness_def event_freshness_def)
qed

definition in_order :: mirror_record where
  "in_order = note_delivery (apply_event (note_delivery (apply_event example_mirror example_event)
     example_event example_stamp) closing_event) closing_event example_stamp"

definition out_of_order :: mirror_record where
  "out_of_order = note_delivery (note_delivery (apply_event example_mirror closing_event)
     closing_event example_stamp) example_event example_stamp"

lemma example_deliveries:
  "deliver_all example_mirror [(example_event, example_stamp), (closing_event, example_stamp)] = Inr in_order"
  "deliver_all example_mirror [(closing_event, example_stamp), (example_event, example_stamp)] = Inr out_of_order"
  by code_simp+

theorem events_never_go_back_witness:
  "freshness example_mirror \<le> freshness out_of_order"
  by (rule events_never_go_back [OF example_deliveries(2)])

theorem events_converge_witness:
  "record_view in_order = record_view out_of_order \<and> in_order \<noteq> out_of_order"
proof -
  have "event_freshness example_event \<noteq> event_freshness closing_event" by code_simp
  moreover have "complete_event example_event" "complete_event closing_event"
    "fits example_mirror example_event" "fits example_mirror closing_event" by code_simp+
  moreover have "in_order \<noteq> out_of_order" by code_simp
  ultimately show ?thesis
    using events_converge [OF example_deliveries _ example_valid(3)] by (auto simp: inj_on_def)
qed

text \<open>
  Absorbing an event is total and keeps the record valid: the event of a known item, valid
  and not delivered before, leaves a record its constructor accepts, with the delivery noted, the
  revision advanced by one and the card due for publication.
\<close>

theorem event_update_total:
  assumes "valid_mirror r" and "valid_event e" and "fits r e"
    and "e_delivery_id e \<notin> set (m_recent_delivery_ids r)" and "zoned ts"
    and "convertible (m_item_updated_at r)" and "convertible (e_item_updated_at e)"
  shows "case update_from_event r e ts of Inl _ \<Rightarrow> False
    | Inr r' \<Rightarrow> valid_mirror r' \<and> e_delivery_id e \<in> set (m_recent_delivery_ids r')
        \<and> m_revision r' = m_revision r + 1 \<and> m_publication_pending r'"
proof -
  have "e_delivery_id e \<in> set (last_n MAX_RECENT_DELIVERIES (xs @ [e_delivery_id e]))" for xs
    by (simp add: last_n_snoc)
  then show ?thesis
    using update_from_event_ok [OF assms] by (simp add: note_delivery_def apply_event_def)
qed

theorem event_update_total_witness:
  "valid_mirror example_mirror \<and> (\<exists>r'. update_from_event example_mirror example_event example_stamp = Inr r'
     \<and> valid_mirror r' \<and> m_revision r' = 1)"
proof -
  have "zoned example_stamp" "convertible (m_item_updated_at example_mirror)"
    "convertible (e_item_updated_at example_event)" "fits example_mirror example_event"
    "e_delivery_id example_event \<notin> set (m_recent_delivery_ids example_mirror)" by code_simp+
  from event_update_total [OF example_mirror_valid example_valid(1) this(4,5,1,2,3)] example_mirror_valid
  show ?thesis by (simp add: example_mirror_def split: sum.splits)
qed

end
