(* ===== verification/MirrorSerialization.thy ===== *)
theory MirrorSerialization
  imports MirrorOrder PyJson
begin

text \<open>
  \<open>github_mirror_serialization.py\<close>: the document of the mirror store, in its current version 2 and
  the version 1 it still reads, where the nonce of a pending card is derived from the mirror's
  identifier. Objects with a repeated key are refused at any depth, so the JSON values here are
  the pair lists the \<open>object_pairs_hook\<close> sees.
\<close>

section \<open>Readers\<close>

fun unique_objects :: "json \<Rightarrow> bool" where
  "unique_objects (JArr vs) \<longleftrightarrow> list_all unique_objects vs"
| "unique_objects (JObj kvs) \<longleftrightarrow> dict_wf kvs \<and> list_all (\<lambda>kv. unique_objects (snd kv)) kvs"
| "unique_objects _ \<longleftrightarrow> True"

definition json_boolean :: "json \<Rightarrow> string \<Rightarrow> bool result" where
  "json_boolean v name = (case v of JBool b \<Rightarrow> Inr b
    | _ \<Rightarrow> Inl (ValueError (name @ '' must be a boolean'')))"

definition json_list :: "json \<Rightarrow> string \<Rightarrow> json list result" where
  "json_list v name = (case v of JArr vs \<Rightarrow> Inr vs
    | _ \<Rightarrow> Inl (ValueError (name @ '' must be a list'')))"

definition json_strings :: "json \<Rightarrow> string \<Rightarrow> string list result" where
  "json_strings v name = and_then (json_list v name) (\<lambda>vs.
    map_result (\<lambda>v. case v of JStr s \<Rightarrow> Inr s
      | _ \<Rightarrow> Inl (ValueError (name @ '' entries must be strings''))) vs)"

definition exact_keys :: "(string \<times> json) list \<Rightarrow> string list \<Rightarrow> string \<Rightarrow> unit result" where
  "exact_keys data expected name =
    guarded (set (dict_keys data) = set expected) (ValueError (name @ '' has unexpected fields''))"

section \<open>Enumerations and field names\<close>

definition kind_values :: "(item_kind \<times> string) list" where
  "kind_values = [(ISSUE, ''issue''), (PULL_REQUEST, ''pull_request'')]"

definition item_state_values :: "(item_state \<times> string) list" where
  "item_state_values = [(OPEN, ''open''), (DRAFT, ''draft''), (CLOSED, ''closed''), (MERGED, ''merged'')]"

definition action_values :: "(mirror_action \<times> string) list" where
  "action_values = [(M_REVIEW, ''review''), (M_SECURITY_REVIEW, ''security_review''),
     (M_VULNERABILITY_SCAN, ''vulnerability_scan''), (M_WORK, ''work'')]"

definition MIRROR_FIELDS :: "string list" where
  "MIRROR_FIELDS =
    [''mirror_id'', ''revision'', ''guild_id'', ''channel_id'', ''card_message_id'',
     ''card_create_pending'', ''card_create_nonce'', ''card_cleanup_nonce'', ''publication_pending'',
     ''thread_id'', ''repository_full_name'', ''item_kind'', ''item_number'', ''item_url'', ''title'',
     ''state'', ''author_login'', ''labels'', ''base_ref'', ''head_ref'', ''base_sha'', ''head_sha'',
     ''activity'', ''item_updated_at'', ''recent_delivery_ids'', ''pending_action'',
     ''handled_interaction_claims'', ''active_task_id'', ''created_at'', ''updated_at'']"

definition PENDING_FIELDS :: "string list" where
  "PENDING_FIELDS = [''interaction_id'', ''action'', ''task_id'', ''claimed_at'']"

definition CLAIM_FIELDS :: "string list" where
  "CLAIM_FIELDS = [''interaction_id'', ''action'', ''task_id'', ''succeeded'']"

section \<open>Encoding\<close>

definition encode_pending :: "pending_action \<Rightarrow> json" where
  "encode_pending p = json_dict
    [(''interaction_id'', JInt (p_interaction_id p)), (''action'', enum_json action_values (p_action p)),
     (''task_id'', JStr (p_task_id p)), (''claimed_at'', JStr (p_claimed_at p))]"

definition encode_claim :: "handled_claim \<Rightarrow> json" where
  "encode_claim c = json_dict
    [(''interaction_id'', JInt (h_interaction_id c)), (''action'', enum_json action_values (h_action c)),
     (''task_id'', JStr (h_task_id c)), (''succeeded'', JBool (h_succeeded c))]"

definition mirror_items :: "mirror_record \<Rightarrow> (string \<times> json) list" where
  "mirror_items r =
    [(''mirror_id'', JStr (m_mirror_id r)), (''revision'', JInt (m_revision r)),
     (''guild_id'', JInt (m_guild_id r)), (''channel_id'', JInt (m_channel_id r)),
     (''card_message_id'', opt_json JInt (m_card_message_id r)),
     (''card_create_pending'', JBool (m_card_create_pending r)),
     (''card_create_nonce'', opt_json JStr (m_card_create_nonce r)),
     (''card_cleanup_nonce'', opt_json JStr (m_card_cleanup_nonce r)),
     (''publication_pending'', JBool (m_publication_pending r)),
     (''thread_id'', opt_json JInt (m_thread_id r)),
     (''repository_full_name'', JStr (m_repository r)),
     (''item_kind'', enum_json kind_values (m_item_kind r)),
     (''item_number'', JInt (m_item_number r)), (''item_url'', JStr (m_item_url r)),
     (''title'', JStr (m_title r)), (''state'', enum_json item_state_values (m_state r)),
     (''author_login'', JStr (m_author_login r)), (''labels'', JArr (map JStr (m_labels r))),
     (''base_ref'', opt_json JStr (m_base_ref r)), (''head_ref'', opt_json JStr (m_head_ref r)),
     (''base_sha'', opt_json JStr (m_base_sha r)), (''head_sha'', opt_json JStr (m_head_sha r)),
     (''activity'', JStr (m_activity r)), (''item_updated_at'', JStr (m_item_updated_at r)),
     (''recent_delivery_ids'', JArr (map JStr (m_recent_delivery_ids r))),
     (''pending_action'', opt_json encode_pending (m_pending_action r)),
     (''handled_interaction_claims'', JArr (map encode_claim (m_handled_claims r))),
     (''active_task_id'', opt_json JStr (m_active_task_id r)),
     (''created_at'', JStr (m_created_at r)), (''updated_at'', JStr (m_updated_at r))]"

definition encode_mirror :: "mirror_record \<Rightarrow> json" where
  "encode_mirror r = json_dict (mirror_items r)"

type_synonym mirrors = "(string, mirror_record) pydict"

definition encode_mirrors :: "mirrors \<Rightarrow> json" where
  "encode_mirrors records = json_dict
    [(''version'', JInt 2), (''mirrors'', json_dict (map (\<lambda>(k, r). (k, encode_mirror r)) records))]"

section \<open>Decoding\<close>

text \<open>\<open>bytes.fromhex\<close>: pairs of hexadecimal digits, white space between them ignored.\<close>

definition is_ascii_space :: "char \<Rightarrow> bool" where
  "is_ascii_space c \<longleftrightarrow> char_in 9 13 c \<or> c = CHR '' ''"

fun bytes_fromhex :: "string \<Rightarrow> int list option" where
  "bytes_fromhex [] = Some []"
| "bytes_fromhex [c] = (if is_ascii_space c then Some [] else None)"
| "bytes_fromhex (c # d # cs) =
    (if is_ascii_space c then bytes_fromhex (d # cs)
     else case (hex_val c, hex_val d) of
       (Some h, Some l) \<Rightarrow> map_option (\<lambda>bs. (16 * h + l) # bs) (bytes_fromhex cs)
     | _ \<Rightarrow> None)"

definition base64_char :: "int \<Rightarrow> char" where
  "base64_char n =
    (if n < 26 then char_of (65 + n) else if n < 52 then char_of (71 + n)
     else if n < 62 then char_of (n - 4) else if n = 62 then CHR ''-'' else CHR ''_'')"

text \<open>\<open>urlsafe_b64encode(...).rstrip("=")\<close>.\<close>

fun base64_unpadded :: "int list \<Rightarrow> string" where
  "base64_unpadded (a # b # c # bs) =
    base64_char (a div 4) # base64_char (a mod 4 * 16 + b div 16)
      # base64_char (b mod 16 * 4 + c div 64) # base64_char (c mod 64) # base64_unpadded bs"
| "base64_unpadded [a, b] =
    [base64_char (a div 4), base64_char (a mod 4 * 16 + b div 16), base64_char (b mod 16 * 4)]"
| "base64_unpadded [a] = [base64_char (a div 4), base64_char (a mod 4 * 16)]"
| "base64_unpadded [] = []"

definition legacy_creation_nonce :: "string \<Rightarrow> string result" where
  "legacy_creation_nonce mirror_id = (case bytes_fromhex mirror_id of
      None \<Rightarrow> Inl (ValueError ''non-hexadecimal number found in fromhex() arg'')
    | Some bs \<Rightarrow> Inr (''gm:'' @ base64_unpadded bs))"

definition decode_pending :: "json \<Rightarrow> string \<Rightarrow> pending_action result" where
  "decode_pending raw name =
    and_then (json_object raw ''pending_action'') (\<lambda>data.
    and_then (exact_keys data PENDING_FIELDS ''pending_action'') (\<lambda>_.
    and_then (json_field data json_integer ''interaction_id'') (\<lambda>i.
    and_then (json_field data (json_enum action_values) ''action'') (\<lambda>a.
    and_then (json_field data json_string ''task_id'') (\<lambda>t.
    and_then (json_field data json_string ''claimed_at'') (\<lambda>ts.
    make_pending \<lparr>p_interaction_id = i, p_action = a, p_task_id = t, p_claimed_at = ts\<rparr>))))))"

definition decode_claim :: "json \<Rightarrow> handled_claim result" where
  "decode_claim raw =
    and_then (json_object raw ''handled claim'') (\<lambda>data.
    and_then (exact_keys data CLAIM_FIELDS ''handled claim'') (\<lambda>_.
    and_then (json_field data json_boolean ''succeeded'') (\<lambda>b.
    and_then (json_field data json_integer ''interaction_id'') (\<lambda>i.
    and_then (json_field data (json_enum action_values) ''action'') (\<lambda>a.
    and_then (json_field data json_string ''task_id'') (\<lambda>t.
    make_claim \<lparr>h_interaction_id = i, h_action = a, h_task_id = t, h_succeeded = b\<rparr>))))))"

text \<open>The fields version 1 lacked: all records had no \<open>publication_pending\<close>, the oldest no nonces.\<close>

definition current_v1_fields :: "string list" where
  "current_v1_fields = remove1 ''publication_pending'' MIRROR_FIELDS"

definition old_v1_fields :: "string list" where
  "old_v1_fields = remove1 ''card_create_nonce'' (remove1 ''card_cleanup_nonce'' current_v1_fields)"

definition decode_card_fields ::
    "(string \<times> json) list \<Rightarrow> int \<Rightarrow> (string option \<times> string option \<times> bool) result" where
  "decode_card_fields data version =
    (let both = (\<lambda>k. and_then (json_field data (json_optional json_string) ''card_create_nonce'') (\<lambda>c.
                     and_then (json_field data (json_optional json_string) ''card_cleanup_nonce'') (\<lambda>d. k c d)))
     in if version = 2 then
       and_then (exact_keys data MIRROR_FIELDS ''record'') (\<lambda>_. both (\<lambda>c d.
         and_then (json_field data json_boolean ''publication_pending'') (\<lambda>p. Inr (c, d, p))))
     else if set (dict_keys data) = set current_v1_fields then both (\<lambda>c d. Inr (c, d, True))
     else if set (dict_keys data) = set old_v1_fields then
       and_then (json_field data json_boolean ''card_create_pending'') (\<lambda>pending.
       and_then (if pending
         then and_then (json_field data json_string ''mirror_id'') (\<lambda>i. map_sum id Some (legacy_creation_nonce i))
         else Inr None) (\<lambda>c. Inr (c, None, True)))
     else Inl (ValueError ''record has unexpected fields''))"

definition decode_mirror :: "int \<Rightarrow> json \<Rightarrow> mirror_record result" where
  "decode_mirror version raw =
    and_then (json_object raw ''record'') (\<lambda>data.
    and_then (decode_card_fields data version) (\<lambda>(create_nonce, cleanup_nonce, publication_pending).
    and_then (json_field data (json_optional decode_pending) ''pending_action'') (\<lambda>pending.
    and_then (json_field data json_list ''handled_interaction_claims'') (\<lambda>claims_raw.
    if MAX_HANDLED_CLAIMS < length claims_raw
    then Inl (ValueError ''too many handled interaction claims'')
    else
    and_then (json_field data json_string ''mirror_id'') (\<lambda>mirror_id.
    and_then (json_field data json_integer ''revision'') (\<lambda>revision.
    and_then (json_field data json_integer ''guild_id'') (\<lambda>guild_id.
    and_then (json_field data json_integer ''channel_id'') (\<lambda>channel_id.
    and_then (json_field data (json_optional json_integer) ''card_message_id'') (\<lambda>card.
    and_then (json_field data json_boolean ''card_create_pending'') (\<lambda>create_pending.
    and_then (json_field data (json_optional json_integer) ''thread_id'') (\<lambda>thread.
    and_then (json_field data json_string ''repository_full_name'') (\<lambda>repository.
    and_then (json_field data (json_enum kind_values) ''item_kind'') (\<lambda>kind.
    and_then (json_field data json_integer ''item_number'') (\<lambda>number.
    and_then (json_field data json_string ''item_url'') (\<lambda>url.
    and_then (json_field data json_string ''title'') (\<lambda>title.
    and_then (json_field data (json_enum item_state_values) ''state'') (\<lambda>state.
    and_then (json_field data json_string ''author_login'') (\<lambda>author.
    and_then (json_field data json_strings ''labels'') (\<lambda>ls.
    and_then (json_field data (json_optional json_string) ''base_ref'') (\<lambda>base_ref.
    and_then (json_field data (json_optional json_string) ''head_ref'') (\<lambda>head_ref.
    and_then (json_field data (json_optional json_string) ''base_sha'') (\<lambda>base_sha.
    and_then (json_field data (json_optional json_string) ''head_sha'') (\<lambda>head_sha.
    and_then (json_field data json_string ''activity'') (\<lambda>activity.
    and_then (json_field data json_string ''item_updated_at'') (\<lambda>item_updated_at.
    and_then (json_field data json_strings ''recent_delivery_ids'') (\<lambda>deliveries.
    and_then (map_result decode_claim claims_raw) (\<lambda>claims.
    and_then (json_field data (json_optional json_string) ''active_task_id'') (\<lambda>active_task.
    and_then (json_field data json_string ''created_at'') (\<lambda>created_at.
    and_then (json_field data json_string ''updated_at'') (\<lambda>updated_at.
    make_mirror
      \<lparr>m_mirror_id = mirror_id, m_revision = revision, m_guild_id = guild_id,
       m_channel_id = channel_id, m_card_message_id = card, m_card_create_pending = create_pending,
       m_card_create_nonce = create_nonce, m_card_cleanup_nonce = cleanup_nonce,
       m_publication_pending = publication_pending, m_thread_id = thread, m_repository = repository,
       m_item_kind = kind, m_item_number = number, m_item_url = url, m_title = title,
       m_state = state, m_author_login = author, m_labels = ls, m_base_ref = base_ref,
       m_head_ref = head_ref, m_base_sha = base_sha, m_head_sha = head_sha, m_activity = activity,
       m_item_updated_at = item_updated_at, m_recent_delivery_ids = deliveries,
       m_pending_action = pending, m_handled_claims = claims, m_active_task_id = active_task,
       m_created_at = created_at, m_updated_at = updated_at\<rparr>))))))))))))))))))))))))))))))"

definition decode_mirrors :: "json option \<Rightarrow> mirrors result" where
  "decode_mirrors document = (case document of
      None \<Rightarrow> Inl (ValueError ''document is not JSON'')
    | Some raw \<Rightarrow>
        if \<not> unique_objects raw then Inl (ValueError ''duplicate JSON key'')
        else
        and_then (json_object raw ''document'') (\<lambda>data.
        and_then (exact_keys data [''version'', ''mirrors''] ''document'') (\<lambda>_.
        and_then (json_field data json_integer ''version'') (\<lambda>version.
        if version \<notin> {1, 2} then Inl (ValueError ''unsupported version'')
        else
        and_then (json_field data json_object ''mirrors'') (\<lambda>items.
        and_then (map_result (\<lambda>(k, v). map_sum id (Pair k) (decode_mirror version v)) items) (\<lambda>records.
        if \<exists>(k, r) \<in> set records. k \<noteq> m_mirror_id r
        then Inl (ValueError ''mirror key does not match record'')
        else if \<not> distinct (map logical_key (dict_values records))
        then Inl (ValueError ''duplicate logical mirror'')
        else Inr records))))))"

section \<open>Round trip\<close>

lemma mirror_tables_ok: "enum_ok kind_values" "enum_ok item_state_values" "enum_ok action_values"
  by code_simp+

lemma mirror_tables_complete:
  "k \<in> fst ` set kind_values" "st \<in> fst ` set item_state_values" "a \<in> fst ` set action_values"
proof -
  show "k \<in> fst ` set kind_values" by (cases k; simp add: kind_values_def)
  show "st \<in> fst ` set item_state_values" by (cases st; simp add: item_state_values_def)
  show "a \<in> fst ` set action_values" by (cases a; simp add: action_values_def)
qed

lemmas mirror_enums [simp] =
  json_enum_roundtrip [OF mirror_tables_ok(1) mirror_tables_complete(1)]
  json_enum_roundtrip [OF mirror_tables_ok(2) mirror_tables_complete(2)]
  json_enum_roundtrip [OF mirror_tables_ok(3) mirror_tables_complete(3)]

lemma json_readers_mirror [simp]:
  "json_boolean (JBool b) name = Inr b" "json_list (JArr vs) name = Inr vs"
  by (simp_all add: json_boolean_def json_list_def)

lemma json_strings_map [simp]: "json_strings (JArr (map JStr ss)) name = Inr ss"
  by (induction ss) (auto simp: json_strings_def)

lemma json_optional_readers [simp]:
  "json_optional json_string (opt_json JStr v) name = Inr v"
  "json_optional json_integer (opt_json JInt i) name = Inr i"
  by (rule json_optional_opt; simp)+

lemma decode_encode_pending:
  assumes "no_failure (pending_checks p)"
  shows "decode_pending (encode_pending p) name = Inr p"
proof -
  have w: "dict_wf [(''interaction_id'', JInt (p_interaction_id p)),
      (''action'', enum_json action_values (p_action p)),
      (''task_id'', JStr (p_task_id p)), (''claimed_at'', JStr (p_claimed_at p))]" by simp
  show ?thesis using assms
    by (simp add: decode_pending_def encode_pending_def exact_keys_def guarded_def PENDING_FIELDS_def
        json_field_def dict_lookup_def map_of_sorted [OF w] make_pending_Inr del: map_of_sorted) (cases p, simp)
qed

lemma decode_encode_claim:
  assumes "no_failure (claim_checks c)"
  shows "decode_claim (encode_claim c) = Inr c"
proof -
  have w: "dict_wf [(''interaction_id'', JInt (h_interaction_id c)),
      (''action'', enum_json action_values (h_action c)),
      (''task_id'', JStr (h_task_id c)), (''succeeded'', JBool (h_succeeded c))]" by simp
  show ?thesis using assms
    by (simp add: decode_claim_def encode_claim_def exact_keys_def guarded_def CLAIM_FIELDS_def
        json_field_def dict_lookup_def map_of_sorted [OF w] make_claim_Inr del: map_of_sorted) (cases c, simp)
qed

lemma mirror_items_keys: "dict_keys (mirror_items r) = MIRROR_FIELDS"
  by (simp add: mirror_items_def MIRROR_FIELDS_def)

lemma mirror_items_wf: "dict_wf (mirror_items r)"
  unfolding mirror_items_keys by code_simp

lemma old_v1_fields_eq: "old_v1_fields =
    [''mirror_id'', ''revision'', ''guild_id'', ''channel_id'', ''card_message_id'',
     ''card_create_pending'', ''thread_id'', ''repository_full_name'', ''item_kind'',
     ''item_number'', ''item_url'', ''title'', ''state'', ''author_login'', ''labels'',
     ''base_ref'', ''head_ref'', ''base_sha'', ''head_sha'', ''activity'', ''item_updated_at'',
     ''recent_delivery_ids'', ''pending_action'', ''handled_interaction_claims'',
     ''active_task_id'', ''created_at'', ''updated_at'']"
  by code_simp

lemma mirror_lookups:
  "map_of (mirror_items r) ''mirror_id'' = Some (JStr (m_mirror_id r))"
  "map_of (mirror_items r) ''revision'' = Some (JInt (m_revision r))"
  "map_of (mirror_items r) ''guild_id'' = Some (JInt (m_guild_id r))"
  "map_of (mirror_items r) ''channel_id'' = Some (JInt (m_channel_id r))"
  "map_of (mirror_items r) ''card_message_id'' = Some (opt_json JInt (m_card_message_id r))"
  "map_of (mirror_items r) ''card_create_pending'' = Some (JBool (m_card_create_pending r))"
  "map_of (mirror_items r) ''thread_id'' = Some (opt_json JInt (m_thread_id r))"
  "map_of (mirror_items r) ''repository_full_name'' = Some (JStr (m_repository r))"
  "map_of (mirror_items r) ''item_kind'' = Some (enum_json kind_values (m_item_kind r))"
  "map_of (mirror_items r) ''item_number'' = Some (JInt (m_item_number r))"
  "map_of (mirror_items r) ''item_url'' = Some (JStr (m_item_url r))"
  "map_of (mirror_items r) ''title'' = Some (JStr (m_title r))"
  "map_of (mirror_items r) ''state'' = Some (enum_json item_state_values (m_state r))"
  "map_of (mirror_items r) ''author_login'' = Some (JStr (m_author_login r))"
  "map_of (mirror_items r) ''labels'' = Some (JArr (map JStr (m_labels r)))"
  "map_of (mirror_items r) ''base_ref'' = Some (opt_json JStr (m_base_ref r))"
  "map_of (mirror_items r) ''head_ref'' = Some (opt_json JStr (m_head_ref r))"
  "map_of (mirror_items r) ''base_sha'' = Some (opt_json JStr (m_base_sha r))"
  "map_of (mirror_items r) ''head_sha'' = Some (opt_json JStr (m_head_sha r))"
  "map_of (mirror_items r) ''activity'' = Some (JStr (m_activity r))"
  "map_of (mirror_items r) ''item_updated_at'' = Some (JStr (m_item_updated_at r))"
  "map_of (mirror_items r) ''recent_delivery_ids'' = Some (JArr (map JStr (m_recent_delivery_ids r)))"
  "map_of (mirror_items r) ''pending_action'' = Some (opt_json encode_pending (m_pending_action r))"
  "map_of (mirror_items r) ''handled_interaction_claims'' = Some (JArr (map encode_claim (m_handled_claims r)))"
  "map_of (mirror_items r) ''active_task_id'' = Some (opt_json JStr (m_active_task_id r))"
  "map_of (mirror_items r) ''created_at'' = Some (JStr (m_created_at r))"
  "map_of (mirror_items r) ''updated_at'' = Some (JStr (m_updated_at r))"
  by (simp_all add: mirror_items_def)

lemma shared_fields:
  "''mirror_id'' \<in> set old_v1_fields"
  "''revision'' \<in> set old_v1_fields"
  "''guild_id'' \<in> set old_v1_fields"
  "''channel_id'' \<in> set old_v1_fields"
  "''card_message_id'' \<in> set old_v1_fields"
  "''card_create_pending'' \<in> set old_v1_fields"
  "''thread_id'' \<in> set old_v1_fields"
  "''repository_full_name'' \<in> set old_v1_fields"
  "''item_kind'' \<in> set old_v1_fields"
  "''item_number'' \<in> set old_v1_fields"
  "''item_url'' \<in> set old_v1_fields"
  "''title'' \<in> set old_v1_fields"
  "''state'' \<in> set old_v1_fields"
  "''author_login'' \<in> set old_v1_fields"
  "''labels'' \<in> set old_v1_fields"
  "''base_ref'' \<in> set old_v1_fields"
  "''head_ref'' \<in> set old_v1_fields"
  "''base_sha'' \<in> set old_v1_fields"
  "''head_sha'' \<in> set old_v1_fields"
  "''activity'' \<in> set old_v1_fields"
  "''item_updated_at'' \<in> set old_v1_fields"
  "''recent_delivery_ids'' \<in> set old_v1_fields"
  "''pending_action'' \<in> set old_v1_fields"
  "''handled_interaction_claims'' \<in> set old_v1_fields"
  "''active_task_id'' \<in> set old_v1_fields"
  "''created_at'' \<in> set old_v1_fields"
  "''updated_at'' \<in> set old_v1_fields"
  unfolding old_v1_fields_eq by simp_all

text \<open>Decoding of an object that agrees with a record on the fields all versions share.\<close>

lemma decode_mirror_fields:
  assumes agree: "\<And>k. k \<in> set old_v1_fields \<Longrightarrow> map_of d k = map_of (mirror_items r) k"
    and card: "decode_card_fields d version = Inr (a, b, p)"
    and ok: "valid_mirror (r\<lparr>m_card_create_nonce := a, m_card_cleanup_nonce := b, m_publication_pending := p\<rparr>)"
  shows "decode_mirror version (JObj d)
    = Inr (r\<lparr>m_card_create_nonce := a, m_card_cleanup_nonce := b, m_publication_pending := p\<rparr>)"
proof -
  let ?r = "r\<lparr>m_card_create_nonce := a, m_card_cleanup_nonce := b, m_publication_pending := p\<rparr>"
  have claims: "map_result decode_claim (map encode_claim (m_handled_claims r)) = Inr (m_handled_claims r)"
    using ok map_result_inverse [of "m_handled_claims r" decode_claim encode_claim id]
    by (simp add: valid_mirror_def claims_ok_def decode_encode_claim)
  have bound: "\<not> MAX_HANDLED_CLAIMS < length (m_handled_claims r)"
    using ok by (simp add: valid_mirror_def claims_ok_def)
  have pending: "json_optional decode_pending (opt_json encode_pending (m_pending_action r)) ''pending_action''
      = Inr (m_pending_action r)"
    using ok by (intro json_optional_opt decode_encode_pending)
      (auto simp: valid_mirror_def claims_ok_def encode_pending_def)
  have make: "make_mirror ?r = Inr ?r" using ok by (simp add: make_mirror_Inr valid_mirror_def)
  have get: "map_of d ''mirror_id'' = Some (JStr (m_mirror_id r))"
    "map_of d ''revision'' = Some (JInt (m_revision r))"
    "map_of d ''guild_id'' = Some (JInt (m_guild_id r))"
    "map_of d ''channel_id'' = Some (JInt (m_channel_id r))"
    "map_of d ''card_message_id'' = Some (opt_json JInt (m_card_message_id r))"
    "map_of d ''card_create_pending'' = Some (JBool (m_card_create_pending r))"
    "map_of d ''thread_id'' = Some (opt_json JInt (m_thread_id r))"
    "map_of d ''repository_full_name'' = Some (JStr (m_repository r))"
    "map_of d ''item_kind'' = Some (enum_json kind_values (m_item_kind r))"
    "map_of d ''item_number'' = Some (JInt (m_item_number r))"
    "map_of d ''item_url'' = Some (JStr (m_item_url r))"
    "map_of d ''title'' = Some (JStr (m_title r))"
    "map_of d ''state'' = Some (enum_json item_state_values (m_state r))"
    "map_of d ''author_login'' = Some (JStr (m_author_login r))"
    "map_of d ''labels'' = Some (JArr (map JStr (m_labels r)))"
    "map_of d ''base_ref'' = Some (opt_json JStr (m_base_ref r))"
    "map_of d ''head_ref'' = Some (opt_json JStr (m_head_ref r))"
    "map_of d ''base_sha'' = Some (opt_json JStr (m_base_sha r))"
    "map_of d ''head_sha'' = Some (opt_json JStr (m_head_sha r))"
    "map_of d ''activity'' = Some (JStr (m_activity r))"
    "map_of d ''item_updated_at'' = Some (JStr (m_item_updated_at r))"
    "map_of d ''recent_delivery_ids'' = Some (JArr (map JStr (m_recent_delivery_ids r)))"
    "map_of d ''pending_action'' = Some (opt_json encode_pending (m_pending_action r))"
    "map_of d ''handled_interaction_claims'' = Some (JArr (map encode_claim (m_handled_claims r)))"
    "map_of d ''active_task_id'' = Some (opt_json JStr (m_active_task_id r))"
    "map_of d ''created_at'' = Some (JStr (m_created_at r))"
    "map_of d ''updated_at'' = Some (JStr (m_updated_at r))"
    by (simp_all only: agree shared_fields mirror_lookups)
  have eta: "\<lparr>m_mirror_id = m_mirror_id r, m_revision = m_revision r, m_guild_id = m_guild_id r,
       m_channel_id = m_channel_id r, m_card_message_id = m_card_message_id r,
       m_card_create_pending = m_card_create_pending r, m_card_create_nonce = a,
       m_card_cleanup_nonce = b, m_publication_pending = p, m_thread_id = m_thread_id r,
       m_repository = m_repository r, m_item_kind = m_item_kind r, m_item_number = m_item_number r,
       m_item_url = m_item_url r, m_title = m_title r, m_state = m_state r,
       m_author_login = m_author_login r, m_labels = m_labels r, m_base_ref = m_base_ref r,
       m_head_ref = m_head_ref r, m_base_sha = m_base_sha r, m_head_sha = m_head_sha r,
       m_activity = m_activity r, m_item_updated_at = m_item_updated_at r,
       m_recent_delivery_ids = m_recent_delivery_ids r, m_pending_action = m_pending_action r,
       m_handled_claims = m_handled_claims r, m_active_task_id = m_active_task_id r,
       m_created_at = m_created_at r, m_updated_at = m_updated_at r\<rparr> = ?r"
    by simp
  show ?thesis
    unfolding decode_mirror_def
    by (simp only: json_readers(1) card and_then_Inr prod.case json_field_Some [OF get(23)] pending
        json_field_Some [OF get(24)] json_readers_mirror length_map bound if_False
        json_field_Some [OF get(1)] json_field_Some [OF get(2)] json_field_Some [OF get(3)]
        json_field_Some [OF get(4)] json_field_Some [OF get(5)] json_field_Some [OF get(6)]
        json_field_Some [OF get(7)] json_field_Some [OF get(8)] json_field_Some [OF get(9)]
        json_field_Some [OF get(10)] json_field_Some [OF get(11)] json_field_Some [OF get(12)]
        json_field_Some [OF get(13)] json_field_Some [OF get(14)] json_field_Some [OF get(15)]
        json_field_Some [OF get(16)] json_field_Some [OF get(17)] json_field_Some [OF get(18)]
        json_field_Some [OF get(19)] json_field_Some [OF get(20)] json_field_Some [OF get(21)]
        json_field_Some [OF get(22)] json_field_Some [OF get(25)] json_field_Some [OF get(26)]
        json_field_Some [OF get(27)] json_readers json_optional_readers mirror_enums
        json_strings_map claims eta make)
qed

lemma decode_encode_mirror:
  assumes "valid_mirror r"
  shows "decode_mirror 2 (encode_mirror r) = Inr r"
proof -
  let ?d = "sorted_dict (mirror_items r)"
  have m: "map_of ?d = map_of (mirror_items r)" by (rule map_of_sorted [OF mirror_items_wf])
  have k: "set (dict_keys ?d) = set MIRROR_FIELDS" using mirror_items_keys [of r] by (metis set_map set_sorted_dict)
  have "map_of ?d ''card_create_nonce'' = Some (opt_json JStr (m_card_create_nonce r))"
    "map_of ?d ''card_cleanup_nonce'' = Some (opt_json JStr (m_card_cleanup_nonce r))"
    "map_of ?d ''publication_pending'' = Some (JBool (m_publication_pending r))"
    unfolding m by (simp_all add: mirror_items_def)
  then have card: "decode_card_fields ?d 2
      = Inr (m_card_create_nonce r, m_card_cleanup_nonce r, m_publication_pending r)"
    using k by (simp add: decode_card_fields_def exact_keys_def guarded_def json_field_Some)
  from decode_mirror_fields [OF _ card, of r] assms m show ?thesis by (simp add: encode_mirror_def)
qed

definition mirrors_wf :: "mirrors \<Rightarrow> bool" where
  "mirrors_wf records \<longleftrightarrow> dict_wf records \<and> list_all (\<lambda>(k, r). m_mirror_id r = k \<and> valid_mirror r) records
     \<and> distinct (map logical_key (dict_values records))"

lemma list_all_sorted [simp]: "list_all P (sorted_dict kvs) = list_all P kvs"
  by (simp add: list_all_iff)

lemma unique_values [simp]:
  "unique_objects (opt_json JInt i)" "unique_objects (opt_json JStr s)" "unique_objects (enum_json t x)"
  "unique_objects (JArr (map JStr ss))"
  by (simp_all add: opt_json_def enum_json_def list_all_iff split: option.splits)

lemma unique_encode_pending [simp]: "unique_objects (encode_pending p)"
  by (simp add: encode_pending_def)

lemma unique_encode_claim [simp]: "unique_objects (encode_claim c)"
  by (simp add: encode_claim_def)

lemma unique_encode_mirror [simp]: "unique_objects (encode_mirror r)"
proof -
  have "unique_objects (opt_json encode_pending (m_pending_action r))"
    by (simp add: opt_json_def split: option.splits)
  then show ?thesis using mirror_items_wf [of r]
    by (simp add: encode_mirror_def) (simp add: mirror_items_def list_all_iff)
qed

lemma distinct_sorted_values:
  "distinct (map f (dict_values (sorted_dict d))) = distinct (map f (dict_values d))"
proof -
  have "mset (map f (dict_values (sorted_dict d))) = mset (map f (dict_values d))"
    by (simp add: sorted_dict_def)
  then show ?thesis by (rule mset_eq_imp_distinct_iff)
qed

lemma mirrors_roundtrip:
  assumes "mirrors_wf records"
  shows "decode_mirrors (Some (encode_mirrors records)) = Inr (sorted_dict records)"
proof -
  let ?items = "sorted_dict (map (\<lambda>(k, r). (k, encode_mirror r)) records)"
  have w: "dict_wf [(''version'', JInt 2), (''mirrors'', JObj ?items)]" by simp
  have u: "unique_objects (encode_mirrors records)"
    using assms by (auto simp: encode_mirrors_def mirrors_wf_def case_prod_beta comp_def list_all_iff)
  have ok: "m_mirror_id r = k \<and> valid_mirror r" if "(k, r) \<in> set records" for k r
    using assms that by (auto simp: mirrors_wf_def list_all_iff)
  have "map_result (\<lambda>(k, v). map_sum id (Pair k) (decode_mirror 2 v)) ?items
      = Inr (map id (sorted_dict records))"
    unfolding sorted_dict_map
    by (rule map_result_inverse) (use ok in \<open>auto simp: decode_encode_mirror\<close>)
  moreover have "\<not> (\<exists>(k, r) \<in> set (sorted_dict records). k \<noteq> m_mirror_id r)" using ok by auto
  moreover have "distinct (map logical_key (dict_values (sorted_dict records)))"
    using assms by (simp only: distinct_sorted_values mirrors_wf_def)
  ultimately show ?thesis using u
    by (simp add: decode_mirrors_def encode_mirrors_def json_field_def dict_lookup_def map_of_sorted [OF w]
        exact_keys_def guarded_def insert_commute del: map_of_sorted)
qed

section \<open>Upgrading version 1\<close>

lemma length_base64: "length (base64_unpadded bs) = (4 * length bs + 2) div 3"
  by (induction bs rule: base64_unpadded.induct) auto

lemma base64_char_class:
  assumes "0 \<le> n" and "n < 64"
  shows "is_alnum (base64_char n) \<or> base64_char n = CHR ''_'' \<or> base64_char n = CHR ''-''"
  using assms
  by (auto simp: base64_char_def is_alnum_def is_digit_def is_lower_def is_upper_def char_in_def)

lemma sextet:
  fixes a :: int
  assumes "0 \<le> a" "a < 256"
  shows "0 \<le> a div 4" "a div 4 < 64" "a mod 16 * 4 < 64" "a mod 4 * 16 < 64" "a mod 64 < 64"
  using assms by linarith+

lemma sextets:
  fixes a b :: int
  assumes "0 \<le> a" "a < 256" "0 \<le> b" "b < 256"
  shows "0 \<le> a mod 4 * 16 + b div 16" "a mod 4 * 16 + b div 16 < 64"
    "0 \<le> a mod 16 * 4 + b div 64" "a mod 16 * 4 + b div 64 < 64"
  using assms by linarith+

lemma base64_class:
  assumes "\<forall>b \<in> set bs. 0 \<le> b \<and> b < 256"
  shows "list_all (\<lambda>c. is_alnum c \<or> c \<in> set ''_-'') (base64_unpadded bs)"
  using assms
  by (induction bs rule: base64_unpadded.induct) (simp_all add: base64_char_class sextet sextets)

lemma lower_hex_val:
  assumes "is_lower_hex c"
  shows "\<not> is_ascii_space c" and "\<exists>h. hex_val c = Some h \<and> 0 \<le> h \<and> h < 16"
  using assms
  by (auto simp: is_lower_hex_def is_digit_def char_in_def is_ascii_space_def hex_val_def)

lemma bytes_fromhex_lower:
  assumes "list_all is_lower_hex s" and "even (length s)"
  shows "\<exists>bs. bytes_fromhex s = Some bs \<and> 2 * length bs = length s \<and> (\<forall>b \<in> set bs. 0 \<le> b \<and> b < 256)"
  using assms
proof (induction s rule: bytes_fromhex.induct)
  case (3 c d cs)
  obtain h l where hl: "hex_val c = Some h" "hex_val d = Some l" "0 \<le> h" "h < 16" "0 \<le> l" "l < 16"
    using 3(3) lower_hex_val(2) by (metis list.pred_inject(2))
  have "\<not> is_ascii_space c" using 3(3) lower_hex_val(1) by simp
  moreover obtain bs where "bytes_fromhex cs = Some bs" "2 * length bs = length cs"
    "\<forall>b \<in> set bs. 0 \<le> b \<and> b < 256"
    using "3.IH"(2) [OF calculation refl hl(1,2)] 3(3,4) by auto
  ultimately show ?case using hl by simp
qed auto

lemma legacy_nonce_valid:
  assumes "fullmatch_n is_lower_hex 32 i"
  shows "\<exists>n. legacy_creation_nonce i = Inr n \<and> valid_card_nonce n"
proof -
  obtain bs where bs: "bytes_fromhex i = Some bs" "length bs = 16" "\<forall>b \<in> set bs. 0 \<le> b \<and> b < 256"
    using bytes_fromhex_lower [of i] assms by (auto simp: fullmatch_n_def)
  then show ?thesis
    using base64_class [OF bs(3)] length_base64 [of bs]
    by (simp add: legacy_creation_nonce_def valid_card_nonce_def fullmatch_n_def)
qed

text \<open>The object the first gateway versions wrote for a record: no nonces, no publication flag.\<close>

definition old_v1_items :: "mirror_record \<Rightarrow> (string \<times> json) list" where
  "old_v1_items r = dict_restrict (\<lambda>k. k \<in> set old_v1_fields) (mirror_items r)"

definition upgraded :: "mirror_record \<Rightarrow> string \<Rightarrow> mirror_record" where
  "upgraded r nonce = r\<lparr>m_card_create_nonce := (if m_card_create_pending r then Some nonce else None),
     m_card_cleanup_nonce := None, m_publication_pending := True\<rparr>"

lemma upgraded_valid:
  assumes "valid_mirror r" and "valid_card_nonce n"
  shows "valid_mirror (upgraded r n)"
proof -
  have "identity_ok (upgraded r n) = identity_ok r" "shown_item_ok (upgraded r n) = shown_item_ok r"
    "claims_ok (upgraded r n) = claims_ok r" "delivery_checks (upgraded r n) = delivery_checks r"
    "action_checks (upgraded r n) = action_checks r"
    by (simp_all add: identity_ok_def shown_item_ok_def claims_ok_def delivery_checks_def
        action_checks_def upgraded_def)
  moreover have "no_failure (card_checks r) \<Longrightarrow> no_failure (card_checks (upgraded r n))"
    using assms(2) by (auto simp: card_checks_def upgraded_def optional_card_nonce_def)
  ultimately show ?thesis using assms(1)
    by (simp add: valid_mirror_iff progress_ok_def) (simp add: upgraded_def)
qed

lemma restrict_keys: "dict_keys (dict_restrict P d) = filter P (dict_keys d)"
  by (induction d) (auto simp: dict_restrict_def)

lemma old_v1_keys: "set (dict_keys (old_v1_items r)) = set old_v1_fields"
proof -
  have "set (filter (\<lambda>k. k \<in> set old_v1_fields) MIRROR_FIELDS) = set old_v1_fields" by code_simp
  then show ?thesis by (simp only: old_v1_items_def restrict_keys mirror_items_keys)
qed

lemma old_v1_decode:
  assumes "valid_mirror r"
  shows "\<exists>n. legacy_creation_nonce (m_mirror_id r) = Inr n \<and> valid_card_nonce n
     \<and> decode_mirror 1 (json_dict (old_v1_items r)) = Inr (upgraded r n)"
proof -
  let ?d = "sorted_dict (old_v1_items r)"
  have "fullmatch_n is_lower_hex 32 (m_mirror_id r)" using assms by (simp add: valid_mirror_iff identity_ok_def)
  then obtain n where n: "legacy_creation_nonce (m_mirror_id r) = Inr n" "valid_card_nonce n"
    using legacy_nonce_valid by blast
  have w: "dict_wf (old_v1_items r)" unfolding old_v1_items_def by (rule dict_wf_restrict [OF mirror_items_wf])
  have get: "map_of ?d k = map_of (mirror_items r) k" if "k \<in> set old_v1_fields" for k
    using that by (simp only: map_of_sorted [OF w]) (simp add: old_v1_items_def map_of_restrict)
  have k: "set (dict_keys ?d) = set old_v1_fields" using old_v1_keys [of r] by (metis set_map set_sorted_dict)
  have "set old_v1_fields \<noteq> set current_v1_fields" by code_simp
  moreover have "json_field ?d json_boolean ''card_create_pending'' = Inr (m_card_create_pending r)"
    "json_field ?d json_string ''mirror_id'' = Inr (m_mirror_id r)"
    by (simp_all only: json_field_def dict_lookup_def get shared_fields mirror_lookups option.case and_then_Inr
        json_readers json_readers_mirror)
  ultimately have "decode_card_fields ?d 1 = Inr ((if m_card_create_pending r then Some n else None), None, True)"
    using n(1) k by (simp add: decode_card_fields_def)
  from decode_mirror_fields [OF get this] upgraded_valid [OF assms n(2)] n
  show ?thesis by (simp add: upgraded_def)
qed

section \<open>Properties\<close>

text \<open>
  C23. What the mirror store writes it reads back: the encoded document of records their
  constructor accepts, with distinct logical keys, decodes to the same records, sorted by mirror
  identifier.
\<close>

theorem mirror_document_roundtrip:
  assumes "mirrors_wf records"
  shows "decode_mirrors (Some (encode_mirrors records)) = Inr (sorted_dict records)"
  using assms by (rule mirrors_roundtrip)

lemma example_mirrors_wf: "mirrors_wf [(m_mirror_id example_mirror, example_mirror)]"
  using example_mirror_valid by (simp add: mirrors_wf_def)

theorem mirror_document_roundtrip_witness:
  "decode_mirrors (Some (encode_mirrors [(m_mirror_id example_mirror, example_mirror)]))
     = Inr [(m_mirror_id example_mirror, example_mirror)]"
  using mirror_document_roundtrip [OF example_mirrors_wf] by (simp add: sorted_dict_def)

text \<open>
  The upgrade of the oldest document version is total: the object an old gateway wrote for
  any valid record is accepted, and the record it decodes to is valid again, due for publication,
  and has a well-formed card nonce derived from the mirror's identifier exactly when the card's
  creation was pending.
\<close>

theorem legacy_upgrade:
  assumes "valid_mirror r"
  shows "case decode_mirror 1 (json_dict (old_v1_items r)) of Inl _ \<Rightarrow> False
    | Inr r' \<Rightarrow> valid_mirror r' \<and> m_publication_pending r' \<and> m_mirror_id r' = m_mirror_id r
        \<and> (m_card_create_nonce r' \<noteq> None) = m_card_create_pending r
        \<and> record_view r' = record_view r"
  using old_v1_decode [OF assms] upgraded_valid [OF assms]
  by (auto simp: upgraded_def record_view_def)

definition pending_mirror :: mirror_record where
  "pending_mirror = example_mirror\<lparr>m_card_create_pending := True,
     m_card_create_nonce := Some ''gm:0123456789abcdefghijkl''\<rparr>"

theorem legacy_upgrade_witness:
  "valid_mirror pending_mirror
   \<and> (\<exists>r'. decode_mirror 1 (json_dict (old_v1_items pending_mirror)) = Inr r' \<and> m_card_create_nonce r' \<noteq> None)"
proof -
  have v: "valid_mirror pending_mirror" by code_simp
  moreover have "m_card_create_pending pending_mirror" by (simp add: pending_mirror_def)
  ultimately show ?thesis using legacy_upgrade [OF v] by (auto split: sum.splits)
qed

end
