(* ===== verification/MirrorStore.thy ===== *)
theory MirrorStore
  imports MirrorSerialization Persistence
begin

text \<open>
  \<open>github_mirror_store.py\<close>: the store of mirrored items. Unlike the task store it keeps nothing in
  memory that it reads: every operation takes the locks, loads the document, and writes the
  changed document back before it releases them, so an operation is one step on the directory.
  The exception is \<open>compare_and_set\<close>, which releases the locks while the caller's update
  function runs; that function may do anything to the store (other threads and processes may
  write meanwhile), except that a mutation by the calling thread is refused.
\<close>

section \<open>State and environment\<close>

text \<open>The directory, and whether the calling thread is inside an update function.\<close>

record mirror_store =
  ms_directory :: store_directory
  ms_callback :: bool

datatype read_outcome = READ_OK | LOCK_FAILS | READ_FAILS

text \<open>The clock, \<open>uuid4\<close> and \<open>secrets.token_urlsafe(16)\<close>, what happens when the document is read
  (and read again by \<open>compare_and_set\<close>), and the failing system calls of the write.\<close>

record mirror_env =
  me_now :: datetime
  me_uuid :: int
  me_token :: string
  me_read :: read_outcome
  me_reread :: read_outcome
  me_faults :: "io_step list"

type_synonym 'a mirror_op = "'a result \<times> mirror_store"

definition clock_text :: "datetime \<Rightarrow> string result" where
  "clock_text now =
    (if dt_offset now = None then Inl (ValueError ''clock timestamp must include a timezone'')
     else and_then (as_utc now) (\<lambda>u. Inr (isoformat u)))"

text \<open>\<open>except (OSError, TypeError, ValueError, KeyError)\<close>.\<close>

fun load_caught :: "exn \<Rightarrow> bool" where
  "load_caught OSError = True"
| "load_caught (KeyError _) = True"
| "load_caught TypeError = True"
| "load_caught e = is_value_error e"

definition load_mirrors :: "read_outcome \<Rightarrow> store_directory \<Rightarrow> mirrors result" where
  "load_mirrors reading d = (case sd_document d of
      None \<Rightarrow> Inr []
    | Some doc \<Rightarrow>
        (case (if reading = READ_FAILS then Inl OSError else decode_mirrors doc) of
           Inr records \<Rightarrow> Inr records
         | Inl e \<Rightarrow> Inl (if load_caught e then GitHubMirrorStoreCorruptionError else e)))"

definition canonical_records :: "read_outcome \<Rightarrow> mirror_store \<Rightarrow> mirrors result" where
  "canonical_records reading st =
    (if reading = LOCK_FAILS then Inl OSError else load_mirrors reading (ms_directory st))"

definition commit_record ::
    "mirror_env \<Rightarrow> mirror_store \<Rightarrow> mirrors \<Rightarrow> mirror_record \<Rightarrow> mirror_record mirror_op" where
  "commit_record env st records r =
    (case write_document (me_faults env) (ms_directory st)
            (encode_mirrors (AList.update (m_mirror_id r) r records)) of
       (c, d) \<Rightarrow> (and_then c (\<lambda>_. Inr r), st\<lparr>ms_directory := d\<rparr>))"

definition reject_callback_mutation :: "mirror_store \<Rightarrow> unit result" where
  "reject_callback_mutation st = guarded (\<not> ms_callback st) GitHubMirrorMutationReentryError"

text \<open>The body of an operation under the lock: it computes, from the loaded records, the record to
  commit (\<open>None\<close>: nothing to write) and the value to return.\<close>

definition mutation ::
    "mirror_env \<Rightarrow> read_outcome \<Rightarrow> mirror_store \<Rightarrow> (mirrors \<Rightarrow> (mirror_record option \<times> 'a) result)
     \<Rightarrow> 'a mirror_op" where
  "mutation env reading st body =
    (case and_then (canonical_records reading st) (\<lambda>records. and_then (body records) (\<lambda>x. Inr (records, x))) of
       Inl e \<Rightarrow> (Inl e, st)
     | Inr (records, None, v) \<Rightarrow> (Inr v, st)
     | Inr (records, Some r, v) \<Rightarrow>
         (case commit_record env st records r of (c, st') \<Rightarrow> (and_then c (\<lambda>_. Inr v), st')))"

definition guarded_mutation ::
    "mirror_env \<Rightarrow> mirror_store \<Rightarrow> (mirrors \<Rightarrow> (mirror_record option \<times> 'a) result) \<Rightarrow> 'a mirror_op" where
  "guarded_mutation env st body =
    (case reject_callback_mutation st of Inl e \<Rightarrow> (Inl e, st)
     | Inr _ \<Rightarrow> mutation env (me_read env) st body)"

definition find_mirror :: "mirrors \<Rightarrow> string \<Rightarrow> mirror_record result" where
  "find_mirror records mirror_id = dict_lookup records mirror_id (KeyError mirror_id)"

section \<open>Queries\<close>

definition get_mirror :: "read_outcome \<Rightarrow> mirror_store \<Rightarrow> string \<Rightarrow> mirror_record result" where
  "get_mirror reading st mirror_id =
    and_then (canonical_records reading st) (\<lambda>records. find_mirror records mirror_id)"

definition mirror_records :: "read_outcome \<Rightarrow> mirror_store \<Rightarrow> mirror_record list result" where
  "mirror_records reading st = and_then (canonical_records reading st) (\<lambda>records. Inr (dict_values records))"

definition unpublished :: "mirror_record \<Rightarrow> bool" where
  "unpublished r \<longleftrightarrow> m_publication_pending r \<or> m_card_message_id r = None \<or> m_card_create_pending r
     \<or> m_card_cleanup_nonce r \<noteq> None"

definition pending_publication_ids :: "read_outcome \<Rightarrow> mirror_store \<Rightarrow> string list result" where
  "pending_publication_ids reading st = and_then (canonical_records reading st) (\<lambda>records.
    Inr (map m_mirror_id (filter unpublished (dict_values records))))"

definition by_item :: "mirrors \<Rightarrow> string \<times> item_kind \<times> int \<Rightarrow> mirror_record option" where
  "by_item records key = List.find (\<lambda>r. logical_key r = key) (dict_values records)"

definition get_by_item ::
    "read_outcome \<Rightarrow> mirror_store \<Rightarrow> string \<Rightarrow> item_kind \<Rightarrow> int \<Rightarrow> mirror_record option result" where
  "get_by_item reading st repository kind number =
    and_then (canonical_records reading st) (\<lambda>records. Inr (by_item records (repository, kind, number)))"

section \<open>Events\<close>

definition event_key :: "mirror_event \<Rightarrow> string \<times> item_kind \<times> int" where
  "event_key e = (e_repository e, e_item_kind e, e_item_number e)"

definition delivery_owner :: "mirrors \<Rightarrow> string \<Rightarrow> mirror_record option" where
  "delivery_owner records delivery_id =
    List.find (\<lambda>r. delivery_id \<in> set (m_recent_delivery_ids r)) (dict_values records)"

text \<open>The value is \<open>GitHubMirrorUpsert\<close>: the record and whether the delivery was a duplicate.\<close>

definition upsert_body ::
    "mirror_env \<Rightarrow> int \<Rightarrow> int \<Rightarrow> mirror_event \<Rightarrow> mirrors \<Rightarrow> (mirror_record option \<times> mirror_record \<times> bool) result" where
  "upsert_body env guild channel e records =
    (let existing = by_item records (event_key e) in
     case delivery_owner records (e_delivery_id e) of
       Some owner \<Rightarrow>
         (case existing of
            Some r \<Rightarrow> if m_mirror_id owner = m_mirror_id r then Inr (None, r, True)
                      else Inl (GitHubDeliveryCollision (e_delivery_id e))
          | None \<Rightarrow> Inl (GitHubDeliveryCollision (e_delivery_id e)))
     | None \<Rightarrow>
         and_then (clock_text (me_now env)) (\<lambda>ts.
         and_then (case existing of
             None \<Rightarrow> record_from_event (me_uuid env) e guild channel ts
           | Some r \<Rightarrow>
               if (m_guild_id r, m_channel_id r) \<noteq> (guild, channel)
               then Inl (ValueError ''mirror destination cannot change during webhook upsert'')
               else update_from_event r e ts) (\<lambda>r'.
         Inr (Some r', r', False))))"

definition upsert_event ::
    "mirror_env \<Rightarrow> mirror_store \<Rightarrow> mirror_event \<Rightarrow> int \<Rightarrow> int \<Rightarrow> (mirror_record \<times> bool) mirror_op" where
  "upsert_event env st e guild channel = guarded_mutation env st (upsert_body env guild channel e)"

section \<open>Compare-and-set\<close>

definition expect_mirror :: "mirrors \<Rightarrow> string \<Rightarrow> int \<Rightarrow> mirror_record result" where
  "expect_mirror records mirror_id expected =
    and_then (find_mirror records mirror_id) (\<lambda>current.
    if m_revision current \<noteq> expected then Inl (GitHubMirrorRevisionConflict mirror_id) else Inr current)"

text \<open>An update function gets the record and the store as it is while the function runs; it returns
  the candidate, or raises, and leaves the store the second phase finds.\<close>

text \<open>The second phase, on the document as it then is.\<close>

definition cas_body ::
    "mirror_env \<Rightarrow> string \<Rightarrow> int \<Rightarrow> mirror_record \<Rightarrow> mirrors \<Rightarrow> (mirror_record option \<times> mirror_record) result" where
  "cas_body env k n candidate records =
    and_then (expect_mirror records k n) (\<lambda>current.
    and_then (clock_text (me_now env)) (\<lambda>ts.
    and_then (updated_record current (\<lambda>_. Inr candidate) ts) (\<lambda>r. Inr (Some r, r))))"

definition mirror_compare_and_set ::
    "mirror_env \<Rightarrow> mirror_store \<Rightarrow> string \<Rightarrow> int \<Rightarrow> (mirror_record \<Rightarrow> mirror_store \<Rightarrow> mirror_record mirror_op)
     \<Rightarrow> mirror_record mirror_op" where
  "mirror_compare_and_set env st mirror_id expected update =
    (case and_then (reject_callback_mutation st) (\<lambda>_.
          if expected < 0 then Inl (ValueError ''expected_revision must be a non-negative integer'')
          else and_then (canonical_records (me_read env) st) (\<lambda>records. expect_mirror records mirror_id expected)) of
       Inl e \<Rightarrow> (Inl e, st)
     | Inr current \<Rightarrow>
         (case update current (st\<lparr>ms_callback := True\<rparr>) of
            (c, st1) \<Rightarrow>
              let st2 = st1\<lparr>ms_callback := False\<rparr> in
              (case c of
                 Inl e \<Rightarrow> (Inl e, st2)
               | Inr candidate \<Rightarrow> mutation env (me_reread env) st2 
                   (cas_body env mirror_id expected candidate))))"

section \<open>The card\<close>

definition stamp_record ::
    "mirror_env \<Rightarrow> (string \<Rightarrow> mirror_record result) \<Rightarrow> 'a \<Rightarrow> (mirror_record option \<times> mirror_record \<times> 'a) result" where
  "stamp_record env f v =
    and_then (clock_text (me_now env)) (\<lambda>ts. and_then (f ts) (\<lambda>r. Inr (Some r, r, v)))"

definition attach_card_body ::
    "mirror_env \<Rightarrow> string \<Rightarrow> int \<Rightarrow> string \<Rightarrow> mirrors \<Rightarrow> (mirror_record option \<times> mirror_record \<times> bool) result" where
  "attach_card_body env mirror_id message_id nonce records =
    and_then (find_mirror records mirror_id) (\<lambda>current.
    if m_card_message_id current \<noteq> None then
      if m_card_cleanup_nonce current = Some nonce then Inr (None, current, False)
      else if m_card_cleanup_nonce current \<noteq> None then Inl (GitHubMirrorRevisionConflict mirror_id)
      else stamp_record env (queue_card_cleanup_record current nonce) False
    else if m_card_create_nonce current \<noteq> Some nonce then Inl (GitHubMirrorRevisionConflict mirror_id)
    else stamp_record env (attach_card_record current message_id nonce) True)"

definition attach_card_if_missing ::
    "mirror_env \<Rightarrow> mirror_store \<Rightarrow> string \<Rightarrow> int \<Rightarrow> string \<Rightarrow> (mirror_record \<times> bool) mirror_op" where
  "attach_card_if_missing env st mirror_id message_id nonce =
    (case and_then (reject_callback_mutation st) (\<lambda>_.
          guarded (0 < message_id) (ValueError ''message_id must be a positive integer'')) of
       Inl e \<Rightarrow> (Inl e, st)
     | Inr _ \<Rightarrow> mutation env (me_read env) st (attach_card_body env mirror_id message_id nonce))"

definition claim_card_body ::
    "mirror_env \<Rightarrow> string \<Rightarrow> mirrors \<Rightarrow> (mirror_record option \<times> mirror_record \<times> bool) result" where
  "claim_card_body env mirror_id records =
    and_then (find_mirror records mirror_id) (\<lambda>current.
    if m_card_message_id current \<noteq> None \<or> m_card_create_pending current
    then Inr (None, current, False)
    else stamp_record env (claim_card_record current (''gm:'' @ me_token env)) True)"

definition claim_card_creation :: "mirror_env \<Rightarrow> mirror_store \<Rightarrow> string \<Rightarrow> (mirror_record \<times> bool) mirror_op" where
  "claim_card_creation env st mirror_id = guarded_mutation env st (claim_card_body env mirror_id)"

definition release_card_body ::
    "mirror_env \<Rightarrow> string \<Rightarrow> string \<Rightarrow> mirrors \<Rightarrow> (mirror_record option \<times> mirror_record \<times> unit) result" where
  "release_card_body env mirror_id nonce records =
    and_then (find_mirror records mirror_id) (\<lambda>current.
    if m_card_message_id current \<noteq> None \<or> m_card_create_nonce current \<noteq> Some nonce
    then Inr (None, current, ())
    else stamp_record env (release_card_creation_record current) ())"

definition release_card_creation ::
    "mirror_env \<Rightarrow> mirror_store \<Rightarrow> string \<Rightarrow> string \<Rightarrow> (mirror_record \<times> unit) mirror_op" where
  "release_card_creation env st mirror_id nonce = guarded_mutation env st (release_card_body env mirror_id nonce)"

definition cleanup_body ::
    "mirror_env \<Rightarrow> string \<Rightarrow> string \<Rightarrow> mirrors \<Rightarrow> (mirror_record option \<times> mirror_record \<times> unit) result" where
  "cleanup_body env mirror_id nonce records =
    and_then (find_mirror records mirror_id) (\<lambda>current.
    if m_card_cleanup_nonce current \<noteq> Some nonce then Inr (None, current, ())
    else stamp_record env (complete_card_cleanup_record current) ())"

definition complete_card_cleanup ::
    "mirror_env \<Rightarrow> mirror_store \<Rightarrow> string \<Rightarrow> string \<Rightarrow> (mirror_record \<times> unit) mirror_op" where
  "complete_card_cleanup env st mirror_id nonce = guarded_mutation env st (cleanup_body env mirror_id nonce)"

definition publication_body ::
    "mirror_env \<Rightarrow> string \<Rightarrow> int \<Rightarrow> mirrors \<Rightarrow> (mirror_record option \<times> mirror_record \<times> unit) result" where
  "publication_body env mirror_id expected records =
    and_then (find_mirror records mirror_id) (\<lambda>current.
    if m_revision current \<noteq> expected \<or> \<not> m_publication_pending current then Inr (None, current, ())
    else if m_card_message_id current = None \<or> m_card_create_pending current
      \<or> m_card_cleanup_nonce current \<noteq> None
    then Inr (None, current, ())
    else stamp_record env
      (updated_record current (\<lambda>r. make_mirror (r\<lparr>m_publication_pending := False\<rparr>))) ())"

definition complete_publication ::
    "mirror_env \<Rightarrow> mirror_store \<Rightarrow> string \<Rightarrow> int \<Rightarrow> (mirror_record \<times> unit) mirror_op" where
  "complete_publication env st mirror_id expected =
    guarded_mutation env st (publication_body env mirror_id expected)"

definition clear_card_body ::
    "mirror_env \<Rightarrow> string \<Rightarrow> int \<Rightarrow> mirrors \<Rightarrow> (mirror_record option \<times> mirror_record \<times> unit) result" where
  "clear_card_body env mirror_id message_id records =
    and_then (find_mirror records mirror_id) (\<lambda>current.
    if m_card_message_id current \<noteq> Some message_id then Inr (None, current, ())
    else stamp_record env (clear_card_record current) ())"

definition clear_card_if_matches ::
    "mirror_env \<Rightarrow> mirror_store \<Rightarrow> string \<Rightarrow> int \<Rightarrow> (mirror_record \<times> unit) mirror_op" where
  "clear_card_if_matches env st mirror_id message_id =
    guarded_mutation env st (clear_card_body env mirror_id message_id)"

end
