(* ===== verification/MirrorStoreInv.thy ===== *)
theory MirrorStoreInv
  imports MirrorStore Interfaces
begin

text \<open>
  What the mirror store keeps true: the document loads, every record is stored under its own
  identifier and accepted by its constructor, no item has two records and no delivery two owners.
  The records as a partial function, \<open>mirror_map\<close>, are the abstract state; every operation
  either leaves it alone or replaces one entry.
\<close>

section \<open>Invariant\<close>

definition entry_ok :: "string \<Rightarrow> mirror_record \<Rightarrow> bool" where
  "entry_ok k r \<longleftrightarrow> m_mirror_id r = k \<and> valid_mirror r"

definition unique_items :: "(string \<rightharpoonup> mirror_record) \<Rightarrow> bool" where
  "unique_items m \<longleftrightarrow> (\<forall>k k' r r'. m k = Some r \<and> m k' = Some r' \<and> logical_key r = logical_key r' \<longrightarrow> k = k')"

definition owned_once :: "(string \<rightharpoonup> mirror_record) \<Rightarrow> bool" where
  "owned_once m \<longleftrightarrow> (\<forall>k k' r r' d. m k = Some r \<and> m k' = Some r' \<and> d \<in> set (m_recent_delivery_ids r)
     \<and> d \<in> set (m_recent_delivery_ids r') \<longrightarrow> k = k')"

definition map_ok :: "(string \<rightharpoonup> mirror_record) \<Rightarrow> bool" where
  "map_ok m \<longleftrightarrow> (\<forall>k. \<forall>r \<in> set_option (m k). entry_ok k r) \<and> unique_items m \<and> owned_once m"

definition mirror_map :: "mirror_store \<Rightarrow> (string \<rightharpoonup> mirror_record)" where
  "mirror_map st = (case load_mirrors READ_OK (ms_directory st) of Inr records \<Rightarrow> map_of records | Inl _ \<Rightarrow> Map.empty)"

definition records_ok :: "mirrors \<Rightarrow> bool" where
  "records_ok records \<longleftrightarrow> dict_wf records \<and> map_ok (map_of records)"

definition mirror_ok :: "mirror_store \<Rightarrow> bool" where
  "mirror_ok st \<longleftrightarrow> (\<exists>records. load_mirrors READ_OK (ms_directory st) = Inr records \<and> records_ok records)"

lemma map_okD:
  assumes "map_ok m"
  shows "m k = Some r \<Longrightarrow> m_mirror_id r = k" and "m k = Some r \<Longrightarrow> valid_mirror r"
    and "m k = Some r \<Longrightarrow> m k' = Some r' \<Longrightarrow> logical_key r = logical_key r' \<Longrightarrow> k = k'"
    and "m k = Some r \<Longrightarrow> m k' = Some r' \<Longrightarrow> d \<in> set (m_recent_delivery_ids r)
      \<Longrightarrow> d \<in> set (m_recent_delivery_ids r') \<Longrightarrow> k = k'"
proof -
  have e: "entry_ok k r" if "m k = Some r" using assms that by (force simp: map_ok_def)
  show "m k = Some r \<Longrightarrow> m_mirror_id r = k" "m k = Some r \<Longrightarrow> valid_mirror r"
    using e by (simp_all add: entry_ok_def)
  show "m k = Some r \<Longrightarrow> m k' = Some r' \<Longrightarrow> logical_key r = logical_key r' \<Longrightarrow> k = k'"
    using assms unfolding map_ok_def unique_items_def by blast
  show "m k = Some r \<Longrightarrow> m k' = Some r' \<Longrightarrow> d \<in> set (m_recent_delivery_ids r)
      \<Longrightarrow> d \<in> set (m_recent_delivery_ids r') \<Longrightarrow> k = k'"
    using assms unfolding map_ok_def owned_once_def by blast
qed

lemma records_wf:
  assumes "records_ok records"
  shows "mirrors_wf records"
proof -
  have w: "dict_wf records" and m: "map_ok (map_of records)" using assms by (simp_all add: records_ok_def)
  have "inj_on (logical_key \<circ> snd) (set records)"
  proof (rule inj_onI)
    fix p q assume pq: "p \<in> set records" "q \<in> set records" "(logical_key \<circ> snd) p = (logical_key \<circ> snd) q"
    obtain k r k' r' where split: "p = (k, r)" "q = (k', r')" by fastforce
    have mem: "map_of records k = Some r" "map_of records k' = Some r'"
      using pq(1,2) w by (simp_all add: dict_mem_iff split)
    have "logical_key r = logical_key r'" using pq(3) by (simp add: split)
    with map_okD(3) [OF m mem] have "k = k'" by blast
    moreover from this mem have "r = r'" by simp
    ultimately show "p = q" by (simp only: split)
  qed
  moreover have "distinct records" using w by (simp add: distinct_map)
  ultimately have "distinct (map (logical_key \<circ> snd) records)" by (simp add: distinct_map)
  moreover have "m_mirror_id r = k \<and> valid_mirror r" if "(k, r) \<in> set records" for k r
    using that w map_okD(1,2) [OF m, of k r] by (simp add: dict_mem_iff)
  then have "list_all (\<lambda>(k, r). m_mirror_id r = k \<and> valid_mirror r) records"
    unfolding list_all_iff by blast
  ultimately show ?thesis using w by (simp add: mirrors_wf_def)
qed

lemma records_ok_sorted: "records_ok records \<Longrightarrow> records_ok (sorted_dict records)"
  by (simp add: records_ok_def)

lemma load_encoded:
  assumes "records_ok records" and "sd_document d = Some (Some (encode_mirrors records))"
  shows "load_mirrors READ_OK d = Inr (sorted_dict records)"
  using assms mirrors_roundtrip [OF records_wf [OF assms(1)]] by (simp add: load_mirrors_def)

text \<open>Replacing or adding one record.\<close>

lemma map_ok_update:
  assumes "map_ok m" and "entry_ok k r"
    and "\<And>k' r'. m k' = Some r' \<Longrightarrow> logical_key r' = logical_key r \<Longrightarrow> k' = k"
    and "\<And>k' r' d. m k' = Some r' \<Longrightarrow> d \<in> set (m_recent_delivery_ids r') \<Longrightarrow> d \<in> set (m_recent_delivery_ids r) \<Longrightarrow> k' = k"
  shows "map_ok (m(k \<mapsto> r))"
proof -
  have "unique_items (m(k \<mapsto> r))"
    unfolding unique_items_def
  proof (intro allI impI, elim conjE)
    fix a b x y assume "(m(k \<mapsto> r)) a = Some x" "(m(k \<mapsto> r)) b = Some y" "logical_key x = logical_key y"
    then show "a = b"
      using assms(3) [of a x] assms(3) [of b y] map_okD(3) [OF assms(1), of a x b y]
      by (auto split: if_splits)
  qed
  moreover have "owned_once (m(k \<mapsto> r))"
    unfolding owned_once_def
  proof (intro allI impI, elim conjE)
    fix a b x y d assume "(m(k \<mapsto> r)) a = Some x" "(m(k \<mapsto> r)) b = Some y"
      "d \<in> set (m_recent_delivery_ids x)" "d \<in> set (m_recent_delivery_ids y)"
    then show "a = b"
      using assms(4) [of a x d] assms(4) [of b y d] map_okD(4) [OF assms(1), of a x b y d]
      by (auto split: if_splits)
  qed
  ultimately show ?thesis using assms(1,2) by (auto simp: map_ok_def)
qed

text \<open>A new version of a stored record: same identifier, same item, no other delivery than \<open>ds\<close>
  added.\<close>

definition succeeds :: "mirror_record \<Rightarrow> string set \<Rightarrow> mirror_record \<Rightarrow> bool" where
  "succeeds r ds r' \<longleftrightarrow> valid_mirror r' \<and> m_mirror_id r' = m_mirror_id r \<and> logical_key r' = logical_key r
     \<and> m_revision r' = m_revision r + 1 \<and> set (m_recent_delivery_ids r') \<subseteq> set (m_recent_delivery_ids r) \<union> ds"

lemma map_ok_succeeds:
  assumes "map_ok m" and "m k = Some r" and "succeeds r ds r'"
    and "\<And>k' q d. d \<in> ds \<Longrightarrow> m k' = Some q \<Longrightarrow> d \<notin> set (m_recent_delivery_ids q)"
  shows "map_ok (m(k \<mapsto> r'))"
proof (rule map_ok_update [OF assms(1)])
  note d = map_okD [OF assms(1)]
  show "entry_ok k r'" using assms(3) d(1) [OF assms(2)] by (simp add: entry_ok_def succeeds_def)
  show "k' = k" if "m k' = Some q" "logical_key q = logical_key r'" for k' q
    using d(3) [OF that(1) assms(2)] that(2) assms(3) by (simp add: succeeds_def)
  show "k' = k" if "m k' = Some q" "x \<in> set (m_recent_delivery_ids q)" "x \<in> set (m_recent_delivery_ids r')"
    for k' q x
    using d(4) [OF that(1) assms(2) that(2)] that assms(3,4) by (auto simp: succeeds_def)
qed

section \<open>One operation\<close>

lemma canonical_load:
  "canonical_records reading st = Inr records \<Longrightarrow> load_mirrors READ_OK (ms_directory st) = Inr records"
  by (auto simp: canonical_records_def load_mirrors_def split: if_splits option.splits sum.splits)

lemma canonical_map: "canonical_records reading st = Inr records \<Longrightarrow> mirror_map st = map_of records"
  by (drule canonical_load) (simp add: mirror_map_def)

lemma canonical_ok:
  "mirror_ok st \<Longrightarrow> canonical_records reading st = Inr records \<Longrightarrow> records_ok records"
  using canonical_load by (fastforce simp: mirror_ok_def)

lemma canonical_total: "mirror_ok st \<Longrightarrow> \<exists>records. canonical_records READ_OK st = Inr records"
  by (auto simp: mirror_ok_def canonical_records_def)

text \<open>The document of \<open>st'\<close> is that of \<open>st\<close>.\<close>

definition untouched :: "mirror_store \<Rightarrow> mirror_store \<Rightarrow> bool" where
  "untouched st st' \<longleftrightarrow> sd_document (ms_directory st') = sd_document (ms_directory st)
     \<and> ms_callback st' = ms_callback st"

lemma untouched_refl [simp]: "untouched st st"
  by (simp add: untouched_def)

lemma untouched_load: "untouched st st' \<Longrightarrow> load_mirrors reading (ms_directory st') = load_mirrors reading (ms_directory st)"
  by (simp add: untouched_def load_mirrors_def)

lemma untouched_map: "untouched st st' \<Longrightarrow> mirror_map st' = mirror_map st"
  by (simp add: untouched_load mirror_map_def)

lemma untouched_ok: "untouched st st' \<Longrightarrow> mirror_ok st' = mirror_ok st"
  by (simp add: untouched_load mirror_ok_def)

lemma commit_record_cases:
  assumes "mirror_ok st" and "canonical_records reading st = Inr records"
    and "map_ok ((map_of records)(m_mirror_id r \<mapsto> r))"
    and "commit_record env st records r = (c, st')"
  shows "(c = Inl OSError \<and> untouched st st')
     \<or> (c \<in> {Inr r, Inl TaskStoreDurabilityError} \<and> mirror_ok st'
        \<and> mirror_map st' = (mirror_map st)(m_mirror_id r \<mapsto> r) \<and> ms_callback st' = ms_callback st)"
proof -
  let ?new = "AList.update (m_mirror_id r) r records"
  obtain w d where w: "write_document (me_faults env) (ms_directory st) (encode_mirrors ?new) = (w, d)"
    by fastforce
  then have c: "c = and_then w (\<lambda>_. Inr r)" "st' = st\<lparr>ms_directory := d\<rparr>"
    using assms(4) by (auto simp: commit_record_def)
  show ?thesis
  proof (cases "sd_document d = sd_document (ms_directory st) \<and> w = Inl OSError")
    case True
    then show ?thesis by (simp add: c untouched_def)
  next
    case False
    with write_document_cases [OF w]
    have new: "sd_document d = Some (Some (encode_mirrors ?new))" and "w = Inr () \<or> w = Inl TaskStoreDurabilityError"
      by blast+
    then have res: "c \<in> {Inr r, Inl TaskStoreDurabilityError}" by (auto simp: c)
    have ok: "records_ok ?new"
      using canonical_ok [OF assms(1,2)] assms(3) by (simp add: records_ok_def)
    have l: "load_mirrors READ_OK d = Inr (sorted_dict ?new)" by (rule load_encoded [OF ok new])
    have "dict_wf ?new" using ok by (simp add: records_ok_def)
    then have "mirror_map st' = (mirror_map st)(m_mirror_id r \<mapsto> r)"
      using l canonical_map [OF assms(2)] by (simp add: mirror_map_def c)
    moreover have "mirror_ok st'" using l records_ok_sorted [OF ok] by (simp add: mirror_ok_def c)
    ultimately show ?thesis using res by (simp add: c)
  qed
qed

text \<open>The three ends of an operation.\<close>

definition stored_record :: "mirror_store \<Rightarrow> mirror_record \<Rightarrow> mirror_store \<Rightarrow> bool" where
  "stored_record st r st' \<longleftrightarrow> mirror_ok st' \<and> mirror_map st' = (mirror_map st)(m_mirror_id r \<mapsto> r)
     \<and> ms_callback st' = ms_callback st"

definition committable ::
    "read_outcome \<Rightarrow> mirror_store \<Rightarrow> (mirrors \<Rightarrow> (mirror_record option \<times> 'a) result) \<Rightarrow> bool" where
  "committable reading st body \<longleftrightarrow> (\<forall>records r v. records_ok records \<and> canonical_records reading st = Inr records
     \<and> body records = Inr (Some r, v) \<longrightarrow> map_ok ((map_of records)(m_mirror_id r \<mapsto> r)))"

lemma mutation_cases:
  assumes "mirror_ok st" and "mutation env reading st body = (res, st')" and "committable reading st body"
  shows "(\<exists>e. res = Inl e \<and> untouched st st')
     \<or> (\<exists>records v. canonical_records reading st = Inr records \<and> body records = Inr (None, v)
          \<and> res = Inr v \<and> st' = st)
     \<or> (\<exists>records r v. canonical_records reading st = Inr records \<and> body records = Inr (Some r, v)
          \<and> res \<in> {Inr v, Inl TaskStoreDurabilityError} \<and> stored_record st r st')"
proof (cases "and_then (canonical_records reading st) (\<lambda>records. and_then (body records) (\<lambda>x. Inr (records, x)))")
  case (Inl e)
  then have "res = Inl e" "st' = st" using assms(2) by (simp_all add: mutation_def)
  then show ?thesis by simp
next
  case (Inr p)
  obtain records o' v where p: "p = (records, o', v)" by (cases p) auto
  have l: "canonical_records reading st = Inr records" "body records = Inr (o', v)"
    using Inr p by (auto simp: and_then_eq_Inr)
  show ?thesis
  proof (cases o')
    case None
    then show ?thesis using l assms(2) by (simp add: mutation_def)
  next
    case (Some r)
    obtain c where c: "commit_record env st records r = (c, st')" "res = and_then c (\<lambda>_. Inr v)"
      using assms(2) l Some by (auto simp: mutation_def split: prod.splits)
    have "map_ok ((map_of records)(m_mirror_id r \<mapsto> r))"
      using assms(3) canonical_ok [OF assms(1) l(1)] l Some unfolding committable_def by blast
    from commit_record_cases [OF assms(1) l(1) this c(1)] show ?thesis
    proof (elim disjE conjE)
      assume "c = Inl OSError" "untouched st st'"
      then show ?thesis by (simp add: c(2))
    next
      assume "c \<in> {Inr r, Inl TaskStoreDurabilityError}" "mirror_ok st'"
        "mirror_map st' = (mirror_map st)(m_mirror_id r \<mapsto> r)" "ms_callback st' = ms_callback st"
      then show ?thesis using l Some by (auto simp: c(2) stored_record_def)
    qed
  qed
qed

lemma find_mirror_Inr [result_simps]: "find_mirror records k = Inr r \<longleftrightarrow> map_of records k = Some r"
  by (simp add: find_mirror_def dict_lookup_Inr)

text \<open>An operation on one record: its body finds the record and keeps it or commits a successor.\<close>

definition steps_record :: "string \<Rightarrow> (mirrors \<Rightarrow> (mirror_record option \<times> 'a) result) \<Rightarrow> bool" where
  "steps_record k body \<longleftrightarrow> (\<forall>records r' v. records_ok records \<and> body records = Inr (Some r', v) \<longrightarrow>
     (\<exists>r. map_of records k = Some r \<and> succeeds r {} r'))"

lemma steps_record_ok:
  assumes "steps_record k body" and "records_ok records" and "body records = Inr (Some r', v)"
  shows "map_ok ((map_of records)(m_mirror_id r' \<mapsto> r'))"
proof -
  obtain r where r: "map_of records k = Some r" "succeeds r {} r'"
    using assms unfolding steps_record_def by blast
  have m: "map_ok (map_of records)" using assms(2) by (simp add: records_ok_def)
  from r map_okD(1) [OF m r(1)] have "m_mirror_id r' = k" by (simp add: succeeds_def)
  with map_ok_succeeds [OF m r] show ?thesis by simp
qed

section \<open>The bodies\<close>

definition claims_fit :: "mirror_record \<Rightarrow> bool" where
  "claims_fit r \<longleftrightarrow> (\<forall>p \<in> set_option (m_pending_action r). no_failure (pending_checks p))
     \<and> (\<forall>c \<in> set (m_handled_claims r). no_failure (claim_checks c))"

lemma valid_claims_fit: "valid_mirror r \<Longrightarrow> claims_fit r"
  by (simp add: valid_mirror_def claims_ok_def claims_fit_def)

lemma updated_succeeds:
  assumes "updated_record r f ts = Inr r'" and "\<And>c. f r = Inr c \<Longrightarrow> claims_fit c"
  shows "succeeds r {} r'"
proof -
  obtain c where c: "f r = Inr c" "immutable_part r = immutable_part c" "r' = stamped r c ts"
    "no_failure (mirror_checks r')" using assms(1) by (auto simp: updated_record_Inr)
  have "claims_ok r'" using assms(2) [OF c(1)] set_last_n [of MAX_HANDLED_CLAIMS "m_handled_claims c"]
    by (auto simp: c(3) claims_fit_def claims_ok_def stamped_def)
  moreover have "m_mirror_id r' = m_mirror_id r" "logical_key r' = logical_key r"
    "m_recent_delivery_ids r' = m_recent_delivery_ids r" "m_revision r' = m_revision r + 1"
    using c(2) by (simp_all add: c(3) stamped_def immutable_part_def logical_key_def)
  ultimately show ?thesis using c(4) by (simp add: succeeds_def valid_mirror_def)
qed

lemma stamp_record_Inr:
  "stamp_record env f v = Inr (x, r, u) \<longleftrightarrow> (\<exists>ts. clock_text (me_now env) = Inr ts \<and> f ts = Inr r)
     \<and> x = Some r \<and> u = v"
  by (auto simp: stamp_record_def and_then_eq_Inr)

lemma stamp_record_Inr_Some:
  "stamp_record env f v = Inr (Some r, w) \<Longrightarrow> \<exists>ts. f ts = Inr r \<and> w = (r, v)"
  by (auto simp: stamp_record_def and_then_eq_Inr)

lemmas card_record_defs = claim_card_record_def attach_card_record_def queue_card_cleanup_record_def
  release_card_creation_record_def complete_card_cleanup_record_def clear_card_record_def

text \<open>The card operations change card fields only.\<close>

lemma card_record_succeeds:
  assumes "valid_mirror r"
  shows "claim_card_record r nonce ts = Inr r' \<Longrightarrow> succeeds r {} r'"
    and "attach_card_record r msg nonce ts = Inr r' \<Longrightarrow> succeeds r {} r'"
    and "queue_card_cleanup_record r nonce ts = Inr r' \<Longrightarrow> succeeds r {} r'"
    and "release_card_creation_record r ts = Inr r' \<Longrightarrow> succeeds r {} r'"
    and "complete_card_cleanup_record r ts = Inr r' \<Longrightarrow> succeeds r {} r'"
    and "clear_card_record r ts = Inr r' \<Longrightarrow> succeeds r {} r'"
    and "updated_record r (\<lambda>r. make_mirror (r\<lparr>m_publication_pending := False\<rparr>)) ts = Inr r' \<Longrightarrow> succeeds r {} r'"
  unfolding card_record_defs
  by (erule updated_succeeds; use valid_claims_fit [OF assms] in \<open>auto simp: make_mirror_Inr claims_fit_def\<close>)+

lemma records_ok_valid: "records_ok records \<Longrightarrow> map_of records k = Some r \<Longrightarrow> valid_mirror r"
  using map_okD(2) by (fastforce simp: records_ok_def)

lemma steps_recordI:
  assumes "\<And>records r r' v. map_of records k = Some r \<Longrightarrow> valid_mirror r \<Longrightarrow> body records = Inr (Some r', v)
     \<Longrightarrow> succeeds r {} r'"
    and "\<And>records x. body records = Inr x \<Longrightarrow> \<exists>r. map_of records k = Some r"
  shows "steps_record k body"
  unfolding steps_record_def using assms records_ok_valid by metis

lemma attach_card_steps: "steps_record k (attach_card_body env k msg nonce)"
  by (rule steps_recordI)
     (auto simp: attach_card_body_def and_then_eq_Inr find_mirror_Inr split: if_splits
       dest!: stamp_record_Inr_Some intro: card_record_succeeds)

lemma claim_card_steps: "steps_record k (claim_card_body env k)"
  by (rule steps_recordI)
     (auto simp: claim_card_body_def and_then_eq_Inr find_mirror_Inr split: if_splits
       dest!: stamp_record_Inr_Some intro: card_record_succeeds)

lemma release_card_steps: "steps_record k (release_card_body env k nonce)"
  by (rule steps_recordI)
     (auto simp: release_card_body_def and_then_eq_Inr find_mirror_Inr split: if_splits
       dest!: stamp_record_Inr_Some intro: card_record_succeeds)

lemma cleanup_steps: "steps_record k (cleanup_body env k nonce)"
  by (rule steps_recordI)
     (auto simp: cleanup_body_def and_then_eq_Inr find_mirror_Inr split: if_splits
       dest!: stamp_record_Inr_Some intro: card_record_succeeds)

lemma publication_steps: "steps_record k (publication_body env k n)"
  by (rule steps_recordI)
     (auto simp: publication_body_def and_then_eq_Inr find_mirror_Inr split: if_splits
       dest!: stamp_record_Inr_Some intro: card_record_succeeds)

lemma clear_card_steps: "steps_record k (clear_card_body env k msg)"
  by (rule steps_recordI)
     (auto simp: clear_card_body_def and_then_eq_Inr find_mirror_Inr split: if_splits
       dest!: stamp_record_Inr_Some intro: card_record_succeeds)

lemmas card_steps = attach_card_steps claim_card_steps release_card_steps cleanup_steps publication_steps
  clear_card_steps

section \<open>Events\<close>

lemma find_value_Some:
  assumes "dict_wf records" and "List.find P (dict_values records) = Some r"
  obtains k where "map_of records k = Some r" and "P r"
proof -
  have "r \<in> set (dict_values records)" "P r" using find_SomeD [OF assms(2)] by simp_all
  with that show thesis using dict_values_iff [OF assms(1)] by blast
qed

lemma find_value_None:
  assumes "List.find P (dict_values records) = None" and "map_of records k = Some r"
  shows "\<not> P r"
proof -
  have "r \<in> set (dict_values records)" using map_of_SomeD [OF assms(2)] by force
  with find_NoneD [OF assms(1)] show ?thesis by blast
qed

lemma by_item_Some:
  assumes "records_ok records" and "by_item records key = Some r"
  shows "map_of records (m_mirror_id r) = Some r" and "logical_key r = key"
proof -
  have w: "dict_wf records" and m: "map_ok (map_of records)" using assms(1) by (simp_all add: records_ok_def)
  from assms(2) obtain k where "map_of records k = Some r" "logical_key r = key"
    unfolding by_item_def by (rule find_value_Some [OF w])
  moreover from this(1) have "m_mirror_id r = k" by (rule map_okD(1) [OF m])
  ultimately show "map_of records (m_mirror_id r) = Some r" "logical_key r = key" by simp_all
qed

lemma by_item_None:
  "by_item records key = None \<Longrightarrow> map_of records k = Some r \<Longrightarrow> logical_key r \<noteq> key"
  unfolding by_item_def by (rule find_value_None)

lemma fits_key: "fits r e \<longleftrightarrow> logical_key r = event_key e"
  by (auto simp: fits_def logical_key_def event_key_def)

lemma update_from_event_succeeds:
  assumes "valid_mirror r" and "fits r e" and "update_from_event r e ts = Inr r'"
  shows "succeeds r {e_delivery_id e} r'"
proof -
  let ?q = "if freshness r \<le> event_freshness e then apply_event r e else r"
  have checks: "no_failure (mirror_checks r')"
    using assms(3) unfolding update_from_event_def and_then_eq_Inr make_mirror_Inr by blast
  note r' = update_from_event_Inr(1) [OF assms(3)]
  have "claims_ok r'" using assms(1) by (simp add: r' valid_mirror_def claims_ok_def note_delivery_def apply_event_def)
  moreover have "set (m_recent_delivery_ids r') \<subseteq> set (m_recent_delivery_ids r) \<union> {e_delivery_id e}"
    using set_last_n [of MAX_RECENT_DELIVERIES "m_recent_delivery_ids r @ [e_delivery_id e]"]
    by (auto simp: r' note_delivery_def apply_event_def)
  ultimately show ?thesis using checks
    by (simp add: succeeds_def valid_mirror_def) (simp add: r' note_delivery_def apply_event_def logical_key_def)
qed

lemma record_from_event_Inr:
  assumes "record_from_event n e guild channel ts = Inr r"
  shows "valid_mirror r" and "m_mirror_id r = uuid_hex n" and "logical_key r = event_key e"
    and "m_recent_delivery_ids r = [e_delivery_id e]" and "m_revision r = 0"
    and "record_view r = event_view e" and "m_guild_id r = guild" "m_channel_id r = channel"
proof -
  have r: "r = first_record n e guild channel ts" "no_failure (mirror_checks r)"
    using assms by (simp_all only: record_from_event_def make_mirror_Inr)
  have "claims_ok r" by (simp add: r(1) first_record_def claims_ok_def)
  with r(2) show "valid_mirror r" by (simp add: valid_mirror_def)
  show "m_mirror_id r = uuid_hex n" "logical_key r = event_key e" "m_recent_delivery_ids r = [e_delivery_id e]"
    "m_revision r = 0" "record_view r = event_view e" "m_guild_id r = guild" "m_channel_id r = channel"
    by (simp_all add: r(1) first_record_def logical_key_def event_key_def record_view_def event_view_def)
qed

text \<open>The three ends of the upsert body.\<close>

lemma upsert_body_Inr:
  assumes "records_ok records" and "upsert_body env guild channel e records = Inr (o', r, dup)"
  shows "(dup \<and> o' = None \<and> map_of records (m_mirror_id r) = Some r \<and> fits r e
           \<and> e_delivery_id e \<in> set (m_recent_delivery_ids r))
     \<or> (\<not> dup \<and> o' = Some r \<and> (\<forall>k q. map_of records k = Some q \<longrightarrow> e_delivery_id e \<notin> set (m_recent_delivery_ids q))
        \<and> (\<exists>ts. clock_text (me_now env) = Inr ts
           \<and> ((\<exists>q. map_of records (m_mirror_id q) = Some q \<and> fits q e \<and> m_guild_id q = guild
                 \<and> m_channel_id q = channel \<and> update_from_event q e ts = Inr r)
              \<or> (by_item records (event_key e) = None
                 \<and> record_from_event (me_uuid env) e guild channel ts = Inr r))))"
proof (cases "delivery_owner records (e_delivery_id e)")
  case (Some owner)
  have w: "dict_wf records" using assms(1) by (simp add: records_ok_def)
  obtain q where q1: "by_item records (event_key e) = Some q"
    using assms(2) Some by (cases "by_item records (event_key e)") (simp_all add: upsert_body_def)
  have "m_mirror_id owner = m_mirror_id q \<and> o' = None \<and> r = q \<and> dup"
    using assms(2) Some q1 by (simp add: upsert_body_def split: if_splits)
  note q = q1 this
  from Some obtain k where k: "map_of records k = Some owner" "e_delivery_id e \<in> set (m_recent_delivery_ids owner)"
    unfolding delivery_owner_def by (rule find_value_Some [OF w])
  note b = by_item_Some [OF assms(1) q(1)]
  have m: "map_ok (map_of records)" using assms(1) by (simp add: records_ok_def)
  have "k = m_mirror_id owner" by (rule map_okD(1) [OF m k(1), symmetric])
  with q(2) have "k = m_mirror_id q" by blast
  with k(1) b(1) have "owner = q" by (simp only: option.inject)
  with k(2) have "e_delivery_id e \<in> set (m_recent_delivery_ids q)" by (simp only:)
  with b q(2) show ?thesis unfolding fits_key by blast
next
  case None
  note fresh = find_value_None [OF None [unfolded delivery_owner_def]]
  show ?thesis
  proof (cases "by_item records (event_key e)")
    case None': None
    then show ?thesis using assms(2) None fresh
      by (auto simp: upsert_body_def and_then_eq_Inr)
  next
    case (Some q)
    note b = by_item_Some [OF assms(1) Some]
    have "m_guild_id q = guild \<and> m_channel_id q = channel \<and> \<not> dup \<and> o' = Some r
        \<and> (\<exists>ts. clock_text (me_now env) = Inr ts \<and> update_from_event q e ts = Inr r)"
      using assms(2) None Some by (auto simp: upsert_body_def and_then_eq_Inr split: if_splits)
    then show ?thesis using b fresh by (auto simp: fits_key)
  qed
qed

lemma upsert_body_ok:
  assumes "records_ok records" and "upsert_body env guild channel e records = Inr (Some r, v)"
    and "map_of records (uuid_hex (me_uuid env)) = None"
  shows "map_ok ((map_of records)(m_mirror_id r \<mapsto> r))"
proof -
  have m: "map_ok (map_of records)" using assms(1) by (simp add: records_ok_def)
  obtain r' dup where v: "v = (r', dup)" by (cases v) auto
  note u = upsert_body_Inr [OF assms(1) assms(2) [unfolded v]]
  have fresh: "e_delivery_id e \<notin> set (m_recent_delivery_ids q)" if "map_of records k = Some q" for k q
    using u that by blast
  have c: "\<exists>ts. (\<exists>q. map_of records (m_mirror_id q) = Some q \<and> fits q e \<and> update_from_event q e ts = Inr r)
              \<or> (by_item records (event_key e) = None
                 \<and> record_from_event (me_uuid env) e guild channel ts = Inr r)"
    using u by blast
  from c show ?thesis
  proof (elim exE disjE conjE)
    fix ts q assume q: "map_of records (m_mirror_id q) = Some q" "fits q e" "update_from_event q e ts = Inr r"
    have s: "succeeds q {e_delivery_id e} r"
      by (rule update_from_event_succeeds [OF map_okD(2) [OF m q(1)] q(2,3)])
    then have "m_mirror_id r = m_mirror_id q" by (simp add: succeeds_def)
    with map_ok_succeeds [OF m q(1) s] fresh show ?thesis by simp
  next
    fix ts assume none: "by_item records (event_key e) = None"
      and r: "record_from_event (me_uuid env) e guild channel ts = Inr r"
    note f = record_from_event_Inr [OF r]
    show ?thesis
    proof (rule map_ok_update [OF m])
      show "entry_ok (m_mirror_id r) r" using f(1) by (simp add: entry_ok_def)
      show "k' = m_mirror_id r" if "map_of records k' = Some r'" "logical_key r' = logical_key r" for k' r'
        using by_item_None [OF none that(1)] that(2) f(3) by simp
      show "k' = m_mirror_id r" if "map_of records k' = Some r'" "d \<in> set (m_recent_delivery_ids r')"
        "d \<in> set (m_recent_delivery_ids r)" for k' r' d
        using fresh [OF that(1)] that(2,3) f(4) by simp
    qed
  qed
qed

end
