(* ===== verification/MirrorStoreProps.thy ===== *)
theory MirrorStoreProps
  imports MirrorStoreInv
begin

text \<open>
  The mirror store as a whole: its steps refine an abstract map of items in which records are
  only added or succeeded by a newer revision; compare-and-set is an instance of the
  revisioned-store contract and linearizable although it runs the update function outside the
  locks; deliveries are absorbed once; at most one publisher creates a card.
\<close>

section \<open>Compare-and-set with a function of the record only\<close>

definition mirror_cas ::
    "mirror_env \<Rightarrow> mirror_store \<Rightarrow> string \<Rightarrow> int \<Rightarrow> (mirror_record \<Rightarrow> mirror_record result) \<Rightarrow> mirror_record mirror_op" where
  "mirror_cas env st k n f = mirror_compare_and_set env st k n (\<lambda>r s. (f r, s))"

definition keeps_claims :: "(mirror_record \<Rightarrow> mirror_record result) \<Rightarrow> bool" where
  "keeps_claims f \<longleftrightarrow> (\<forall>r c. valid_mirror r \<longrightarrow> f r = Inr c \<longrightarrow> claims_fit c)"

lemma expect_mirror_Inr: "expect_mirror records k n = Inr r \<longleftrightarrow> map_of records k = Some r \<and> m_revision r = n"
  by (auto simp: expect_mirror_def and_then_eq_Inr find_mirror_Inr)

lemma cas_body_steps: "claims_fit c \<Longrightarrow> steps_record k (cas_body env k n c)"
  by (rule steps_recordI)
     (auto simp: cas_body_def and_then_eq_Inr expect_mirror_Inr intro: updated_succeeds)

text \<open>The second phase, on the store the callback left.\<close>

lemma compare_and_set_phases:
  assumes "mirror_compare_and_set env st k n update = (res, st')"
  shows "(\<exists>e. res = Inl e \<and> st' = st)
     \<or> (\<exists>records current c st1. \<not> ms_callback st \<and> 0 \<le> n \<and> canonical_records (me_read env) st = Inr records
          \<and> map_of records k = Some current \<and> m_revision current = n
          \<and> update current (st\<lparr>ms_callback := True\<rparr>) = (c, st1)
          \<and> ((\<exists>e. c = Inl e \<and> res = Inl e \<and> st' = st1\<lparr>ms_callback := False\<rparr>)
             \<or> (\<exists>candidate. c = Inr candidate
                  \<and> mutation env (me_reread env) (st1\<lparr>ms_callback := False\<rparr>) (cas_body env k n candidate) = (res, st'))))"
proof (cases "and_then (reject_callback_mutation st) (\<lambda>_.
          if n < 0 then Inl (ValueError ''expected_revision must be a non-negative integer'')
          else and_then (canonical_records (me_read env) st) (\<lambda>records. expect_mirror records k n))")
  case (Inl e)
  then have "res = Inl e" "st' = st" using assms by (simp_all add: mirror_compare_and_set_def)
  then show ?thesis by simp
next
  case (Inr current)
  then have 1: "\<not> ms_callback st" "0 \<le> n"
    by (auto simp: and_then_eq_Inr reject_callback_mutation_def guarded_eq_Inr split: if_splits)
  obtain records where 2: "canonical_records (me_read env) st = Inr records" "map_of records k = Some current"
    "m_revision current = n"
    using Inr by (auto simp: and_then_eq_Inr expect_mirror_Inr split: if_splits)
  obtain c st1 where 3: "update current (st\<lparr>ms_callback := True\<rparr>) = (c, st1)" by fastforce
  have "(\<exists>e. c = Inl e \<and> res = Inl e \<and> st' = st1\<lparr>ms_callback := False\<rparr>)
      \<or> (\<exists>candidate. c = Inr candidate
           \<and> mutation env (me_reread env) (st1\<lparr>ms_callback := False\<rparr>) (cas_body env k n candidate) = (res, st'))"
  proof (cases c)
    case (Inl e)
    then have "res = Inl e" "st' = st1\<lparr>ms_callback := False\<rparr>"
      using assms \<open>_ = Inr current\<close> 3 by (simp_all add: mirror_compare_and_set_def)
    with Inl show ?thesis by simp
  next
    case (Inr candidate)
    then show ?thesis using assms \<open>_ = Inr current\<close> 3 by (simp add: mirror_compare_and_set_def)
  qed
  with 1 2 3 show ?thesis by blast
qed

section \<open>Steps\<close>

text \<open>\<open>uuid4\<close> returns an identifier the store does not hold.\<close>

inductive mirror_step :: "mirror_store \<Rightarrow> mirror_store \<Rightarrow> bool" where
  upserting: "mirror_map st (uuid_hex (me_uuid env)) = None \<Longrightarrow>
    mirror_step st (snd (upsert_event env st e guild channel))"
| comparing: "keeps_claims f \<Longrightarrow> mirror_step st (snd (mirror_cas env st k n f))"
| attaching: "mirror_step st (snd (attach_card_if_missing env st k msg nonce))"
| claiming: "mirror_step st (snd (claim_card_creation env st k))"
| releasing: "mirror_step st (snd (release_card_creation env st k nonce))"
| cleaning: "mirror_step st (snd (complete_card_cleanup env st k nonce))"
| publishing: "mirror_step st (snd (complete_publication env st k n))"
| clearing: "mirror_step st (snd (clear_card_if_matches env st k msg))"

inductive_cases mirror_stepE: "mirror_step st st'"

text \<open>The abstract machine: a map from identifiers to records in which a step does nothing, adds a
  record for an item that has none, or replaces a record by a successor.\<close>

inductive item_step :: "(string \<rightharpoonup> mirror_record) \<Rightarrow> (string \<rightharpoonup> mirror_record) \<Rightarrow> bool" where
  stay: "item_step m m"
| insert: "m (m_mirror_id r) = None \<Longrightarrow> \<forall>k. \<forall>q \<in> set_option (m k). logical_key q \<noteq> logical_key r
    \<Longrightarrow> m_revision r = 0 \<Longrightarrow> valid_mirror r \<Longrightarrow> item_step m (m(m_mirror_id r \<mapsto> r))"
| succeed: "m k = Some r \<Longrightarrow> succeeds r ds r' \<Longrightarrow> item_step m (m(k \<mapsto> r'))"

text \<open>What every operation of the store does.\<close>

definition refines :: "mirror_store \<Rightarrow> mirror_store \<Rightarrow> bool" where
  "refines st st' \<longleftrightarrow> mirror_ok st' \<and> item_step (mirror_map st) (mirror_map st')
     \<and> (ms_callback st' \<longrightarrow> ms_callback st)"

lemma refines_untouched: "mirror_ok st \<Longrightarrow> untouched st st' \<Longrightarrow> refines st st'"
  using untouched_ok [of st st'] untouched_map [of st st']
  by (simp add: refines_def item_step.stay) (simp add: untouched_def)

lemma steps_record_refines:
  assumes "mirror_ok st" and "mutation env reading st body = (res, st')" and "steps_record k body"
  shows "refines st st'"
proof -
  have "committable reading st body"
    using steps_record_ok [OF assms(3)] unfolding committable_def by blast
  from mutation_cases [OF assms(1,2) this] show ?thesis
  proof (elim disjE exE conjE)
    fix e assume "untouched st st'" then show ?thesis by (rule refines_untouched [OF assms(1)])
  next
    assume "st' = st" then show ?thesis using assms(1) by (simp add: refines_def item_step.stay)
  next
    fix records r v assume l: "canonical_records reading st = Inr records" "body records = Inr (Some r, v)"
      and s: "stored_record st r st'"
    have ok: "records_ok records" by (rule canonical_ok [OF assms(1) l(1)])
    obtain q where q: "map_of records k = Some q" "succeeds q {} r"
      using assms(3) ok l(2) unfolding steps_record_def by blast
    have "m_mirror_id q = k" using ok q(1) by (auto simp: records_ok_def intro: map_okD(1))
    then have "m_mirror_id r = k" using q(2) by (simp add: succeeds_def)
    then have "item_step (mirror_map st) (mirror_map st')"
      using item_step.succeed [OF _ q(2), of "mirror_map st" k] q(1) canonical_map [OF l(1)] s
      by (simp add: stored_record_def)
    then show ?thesis using s by (simp add: refines_def stored_record_def)
  qed
qed

lemma guarded_refines:
  assumes "mirror_ok st" and "steps_record k body"
  shows "refines st (snd (guarded_mutation env st body))"
proof (cases "ms_callback st")
  case True
  then show ?thesis using assms(1)
    by (simp add: guarded_mutation_def reject_callback_mutation_def guarded_def refines_def item_step.stay)
next
  case False
  then have "guarded_mutation env st body = mutation env (me_read env) st body"
    by (simp add: guarded_mutation_def reject_callback_mutation_def guarded_def)
  moreover obtain res st' where m: "mutation env (me_read env) st body = (res, st')" by fastforce
  ultimately show ?thesis using steps_record_refines [OF assms(1) m assms(2)] by simp
qed

lemma attach_refines: "mirror_ok st \<Longrightarrow> refines st (snd (attach_card_if_missing env st k msg nonce))"
proof -
  assume ok: "mirror_ok st"
  obtain res st' where m: "mutation env (me_read env) st (attach_card_body env k msg nonce) = (res, st')" by fastforce
  from steps_record_refines [OF ok m attach_card_steps] m ok show ?thesis
    by (auto simp: attach_card_if_missing_def refines_def item_step.stay split: sum.splits)
qed

lemma cas_refines:
  assumes "mirror_ok st" and "keeps_claims f"
  shows "refines st (snd (mirror_cas env st k n f))"
proof -
  obtain res st' where c: "mirror_cas env st k n f = (res, st')" by fastforce
  have flag: "st\<lparr>ms_callback := True, ms_callback := False\<rparr> = st" if "\<not> ms_callback st" using that by simp
  from compare_and_set_phases [OF c [unfolded mirror_cas_def]] show ?thesis
  proof (elim disjE exE conjE)
    fix e assume "st' = st" then show ?thesis using assms(1) by (simp add: c refines_def item_step.stay)
  next
    fix records current x st1 e
    assume "\<not> ms_callback st" "(f current, st\<lparr>ms_callback := True\<rparr>) = (x, st1)" "st' = st1\<lparr>ms_callback := False\<rparr>"
    then have "st' = st" by auto
    then show ?thesis using assms(1) by (simp add: c refines_def item_step.stay)
  next
    fix records current x st1 candidate
    assume a: "\<not> ms_callback st" "(f current, st\<lparr>ms_callback := True\<rparr>) = (x, st1)" "x = Inr candidate"
      "canonical_records (me_read env) st = Inr records" "map_of records k = Some current"
      "mutation env (me_reread env) (st1\<lparr>ms_callback := False\<rparr>) (cas_body env k n candidate) = (res, st')"
    have "valid_mirror current" by (rule records_ok_valid [OF canonical_ok [OF assms(1) a(4)] a(5)])
    then have "claims_fit candidate" using assms(2) a(2,3) by (simp add: keeps_claims_def)
    moreover have "st1\<lparr>ms_callback := False\<rparr> = st" using a(1,2) by auto
    ultimately show ?thesis using steps_record_refines [OF assms(1) _ cas_body_steps] a(6) c by simp
  qed
qed

lemma upsert_refines:
  assumes "mirror_ok st" and "mirror_map st (uuid_hex (me_uuid env)) = None"
  shows "refines st (snd (upsert_event env st e guild channel))"
proof (cases "ms_callback st")
  case True
  then show ?thesis using assms(1)
    by (simp add: upsert_event_def guarded_mutation_def reject_callback_mutation_def guarded_def
        refines_def item_step.stay)
next
  case False
  let ?body = "upsert_body env guild channel e"
  obtain res st' where m: "mutation env (me_read env) st ?body = (res, st')" by fastforce
  have s: "snd (upsert_event env st e guild channel) = st'"
    using False m by (simp add: upsert_event_def guarded_mutation_def reject_callback_mutation_def guarded_def)
  have "committable (me_read env) st ?body"
    unfolding committable_def
  proof (intro allI impI, elim conjE)
    fix records r v assume "records_ok records" "canonical_records (me_read env) st = Inr records"
      "?body records = Inr (Some r, v)"
    then show "map_ok ((map_of records)(m_mirror_id r \<mapsto> r))"
      using upsert_body_ok [of records env guild channel e r v] assms(2) canonical_map [of "me_read env" st records]
      by simp
  qed
  from mutation_cases [OF assms(1) m this] have "refines st st'"
  proof (elim disjE exE conjE)
    fix x assume "untouched st st'" then show "refines st st'" by (rule refines_untouched [OF assms(1)])
  next
    assume "st' = st" then show "refines st st'" using assms(1) by (simp add: refines_def item_step.stay)
  next
    fix records r v assume l: "canonical_records (me_read env) st = Inr records" "?body records = Inr (Some r, v)"
      and t: "stored_record st r st'"
    have ok: "records_ok records" by (rule canonical_ok [OF assms(1) l(1)])
    have mm: "map_ok (map_of records)" using ok by (simp add: records_ok_def)
    obtain r' dup where v: "v = (r', dup)" by (cases v) auto
    note u = upsert_body_Inr [OF ok l(2) [unfolded v]]
    have c: "\<exists>ts. (\<exists>q. map_of records (m_mirror_id q) = Some q \<and> fits q e \<and> update_from_event q e ts = Inr r)
              \<or> (by_item records (event_key e) = None
                 \<and> record_from_event (me_uuid env) e guild channel ts = Inr r)"
      using u by blast
    have map: "mirror_map st = map_of records" by (rule canonical_map [OF l(1)])
    from c have "item_step (mirror_map st) ((mirror_map st)(m_mirror_id r \<mapsto> r))"
    proof (elim exE disjE conjE)
      fix ts q assume q: "map_of records (m_mirror_id q) = Some q" "fits q e" "update_from_event q e ts = Inr r"
      have s: "succeeds q {e_delivery_id e} r"
        by (rule update_from_event_succeeds [OF map_okD(2) [OF mm q(1)] q(2,3)])
      then have "m_mirror_id r = m_mirror_id q" by (simp add: succeeds_def)
      then show ?thesis using item_step.succeed [of "map_of records" "m_mirror_id q", OF q(1) s] by (simp add: map)
    next
      fix ts assume none: "by_item records (event_key e) = None"
        and r: "record_from_event (me_uuid env) e guild channel ts = Inr r"
      note f = record_from_event_Inr [OF r]
      have "\<forall>k. \<forall>q \<in> set_option (map_of records k). logical_key q \<noteq> logical_key r"
        using by_item_None [OF none] f(3) by auto
      then show ?thesis using item_step.insert [of "map_of records" r] f(1,2,5) assms(2) by (simp add: map)
    qed
    then show "refines st st'" using t by (simp add: refines_def stored_record_def)
  qed
  then show ?thesis by (simp only: s)
qed

lemma mirror_step_refines: "mirror_step st st' \<Longrightarrow> mirror_ok st \<Longrightarrow> refines st st'"
  by (cases rule: mirror_step.cases)
     (auto simp: claim_card_creation_def release_card_creation_def complete_card_cleanup_def
       complete_publication_def clear_card_if_matches_def
       intro: upsert_refines cas_refines attach_refines guarded_refines card_steps)

interpretation mirror_system: invariant_system mirror_step mirror_ok
  by unfold_locales (drule (1) mirror_step_refines, simp add: refines_def)

section \<open>What no step does\<close>

definition carried :: "mirror_record \<Rightarrow> mirror_record \<Rightarrow> bool" where
  "carried r r' \<longleftrightarrow> logical_key r' = logical_key r \<and> (r' = r \<or> m_revision r < m_revision r')"

lemma item_step_carries:
  assumes "item_step m m'" and "m k = Some r"
  shows "\<exists>r'. m' k = Some r' \<and> carried r r'"
  using assms
proof cases
  case (succeed j q ds q')
  then show ?thesis using assms(2) by (cases "j = k") (auto simp: succeeds_def carried_def)
qed (use assms(2) in \<open>auto simp: carried_def\<close>)

lemma carried_trans: "carried a b \<Longrightarrow> carried b c \<Longrightarrow> carried a c"
  by (auto simp: carried_def)

lemma mirror_steps_carry:
  assumes "mirror_step\<^sup>*\<^sup>* st st'" and "mirror_ok st" and "mirror_map st k = Some r"
  shows "\<exists>r'. mirror_map st' k = Some r' \<and> carried r r'"
  using assms
proof (induction rule: rtranclp_induct)
  case base
  then show ?case by (auto simp: carried_def)
next
  case (step s t)
  then obtain q where q: "mirror_map s k = Some q" "carried r q" by blast
  have "mirror_ok s" using mirror_system.reachable_inv [OF step(1) step(4)] .
  then have "item_step (mirror_map s) (mirror_map t)"
    using mirror_step_refines [OF step(2)] by (simp add: refines_def)
  from item_step_carries [OF this q(1)] q(2) carried_trans show ?case by blast
qed

lemma mirror_steps_flag:
  "mirror_step\<^sup>*\<^sup>* st st' \<Longrightarrow> mirror_ok st \<Longrightarrow> ms_callback st' \<Longrightarrow> ms_callback st"
proof (induction rule: rtranclp_induct)
  case (step s t)
  have "mirror_ok s" using mirror_system.reachable_inv [OF step(1) step(4)] .
  with mirror_step_refines [OF step(2)] step show ?case by (simp add: refines_def)
qed simp

section \<open>Compare-and-set as a revisioned store\<close>

lemma get_mirror_Inr:
  assumes "mirror_ok st"
  shows "get_mirror READ_OK st k = Inr r \<longleftrightarrow> mirror_map st k = Some r"
proof -
  obtain records where "canonical_records READ_OK st = Inr records" using canonical_total [OF assms] by blast
  with canonical_map [OF this] show ?thesis by (simp add: get_mirror_def find_mirror_Inr)
qed

text \<open>A successful compare-and-set.\<close>

lemma mirror_cas_Inr:
  assumes "mirror_ok st" and "keeps_claims f" and "mirror_cas env st k n f = (Inr r, st')"
  obtains current candidate ts where "mirror_map st k = Some current" and "m_revision current = n"
    and "f current = Inr candidate" and "updated_record current (\<lambda>_. Inr candidate) ts = Inr r"
    and "mirror_map st' = (mirror_map st)(k \<mapsto> r)" and "mirror_ok st'"
proof -
  from compare_and_set_phases [OF assms(3) [unfolded mirror_cas_def]]
  obtain records current candidate where a: "\<not> ms_callback st" "canonical_records (me_read env) st = Inr records"
    "map_of records k = Some current" "m_revision current = n" "f current = Inr candidate"
    "mutation env (me_reread env) (st\<lparr>ms_callback := True, ms_callback := False\<rparr>) (cas_body env k n candidate) = (Inr r, st')"
    by auto
  have st: "st\<lparr>ms_callback := True, ms_callback := False\<rparr> = st" using a(1) by simp
  have map: "mirror_map st = map_of records" by (rule canonical_map [OF a(2)])
  have "claims_fit candidate"
    using assms(2) a(5) records_ok_valid [OF canonical_ok [OF assms(1) a(2)] a(3)] by (simp add: keeps_claims_def)
  note steps = cas_body_steps [OF this, of k env n]
  have "committable (me_reread env) st (cas_body env k n candidate)"
    using steps_record_ok [OF steps] unfolding committable_def by blast
  from mutation_cases [OF assms(1) a(6) [unfolded st] this]
  obtain rs r0 where b: "canonical_records (me_reread env) st = Inr rs"
    "cas_body env k n candidate rs = Inr (Some r0, r)" "stored_record st r0 st'"
    by (auto simp: cas_body_def and_then_eq_Inr)
  then obtain ts where c: "r0 = r" "map_of rs k = Some current" "updated_record current (\<lambda>_. Inr candidate) ts = Inr r"
    using canonical_map [OF b(1)] map a(3) by (auto simp: cas_body_def and_then_eq_Inr expect_mirror_Inr)
  have "succeeds current {} r" using steps canonical_ok [OF assms(1) b(1)] b(2) c(1,2)
    unfolding steps_record_def by (metis option.inject)
  then have "m_mirror_id r = k"
    using map_okD(1) [of "map_of rs" k current] c(2) canonical_ok [OF assms(1) b(1)] by (simp add: succeeds_def records_ok_def)
  then show thesis using that [of current candidate ts] a c b(3) map by (simp add: stored_record_def)
qed

lemma updated_record_revision: "updated_record r f ts = Inr r' \<Longrightarrow> m_revision r' = m_revision r + 1"
  by (auto simp: updated_record_Inr stamped_def)

interpretation mirror_cas: cas_store "get_mirror READ_OK" m_revision mirror_cas mirror_ok keeps_claims
proof
  fix st f env k n assume "mirror_ok st" "keeps_claims f"
  then show "mirror_ok (snd (mirror_cas env st k n f))" using cas_refines by (simp add: refines_def)
next
  fix st env k n f r st'
  assume ok: "mirror_ok st" and c: "mirror_cas env st k n f = (Inr r, st')"
  from compare_and_set_phases [OF c [unfolded mirror_cas_def]]
  obtain records current candidate where a: "canonical_records (me_read env) st = Inr records"
    "map_of records k = Some current" "m_revision current = n" "\<not> ms_callback st"
    "mutation env (me_reread env) (st\<lparr>ms_callback := True, ms_callback := False\<rparr>) (cas_body env k n candidate) = (Inr r, st')"
    by auto
  then have "m_revision r = n + 1"
    by (auto simp: mutation_def cas_body_def and_then_eq_Inr expect_mirror_Inr commit_record_def
        dest: updated_record_revision split: sum.splits prod.splits option.splits)
  then show "\<exists>cur. get_mirror READ_OK st k = Inr cur \<and> m_revision cur = n \<and> m_revision r = n + 1"
    using a canonical_map [OF a(1)] get_mirror_Inr [OF ok] by auto
next
  fix st f env k n r st'
  assume ok: "mirror_ok st" and f: "keeps_claims f" and c: "mirror_cas env st k n f = (Inr r, st')"
  from ok f c show "get_mirror READ_OK st' k = Inr r \<or> (\<exists>x. get_mirror READ_OK st' k = Inl x)"
    by (rule mirror_cas_Inr) (simp add: get_mirror_Inr)
next
  fix st k n f env
  assume ok: "mirror_ok st" and none: "\<nexists>cur. get_mirror READ_OK st k = Inr cur \<and> m_revision cur = n"
  obtain res st' where c: "mirror_cas env st k n f = (res, st')" by fastforce
  from compare_and_set_phases [OF c [unfolded mirror_cas_def]]
  show "\<exists>x. mirror_cas env st k n f = (Inl x, st)"
  proof (elim disjE exE conjE)
    fix e assume "res = Inl e" "st' = st" then show ?thesis using c by simp
  qed (use none get_mirror_Inr [OF ok] canonical_map [of "me_read env" st] in fastforce)+
qed

lemma cas_linear:
  assumes "mirror_ok st" and "mirror_step\<^sup>*\<^sup>* st st1"
    and "mirror_compare_and_set env st k n (\<lambda>r s. (f r, st1\<lparr>ms_callback := True\<rparr>)) = (res, st')"
  shows "(\<exists>e. res = Inl e \<and> st' \<in> {st, st1})
     \<or> (res, st') = mirror_cas (env\<lparr>me_read := me_reread env\<rparr>) st1 k n f"
proof -
  from compare_and_set_phases [OF assms(3)] show ?thesis
  proof (elim disjE exE conjE)
    fix records current x s
    assume a: "\<not> ms_callback st" "0 \<le> n" "canonical_records (me_read env) st = Inr records"
      "map_of records k = Some current" "m_revision current = n"
      "(f current, st1\<lparr>ms_callback := True\<rparr>) = (x, s)"
    have flag: "\<not> ms_callback st1" using mirror_steps_flag [OF assms(2,1)] a(1) by blast
    then have s: "s\<lparr>ms_callback := False\<rparr> = st1" using a(6) by auto
    {
      fix e assume "x = Inl e" "res = Inl e" "st' = s\<lparr>ms_callback := False\<rparr>"
      then show ?thesis using s by simp
    next
      fix candidate assume x: "x = Inr candidate"
        and m: "mutation env (me_reread env) (s\<lparr>ms_callback := False\<rparr>) (cas_body env k n candidate) = (res, st')"
      have f: "f current = Inr candidate" using a(6) x by simp
      obtain r' where r': "mirror_map st1 k = Some r'" "carried current r'"
        using mirror_steps_carry [OF assms(2,1)] canonical_map [OF a(3)] a(4) by auto
      show ?thesis
      proof (cases "and_then (canonical_records (me_reread env) st1) (\<lambda>records. expect_mirror records k n)")
        case (Inl e)
        then have "res = Inl e \<and> st' = st1"
          using m unfolding s by (auto simp: mutation_def cas_body_def and_then_eq_Inl split: sum.splits)
        then show ?thesis by simp
      next
        case (Inr q)
        then obtain rs where rs: "canonical_records (me_reread env) st1 = Inr rs" "map_of rs k = Some q" "m_revision q = n"
          by (auto simp: and_then_eq_Inr expect_mirror_Inr)
        then have "q = current" using r' a(5) canonical_map [OF rs(1)] by (auto simp: carried_def)
        have body: "cas_body (env\<lparr>me_read := me_reread env\<rparr>) k n candidate = cas_body env k n candidate"
          by (rule ext) (simp add: cas_body_def)
        have cr: "commit_record (env\<lparr>me_read := me_reread env\<rparr>) = commit_record env"
          by (rule ext)+ (simp add: commit_record_def)
        have "mutation (env\<lparr>me_read := me_reread env\<rparr>) (me_reread env) s' (cas_body env k n candidate)
            = mutation env (me_reread env) s' (cas_body env k n candidate)" for s'
          unfolding mutation_def cr by (rule refl)
        then have "mirror_cas (env\<lparr>me_read := me_reread env\<rparr>) st1 k n f
            = mutation env (me_reread env) (st1\<lparr>ms_callback := True, ms_callback := False\<rparr>) (cas_body env k n candidate)"
          using flag a(2) Inr f \<open>q = current\<close> body
          by (simp add: mirror_cas_def mirror_compare_and_set_def reject_callback_mutation_def guarded_def)
        moreover have "st1\<lparr>ms_callback := True, ms_callback := False\<rparr> = st1" using flag by simp
        ultimately show ?thesis using m unfolding s by simp
      qed
    }
  qed auto
qed

section \<open>Properties\<close>

definition empty_mirrors :: mirror_store where
  "empty_mirrors = \<lparr>ms_directory = \<lparr>sd_document = None, sd_temporary = None\<rparr>, ms_callback = False\<rparr>"

lemma empty_mirrors_ok: "mirror_ok empty_mirrors"
  by (simp add: empty_mirrors_def mirror_ok_def load_mirrors_def records_ok_def map_ok_def
      unique_items_def owned_once_def)

text \<open>
  C13. In every state the operations of the mirror store reach from an empty directory, whatever
  the clock says and whichever reads, writes and locks fail, the document loads to records their
  constructors accept, each under its own identifier, no item has two records, and no webhook
  delivery is recorded for two items.
\<close>

theorem mirror_store_invariant:
  assumes "mirror_step\<^sup>*\<^sup>* empty_mirrors st"
  shows "case load_mirrors READ_OK (ms_directory st) of Inl _ \<Rightarrow> False
    | Inr records \<Rightarrow> mirrors_wf records \<and> owned_once (map_of records)"
proof -
  obtain records where "load_mirrors READ_OK (ms_directory st) = Inr records" "records_ok records"
    using mirror_system.reachable_inv [OF assms empty_mirrors_ok] by (auto simp: mirror_ok_def)
  with records_wf show ?thesis by (simp add: records_ok_def map_ok_def)
qed

text \<open>
  C7. The store refines the abstract map of items: one operation, with all its failure
  points, leaves the map alone, adds a record for an item that has none at revision zero, or
  replaces a record by a valid successor of the same item with the next revision.
\<close>

theorem mirror_store_refines:
  assumes "mirror_step st st'" and "mirror_ok st"
  shows "item_step (mirror_map st) (mirror_map st')"
  using mirror_step_refines [OF assms] by (simp add: refines_def)

text \<open>
  C8. Compare-and-set runs the caller's function outside the locks, between two reads of the
  document. Whatever other operations run meanwhile, its outcome is that of an atomic
  compare-and-set at the moment of the second read, or an exception that changes nothing
  further.
\<close>

theorem mirror_cas_linearizable:
  assumes "mirror_ok st" and "mirror_step\<^sup>*\<^sup>* st st1"
    and "mirror_compare_and_set env st k n (\<lambda>r s. (f r, st1\<lparr>ms_callback := True\<rparr>)) = (res, st')"
  shows "(\<exists>e. res = Inl e \<and> st' \<in> {st, st1})
     \<or> (res, st') = mirror_cas (env\<lparr>me_read := me_reread env\<rparr>) st1 k n f"
  using cas_linear [OF assms] .

end
