(* ===== verification/MirrorLifecycle.thy ===== *)
theory MirrorLifecycle
  imports MirrorStoreProps
begin

text \<open>
  What the clients of the mirror store rely on: a webhook delivery is absorbed once, one of
  several publishers gets to create a card, and a publication is only acknowledged for the very
  record that was published.
\<close>

section \<open>The clock\<close>

lemma replace_char_absent: "a \<notin> set s \<Longrightarrow> replace_char a b s = s"
  by (induction s) (auto simp: replace_char_def)

lemma digit_char_not_Z: "0 \<le> d \<Longrightarrow> d < 10 \<Longrightarrow> digit_char d \<noteq> CHR ''Z''"
  using is_digit_digit_char [of d] by (auto simp: is_digit_def char_in_def)

lemma dec_no_Z: "CHR ''Z'' \<notin> set (dec w i)"
  using fixed_digits_all [of 10 "\<lambda>c. c \<noteq> CHR ''Z''" w i] digit_char_not_Z by (auto simp: list_all_iff)

lemma isoformat_no_Z: "CHR ''Z'' \<notin> set (isoformat t)"
  using dec_no_Z
  by (auto simp: isoformat_def time_text_def offset_text_def Let_def split: prod.splits option.splits)

lemma clock_text_convertible:
  assumes "clock_text now = Inr ts"
  shows "zoned ts" and "convertible ts"
proof -
  obtain u where u: "as_utc now = Inr u" "ts = isoformat u"
    using assms by (auto simp: clock_text_def and_then_eq_Inr split: if_splits)
  then have f: "dt_in_range (dt_local u)" "dt_offset u = Some 0"
    by (auto simp: as_utc_def split: option.splits if_splits)
  moreover from this have "u = \<lparr>dt_local = dt_local u, dt_offset = Some 0\<rparr>" by simp
  ultimately have "fromisoformat ts = Some u"
    using fromisoformat_isoformat_utc [of "dt_local u"] u(2) by metis
  then have "parse_zulu ts = Some u" using isoformat_no_Z [of u] u(2) by (simp add: parse_zulu_def replace_char_absent)
  with f show "zoned ts" "convertible ts" by (simp_all add: zoned_def convertible_def instant_def)
qed

section \<open>Operations that take effect\<close>

text \<open>A step whose body commits \<open>r\<close> and whose write meets no failing system call.\<close>

lemma write_document_fine: "write_document [] d doc = (Inr (), \<lparr>sd_document = Some (Some doc), sd_temporary = None\<rparr>)"
  by (simp add: write_document_def confirm_document_durability_def guarded_def Let_def)

lemma guarded_mutation_read:
  assumes "mirror_ok st" and "me_read env = READ_OK" and "\<not> ms_callback st"
  obtains records where "canonical_records READ_OK st = Inr records" and "records_ok records"
    and "mirror_map st = map_of records"
    and "\<And>body. guarded_mutation env st body = mutation env READ_OK st body"
proof -
  obtain records where r: "canonical_records READ_OK st = Inr records" using canonical_total [OF assms(1)] by blast
  show thesis
    by (rule that [OF r canonical_ok [OF assms(1) r] canonical_map [OF r]])
       (simp add: guarded_mutation_def reject_callback_mutation_def guarded_def assms(2,3))
qed

lemma mutation_unchanged:
  "canonical_records reading st = Inr records \<Longrightarrow> body records = Inr (None, v) \<Longrightarrow>
     mutation env reading st body = (Inr v, st)"
  by (simp add: mutation_def)

lemma mutation_raises:
  "canonical_records reading st = Inr records \<Longrightarrow> body records = Inl e \<Longrightarrow>
     mutation env reading st body = (Inl e, st)"
  by (simp add: mutation_def)

lemma mutation_commits:
  assumes "canonical_records reading st = Inr records" and "body records = Inr (Some r, v)"
    and "me_faults env = []"
  shows "mutation env reading st body = (Inr v, st\<lparr>ms_directory :=
     \<lparr>sd_document = Some (Some (encode_mirrors (AList.update (m_mirror_id r) r records))), sd_temporary = None\<rparr>\<rparr>)"
  using assms by (simp add: mutation_def commit_record_def write_document_fine)

section \<open>Deliveries\<close>

lemma upsert_success:
  assumes "mirror_ok st" and "mirror_map st (uuid_hex (me_uuid env)) = None"
    and "upsert_event env st e guild channel = (Inr (r, dup), st')"
  shows "mirror_ok st'" and "mirror_map st' (m_mirror_id r) = Some r" and "fits r e"
    and "e_delivery_id e \<in> set (m_recent_delivery_ids r)" and "\<not> ms_callback st'"
proof -
  let ?body = "upsert_body env guild channel e"
  have flag: "\<not> ms_callback st" and m: "mutation env (me_read env) st ?body = (Inr (r, dup), st')"
    using assms(3) by (auto simp: upsert_event_def guarded_mutation_def reject_callback_mutation_def
        guarded_def split: if_splits)
  have "refines st st'" using upsert_refines [OF assms(1,2), of e guild channel] assms(3) by simp
  then show ok: "mirror_ok st'" and "\<not> ms_callback st'" using flag by (simp_all add: refines_def)
  obtain records o' where l: "canonical_records (me_read env) st = Inr records" "?body records = Inr (o', r, dup)"
    and w: "o' = None \<longrightarrow> st' = st" "\<forall>q. o' = Some q \<longrightarrow> (\<exists>c. commit_record env st records q = (Inr c, st'))"
    using m by (auto simp: mutation_def and_then_eq_Inr and_then_eq_Inl split: sum.splits prod.splits option.splits)
  have rok: "records_ok records" by (rule canonical_ok [OF assms(1) l(1)])
  note map = canonical_map [OF l(1)]
  from upsert_body_Inr [OF rok l(2)]
  have "mirror_map st' (m_mirror_id r) = Some r \<and> fits r e \<and> e_delivery_id e \<in> set (m_recent_delivery_ids r)"
  proof (elim disjE conjE)
    assume "o' = None" "map_of records (m_mirror_id r) = Some r" "fits r e" "e_delivery_id e \<in> set (m_recent_delivery_ids r)"
    then show ?thesis using w(1) map by simp
  next
    assume o': "o' = Some r" and ex: "\<exists>ts. clock_text (me_now env) = Inr ts
           \<and> ((\<exists>q. map_of records (m_mirror_id q) = Some q \<and> fits q e \<and> m_guild_id q = guild
                 \<and> m_channel_id q = channel \<and> update_from_event q e ts = Inr r)
              \<or> (by_item records (event_key e) = None
                 \<and> record_from_event (me_uuid env) e guild channel ts = Inr r))"
    have item: "fits r e \<and> e_delivery_id e \<in> set (m_recent_delivery_ids r)"
      using ex
    proof (elim exE conjE disjE)
      fix ts q assume q: "map_of records (m_mirror_id q) = Some q" "fits q e" "update_from_event q e ts = Inr r"
      note r = update_from_event_Inr(1) [OF q(3)]
      have "fits r e" using q(2) by (simp add: r)
      moreover have "e_delivery_id e \<in> set (m_recent_delivery_ids r)"
        unfolding r by (simp add: note_delivery_def last_n_snoc)
      ultimately show ?thesis by blast
    next
      fix ts assume "record_from_event (me_uuid env) e guild channel ts = Inr r"
      from record_from_event_Inr(3,4) [OF this] show ?thesis by (simp add: fits_key)
    qed
    obtain c where c: "commit_record env st records r = (Inr c, st')" using w(2) o' by blast
    have "map_ok ((map_of records)(m_mirror_id r \<mapsto> r))"
      by (rule upsert_body_ok [OF rok l(2) [unfolded o']]) (use assms(2) map in simp)
    from commit_record_cases [OF assms(1) l(1) this c] item show ?thesis by simp
  qed
  then show "mirror_map st' (m_mirror_id r) = Some r" "fits r e" "e_delivery_id e \<in> set (m_recent_delivery_ids r)"
    by simp_all
qed

text \<open>A delivery that the item still remembers.\<close>

lemma delivery_known:
  assumes "mirror_ok st" and "\<not> ms_callback st" and "mirror_map st (m_mirror_id r) = Some r"
    and "d \<in> set (m_recent_delivery_ids r)" and "e_delivery_id e' = d" and "me_read env' = READ_OK"
  shows "upsert_event env' st e' guild' channel'
    = (if fits r e' then Inr (r, True) else Inl (GitHubDeliveryCollision d), st)"
proof -
  obtain records where c: "canonical_records READ_OK st = Inr records" "records_ok records"
    "mirror_map st = map_of records"
    and g: "\<And>body :: mirrors \<Rightarrow> (mirror_record option \<times> mirror_record \<times> bool) result.
      guarded_mutation env' st body = mutation env' READ_OK st body"
    using guarded_mutation_read [OF assms(1,6,2)] by metis
  have m: "map_ok (map_of records)" and w: "dict_wf records" using c(2) by (simp_all add: records_ok_def)
  have r: "map_of records (m_mirror_id r) = Some r" using assms(3) c(3) by simp
  have d: "e_delivery_id e' \<in> set (m_recent_delivery_ids r)" using assms(4,5) by simp
  obtain owner where o: "delivery_owner records (e_delivery_id e') = Some owner"
  proof (cases "delivery_owner records (e_delivery_id e')")
    case None
    from find_value_None [OF this [unfolded delivery_owner_def] r] d show thesis by simp
  qed (use that in simp)
  then obtain k where k: "map_of records k = Some owner" "e_delivery_id e' \<in> set (m_recent_delivery_ids owner)"
    unfolding delivery_owner_def by (rule find_value_Some [OF w])
  have "k = m_mirror_id r" by (rule map_okD(4) [OF m k(1) r k(2) d])
  with k(1) r have owner: "owner = r" by simp
  note o = o [unfolded assms(5)]
  have body: "upsert_body env' guild' channel' e' records
      = (if fits r e' then Inr (None, r, True) else Inl (GitHubDeliveryCollision d))"
  proof (cases "by_item records (event_key e')")
    case None
    with by_item_None [OF None r] show ?thesis by (simp add: upsert_body_def o assms(5) fits_key)
  next
    case (Some q)
    note b = by_item_Some [OF c(2) Some]
    have "m_mirror_id r = m_mirror_id q \<longleftrightarrow> fits r e'"
    proof
      assume "m_mirror_id r = m_mirror_id q"
      with r b(1) have "r = q" by (metis option.inject)
      then show "fits r e'" using b(2) by (simp add: fits_key)
    next
      assume "fits r e'"
      then have "logical_key r = logical_key q" using b(2) by (simp add: fits_key)
      from map_okD(3) [OF m r b(1) this] show "m_mirror_id r = m_mirror_id q" .
    qed
    moreover have "fits r e' \<Longrightarrow> q = r" using calculation r b(1) by (metis option.inject)
    ultimately show ?thesis using Some by (simp add: upsert_body_def o owner assms(5))
  qed
  show ?thesis
  proof (cases "fits r e'")
    case True
    then show ?thesis using mutation_unchanged [OF c(1)] body by (simp add: upsert_event_def g)
  next
    case False
    then show ?thesis using mutation_raises [OF c(1)] body by (simp add: upsert_event_def g)
  qed
qed

text \<open>
  C14. A webhook delivery is absorbed once, as long as its item remembers it. A stored event leaves its delivery
  identifier in the record of its item. In every state any operations reach from there in which that record still
  lists the identifier (it lists the last 64) and the file can be read, an event with the same identifier changes
  nothing: it returns the record of the item as it then is, marked as a duplicate, when the event is about the same
  item, and is refused as a collision when it is about another.
\<close>

theorem delivery_absorbed_once:
  assumes "mirror_ok st" and "mirror_map st (uuid_hex (me_uuid env)) = None"
    and "upsert_event env st e guild channel = (Inr (r, dup), st')"
    and "mirror_step\<^sup>*\<^sup>* st' later" and "mirror_map later (m_mirror_id r) = Some q"
    and "e_delivery_id e \<in> set (m_recent_delivery_ids q)"
    and "e_delivery_id e' = e_delivery_id e" and "me_read env' = READ_OK"
  shows "mirror_map st' (m_mirror_id r) = Some r \<and> e_delivery_id e \<in> set (m_recent_delivery_ids r)
     \<and> upsert_event env' later e' guild' channel'
        = (if fits q e' then Inr (q, True) else Inl (GitHubDeliveryCollision (e_delivery_id e)), later)"
proof -
  note s = upsert_success [OF assms(1-3)]
  have ok: "mirror_ok later" "\<not> ms_callback later"
    using mirror_system.reachable_inv [OF assms(4) s(1)] mirror_steps_flag [OF assms(4) s(1)] s(5) by blast+
  have "map_ok (mirror_map later)" using ok(1) by (auto simp: mirror_ok_def mirror_map_def records_ok_def)
  from map_okD(1) [OF this assms(5)] have "mirror_map later (m_mirror_id q) = Some q" using assms(5) by simp
  from delivery_known [OF ok this assms(6-8)] s(2,4) show ?thesis by simp
qed

section \<open>Cards\<close>

lemma record_step_success:
  assumes "mirror_ok st" and "steps_record k body" and "guarded_mutation env st body = (Inr v, st')"
  shows "\<exists>records. canonical_records (me_read env) st = Inr records \<and> records_ok records
     \<and> mirror_map st = map_of records \<and> \<not> ms_callback st \<and> mirror_ok st' \<and> \<not> ms_callback st'
     \<and> ((body records = Inr (None, v) \<and> st' = st)
        \<or> (\<exists>r r'. body records = Inr (Some r', v) \<and> map_of records k = Some r \<and> succeeds r {} r'
             \<and> mirror_map st' = (mirror_map st)(k \<mapsto> r')))"
proof -
  have flag: "\<not> ms_callback st" and m: "mutation env (me_read env) st body = (Inr v, st')"
    using assms(3) by (auto simp: guarded_mutation_def reject_callback_mutation_def guarded_def split: if_splits)
  have ref: "refines st st'" using guarded_refines [OF assms(1,2), of env] assms(3) by simp
  have "committable (me_read env) st body"
    using steps_record_ok [OF assms(2)] unfolding committable_def by blast
  from mutation_cases [OF assms(1) m this] show ?thesis
  proof (elim disjE exE conjE)
    fix records w assume "canonical_records (me_read env) st = Inr records" "body records = Inr (None, w)"
      "Inr v = Inr w" "st' = st"
    then show ?thesis using canonical_ok [OF assms(1)] canonical_map flag assms(1) by auto
  next
    fix records r' w assume a: "canonical_records (me_read env) st = Inr records" "body records = Inr (Some r', w)"
      "Inr v \<in> {Inr w, Inl TaskStoreDurabilityError}" "stored_record st r' st'"
    have ok: "records_ok records" by (rule canonical_ok [OF assms(1) a(1)])
    obtain r where r: "map_of records k = Some r" "succeeds r {} r'"
      using assms(2) ok a(2) unfolding steps_record_def by blast
    have "m_mirror_id r = k" using ok r(1) by (auto simp: records_ok_def intro: map_okD(1))
    then have "mirror_map st' = (mirror_map st)(k \<mapsto> r')" using a(4) r(2) by (simp add: stored_record_def succeeds_def)
    then show ?thesis using a ok r ref flag canonical_map [OF a(1)] by (auto simp: refines_def)
  qed simp
qed

lemma claim_success:
  assumes "mirror_ok st" and "claim_card_creation env st k = (Inr (r, True), st')"
  shows "mirror_ok st'" and "\<not> ms_callback st'" and "mirror_map st' k = Some r" and "valid_mirror r"
    and "m_card_message_id r = None" and "m_card_create_pending r"
    and "m_card_create_nonce r = Some (''gm:'' @ me_token env)"
proof -
  obtain records where c: "mirror_ok st'" "\<not> ms_callback st'"
    "(claim_card_body env k records = Inr (None, r, True) \<and> st' = st)
        \<or> (\<exists>q r'. claim_card_body env k records = Inr (Some r', r, True) \<and> map_of records k = Some q
             \<and> succeeds q {} r' \<and> mirror_map st' = (mirror_map st)(k \<mapsto> r'))"
    using record_step_success [OF assms(1) claim_card_steps assms(2) [unfolded claim_card_creation_def]] by blast
  have "\<not> claim_card_body env k records = Inr (None, r, True)"
    by (auto simp: claim_card_body_def and_then_eq_Inr stamp_record_Inr split: if_splits)
  then obtain q r' where b: "claim_card_body env k records = Inr (Some r', r, True)" "map_of records k = Some q"
    "succeeds q {} r'" "mirror_map st' = (mirror_map st)(k \<mapsto> r')" using c(3) by blast
  then obtain ts where t: "r' = r" "claim_card_record q (''gm:'' @ me_token env) ts = Inr r" "m_card_message_id q = None"
    by (auto simp: claim_card_body_def and_then_eq_Inr find_mirror_Inr stamp_record_Inr split: if_splits)
  then have "r = stamped q (q\<lparr>m_card_create_pending := True, m_card_create_nonce := Some (''gm:'' @ me_token env)\<rparr>) ts"
    by (auto simp: claim_card_record_def updated_record_Inr make_mirror_Inr)
  with c(1,2) b t show "mirror_ok st'" "\<not> ms_callback st'" "mirror_map st' k = Some r" "valid_mirror r"
    "m_card_message_id r = None" "m_card_create_pending r" "m_card_create_nonce r = Some (''gm:'' @ me_token env)"
    by (simp_all add: succeeds_def) (simp_all add: stamped_def)
qed

lemma attach_claimed:
  assumes "valid_mirror r" and "m_card_create_nonce r = Some nonce" and "m_card_message_id r = None"
    and "0 < msg" "msg < 2 ^ 64" and "zoned ts"
  shows "\<exists>r'. attach_card_record r msg nonce ts = Inr r' \<and> m_card_message_id r' = Some msg
     \<and> \<not> m_card_create_pending r' \<and> m_card_cleanup_nonce r' = Some nonce \<and> m_mirror_id r' = m_mirror_id r"
proof -
  let ?c = "r\<lparr>m_card_message_id := Some msg, m_card_create_pending := False,
       m_card_create_nonce := None, m_card_cleanup_nonce := Some nonce\<rparr>"
  have "valid_card_nonce nonce"
    using assms(1,2) by (simp add: valid_mirror_iff progress_ok_def card_checks_def optional_card_nonce_def)
  then have "no_failure (card_checks ?c)"
    using assms(4,5) by (simp add: card_checks_def optional_positive_integer_def positive_integer_def
        optional_card_nonce_def)
  moreover have "card_change r ?c" by (simp add: card_change_def immutable_part_def)
  ultimately have "attach_card_record r msg nonce ts = Inr (stamped r ?c ts)"
    unfolding attach_card_record_def
    using card_update_ok(1) [OF assms(1) _ _ assms(6), of ?c] by (simp add: updated_record_def)
  then show ?thesis by (simp add: stamped_def)
qed

text \<open>
  C19. One publisher creates the card of an item. After a claim has succeeded, and in every state any operations
  reach from there in which the item still carries the nonce of that claim (the creation was neither released nor
  completed): another claim is turned down without a change, a message with any other nonce cannot be
  attached, and, when the disk and the clock work, a message with the nonce of the claim is attached, which ends the
  pending creation. The identifier of the message is a positive number below \<open>2 ^ 64\<close> and the file can be read.
\<close>

theorem card_created_once:
  assumes "mirror_ok st" and "claim_card_creation env st k = (Inr (r, True), st')"
    and "mirror_step\<^sup>*\<^sup>* st' later" and "mirror_map later k = Some q"
    and "m_card_create_nonce q = Some (''gm:'' @ me_token env)"
    and "me_read env' = READ_OK" and "me_faults env' = []" and "clock_text (me_now env') = Inr ts"
    and "0 < msg" and "msg < 2 ^ 64" and "other \<noteq> ''gm:'' @ me_token env"
  shows "mirror_map st' k = Some r \<and> m_card_create_nonce r = Some (''gm:'' @ me_token env)
     \<and> claim_card_creation env' later k = (Inr (q, False), later)
     \<and> attach_card_if_missing env' later k msg other = (Inl (GitHubMirrorRevisionConflict k), later)
     \<and> (case attach_card_if_missing env' later k msg (''gm:'' @ me_token env) of
          (Inr (r', attached), st'') \<Rightarrow> attached \<and> m_card_message_id r' = Some msg \<and> \<not> m_card_create_pending r'
            \<and> mirror_map st'' k = Some r'
        | _ \<Rightarrow> False)"
proof -
  note s = claim_success [OF assms(1,2)]
  let ?n = "''gm:'' @ me_token env"
  have ok: "mirror_ok later" "\<not> ms_callback later"
    using mirror_system.reachable_inv [OF assms(3) s(1)] mirror_steps_flag [OF assms(3) s(1)] s(2) by blast+
  obtain records where c: "canonical_records READ_OK later = Inr records" "records_ok records"
    "mirror_map later = map_of records"
    using guarded_mutation_read [OF ok(1) assms(6) ok(2)] by metis
  have find: "find_mirror records k = Inr q" using assms(4) c(3) by (simp add: find_mirror_Inr)
  have v: "valid_mirror q" using records_ok_valid [OF c(2)] assms(4) c(3) by (metis)
  then have pending: "m_card_create_pending q" "m_card_message_id q = None"
    using assms(5) by (auto simp: valid_mirror_iff progress_ok_def card_checks_def)
  have g: "guarded_mutation env' later body = mutation env' READ_OK later body"
    for body :: "mirrors \<Rightarrow> (mirror_record option \<times> mirror_record \<times> bool) result"
    by (simp add: guarded_mutation_def reject_callback_mutation_def guarded_def ok(2) assms(6))
  have a: "attach_card_if_missing env' later k msg nonce = mutation env' READ_OK later (attach_card_body env' k msg nonce)" for nonce
    by (simp add: attach_card_if_missing_def reject_callback_mutation_def guarded_def ok(2) assms(6,9))
  have "claim_card_body env' k records = Inr (None, q, False)" by (simp add: claim_card_body_def find pending)
  then have 1: "claim_card_creation env' later k = (Inr (q, False), later)"
    using mutation_unchanged [OF c(1)] by (simp add: claim_card_creation_def g)
  have "attach_card_body env' k msg other records = Inl (GitHubMirrorRevisionConflict k)"
    using assms(11) by (simp add: attach_card_body_def find pending assms(5))
  then have 2: "attach_card_if_missing env' later k msg other = (Inl (GitHubMirrorRevisionConflict k), later)"
    using mutation_raises [OF c(1)] by (simp add: a)
  obtain r' where r': "attach_card_record q msg ?n ts = Inr r'" "m_card_message_id r' = Some msg" "\<not> m_card_create_pending r'"
    using attach_claimed [OF v assms(5) pending(2) assms(9,10) clock_text_convertible(1) [OF assms(8)]] by blast
  have body: "attach_card_body env' k msg ?n records = Inr (Some r', r', True)"
    by (simp add: attach_card_body_def find pending assms(5) stamp_record_def assms(8) r'(1) [simplified])
  from mutation_commits [where body = "attach_card_body env' k msg ?n", OF c(1) this assms(7)]
  obtain st'' where st'': "attach_card_if_missing env' later k msg ?n = (Inr (r', True), st'')" by (simp only: a)
  then have "guarded_mutation env' later (attach_card_body env' k msg ?n) = (Inr (r', True), st'')" by (simp only: a g)
  from record_step_success [OF ok(1) attach_card_steps this] canonical_map [of "me_read env'" later] c(3) body
  have "mirror_map st'' k = Some r'" by (auto simp: assms(6) c(1))
  with 1 2 r' st'' s(3,7) show ?thesis by simp
qed

section \<open>Publication\<close>

text \<open>
  C20. An acknowledgement is never taken for a record the publisher has not seen: completing the
  publication of the record read earlier has an effect only if no other operation changed the
  record since, the card is attached and nothing is left to clean up; otherwise the record stays
  due for publication.
\<close>

theorem publication_acknowledges_rendered:
  assumes "mirror_ok st" and "mirror_map st k = Some r" and "mirror_step\<^sup>*\<^sup>* st st1"
    and "complete_publication env st1 k (m_revision r) = (res, st2)"
  shows "mirror_map st2 = mirror_map st1
     \<or> (mirror_map st1 k = Some r \<and> m_card_message_id r \<noteq> None \<and> m_card_cleanup_nonce r = None
        \<and> (\<exists>ts. mirror_map st2 = (mirror_map st1)(k \<mapsto> stamped r (r\<lparr>m_publication_pending := False\<rparr>) ts)))"
proof (cases "ms_callback st1")
  case True
  then have "st2 = st1" using assms(4)
    by (simp add: complete_publication_def guarded_mutation_def reject_callback_mutation_def guarded_def)
  then show ?thesis by simp
next
  case False
  have ok: "mirror_ok st1" by (rule mirror_system.reachable_inv [OF assms(3,1)])
  obtain r1 where r1: "mirror_map st1 k = Some r1" "carried r r1"
    using mirror_steps_carry [OF assms(3,1,2)] by blast
  let ?body = "publication_body env k (m_revision r)"
  have m: "mutation env (me_read env) st1 ?body = (res, st2)"
    using assms(4) False by (simp add: complete_publication_def guarded_mutation_def reject_callback_mutation_def guarded_def)
  have "committable (me_read env) st1 ?body"
    using steps_record_ok [OF publication_steps] unfolding committable_def by blast
  from mutation_cases [OF ok m this] show ?thesis
  proof (elim disjE exE conjE)
    fix e assume "untouched st1 st2" then show ?thesis by (simp add: untouched_map)
  next
    fix records r' w assume a: "canonical_records (me_read env) st1 = Inr records" "?body records = Inr (Some r', w)"
      "stored_record st1 r' st2"
    have "map_of records k = Some r1" using canonical_map [OF a(1)] r1(1) by simp
    then obtain ts where t: "m_revision r1 = m_revision r" "m_card_message_id r1 \<noteq> None" "m_card_cleanup_nonce r1 = None"
      "updated_record r1 (\<lambda>r. make_mirror (r\<lparr>m_publication_pending := False\<rparr>)) ts = Inr r'"
      using a(2) by (auto simp: publication_body_def and_then_eq_Inr find_mirror_Inr stamp_record_Inr
          stamp_record_def split: if_splits)
    then have "r1 = r" using r1(2) by (simp add: carried_def)
    moreover have r': "r' = stamped r1 (r1\<lparr>m_publication_pending := False\<rparr>) ts"
      using t(4) by (auto simp: updated_record_Inr make_mirror_Inr)
    moreover have "m_mirror_id r1 = k"
      using canonical_ok [OF ok a(1)] \<open>map_of records k = Some r1\<close> by (auto simp: records_ok_def intro: map_okD(1))
    ultimately show ?thesis using r1(1) t a(3) by (auto simp: stored_record_def stamped_def)
  qed simp
qed

section \<open>A store in use\<close>

definition example_mirror_env :: mirror_env where
  "example_mirror_env = \<lparr>me_now = \<lparr>dt_local = 63919879200000000, dt_offset = Some 0\<rparr>, me_uuid = 1,
     me_token = ''0123456789abcdefghijkl'', me_read = READ_OK, me_reread = READ_OK, me_faults = []\<rparr>"

definition holding :: "mirrors \<Rightarrow> mirror_store" where
  "holding records = \<lparr>ms_directory = \<lparr>sd_document = Some (Some (encode_mirrors records)), sd_temporary = None\<rparr>,
     ms_callback = False\<rparr>"

definition first_mirror :: mirror_record where
  "first_mirror = first_record 1 example_event 5 6 ''2026-07-17T10:00:00+00:00''"

definition claimed_mirror :: mirror_record where
  "claimed_mirror = first_mirror\<lparr>m_card_create_pending := True,
     m_card_create_nonce := Some ''gm:0123456789abcdefghijkl'', m_revision := 1\<rparr>"

abbreviation first_store :: mirror_store where
  "first_store \<equiv> holding [(m_mirror_id first_mirror, first_mirror)]"

abbreviation claimed_store :: mirror_store where
  "claimed_store \<equiv> holding [(m_mirror_id first_mirror, claimed_mirror)]"

lemma example_clock: "clock_text (me_now example_mirror_env) = Inr ''2026-07-17T10:00:00+00:00''"
  by code_simp

lemma first_upsert:
  "upsert_event example_mirror_env empty_mirrors example_event 5 6 = (Inr (first_mirror, False), first_store)"
proof -
  have "record_from_event 1 example_event 5 6 ''2026-07-17T10:00:00+00:00'' = Inr first_mirror" by code_simp
  then have b: "upsert_body example_mirror_env 5 6 example_event [] = Inr (Some first_mirror, first_mirror, False)"
    using example_clock
    by (simp add: upsert_body_def by_item_def delivery_owner_def) (simp add: example_mirror_env_def)
  have "canonical_records READ_OK empty_mirrors = Inr []"
    by (simp add: canonical_records_def load_mirrors_def empty_mirrors_def)
  from mutation_commits [where body = "upsert_body example_mirror_env 5 6 example_event", OF this b]
  show ?thesis
    by (simp add: upsert_event_def guarded_mutation_def reject_callback_mutation_def guarded_def
        empty_mirrors_def holding_def example_mirror_env_def)
qed

lemma empty_mirror_map [simp]: "mirror_map empty_mirrors = Map.empty"
  by (simp add: mirror_map_def load_mirrors_def empty_mirrors_def)

lemma first_step: "mirror_step empty_mirrors first_store"
  using mirror_step.upserting [of empty_mirrors example_mirror_env example_event 5 6] first_upsert by simp

lemma first_store_ok: "mirror_ok first_store"
  using mirror_system.step_inv [OF first_step empty_mirrors_ok] .

lemma holding_ok:
  assumes "records_ok records"
  shows "mirror_ok (holding records)" and "mirror_map (holding records) = map_of records"
    and "canonical_records READ_OK (holding records) = Inr (sorted_dict records)"
proof -
  have l: "load_mirrors READ_OK (ms_directory (holding records)) = Inr (sorted_dict records)"
    by (rule load_encoded [OF assms]) (simp add: holding_def)
  then show "mirror_ok (holding records)" using records_ok_sorted [OF assms] by (simp add: mirror_ok_def)
  show "mirror_map (holding records) = map_of records"
    using l assms by (simp add: mirror_map_def records_ok_def)
  show "canonical_records READ_OK (holding records) = Inr (sorted_dict records)"
    using l by (simp add: canonical_records_def)
qed

lemma single_ok: "valid_mirror r \<Longrightarrow> m_mirror_id r = k \<Longrightarrow> records_ok [(k, r)]"
  by (simp add: records_ok_def map_ok_def entry_ok_def unique_items_def owned_once_def)

lemma first_valid: "valid_mirror first_mirror" "valid_mirror claimed_mirror"
  by code_simp+

lemma first_records_ok: "records_ok [(m_mirror_id first_mirror, first_mirror)]"
  using single_ok [OF first_valid(1) refl] .

theorem mirror_store_invariant_witness:
  "mirrors_wf (sorted_dict [(m_mirror_id first_mirror, first_mirror)])"
proof -
  have "mirror_step\<^sup>*\<^sup>* empty_mirrors first_store" using first_step by blast
  from mirror_store_invariant [OF this] load_encoded [OF first_records_ok, of "ms_directory first_store"]
  show ?thesis by (simp add: holding_def)
qed

theorem mirror_store_refines_witness:
  "item_step Map.empty [m_mirror_id first_mirror \<mapsto> first_mirror]"
  using mirror_store_refines [OF first_step empty_mirrors_ok] holding_ok(2) [OF first_records_ok] by simp

theorem mirror_cas_linearizable_witness:
  "(\<exists>e. fst (mirror_compare_and_set example_mirror_env first_store (m_mirror_id first_mirror) 3
       (\<lambda>r s. (Inr r, first_store\<lparr>ms_callback := True\<rparr>))) = Inl e)"
proof -
  let ?k = "m_mirror_id first_mirror" and ?e = "example_mirror_env\<lparr>me_read := me_reread example_mirror_env\<rparr>"
  obtain res st' where c: "mirror_compare_and_set example_mirror_env first_store ?k 3
      (\<lambda>r s. (Inr r, first_store\<lparr>ms_callback := True\<rparr>)) = (res, st')" by fastforce
  have "m_revision first_mirror = 0" by (simp add: first_mirror_def first_record_def)
  then have "\<nexists>cur. get_mirror READ_OK first_store ?k = Inr cur \<and> m_revision cur = 3"
    using get_mirror_Inr [OF first_store_ok] holding_ok(2) [OF first_records_ok] by simp
  from mirror_cas.cas_refused [OF first_store_ok this, of ?e Inr]
  obtain x where "mirror_cas ?e first_store ?k 3 Inr = (Inl x, first_store)" by blast
  with mirror_cas_linearizable [OF first_store_ok rtranclp.rtrancl_refl c] c show ?thesis by auto
qed

lemma first_lookup: "mirror_map first_store (m_mirror_id first_mirror) = Some first_mirror"
  using holding_ok(2) [OF first_records_ok] by simp

theorem delivery_absorbed_once_witness:
  "upsert_event example_mirror_env first_store example_event 5 6 = (Inr (first_mirror, True), first_store)
   \<and> upsert_event example_mirror_env first_store (example_event\<lparr>e_item_number := 8\<rparr>) 5 6
       = (Inl (GitHubDeliveryCollision ''d1''), first_store)"
proof -
  have r: "me_read example_mirror_env = READ_OK" by (simp add: example_mirror_env_def)
  have "mirror_map empty_mirrors (uuid_hex (me_uuid example_mirror_env)) = None" by simp
  note once = delivery_absorbed_once [OF empty_mirrors_ok this first_upsert rtranclp.rtrancl_refl first_lookup _ _ r]
  show ?thesis
    using once [of example_event 5 6] once [of "example_event\<lparr>e_item_number := 8\<rparr>" 5 6]
    by (simp add: fits_def first_mirror_def first_record_def example_event_def)
qed

lemma first_claim:
  "claim_card_creation example_mirror_env first_store (m_mirror_id first_mirror)
     = (Inr (claimed_mirror, True), claimed_store)"
proof -
  let ?k = "m_mirror_id first_mirror"
  have rec: "claim_card_record first_mirror ''gm:0123456789abcdefghijkl'' ''2026-07-17T10:00:00+00:00'' = Inr claimed_mirror"
    by code_simp
  have c: "canonical_records READ_OK first_store = Inr [(?k, first_mirror)]"
    using holding_ok(3) [OF first_records_ok] by (simp add: sorted_dict_def)
  have f: "m_card_message_id first_mirror = None" "\<not> m_card_create_pending first_mirror"
    "m_mirror_id claimed_mirror = ?k"
    by (simp_all add: first_mirror_def first_record_def claimed_mirror_def)
  have "claim_card_body example_mirror_env ?k [(?k, first_mirror)]
      = Inr (Some claimed_mirror, claimed_mirror, True)"
    using rec example_clock f(1,2)
    by (simp add: claim_card_body_def find_mirror_def dict_lookup_def stamp_record_def)
       (simp add: example_mirror_env_def)
  from mutation_commits [where body = "claim_card_body example_mirror_env ?k", OF c this] f(3)
  show ?thesis
    by (simp add: claim_card_creation_def guarded_mutation_def reject_callback_mutation_def guarded_def
        example_mirror_env_def) (simp add: holding_def)
qed

lemma claimed_lookup:
  "mirror_map claimed_store (m_mirror_id first_mirror) = Some claimed_mirror"
  "m_card_create_nonce claimed_mirror = Some (''gm:'' @ me_token example_mirror_env)"
proof -
  have "m_mirror_id claimed_mirror = m_mirror_id first_mirror" by (simp add: claimed_mirror_def)
  from holding_ok(2) [OF single_ok [OF first_valid(2) this]]
  show "mirror_map claimed_store (m_mirror_id first_mirror) = Some claimed_mirror" by simp
  show "m_card_create_nonce claimed_mirror = Some (''gm:'' @ me_token example_mirror_env)"
    by (simp add: claimed_mirror_def example_mirror_env_def)
qed

theorem card_created_once_witness:
  "claim_card_creation example_mirror_env claimed_store (m_mirror_id first_mirror)
     = (Inr (claimed_mirror, False), claimed_store)"
proof -
  have e: "me_read example_mirror_env = READ_OK" "me_faults example_mirror_env = []"
    by (simp_all add: example_mirror_env_def)
  show ?thesis
    using card_created_once [OF first_store_ok first_claim rtranclp.rtrancl_refl _ _ e example_clock, of claimed_mirror 9 "[]"] claimed_lookup by simp
qed

theorem publication_acknowledges_rendered_witness:
  "mirror_map (snd (complete_publication example_mirror_env first_store (m_mirror_id first_mirror) 0))
     = [m_mirror_id first_mirror \<mapsto> first_mirror]"
proof -
  let ?k = "m_mirror_id first_mirror"
  have m: "mirror_map first_store = [?k \<mapsto> first_mirror]" using holding_ok(2) [OF first_records_ok] by simp
  obtain res st2 where c: "complete_publication example_mirror_env first_store ?k (m_revision first_mirror) = (res, st2)"
    by fastforce
  have "m_revision first_mirror = 0" "m_card_message_id first_mirror = None"
    by (simp_all add: first_mirror_def first_record_def)
  with publication_acknowledges_rendered [OF first_store_ok _ rtranclp.rtrancl_refl c] c m show ?thesis by simp
qed

end
