(* ===== verification/MirrorActionStore.thy ===== *)
theory MirrorActionStore
  imports MirrorLifecycle
begin

text \<open>
  \<open>github_mirror_action_store.py\<close>: the reservation of an item for one task. Every operation is a
  loop of at most eight attempts, each of which reads the record, decides, and changes it by
  compare-and-set; a revision conflict starts the next attempt. Other threads and processes may
  change the store between the two calls of an attempt and while the update function runs.
\<close>

section \<open>Attempts\<close>

text \<open>What one attempt meets: the read of \<open>get\<close>, the clock of the reservation, what others do to
  the store between \<open>get\<close> and \<open>compare_and_set\<close> and during the latter's callback, and the
  environment of the latter.\<close>

record attempt =
  at_get :: read_outcome
  at_now :: datetime
  at_between :: "mirror_store \<Rightarrow> mirror_store"
  at_during :: "mirror_store \<Rightarrow> mirror_store"
  at_env :: mirror_env

abbreviation CAS_ATTEMPTS :: nat where "CAS_ATTEMPTS \<equiv> 8"

definition attempt_cas ::
    "attempt \<Rightarrow> mirror_store \<Rightarrow> string \<Rightarrow> int \<Rightarrow> (mirror_record \<Rightarrow> mirror_record result) \<Rightarrow> mirror_record mirror_op" where
  "attempt_cas a st mirror_id revision f =
    mirror_compare_and_set (at_env a) (at_between a st) mirror_id revision (\<lambda>r s. (f r, at_during a s))"

text \<open>What the body of an attempt does with the record it read: return, raise, or compare and set.\<close>

datatype 'a decision = Return 'a | Raise exn | Update "mirror_record \<Rightarrow> mirror_record result"

text \<open>\<open>for _ in range(_CAS_ATTEMPTS)\<close>, with the continuation of a successful update.\<close>

fun cas_loop ::
    "(nat \<Rightarrow> attempt) \<Rightarrow> nat list \<Rightarrow> mirror_store \<Rightarrow> string \<Rightarrow> (attempt \<Rightarrow> mirror_record \<Rightarrow> 'a decision)
     \<Rightarrow> (mirror_record \<Rightarrow> 'a) \<Rightarrow> 'a mirror_op" where
  "cas_loop attempts [] st mirror_id decide finished =
    (Inl (GitHubMirrorActionUnavailable ''The GitHub card changed. Try again.''), st)"
| "cas_loop attempts (i # rest) st mirror_id decide finished =
    (case get_mirror (at_get (attempts i)) st mirror_id of
       Inl e \<Rightarrow> (Inl e, st)
     | Inr current \<Rightarrow>
         (case decide (attempts i) current of
            Return v \<Rightarrow> (Inr v, st)
          | Raise e \<Rightarrow> (Inl e, st)
          | Update f \<Rightarrow>
              (case attempt_cas (attempts i) st mirror_id (m_revision current) f of
                 (Inr r, st') \<Rightarrow> (Inr (finished r), st')
               | (Inl (GitHubMirrorRevisionConflict _), st') \<Rightarrow>
                   cas_loop attempts rest st' mirror_id decide finished
               | (Inl e, st') \<Rightarrow> (Inl e, st'))))"

section \<open>Reservations\<close>

record reservation =
  rv_record :: mirror_record
  rv_task_id :: string
  rv_accepted :: bool
  rv_succeeded :: "bool option"

definition reservation_for :: "mirror_record \<Rightarrow> int \<Rightarrow> reservation option" where
  "reservation_for r interaction_id =
    (case m_pending_action r of
       Some p \<Rightarrow>
         if p_interaction_id p = interaction_id
         then Some \<lparr>rv_record = r, rv_task_id = p_task_id p, rv_accepted = False, rv_succeeded = None\<rparr>
         else map_option
           (\<lambda>c. \<lparr>rv_record = r, rv_task_id = h_task_id c, rv_accepted = False, rv_succeeded = Some (h_succeeded c)\<rparr>)
           (List.find (\<lambda>c. h_interaction_id c = interaction_id) (m_handled_claims r))
     | None \<Rightarrow> map_option
           (\<lambda>c. \<lparr>rv_record = r, rv_task_id = h_task_id c, rv_accepted = False, rv_succeeded = Some (h_succeeded c)\<rparr>)
           (List.find (\<lambda>c. h_interaction_id c = interaction_id) (m_handled_claims r)))"

definition matching_pending :: "mirror_record \<Rightarrow> string \<Rightarrow> pending_action result" where
  "matching_pending r task_id = (case m_pending_action r of
      Some p \<Rightarrow> if p_task_id p = task_id then Inr p
        else Inl (GitHubMirrorActionUnavailable ''This GitHub action is no longer pending.'')
    | None \<Rightarrow> Inl (GitHubMirrorActionUnavailable ''This GitHub action is no longer pending.''))"

definition canonical_task_id :: "string \<Rightarrow> unit result" where
  "canonical_task_id v = guarded (canonical_uuid v) (ValueError ''task_id must be a canonical UUID'')"

definition reserve_decision ::
    "int \<Rightarrow> mirror_action \<Rightarrow> string \<Rightarrow> attempt \<Rightarrow> mirror_record \<Rightarrow> reservation decision" where
  "reserve_decision interaction_id action task_id a current =
    (case reservation_for current interaction_id of
       Some prior \<Rightarrow> Return prior
     | None \<Rightarrow>
         (case m_pending_action current of
            Some p \<Rightarrow> Raise (GitHubMirrorActionBusy (p_task_id p))
          | None \<Rightarrow>
              (case m_active_task_id current of
                 Some t \<Rightarrow> Raise (GitHubMirrorActionBusy t)
               | None \<Rightarrow>
                   if m_state current \<notin> {OPEN, DRAFT}
                   then Raise (GitHubMirrorActionUnavailable ''This GitHub item is no longer open.'')
                   else (case and_then (clock_text (at_now a)) (\<lambda>ts. make_pending
                           \<lparr>p_interaction_id = interaction_id, p_action = action, p_task_id = task_id,
                            p_claimed_at = ts\<rparr>) of
                      Inl e \<Rightarrow> Raise e
                    | Inr claim \<Rightarrow> Update (\<lambda>r. make_mirror (r\<lparr>m_pending_action := Some claim\<rparr>))))))"

definition reserve ::
    "(nat \<Rightarrow> attempt) \<Rightarrow> mirror_store \<Rightarrow> string \<Rightarrow> int \<Rightarrow> mirror_action \<Rightarrow> string \<Rightarrow> reservation mirror_op" where
  "reserve attempts st mirror_id interaction_id action task_id =
    (case canonical_task_id task_id of
       Inl e \<Rightarrow> (Inl e, st)
     | Inr _ \<Rightarrow> cas_loop attempts [0..<CAS_ATTEMPTS] st mirror_id (reserve_decision interaction_id action task_id)
         (\<lambda>r. \<lparr>rv_record = r, rv_task_id = task_id, rv_accepted = True, rv_succeeded = None\<rparr>))"

definition pending_decision ::
    "string \<Rightarrow> int option \<Rightarrow> (mirror_record \<Rightarrow> mirror_record result) \<Rightarrow> attempt \<Rightarrow> mirror_record
     \<Rightarrow> mirror_record decision" where
  "pending_decision task_id allow_existing_thread update a current =
    (case matching_pending current task_id of
       Inl e \<Rightarrow> Raise e
     | Inr _ \<Rightarrow>
         if allow_existing_thread \<noteq> None \<and> m_thread_id current \<noteq> None
           \<and> m_thread_id current \<noteq> allow_existing_thread
         then Raise (GitHubMirrorActionUnavailable ''This GitHub item is already bound to another thread.'')
         else Update update)"

definition update_pending ::
    "(nat \<Rightarrow> attempt) \<Rightarrow> mirror_store \<Rightarrow> string \<Rightarrow> string \<Rightarrow> (mirror_record \<Rightarrow> mirror_record result) \<Rightarrow> int option
     \<Rightarrow> mirror_record mirror_op" where
  "update_pending attempts st mirror_id task_id update allow_existing_thread =
    cas_loop attempts [0..<CAS_ATTEMPTS] st mirror_id (pending_decision task_id allow_existing_thread update) id"

definition attach_thread ::
    "(nat \<Rightarrow> attempt) \<Rightarrow> mirror_store \<Rightarrow> string \<Rightarrow> string \<Rightarrow> int \<Rightarrow> mirror_record mirror_op" where
  "attach_thread attempts st mirror_id task_id thread_id =
    (if thread_id \<le> 0 then (Inl (ValueError ''thread_id must be a positive integer''), st)
     else update_pending attempts st mirror_id task_id
       (\<lambda>r. make_mirror (r\<lparr>m_thread_id := Some thread_id\<rparr>)) (Some thread_id))"

definition complete_action :: "string \<Rightarrow> bool \<Rightarrow> mirror_record \<Rightarrow> mirror_record result" where
  "complete_action task_id succeeded r =
    and_then (matching_pending r task_id) (\<lambda>p.
    and_then (make_claim \<lparr>h_interaction_id = p_interaction_id p, h_action = p_action p,
        h_task_id = task_id, h_succeeded = succeeded\<rparr>) (\<lambda>claim.
    make_mirror (r\<lparr>m_pending_action := None,
      m_active_task_id := (if succeeded then Some task_id else None),
      m_handled_claims := m_handled_claims r @ [claim]\<rparr>)))"

definition finish ::
    "(nat \<Rightarrow> attempt) \<Rightarrow> mirror_store \<Rightarrow> string \<Rightarrow> string \<Rightarrow> bool \<Rightarrow> mirror_record mirror_op" where
  "finish attempts st mirror_id task_id succeeded =
    update_pending attempts st mirror_id task_id (complete_action task_id succeeded) None"

definition active_decision :: "string \<Rightarrow> attempt \<Rightarrow> mirror_record \<Rightarrow> mirror_record decision" where
  "active_decision task_id a current =
    (if m_active_task_id current \<noteq> Some task_id then Return current
     else Update (\<lambda>r. make_mirror (r\<lparr>m_active_task_id := None\<rparr>)))"

definition clear_active ::
    "(nat \<Rightarrow> attempt) \<Rightarrow> mirror_store \<Rightarrow> string \<Rightarrow> string \<Rightarrow> mirror_record mirror_op" where
  "clear_active attempts st mirror_id task_id =
    cas_loop attempts [0..<CAS_ATTEMPTS] st mirror_id (active_decision task_id) id"

end
