(* ===== verification/MirrorActionProps.thy ===== *)
theory MirrorActionProps
  imports MirrorActionStore
begin

text \<open>
  The reservation loop under interference: whatever other operations run between and during the
  attempts, an accepted reservation is stored, unique and repeatable, and the loop gives up only
  when every one of its eight attempts was disturbed.
\<close>

section \<open>Interference\<close>

lemma callback_reset [simp]: "\<not> ms_callback st \<Longrightarrow> st\<lparr>ms_callback := False\<rparr> = st"
  by simp

definition honest :: "attempt \<Rightarrow> bool" where
  "honest a \<longleftrightarrow> (\<forall>st. mirror_ok st \<longrightarrow> mirror_step\<^sup>*\<^sup>* st (at_between a st))
     \<and> (\<forall>st. mirror_ok st \<and> \<not> ms_callback st \<longrightarrow>
          (\<exists>st1. mirror_step\<^sup>*\<^sup>* st st1 \<and> at_during a (st\<lparr>ms_callback := True\<rparr>) = st1\<lparr>ms_callback := True\<rparr>))"

definition undisturbed :: "attempt \<Rightarrow> bool" where
  "undisturbed a \<longleftrightarrow> (\<forall>st. at_between a st = st) \<and> (\<forall>st. at_during a st = st)"

lemma undisturbed_honest: "undisturbed a \<Longrightarrow> honest a"
  by (auto simp: undisturbed_def honest_def)

definition decides_ok :: "(attempt \<Rightarrow> mirror_record \<Rightarrow> 'a decision) \<Rightarrow> bool" where
  "decides_ok decide \<longleftrightarrow> (\<forall>a r f. decide a r = Update f \<longrightarrow> keeps_claims f)"

lemma cas_only_calls:
  assumes "\<And>r. update r (st\<lparr>ms_callback := True\<rparr>) = update' r (st\<lparr>ms_callback := True\<rparr>)"
  shows "mirror_compare_and_set env st k n update = mirror_compare_and_set env st k n update'"
  unfolding mirror_compare_and_set_def assms by (rule refl)

text \<open>An attempt is an atomic compare-and-set on some later store, or an exception.\<close>

lemma attempt_cas_linear:
  assumes "mirror_ok st" and "\<not> ms_callback st" and "honest a" and "keeps_claims f"
    and "attempt_cas a st k n f = (res, st')"
  shows "mirror_ok st' \<and> \<not> ms_callback st' \<and> mirror_step\<^sup>*\<^sup>* st st'
     \<and> (\<forall>r. res = Inr r \<longrightarrow> (\<exists>env st1. mirror_step\<^sup>*\<^sup>* st st1 \<and> mirror_ok st1
          \<and> mirror_cas env st1 k n f = (Inr r, st')))"
proof -
  let ?s = "at_between a st"
  have b: "mirror_step\<^sup>*\<^sup>* st ?s" using assms(1,3) by (simp add: honest_def)
  have ok: "mirror_ok ?s" "\<not> ms_callback ?s"
    using mirror_system.reachable_inv [OF b assms(1)] mirror_steps_flag [OF b assms(1)] assms(2) by blast+
  obtain st1 where d: "mirror_step\<^sup>*\<^sup>* ?s st1" "at_during a (?s\<lparr>ms_callback := True\<rparr>) = st1\<lparr>ms_callback := True\<rparr>"
    using assms(3) ok unfolding honest_def by blast
  have ok1: "mirror_ok st1" "\<not> ms_callback st1"
    using mirror_system.reachable_inv [OF d(1) ok(1)] mirror_steps_flag [OF d(1) ok(1)] ok(2) by blast+
  have "mirror_compare_and_set (at_env a) ?s k n (\<lambda>r s. (f r, st1\<lparr>ms_callback := True\<rparr>)) = (res, st')"
    using assms(5) cas_only_calls [of "\<lambda>r s. (f r, at_during a s)" ?s "\<lambda>r s. (f r, st1\<lparr>ms_callback := True\<rparr>)"] d(2)
    by (simp add: attempt_cas_def)
  from cas_linear [OF ok(1) d(1) this] show ?thesis
  proof (elim disjE exE conjE)
    fix e assume "res = Inl e" "st' \<in> {?s, st1}"
    then show ?thesis using ok ok1 b rtranclp_trans [OF b d(1)] by auto
  next
    let ?env = "at_env a\<lparr>me_read := me_reread (at_env a)\<rparr>"
    assume c: "(res, st') = mirror_cas ?env st1 k n f"
    have "refines st1 (snd (mirror_cas ?env st1 k n f))" by (rule cas_refines [OF ok1(1) assms(4)])
    then have "mirror_ok st'" "\<not> ms_callback st'" using ok1(2) by (auto simp: refines_def simp flip: c)
    moreover have st1: "mirror_step\<^sup>*\<^sup>* st st1" using b d(1) by (rule rtranclp_trans)
    moreover have "mirror_step st1 (snd (mirror_cas ?env st1 k n f))" by (rule comparing [OF assms(4)])
    then have "mirror_step\<^sup>*\<^sup>* st st'" using st1 by (simp flip: c)
    ultimately show ?thesis using c ok1(1) by metis
  qed
qed

text \<open>Where the value of a loop comes from: the record it was decided on, or the store reached from \<open>st\<close> in which
  the decision was carried out.\<close>

definition loop_end ::
    "(attempt \<Rightarrow> mirror_record \<Rightarrow> 'a decision) \<Rightarrow> (mirror_record \<Rightarrow> 'a) \<Rightarrow> string \<Rightarrow> mirror_store \<Rightarrow> 'a \<Rightarrow> mirror_store \<Rightarrow> bool" where
  "loop_end decide finished k st v st' \<longleftrightarrow>
     (\<exists>a r. decide a r = Return v \<and> mirror_map st' k = Some r)
   \<or> (\<exists>a r f c ts r' st1. decide a r = Update f \<and> f r = Inr c \<and> updated_record r (\<lambda>_. Inr c) ts = Inr r'
        \<and> valid_mirror r \<and> mirror_step\<^sup>*\<^sup>* st st1 \<and> mirror_map st1 k = Some r
        \<and> mirror_map st' = (mirror_map st1)(k \<mapsto> r') \<and> v = finished r')"

lemma loop_end_earlier:
  assumes "mirror_step\<^sup>*\<^sup>* st s" and "loop_end decide finished k s v st'"
  shows "loop_end decide finished k st v st'"
  using assms(2) unfolding loop_end_def
proof (elim disjE exE conjE)
  fix a r f c ts r' st1
  assume d: "decide a r = Update f" "f r = Inr c" "updated_record r (\<lambda>_. Inr c) ts = Inr r'" "valid_mirror r"
    "mirror_step\<^sup>*\<^sup>* s st1" and m: "mirror_map st1 k = Some r" "mirror_map st' = (mirror_map st1)(k \<mapsto> r')"
    "v = finished r'"
  have "mirror_step\<^sup>*\<^sup>* st st1" using assms(1) d(5) by (rule rtranclp_trans)
  with d m show "(\<exists>a r. decide a r = Return v \<and> mirror_map st' k = Some r)
   \<or> (\<exists>a r f c ts r' st1. decide a r = Update f \<and> f r = Inr c \<and> updated_record r (\<lambda>_. Inr c) ts = Inr r'
        \<and> valid_mirror r \<and> mirror_step\<^sup>*\<^sup>* st st1 \<and> mirror_map st1 k = Some r
        \<and> mirror_map st' = (mirror_map st1)(k \<mapsto> r') \<and> v = finished r')" by blast
qed blast

lemma get_mirror_map:
  "get_mirror reading st k = Inr r \<Longrightarrow> mirror_map st k = Some r"
  by (auto simp: get_mirror_def and_then_eq_Inr find_mirror_Inr canonical_map)

lemma map_valid: "mirror_ok st \<Longrightarrow> mirror_map st k = Some r \<Longrightarrow> valid_mirror r"
  using records_ok_valid by (fastforce simp: mirror_ok_def mirror_map_def)

lemma cas_loop_ok:
  assumes "mirror_ok st" and "\<not> ms_callback st" and "\<forall>i. honest (attempts i)" and "decides_ok decide"
    and "cas_loop attempts is st k decide finished = (res, st')"
  shows "mirror_ok st' \<and> \<not> ms_callback st' \<and> (\<forall>v. res = Inr v \<longrightarrow> loop_end decide finished k st v st')"
  using assms
proof (induction "is" arbitrary: st)
  case Nil
  then show ?case by auto
next
  case (Cons i rest)
  show ?case
  proof (cases "get_mirror (at_get (attempts i)) st k")
    case (Inl e)
    then show ?thesis using Cons.prems by auto
  next
    case (Inr r)
    note m = get_mirror_map [OF Inr]
    show ?thesis
    proof (cases "decide (attempts i) r")
      case (Return v)
      then show ?thesis using Cons.prems Inr m by (auto simp: loop_end_def)
    next
      case (Raise e)
      then show ?thesis using Cons.prems Inr by auto
    next
      case (Update f)
      have keeps: "keeps_claims f" using Cons.prems(4) Update by (auto simp: decides_ok_def)
      obtain c s where c: "attempt_cas (attempts i) st k (m_revision r) f = (c, s)" by fastforce
      have a: "mirror_ok s" "\<not> ms_callback s" "mirror_step\<^sup>*\<^sup>* st s"
        "\<And>q. c = Inr q \<Longrightarrow> \<exists>env st1. mirror_step\<^sup>*\<^sup>* st st1 \<and> mirror_ok st1 \<and> mirror_cas env st1 k (m_revision r) f = (Inr q, s)"
        using attempt_cas_linear [OF Cons.prems(1,2) _ keeps c] Cons.prems(3) by blast+
      show ?thesis
      proof (cases c)
        case (Inl e)
        show ?thesis
        proof (cases "\<exists>x. e = GitHubMirrorRevisionConflict x")
          case True
          then have "cas_loop attempts rest s k decide finished = (res, st')"
            using Cons.prems(5) \<open>get_mirror _ st k = Inr r\<close> Update c Inl by auto
          note h = Cons.IH [OF a(1,2) Cons.prems(3,4) this]
          show ?thesis using h by (intro conjI allI impI loop_end_earlier [OF a(3)]) simp_all
        next
          case False
          then have "res = Inl e" "st' = s"
            using Cons.prems(5) \<open>get_mirror _ st k = Inr r\<close> Update c Inl by (auto split: exn.splits)
          then show ?thesis using a(1,2) by simp
        qed
      next
        case (Inr q)
        have res: "res = Inr (finished q)" "st' = s"
          using Cons.prems(5) \<open>get_mirror _ st k = Inr r\<close> Update c Inr by auto
        obtain env st1 where l: "mirror_ok st1" "mirror_step\<^sup>*\<^sup>* st st1" "mirror_cas env st1 k (m_revision r) f = (Inr q, s)"
          using a(4) [OF Inr] by blast
        from l(1) keeps l(3) obtain r1 candidate ts where x: "mirror_map st1 k = Some r1" "f r1 = Inr candidate"
          "updated_record r1 (\<lambda>_. Inr candidate) ts = Inr q" "mirror_map s = (mirror_map st1)(k \<mapsto> q)"
          "m_revision r1 = m_revision r"
          by (rule mirror_cas_Inr)
        have "r1 = r" using mirror_steps_carry [OF l(2) Cons.prems(1) m] x(1,5) by (auto simp: carried_def)
        then have x': "mirror_map st1 k = Some r" "f r = Inr candidate" "updated_record r (\<lambda>_. Inr candidate) ts = Inr q"
          using x by simp_all
        have "loop_end decide finished k st (finished q) s"
          using Update map_valid [OF Cons.prems(1) m] l(2) x' x(4) unfolding loop_end_def by blast
        then show ?thesis using a(1,2) res by simp
      qed
    qed
  qed
qed

section \<open>The decisions\<close>

lemma keeps_make:
  assumes "\<And>r. claims_fit r \<Longrightarrow> claims_fit (g r)"
  shows "keeps_claims (\<lambda>r. make_mirror (g r))"
  using assms valid_claims_fit by (auto simp: keeps_claims_def make_mirror_Inr)

lemma reserve_decision_Update:
  assumes "reserve_decision i action t a r = Update f"
  obtains claim where "make_pending claim = Inr claim" and "p_interaction_id claim = i"
    and "p_action claim = action" and "p_task_id claim = t"
    and "f = (\<lambda>r. make_mirror (r\<lparr>m_pending_action := Some claim\<rparr>))"
    and "m_active_task_id r = None" and "m_state r \<in> {OPEN, DRAFT}" and "m_pending_action r = None"
    and "i \<notin> h_interaction_id ` set (m_handled_claims r)"
proof -
  have r: "m_active_task_id r = None" "m_state r \<in> {OPEN, DRAFT}" "m_pending_action r = None"
    "reservation_for r i = None"
    using assms by (auto simp: reserve_decision_def split: option.splits if_splits)
  have h: "i \<notin> h_interaction_id ` set (m_handled_claims r)"
    using r(3,4) by (auto simp: reservation_for_def find_None_iff split: option.splits)
  have "reserve_decision i action t a r = (case and_then (clock_text (at_now a)) (\<lambda>ts. make_pending
           \<lparr>p_interaction_id = i, p_action = action, p_task_id = t, p_claimed_at = ts\<rparr>) of
      Inl e \<Rightarrow> Raise e | Inr claim \<Rightarrow> Update (\<lambda>r. make_mirror (r\<lparr>m_pending_action := Some claim\<rparr>)))"
    using assms by (auto simp: reserve_decision_def split: option.splits if_splits)
  with assms obtain claim where claim: "and_then (clock_text (at_now a)) (\<lambda>ts. make_pending
           \<lparr>p_interaction_id = i, p_action = action, p_task_id = t, p_claimed_at = ts\<rparr>) = Inr claim"
    "f = (\<lambda>r. make_mirror (r\<lparr>m_pending_action := Some claim\<rparr>))" by (auto split: sum.splits)
  then have "make_pending claim = Inr claim" "p_interaction_id claim = i" "p_action claim = action" "p_task_id claim = t"
    by (auto simp: and_then_eq_Inr make_pending_Inr)
  with that claim(2) r h show thesis by blast
qed

lemma reserve_decides: "decides_ok (reserve_decision i action t)"
  unfolding decides_ok_def
proof (intro allI impI)
  fix a r f assume "reserve_decision i action t a r = Update f"
  then show "keeps_claims f"
    by (rule reserve_decision_Update) (auto intro!: keeps_make simp: make_pending_Inr claims_fit_def)
qed

lemma matching_pending_Inr [result_simps]:
  "matching_pending r t = Inr p \<longleftrightarrow> m_pending_action r = Some p \<and> p_task_id p = t"
  by (auto simp: matching_pending_def split: option.splits)

lemma complete_action_Inr:
  "complete_action t b r = Inr c \<longleftrightarrow> (\<exists>p. m_pending_action r = Some p \<and> p_task_id p = t
     \<and> no_failure (claim_checks \<lparr>h_interaction_id = p_interaction_id p, h_action = p_action p, h_task_id = t, h_succeeded = b\<rparr>)
     \<and> c = r\<lparr>m_pending_action := None, m_active_task_id := (if b then Some t else None),
          m_handled_claims := m_handled_claims r
            @ [\<lparr>h_interaction_id = p_interaction_id p, h_action = p_action p, h_task_id = t, h_succeeded = b\<rparr>]\<rparr>
     \<and> no_failure (mirror_checks c))"
  by (auto simp: complete_action_def and_then_eq_Inr matching_pending_Inr make_claim_Inr make_mirror_Inr)

lemma complete_keeps: "keeps_claims (complete_action t b)"
  using valid_claims_fit by (auto simp: keeps_claims_def complete_action_Inr claims_fit_def)

lemma pending_decides:
  assumes "keeps_claims f"
  shows "decides_ok (pending_decision t thread f)"
  using assms by (auto simp: decides_ok_def pending_decision_def split: sum.splits if_splits)

lemma pending_decision_Update:
  assumes "pending_decision t thread f a r = Update g"
  obtains "g = f"
  using assms that by (cases "matching_pending r t") (auto simp: pending_decision_def split: if_splits)

lemma pending_decision_Return: "pending_decision t thread f a r = Return v \<Longrightarrow> False"
  by (cases "matching_pending r t") (auto simp: pending_decision_def split: if_splits)

lemma active_decides: "decides_ok (active_decision t)"
  by (auto simp: decides_ok_def active_decision_def claims_fit_def intro!: keeps_make split: if_splits)

lemma reserved_record:
  assumes "mirror_ok st" and "\<not> ms_callback st" and "\<forall>i. honest (attempts i)"
    and "reserve attempts st k interaction action t = (Inr v, st')" and "rv_accepted v"
  shows "rv_task_id v = t \<and> (\<exists>st1 q claim ts. mirror_step\<^sup>*\<^sup>* st st1 \<and> mirror_map st1 k = Some q
     \<and> m_pending_action q = None \<and> m_active_task_id q = None \<and> m_state q \<in> {OPEN, DRAFT}
     \<and> interaction \<notin> h_interaction_id ` set (m_handled_claims q)
     \<and> p_interaction_id claim = interaction \<and> p_action claim = action \<and> p_task_id claim = t
     \<and> rv_record v = stamped q (q\<lparr>m_pending_action := Some claim\<rparr>) ts
     \<and> mirror_map st' = (mirror_map st1)(k \<mapsto> rv_record v))"
proof -
  have "cas_loop attempts [0..<CAS_ATTEMPTS] st k (reserve_decision interaction action t)
      (\<lambda>r. \<lparr>rv_record = r, rv_task_id = t, rv_accepted = True, rv_succeeded = None\<rparr>) = (Inr v, st')"
    using assms(4) by (simp add: reserve_def split: sum.splits)
  from cas_loop_ok [OF assms(1-3) reserve_decides this]
  have "loop_end (reserve_decision interaction action t)
      (\<lambda>r. \<lparr>rv_record = r, rv_task_id = t, rv_accepted = True, rv_succeeded = None\<rparr>) k st v st'" by blast
  then show ?thesis unfolding loop_end_def
  proof (elim disjE exE conjE)
    fix a r assume "reserve_decision interaction action t a r = Return v"
    then have "\<not> rv_accepted v"
      by (auto simp: reserve_decision_def reservation_for_def split: option.splits if_splits sum.splits)
    with assms(5) show ?thesis by simp
  next
    fix a r f c ts r' st1
    assume d: "reserve_decision interaction action t a r = Update f" and f: "f r = Inr c"
      and u: "updated_record r (\<lambda>_. Inr c) ts = Inr r'" and st1: "mirror_step\<^sup>*\<^sup>* st st1" "mirror_map st1 k = Some r"
      "mirror_map st' = (mirror_map st1)(k \<mapsto> r')"
      and v: "v = \<lparr>rv_record = r', rv_task_id = t, rv_accepted = True, rv_succeeded = None\<rparr>"
    from d obtain claim where claim: "p_interaction_id claim = interaction" "p_action claim = action" "p_task_id claim = t"
      "f = (\<lambda>r. make_mirror (r\<lparr>m_pending_action := Some claim\<rparr>))" "m_active_task_id r = None"
      "m_state r \<in> {OPEN, DRAFT}" "m_pending_action r = None" "interaction \<notin> h_interaction_id ` set (m_handled_claims r)"
      by (rule reserve_decision_Update)
    have "c = r\<lparr>m_pending_action := Some claim\<rparr>" using f by (simp add: claim(4) make_mirror_Inr)
    then have "r' = stamped r (r\<lparr>m_pending_action := Some claim\<rparr>) ts" using u by (auto simp: updated_record_Inr)
    then show ?thesis using claim st1 v by auto
  qed
qed

lemma reserved_now:
  assumes "mirror_ok st" and "\<not> ms_callback st" and "\<forall>i. honest (attempts i)"
    and "reserve attempts st k interaction action t = (Inr v, st')" and "rv_accepted v"
  shows "mirror_map st' k = Some (rv_record v) \<and> rv_task_id v = t
     \<and> m_active_task_id (rv_record v) = None \<and> m_state (rv_record v) \<in> {OPEN, DRAFT}
     \<and> (case m_pending_action (rv_record v) of None \<Rightarrow> False
        | Some p \<Rightarrow> p_interaction_id p = interaction \<and> p_action p = action \<and> p_task_id p = t)"
  using reserved_record [OF assms] by (elim conjE exE) (simp add: stamped_def)

section \<open>Errors of an attempt\<close>

abbreviation give_up :: exn where
  "give_up \<equiv> GitHubMirrorActionUnavailable ''The GitHub card changed. Try again.''"

text \<open>The errors of the store itself, conflicts aside.\<close>

fun plain :: "exn \<Rightarrow> bool" where
  "plain (ValueError _) = True"
| "plain (KeyError _) = True"
| "plain OSError = True"
| "plain OverflowError = True"
| "plain TaskStoreDurabilityError = True"
| "plain GitHubMirrorStoreCorruptionError = True"
| "plain GitHubMirrorMutationReentryError = True"
| "plain _ = False"

lemma plain_not [simp]: "plain e \<Longrightarrow> e \<noteq> give_up" "plain e \<Longrightarrow> e \<noteq> GitHubMirrorRevisionConflict x"
  by auto

lemma plain_clock: "clock_text now = Inl e \<Longrightarrow> plain e"
  by (auto simp: clock_text_def and_then_eq_Inl as_utc_def split: option.splits if_splits)

lemma check_errors:
  "(b, e) \<in> set (positive_integer i n) \<Longrightarrow> plain e"
  "(b, e) \<in> set (optional_positive_integer oi n) \<Longrightarrow> plain e"
  "(b, e) \<in> set (bounded_text s n l) \<Longrightarrow> plain e"
  "(b, e) \<in> set (optional_bounded_text os n l) \<Longrightarrow> plain e"
  "(b, e) \<in> set (timestamp_checks s n) \<Longrightarrow> plain e"
  "(b, e) \<in> set (sha_check os n) \<Longrightarrow> plain e"
  "(b, e) \<in> set (opaque_task_id s n) \<Longrightarrow> plain e"
  "(b, e) \<in> set (optional_card_nonce os n) \<Longrightarrow> plain e"
  by (auto simp: positive_integer_def optional_positive_integer_def bounded_text_def
      optional_bounded_text_def timestamp_checks_def sha_check_def opaque_task_id_def
      optional_card_nonce_def split: option.splits)

lemma check_group_errors:
  "(b, e) \<in> set (references kind a1 a2 a3 a4) \<Longrightarrow> plain e"
  "(b, e) \<in> set (labels_checks ls) \<Longrightarrow> plain e"
  "(b, e) \<in> set (item_identity repo kind i u) \<Longrightarrow> plain e"
  "(b, e) \<in> set (card_checks r) \<Longrightarrow> plain e"
  "(b, e) \<in> set (delivery_checks r) \<Longrightarrow> plain e"
  "(b, e) \<in> set (action_checks r) \<Longrightarrow> plain e"
  by (auto simp: references_def labels_checks_def item_identity_def card_checks_def delivery_checks_def
      action_checks_def dest: check_errors split: option.splits)

lemma mirror_check_errors: "(b, e) \<in> set (mirror_checks r) \<Longrightarrow> plain e"
  by (auto simp: mirror_checks_def dest: check_errors check_group_errors)

lemma plain_raise:
  assumes "raise_first cs = Inl e" and "\<And>b e. (b, e) \<in> set cs \<Longrightarrow> plain e"
  shows "plain e"
  using assms by (auto simp: raise_first_def dest: first_failure_SomeD split: option.splits)

lemma plain_make: "make_mirror r = Inl e \<Longrightarrow> plain e"
  by (auto simp: make_mirror_def and_then_eq_Inl dest: plain_raise mirror_check_errors)

lemma plain_make_pending: "make_pending p = Inl e \<Longrightarrow> plain e"
  by (auto simp: make_pending_def and_then_eq_Inl pending_checks_def dest!: plain_raise dest: check_errors)

lemma plain_make_claim: "make_claim c = Inl e \<Longrightarrow> plain e"
  by (auto simp: make_claim_def and_then_eq_Inl claim_checks_def dest!: plain_raise dest: check_errors)

lemma plain_updated: "updated_record r (\<lambda>_. Inr c) ts = Inl e \<Longrightarrow> plain e"
  by (auto simp: updated_record_def and_then_eq_Inl validate_mirror_update_def guarded_eq_Inl dest: plain_make)

lemma plain_canonical:
  assumes "mirror_ok st" and "canonical_records reading st = Inl e"
  shows "plain e"
  using assms
  by (cases reading)
     (auto simp: canonical_records_def mirror_ok_def load_mirrors_def split: option.splits sum.splits if_splits)

lemma plain_get: "mirror_ok st \<Longrightarrow> get_mirror reading st k = Inl e \<Longrightarrow> plain e"
  by (auto simp: get_mirror_def and_then_eq_Inl find_mirror_def dict_lookup_Inl dest: plain_canonical)

lemma plain_mutation:
  assumes "mirror_ok st" and "mutation env reading st body = (Inl e, st')"
  shows "plain e \<or> (\<exists>records. canonical_records reading st = Inr records \<and> body records = Inl e)"
proof (cases "and_then (canonical_records reading st) (\<lambda>records. and_then (body records) (\<lambda>x. Inr (records, x)))")
  case (Inl x)
  then have "x = e" using assms(2) by (simp add: mutation_def)
  with Inl plain_canonical [OF assms(1)] show ?thesis by (auto simp: and_then_eq_Inl)
next
  case (Inr p)
  obtain records o' v where p: "p = (records, o', v)" by (cases p) auto
  show ?thesis
  proof (cases o')
    case None
    then show ?thesis using assms(2) Inr p by (simp add: mutation_def)
  next
    case (Some r)
    obtain w d where w: "write_document (me_faults env) (ms_directory st)
        (encode_mirrors (AList.update (m_mirror_id r) r records)) = (w, d)" by fastforce
    then have "w = Inl e" using assms(2) Inr p Some
      by (auto simp: mutation_def commit_record_def and_then_eq_Inl)
    with write_document_cases [OF w] show ?thesis by auto
  qed
qed

lemma cas_body_errors:
  assumes "cas_body env k n c records = Inl e"
  shows "plain e \<or> (e = GitHubMirrorRevisionConflict k \<and> (\<exists>r. map_of records k = Some r \<and> m_revision r \<noteq> n))"
  using assms
  by (auto simp: cas_body_def and_then_eq_Inl expect_mirror_def find_mirror_def dict_lookup_Inl dict_lookup_Inr
      dest: plain_clock plain_updated split: if_splits)

text \<open>Both phases of an attempt read a store in which the invariant holds; when nothing runs in
  between, they read the same one, and no conflict is left.\<close>

lemma attempt_errors:
  assumes "mirror_ok st" and "\<not> ms_callback st" and "honest a" and "attempt_cas a st k n f = (Inl e, s)"
  shows "plain e \<or> (\<exists>r. f r = Inl e) \<or> (e = GitHubMirrorRevisionConflict k
     \<and> \<not> (undisturbed a \<and> (\<exists>r. mirror_map st k = Some r \<and> m_revision r = n)))"
proof -
  let ?b = "at_between a st" and ?u = "\<lambda>r s. (f r, at_during a s)"
  have b: "mirror_step\<^sup>*\<^sup>* st ?b" using assms(1,3) by (simp add: honest_def)
  have ok: "mirror_ok ?b" "\<not> ms_callback ?b"
    using mirror_system.reachable_inv [OF b assms(1)] mirror_steps_flag [OF b assms(1)] assms(2) by blast+
  obtain st1 where d: "mirror_step\<^sup>*\<^sup>* ?b st1" "at_during a (?b\<lparr>ms_callback := True\<rparr>) = st1\<lparr>ms_callback := True\<rparr>"
    using assms(3) ok unfolding honest_def by blast
  have ok1: "mirror_ok st1" "\<not> ms_callback st1"
    using mirror_system.reachable_inv [OF d(1) ok(1)] mirror_steps_flag [OF d(1) ok(1)] ok(2) by blast+
  then have st1: "st1\<lparr>ms_callback := True, ms_callback := False\<rparr> = st1" by simp
  have same: "?b = st" "st1 = st" if "undisturbed a"
  proof -
    show "?b = st" using that by (simp add: undisturbed_def)
    then have "st\<lparr>ms_callback := True, ms_callback := False\<rparr> = st1\<lparr>ms_callback := True, ms_callback := False\<rparr>"
      using d(2) that by (simp add: undisturbed_def)
    moreover have "st\<lparr>ms_callback := True, ms_callback := False\<rparr> = st" using assms(2) by simp
    ultimately show "st1 = st" using st1 by metis
  qed
  let ?first = "and_then (reject_callback_mutation ?b) (\<lambda>_.
          if n < 0 then Inl (ValueError ''expected_revision must be a non-negative integer'')
          else and_then (canonical_records (me_read (at_env a)) ?b) (\<lambda>records. expect_mirror records k n))"
  show ?thesis
  proof (cases ?first)
    case (Inl x)
    then have x: "x = e" using assms(4) by (simp add: attempt_cas_def mirror_compare_and_set_def)
    have "plain x \<or> (x = GitHubMirrorRevisionConflict k \<and> (\<exists>r. mirror_map ?b k = Some r \<and> m_revision r \<noteq> n))"
      using Inl ok plain_canonical [OF ok(1)] canonical_map [of "me_read (at_env a)" ?b]
      by (auto simp: and_then_eq_Inl reject_callback_mutation_def guarded_def expect_mirror_def
          find_mirror_def dict_lookup_Inl dict_lookup_Inr split: if_splits)
    then show ?thesis using x same(1) by auto
  next
    case (Inr current)
    note first = Inr
    show ?thesis
    proof (cases "f current")
      case (Inl x)
      with assms(4) first d(2) have "f current = Inl e" by (simp add: attempt_cas_def mirror_compare_and_set_def)
      then show ?thesis by blast
    next
      case (Inr c)
      with assms(4) first d(2) st1
      have m: "mutation (at_env a) (me_reread (at_env a)) st1 (cas_body (at_env a) k n c) = (Inl e, s)"
        by (simp add: attempt_cas_def mirror_compare_and_set_def)
      have "plain e \<or> (e = GitHubMirrorRevisionConflict k \<and> (\<exists>r. mirror_map st1 k = Some r \<and> m_revision r \<noteq> n))"
        using plain_mutation [OF ok1(1) m] canonical_map [of "me_reread (at_env a)" st1]
        by (auto dest: cas_body_errors)
      then show ?thesis using same(2) by auto
    qed
  qed
qed

text \<open>Decisions whose errors are neither conflicts nor the report of giving up.\<close>

definition own_error :: "exn \<Rightarrow> bool" where
  "own_error e \<longleftrightarrow> e \<noteq> give_up \<and> (\<forall>x. e \<noteq> GitHubMirrorRevisionConflict x)"

definition decides_plainly :: "(attempt \<Rightarrow> mirror_record \<Rightarrow> 'a decision) \<Rightarrow> bool" where
  "decides_plainly decide \<longleftrightarrow> (\<forall>a r. case decide a r of Return v \<Rightarrow> True | Raise e \<Rightarrow> own_error e
     | Update f \<Rightarrow> (\<forall>q e. f q = Inl e \<longrightarrow> own_error e))"

lemma plain_own: "plain e \<Longrightarrow> own_error e"
  by (auto simp: own_error_def)

lemma cas_loop_decisive:
  assumes "mirror_ok st" and "\<not> ms_callback st" and "\<forall>i. honest (attempts i)" and "decides_ok decide"
    and "decides_plainly decide" and "\<exists>i \<in> set is. undisturbed (attempts i)"
    and "cas_loop attempts is st k decide finished = (res, st')"
  shows "res \<noteq> Inl give_up"
  using assms
proof (induction "is" arbitrary: st)
  case Nil
  then show ?case by simp
next
  case (Cons i rest)
  show ?case
  proof (cases "get_mirror (at_get (attempts i)) st k")
    case (Inl e)
    then have "res = Inl e" using Cons.prems(7) by simp
    with plain_own [OF plain_get [OF Cons.prems(1) Inl]] show ?thesis by (simp add: own_error_def)
  next
    case (Inr r)
    note m = get_mirror_map [OF Inr]
    show ?thesis
    proof (cases "decide (attempts i) r")
      case (Return v)
      then show ?thesis using Cons.prems(7) Inr by auto
    next
      case (Raise e)
      then have "own_error e" using Cons.prems(5) by (auto simp: decides_plainly_def split: decision.splits)
      then show ?thesis using Cons.prems(7) Inr Raise by (auto simp: own_error_def)
    next
      case (Update f)
      have keeps: "keeps_claims f" using Cons.prems(4) Update by (auto simp: decides_ok_def)
      have f: "own_error e" if "f q = Inl e" for q e
        using Cons.prems(5) Update that by (auto simp: decides_plainly_def split: decision.splits)
      obtain c s where c: "attempt_cas (attempts i) st k (m_revision r) f = (c, s)" by fastforce
      have h: "honest (attempts i)" using Cons.prems(3) by blast
      show ?thesis
      proof (cases c)
        case (Inr q)
        then show ?thesis using Cons.prems(7) \<open>get_mirror _ st k = Inr r\<close> Update c by auto
      next
        case (Inl e)
        note err = attempt_errors [OF Cons.prems(1,2) h c [unfolded Inl]]
        show ?thesis
        proof (cases "own_error e")
          case True
          then have "res = Inl e"
            using Cons.prems(7) \<open>get_mirror _ st k = Inr r\<close> Update c Inl by (auto simp: own_error_def split: exn.splits)
          with True show ?thesis by (simp add: own_error_def)
        next
          case False
          then have e: "e = GitHubMirrorRevisionConflict k" "\<not> undisturbed (attempts i)"
            using err f plain_own m by blast+
          then have "cas_loop attempts rest s k decide finished = (res, st')"
            using Cons.prems(7) \<open>get_mirror _ st k = Inr r\<close> Update c Inl by auto
          moreover have "mirror_ok s" "\<not> ms_callback s"
            using attempt_cas_linear [OF Cons.prems(1,2) h keeps c] by blast+
          moreover have "\<exists>i \<in> set rest. undisturbed (attempts i)" using Cons.prems(6) e(2) by auto
          ultimately show ?thesis using Cons.IH Cons.prems(3-5) by blast
        qed
      qed
    qed
  qed
qed

lemma reserve_plainly: "decides_plainly (reserve_decision i action t)"
  unfolding decides_plainly_def
proof (intro allI)
  fix a r
  show "case reserve_decision i action t a r of Return v \<Rightarrow> True | Raise e \<Rightarrow> own_error e
     | Update f \<Rightarrow> (\<forall>q e. f q = Inl e \<longrightarrow> own_error e)"
  proof (cases "reserve_decision i action t a r")
    case (Raise e)
    then show ?thesis
      by (auto simp: reserve_decision_def and_then_eq_Inl own_error_def split: option.splits if_splits sum.splits
          dest!: plain_clock plain_make_pending)
  next
    case (Update f)
    then show ?thesis
      by (rule reserve_decision_Update) (auto simp: Update dest: plain_make intro: plain_own)
  qed simp
qed

lemma pending_plainly:
  assumes "\<And>r e. f r = Inl e \<Longrightarrow> own_error e"
  shows "decides_plainly (pending_decision t thread f)"
  using assms
  by (auto simp: decides_plainly_def pending_decision_def matching_pending_def own_error_def
      split: decision.splits option.splits if_splits sum.splits)

lemma active_plainly: "decides_plainly (active_decision t)"
  by (auto simp: decides_plainly_def active_decision_def dest: plain_make intro: plain_own)

lemma complete_own: "complete_action t b r = Inl e \<Longrightarrow> own_error e"
  by (auto simp: complete_action_def and_then_eq_Inl matching_pending_def own_error_def
      dest: plain_make plain_make_claim split: option.splits if_splits)

lemma fst_cas_loop:
  assumes "mirror_ok st" and "\<not> ms_callback st" and "\<forall>i. honest (attempts i)" and "decides_ok decide"
    and "decides_plainly decide" and "\<exists>i \<in> set is. undisturbed (attempts i)"
  shows "fst (cas_loop attempts is st k decide finished) \<noteq> Inl give_up"
  using cas_loop_decisive [OF assms] by (metis prod.collapse)

section \<open>Properties\<close>

text \<open>
  C15. An accepted reservation was made on a free item and is stored. Whatever operations ran before, between
  and during the attempts, there is a store they reached in which the item had no pending action and no active task,
  was open or a draft, and had not handled this interaction; the reservation changed nothing in it but this record, to
  which it added exactly the claim of this interaction, action and task, at the next revision.
\<close>

theorem reservation_exclusive:
  assumes "mirror_ok st" and "\<not> ms_callback st" and "\<forall>i. honest (attempts i)"
    and "reserve attempts st k interaction action t = (Inr v, st')" and "rv_accepted v"
  shows "rv_task_id v = t \<and> (\<exists>st1 q claim ts. mirror_step\<^sup>*\<^sup>* st st1 \<and> mirror_map st1 k = Some q
     \<and> m_pending_action q = None \<and> m_active_task_id q = None \<and> m_state q \<in> {OPEN, DRAFT}
     \<and> interaction \<notin> h_interaction_id ` set (m_handled_claims q)
     \<and> p_interaction_id claim = interaction \<and> p_action claim = action \<and> p_task_id claim = t
     \<and> rv_record v = stamped q (q\<lparr>m_pending_action := Some claim\<rparr>) ts
     \<and> mirror_map st' = (mirror_map st1)(k \<mapsto> rv_record v))"
  using reserved_record [OF assms] .

lemma reserve_again:
  assumes "mirror_map st k = Some r" and "m_pending_action r = Some p" and "mirror_ok st"
    and "canonical_uuid t" and "at_get (attempts 0) = READ_OK"
  shows "reserve attempts st k interaction action t
    = (if p_interaction_id p = interaction
       then Inr \<lparr>rv_record = r, rv_task_id = p_task_id p, rv_accepted = False, rv_succeeded = None\<rparr>
       else case List.find (\<lambda>c. h_interaction_id c = interaction) (m_handled_claims r) of
              None \<Rightarrow> Inl (GitHubMirrorActionBusy (p_task_id p))
            | Some c \<Rightarrow> Inr \<lparr>rv_record = r, rv_task_id = h_task_id c, rv_accepted = False,
                rv_succeeded = Some (h_succeeded c)\<rparr>, st)"
proof -
  have g: "get_mirror (at_get (attempts 0)) st k = Inr r"
    using get_mirror_Inr [OF assms(3)] assms(1,5) by simp
  have "reserve attempts st k interaction action t
      = cas_loop attempts (0 # [Suc 0..<CAS_ATTEMPTS]) st k (reserve_decision interaction action t)
         (\<lambda>r. \<lparr>rv_record = r, rv_task_id = t, rv_accepted = True, rv_succeeded = None\<rparr>)"
    using assms(4) by (simp add: reserve_def canonical_task_id_def guarded_def upt_conv_Cons)
  then show ?thesis using g assms(2)
    by (auto simp: reserve_decision_def reservation_for_def split: option.splits)
qed

text \<open>
  A reservation is idempotent per Discord interaction and exclusive between them: once one
  is accepted, reserving again for the same interaction returns the reserved task without
  accepting or changing anything, and any interaction not handled before is told which task holds
  the item.
\<close>

theorem reservation_repeatable:
  assumes "mirror_ok st" and "\<not> ms_callback st" and "\<forall>i. honest (attempts i)"
    and "reserve attempts st k interaction action t = (Inr v, st')" and "rv_accepted v"
    and "canonical_uuid t'" and "at_get (attempts' 0) = READ_OK"
    and "other \<noteq> interaction" and "other \<notin> h_interaction_id ` set (m_handled_claims (rv_record v))"
  shows "reserve attempts' st' k interaction action' t'
         = (Inr \<lparr>rv_record = rv_record v, rv_task_id = t, rv_accepted = False, rv_succeeded = None\<rparr>, st')
     \<and> reserve attempts' st' k other action' t' = (Inl (GitHubMirrorActionBusy t), st')"
proof -
  have ok: "mirror_ok st'"
    using cas_loop_ok [OF assms(1-3) reserve_decides] assms(4) by (auto simp: reserve_def split: sum.splits)
  note r = reserved_now [OF assms(1-5)]
  then obtain p where p: "mirror_map st' k = Some (rv_record v)" "m_pending_action (rv_record v) = Some p"
    "p_interaction_id p = interaction" "p_task_id p = t"
    by (auto split: option.splits)
  have "List.find (\<lambda>c. h_interaction_id c = other) (m_handled_claims (rv_record v)) = None"
    using assms(9) by (auto simp: find_None_iff)
  then show ?thesis
    using reserve_again [where attempts = attempts', OF p(1,2) ok assms(6,7)] p(3,4) assms(8) by simp
qed

text \<open>
  C34. The bounded retry does not give up spuriously: if at least one of the eight attempts of a
  reservation, a completion or a release is undisturbed by other operations, the operation ends
  with its own result or its own error, never with the report that the card kept changing.
\<close>

theorem retry_decisive:
  assumes "mirror_ok st" and "\<not> ms_callback st" and "\<forall>i. honest (attempts i)"
    and "\<exists>i < CAS_ATTEMPTS. undisturbed (attempts i)"
  shows "fst (reserve attempts st k interaction action t) \<noteq> Inl give_up
     \<and> fst (finish attempts st k t succeeded) \<noteq> Inl give_up
     \<and> fst (attach_thread attempts st k t thread) \<noteq> Inl give_up
     \<and> fst (clear_active attempts st k t) \<noteq> Inl give_up"
proof -
  have i: "\<exists>i \<in> set [0..<CAS_ATTEMPTS]. undisturbed (attempts i)" using assms(4) by auto
  note loop = fst_cas_loop [OF assms(1-3) _ _ i]
  have thread: "keeps_claims (\<lambda>r. make_mirror (r\<lparr>m_thread_id := Some thread\<rparr>))"
    by (rule keeps_make) (simp add: claims_fit_def)
  have own: "own_error e" if "make_mirror (r\<lparr>m_thread_id := Some thread\<rparr>) = Inl e" for r e
    using that by (rule plain_own [OF plain_make])
  have "fst (reserve attempts st k interaction action t) \<noteq> Inl give_up"
    using loop [OF reserve_decides reserve_plainly]
    by (simp add: reserve_def canonical_task_id_def guarded_def)
  moreover have "fst (finish attempts st k t succeeded) \<noteq> Inl give_up"
    unfolding finish_def update_pending_def
    by (rule loop [OF pending_decides [OF complete_keeps] pending_plainly [OF complete_own]])
  moreover have "fst (attach_thread attempts st k t thread) \<noteq> Inl give_up"
    using loop [OF pending_decides [OF thread] pending_plainly [OF own]]
    by (simp add: attach_thread_def update_pending_def)
  moreover have "fst (clear_active attempts st k t) \<noteq> Inl give_up"
    unfolding clear_active_def by (rule loop [OF active_decides active_plainly])
  ultimately show ?thesis by blast
qed

lemma reserve_prior:
  assumes "mirror_ok st" and "mirror_map st k = Some r" and "reservation_for r i = Some prior"
    and "canonical_uuid t" and "at_get (attempts 0) = READ_OK"
  shows "reserve attempts st k i action t = (Inr prior, st)"
proof -
  have "get_mirror (at_get (attempts 0)) st k = Inr r" using get_mirror_Inr [OF assms(1)] assms(2,5) by simp
  then show ?thesis using assms(3,4)
    by (simp add: reserve_def canonical_task_id_def guarded_def upt_conv_Cons reserve_decision_def)
qed

lemma find_unique:
  "distinct (map f xs) \<Longrightarrow> x \<in> set xs \<Longrightarrow> List.find (\<lambda>y. f y = f x) xs = Some x"
  by (induction xs) (auto simp: image_iff)

lemma last_n_last: "0 < n \<Longrightarrow> x \<in> set (last_n n (xs @ [x]))"
  by (simp add: last_n_snoc)

text \<open>
  Finishing records the outcome for good: the pending claim becomes a handled claim of the same
  interaction and task, the task stays active exactly when it was started successfully, and a
  repeated reservation for that interaction reports the recorded outcome instead of starting
  another task.
\<close>

theorem finish_recorded:
  assumes "mirror_ok st" and "\<not> ms_callback st" and "\<forall>i. honest (attempts i)"
    and "finish attempts st k t succeeded = (Inr r, st')"
    and "canonical_uuid t'" and "at_get (attempts' 0) = READ_OK"
  shows "mirror_map st' k = Some r \<and> m_pending_action r = None
     \<and> m_active_task_id r = (if succeeded then Some t else None)
     \<and> (\<exists>interaction. reserve attempts' st' k interaction action t'
          = (Inr \<lparr>rv_record = r, rv_task_id = t, rv_accepted = False, rv_succeeded = Some succeeded\<rparr>, st'))"
proof -
  have "cas_loop attempts [0..<CAS_ATTEMPTS] st k (pending_decision t None (complete_action t succeeded)) id = (Inr r, st')"
    using assms(4) by (simp only: finish_def update_pending_def)
  from cas_loop_ok [OF assms(1-3) pending_decides [OF complete_keeps] this]
  have ok: "mirror_ok st'" and l: "loop_end (pending_decision t None (complete_action t succeeded)) id k st r st'" by blast+
  from l obtain q c ts where c: "complete_action t succeeded q = Inr c" "updated_record q (\<lambda>_. Inr c) ts = Inr r"
    "mirror_map st' k = Some r"
    by (auto simp: loop_end_def elim: pending_decision_Update dest: pending_decision_Return)
  obtain p :: pending_action where p: "c = q\<lparr>m_pending_action := None, m_active_task_id := (if succeeded then Some t else None),
      m_handled_claims := m_handled_claims q
        @ [\<lparr>h_interaction_id = p_interaction_id p, h_action = p_action p, h_task_id = t, h_succeeded = succeeded\<rparr>]\<rparr>"
    using c(1) by (auto simp: complete_action_Inr)
  let ?h = "\<lparr>h_interaction_id = p_interaction_id p, h_action = p_action p, h_task_id = t, h_succeeded = succeeded\<rparr>"
  have r: "r = stamped q c ts" using c(2) by (auto simp: updated_record_Inr)
  have f: "m_pending_action r = None" "m_active_task_id r = (if succeeded then Some t else None)"
    by (simp_all add: r p stamped_def)
  have "?h \<in> set (m_handled_claims r)" unfolding r p by (simp add: stamped_def last_n_last)
  moreover have "distinct (map h_interaction_id (m_handled_claims r))"
    using map_valid [OF ok c(3)] by (simp add: valid_mirror_iff progress_ok_def action_checks_def)
  ultimately have "List.find (\<lambda>c. h_interaction_id c = p_interaction_id p) (m_handled_claims r) = Some ?h"
    using find_unique [of h_interaction_id "m_handled_claims r" ?h] by simp
  then have "reservation_for r (p_interaction_id p)
      = Some \<lparr>rv_record = r, rv_task_id = t, rv_accepted = False, rv_succeeded = Some succeeded\<rparr>"
    by (simp add: reservation_for_def f(1))
  from reserve_prior [where attempts = attempts', OF ok c(3) this assms(5,6)] f c(3) show ?thesis by blast
qed

section \<open>An undisturbed reservation\<close>

definition calm :: "attempt \<Rightarrow> bool" where
  "calm a \<longleftrightarrow> undisturbed a \<and> at_get a = READ_OK \<and> me_read (at_env a) = READ_OK
     \<and> me_reread (at_env a) = READ_OK \<and> me_faults (at_env a) = []
     \<and> (\<exists>ts. clock_text (at_now a) = Inr ts) \<and> (\<exists>ts. clock_text (me_now (at_env a)) = Inr ts)"

lemma pending_constructed:
  assumes "valid_mirror r" and "m_active_task_id r = None" and "no_failure (pending_checks p)"
  shows "constructed (r\<lparr>m_pending_action := Some p\<rparr>)"
proof -
  let ?c = "r\<lparr>m_pending_action := Some p\<rparr>"
  have "identity_ok ?c = identity_ok r" "shown_item_ok ?c = shown_item_ok r" "card_checks ?c = card_checks r"
    "delivery_checks ?c = delivery_checks r"
    by (simp_all add: identity_ok_def shown_item_ok_def card_checks_def delivery_checks_def)
  moreover have "no_failure (action_checks r) \<Longrightarrow> no_failure (action_checks ?c)"
    using assms(2) by (simp add: action_checks_def)
  ultimately show ?thesis using assms(1,3)
    by (auto simp: constructed_def mirror_checks_ok valid_mirror_iff progress_ok_def claims_ok_def)
qed

lemma calm_cas:
  assumes "mirror_ok st" and "\<not> ms_callback st" and "calm a" and "mirror_map st k = Some r"
    and "f r = Inr c" and "constructed c" and "immutable_part r = immutable_part c"
  shows "\<exists>ts st'. attempt_cas a st k (m_revision r) f = (Inr (stamped r c ts), st')"
proof -
  let ?e = "at_env a"
  obtain records where l: "canonical_records READ_OK st = Inr records" using canonical_total [OF assms(1)] by blast
  note map = canonical_map [OF l]
  obtain ts where ts: "clock_text (me_now ?e) = Inr ts" using assms(3) by (auto simp: calm_def)
  have v: "valid_mirror r" by (rule map_valid [OF assms(1,4)])
  have u: "updated_record r (\<lambda>_. Inr c) ts = Inr (stamped r c ts)"
    using updated_record_ok(1) [OF v _ assms(6,7) clock_text_convertible(1) [OF ts], of "\<lambda>_. Inr c"] by simp
  have expect: "expect_mirror records k (m_revision r) = Inr r" using assms(4) map by (simp add: expect_mirror_Inr)
  have body: "cas_body ?e k (m_revision r) c records = Inr (Some (stamped r c ts), stamped r c ts)"
    by (simp add: cas_body_def expect ts u)
  have c: "me_read ?e = READ_OK" "me_reread ?e = READ_OK" "me_faults ?e = []" "at_between a st = st"
    "at_during a (st\<lparr>ms_callback := True\<rparr>) = st\<lparr>ms_callback := True\<rparr>"
    using assms(3) by (simp_all add: calm_def undisturbed_def)
  have "0 \<le> m_revision r" using v by (simp add: valid_mirror_iff progress_ok_def)
  then have "attempt_cas a st k (m_revision r) f = mutation ?e READ_OK st (cas_body ?e k (m_revision r) c)"
    using assms(2,5) by (simp add: attempt_cas_def mirror_compare_and_set_def reject_callback_mutation_def
        guarded_def l expect c)
  with mutation_commits [where body = "cas_body ?e k (m_revision r) c", OF l body c(3)] show ?thesis
    by (intro exI [of _ ts]) simp
qed

lemma free_decision:
  assumes "mirror_ok st" and "calm a" and "mirror_map st k = Some r"
    and "m_state r \<in> {OPEN, DRAFT}" and "m_pending_action r = None" and "m_active_task_id r = None"
    and "interaction \<notin> h_interaction_id ` set (m_handled_claims r)"
    and "canonical_uuid t" and "0 < interaction" and "interaction < 2 ^ 64"
  obtains p where "p_interaction_id p = interaction" and "p_action p = action" and "p_task_id p = t"
    and "reserve_decision interaction action t a r = Update (\<lambda>r. make_mirror (r\<lparr>m_pending_action := Some p\<rparr>))"
    and "constructed (r\<lparr>m_pending_action := Some p\<rparr>)"
    and "make_mirror (r\<lparr>m_pending_action := Some p\<rparr>) = Inr (r\<lparr>m_pending_action := Some p\<rparr>)"
    and "no_failure (pending_checks p)"
proof -
  obtain ts where ts: "clock_text (at_now a) = Inr ts" using assms(2) by (auto simp: calm_def)
  let ?p = "\<lparr>p_interaction_id = interaction, p_action = action, p_task_id = t, p_claimed_at = ts\<rparr>"
  have p: "no_failure (pending_checks ?p)"
    using assms(8-10) clock_text_convertible(1) [OF ts]
    by (simp add: pending_checks_def positive_integer_def opaque_task_id_def)
  have "List.find (\<lambda>c. h_interaction_id c = interaction) (m_handled_claims r) = None"
    using assms(7) by (auto simp: find_None_iff)
  then have "reservation_for r interaction = None" using assms(5) by (simp add: reservation_for_def)
  then have d: "reserve_decision interaction action t a r = Update (\<lambda>r. make_mirror (r\<lparr>m_pending_action := Some ?p\<rparr>))"
    using assms(4-6) p by (simp add: reserve_decision_def ts make_pending_Inr [THEN iffD2])
  have con: "constructed (r\<lparr>m_pending_action := Some ?p\<rparr>)"
    by (rule pending_constructed [OF map_valid [OF assms(1,3)] assms(6) p])
  then have f: "make_mirror (r\<lparr>m_pending_action := Some ?p\<rparr>) = Inr (r\<lparr>m_pending_action := Some ?p\<rparr>)"
    by (simp add: make_mirror_Inr constructed_def)
  show thesis by (rule that [of ?p, OF _ _ _ d con f p]) simp_all
qed

lemma free_reserved:
  assumes "mirror_ok st" and "\<not> ms_callback st" and "calm (attempts 0)" and "mirror_map st k = Some r"
    and "m_state r \<in> {OPEN, DRAFT}" and "m_pending_action r = None" and "m_active_task_id r = None"
    and "interaction \<notin> h_interaction_id ` set (m_handled_claims r)"
    and "canonical_uuid t" and "0 < interaction" and "interaction < 2 ^ 64"
  shows "case fst (reserve attempts st k interaction action t) of Inl _ \<Rightarrow> False
    | Inr v \<Rightarrow> rv_accepted v \<and> rv_task_id v = t"
proof -
  let ?a = "attempts 0"
  obtain p where d: "reserve_decision interaction action t ?a r
        = Update (\<lambda>r. make_mirror (r\<lparr>m_pending_action := Some p\<rparr>))"
    and con: "constructed (r\<lparr>m_pending_action := Some p\<rparr>)"
    and f: "make_mirror (r\<lparr>m_pending_action := Some p\<rparr>) = Inr (r\<lparr>m_pending_action := Some p\<rparr>)"
    by (rule free_decision [OF assms(1,3,4,5-11)])
  obtain ts st' where "attempt_cas ?a st k (m_revision r) (\<lambda>r. make_mirror (r\<lparr>m_pending_action := Some p\<rparr>))
      = (Inr (stamped r (r\<lparr>m_pending_action := Some p\<rparr>) ts), st')"
    using calm_cas [where f = "\<lambda>r. make_mirror (r\<lparr>m_pending_action := Some p\<rparr>)", OF assms(1-4) f con]
    by (auto simp: immutable_part_def)
  moreover have "get_mirror (at_get ?a) st k = Inr r"
    using get_mirror_Inr [OF assms(1)] assms(3,4) by (simp add: calm_def)
  ultimately show ?thesis using assms(9) d
    by (simp add: reserve_def canonical_task_id_def guarded_def upt_conv_Cons)
qed

text \<open>
  C35. A free item can be reserved: when the first attempt is undisturbed and meets a working
  clock and disk, a reservation of an open or draft item with no pending and no active task, for an
  interaction it has not handled, is accepted for the requested task.
\<close>

theorem free_item_reserved:
  assumes "mirror_ok st" and "\<not> ms_callback st" and "calm (attempts 0)" and "mirror_map st k = Some r"
    and "m_state r \<in> {OPEN, DRAFT}" and "m_pending_action r = None" and "m_active_task_id r = None"
    and "interaction \<notin> h_interaction_id ` set (m_handled_claims r)"
    and "canonical_uuid t" and "0 < interaction" and "interaction < 2 ^ 64"
  shows "case fst (reserve attempts st k interaction action t) of Inl _ \<Rightarrow> False
    | Inr v \<Rightarrow> rv_accepted v \<and> rv_task_id v = t"
  using free_reserved [where attempts = attempts, OF assms] .

section \<open>A reservation in use\<close>

definition example_attempt :: attempt where
  "example_attempt = \<lparr>at_get = READ_OK, at_now = me_now example_mirror_env, at_between = id, at_during = id,
     at_env = example_mirror_env\<rparr>"

definition example_task_id :: string where
  "example_task_id = ''00000000-0000-0000-0000-000000000001''"

definition reserved_mirror :: mirror_record where
  "reserved_mirror = first_mirror\<lparr>m_revision := 1, m_pending_action := Some
     \<lparr>p_interaction_id = 9, p_action = M_WORK, p_task_id = example_task_id,
      p_claimed_at = ''2026-07-17T10:00:00+00:00''\<rparr>\<rparr>"

abbreviation reserved_store :: mirror_store where
  "reserved_store \<equiv> holding [(m_mirror_id first_mirror, reserved_mirror)]"

lemma example_calm: "calm example_attempt" "honest example_attempt" "undisturbed example_attempt"
proof -
  show u: "undisturbed example_attempt" by (simp add: undisturbed_def example_attempt_def)
  then show "honest example_attempt" by (rule undisturbed_honest)
  show "calm example_attempt"
    using u example_clock by (simp add: calm_def example_attempt_def) (simp add: example_mirror_env_def)
qed

lemma example_task_canonical: "canonical_uuid example_task_id"
  by code_simp

lemma first_flag: "\<not> ms_callback (holding records)"
  by (simp add: holding_def)

lemma first_free:
  "m_state first_mirror \<in> {OPEN, DRAFT}" "m_pending_action first_mirror = None"
  "m_active_task_id first_mirror = None" "m_handled_claims first_mirror = []"
  by (simp_all add: first_mirror_def first_record_def example_event_def)

theorem free_item_reserved_witness:
  "\<exists>v. fst (reserve (\<lambda>i. example_attempt) first_store (m_mirror_id first_mirror) 9 M_WORK example_task_id) = Inr v
     \<and> rv_accepted v"
  using free_item_reserved [where attempts = "\<lambda>i. example_attempt" and interaction = 9 and action = M_WORK,
      OF first_store_ok first_flag example_calm(1) first_lookup first_free(1-3) _ example_task_canonical] first_free(4)
  by (auto split: sum.splits)

lemma first_reservation:
  "\<exists>v st'. reserve (\<lambda>i. example_attempt) first_store (m_mirror_id first_mirror) 9 M_WORK example_task_id = (Inr v, st')
     \<and> rv_accepted v"
  using free_reserved [where attempts = "\<lambda>i. example_attempt" and interaction = 9 and action = M_WORK,
      OF first_store_ok first_flag example_calm(1) first_lookup first_free(1-3) _ example_task_canonical] first_free(4)
  by (cases "reserve (\<lambda>i. example_attempt) first_store (m_mirror_id first_mirror) 9 M_WORK example_task_id")
     (auto split: sum.splits)

theorem reservation_exclusive_witness:
  "\<exists>v st'. reserve (\<lambda>i. example_attempt) first_store (m_mirror_id first_mirror) 9 M_WORK example_task_id = (Inr v, st')
     \<and> mirror_map st' (m_mirror_id first_mirror) = Some (rv_record v) \<and> m_pending_action (rv_record v) \<noteq> None"
proof -
  obtain v st' where r: "reserve (\<lambda>i. example_attempt) first_store (m_mirror_id first_mirror) 9 M_WORK example_task_id
      = (Inr v, st')" "rv_accepted v" using first_reservation by blast
  have "\<forall>i::nat. honest example_attempt" using example_calm(2) by blast
  from reservation_exclusive [OF first_store_ok first_flag this r]
  have "mirror_map st' (m_mirror_id first_mirror) = Some (rv_record v) \<and> m_pending_action (rv_record v) \<noteq> None"
    by (elim conjE exE) (simp add: stamped_def)
  then show ?thesis using r(1) by blast
qed

theorem reservation_repeatable_witness:
  "\<exists>v st'. reserve (\<lambda>i. example_attempt) first_store (m_mirror_id first_mirror) 9 M_WORK example_task_id = (Inr v, st')
     \<and> (10 \<notin> h_interaction_id ` set (m_handled_claims (rv_record v)) \<longrightarrow>
        fst (reserve (\<lambda>i. example_attempt) st' (m_mirror_id first_mirror) 10 M_WORK example_task_id)
          = Inl (GitHubMirrorActionBusy example_task_id))"
proof -
  obtain v st' where r: "reserve (\<lambda>i. example_attempt) first_store (m_mirror_id first_mirror) 9 M_WORK example_task_id
      = (Inr v, st')" "rv_accepted v" using first_reservation by blast
  have h: "\<forall>i::nat. honest example_attempt" and g: "at_get example_attempt = READ_OK"
    using example_calm(2) by (blast, simp add: example_attempt_def)
  from reservation_repeatable [where attempts' = "\<lambda>i. example_attempt" and other = 10,
      OF first_store_ok first_flag h r example_task_canonical g] r(1) show ?thesis by auto
qed

theorem retry_decisive_witness:
  "fst (clear_active (\<lambda>i. example_attempt) first_store (m_mirror_id first_mirror) example_task_id) \<noteq> Inl give_up"
proof -
  have h: "\<forall>i::nat. honest example_attempt" and u: "\<exists>i<CAS_ATTEMPTS. undisturbed example_attempt"
    using example_calm(2,3) by (blast, intro exI [of _ 0]) simp
  from retry_decisive [OF first_store_ok first_flag h u] show ?thesis by blast
qed

definition finished_mirror :: mirror_record where
  "finished_mirror = reserved_mirror\<lparr>m_pending_action := None, m_active_task_id := Some example_task_id,
     m_handled_claims := [\<lparr>h_interaction_id = 9, h_action = M_WORK, h_task_id = example_task_id, h_succeeded = True\<rparr>]\<rparr>"

lemma example_finish:
  "\<exists>r st'. finish (\<lambda>i. example_attempt) reserved_store (m_mirror_id first_mirror) example_task_id True = (Inr r, st')"
proof -
  let ?k = "m_mirror_id first_mirror"
  have v: "valid_mirror reserved_mirror" and c: "complete_action example_task_id True reserved_mirror = Inr finished_mirror"
    by code_simp+
  have con: "constructed finished_mirror" by code_simp
  have "m_mirror_id reserved_mirror = ?k" by (simp add: reserved_mirror_def)
  from single_ok [OF v this] have ok: "records_ok [(?k, reserved_mirror)]" .
  have m: "mirror_map reserved_store ?k = Some reserved_mirror" using holding_ok(2) [OF ok] by simp
  have im: "immutable_part reserved_mirror = immutable_part finished_mirror"
    by (simp add: immutable_part_def finished_mirror_def)
  obtain ts st' where a: "attempt_cas example_attempt reserved_store ?k (m_revision reserved_mirror)
      (complete_action example_task_id True) = (Inr (stamped reserved_mirror finished_mirror ts), st')"
    using calm_cas [where f = "complete_action example_task_id True", OF holding_ok(1) [OF ok] first_flag example_calm(1) m c con im] by blast
  have "get_mirror (at_get example_attempt) reserved_store ?k = Inr reserved_mirror"
    using get_mirror_Inr [OF holding_ok(1) [OF ok]] m by (simp add: example_attempt_def)
  moreover have "pending_decision example_task_id None (complete_action example_task_id True) example_attempt reserved_mirror
      = Update (complete_action example_task_id True)"
    by (simp add: pending_decision_def matching_pending_def reserved_mirror_def)
  ultimately show ?thesis using a
    by (simp add: finish_def update_pending_def upt_conv_Cons)
qed

theorem finish_recorded_witness:
  "\<exists>r st'. finish (\<lambda>i. example_attempt) reserved_store (m_mirror_id first_mirror) example_task_id True = (Inr r, st')
     \<and> m_active_task_id r = Some example_task_id"
proof -
  obtain r st' where f: "finish (\<lambda>i. example_attempt) reserved_store (m_mirror_id first_mirror) example_task_id True = (Inr r, st')"
    using example_finish by blast
  have v: "valid_mirror reserved_mirror" by code_simp
  have "m_mirror_id reserved_mirror = m_mirror_id first_mirror" by (simp add: reserved_mirror_def)
  from holding_ok(1) [OF single_ok [OF v this]] have ok: "mirror_ok reserved_store" .
  have h: "\<forall>i::nat. honest example_attempt" and g: "at_get example_attempt = READ_OK"
    using example_calm(2) by (blast, simp add: example_attempt_def)
  from finish_recorded [where attempts' = "\<lambda>i. example_attempt", OF ok first_flag h f example_task_canonical g] f
  show ?thesis by auto
qed

end
