(* ===== verification/MirrorEvents.thy ===== *)
theory MirrorEvents
  imports MirrorLifecycle
begin

text \<open>
  \<open>github_events.py\<close> and the webhook route of \<open>web.py\<close>: from the payload GitHub sends to the event
  of the mirror store. A payload is the JSON value \<open>json.loads\<close> returned; its objects have distinct
  keys.
\<close>

section \<open>Reading the payload\<close>

type_synonym payload = "(string \<times> json) list"

definition dictionary :: "json option \<Rightarrow> payload result" where
  "dictionary v = (case v of Some (JObj kvs) \<Rightarrow> Inr kvs
    | _ \<Rightarrow> Inl (ValueError ''GitHub payload value must be an object''))"

definition payload_object :: "payload \<Rightarrow> string \<Rightarrow> payload result" where
  "payload_object p key = (case dictionary (map_of p key) of Inr kvs \<Rightarrow> Inr kvs
    | Inl _ \<Rightarrow> Inl (ValueError (''GitHub payload missing object: '' @ key)))"

definition payload_text :: "payload \<Rightarrow> string \<Rightarrow> nat \<Rightarrow> string result" where
  "payload_text item key maximum = (case map_of item key of
      Some (JStr s) \<Rightarrow>
        if s = [] \<or> maximum < length s then Inl (ValueError (''GitHub '' @ key @ '' exceeds display bounds''))
        else Inr s
    | _ \<Rightarrow> Inl (ValueError (''GitHub '' @ key @ '' exceeds display bounds'')))"

definition payload_repository :: "payload \<Rightarrow> string result" where
  "payload_repository p =
    and_then (payload_object p ''repository'') (\<lambda>repo. payload_text repo ''full_name'' 200)"

definition payload_number :: "payload \<Rightarrow> int result" where
  "payload_number item = (case map_of item ''number'' of
      Some (JInt n) \<Rightarrow> if n \<le> 0 then Inl (ValueError ''GitHub item number must be a positive integer'') else Inr n
    | _ \<Rightarrow> Inl (ValueError ''GitHub item number must be a positive integer''))"

definition canonical_url :: "json option \<Rightarrow> string \<Rightarrow> string \<Rightarrow> int \<Rightarrow> string result" where
  "canonical_url v repository path number =
    (let expected = ''https://github.com/'' @ repository @ ''/'' @ path @ ''/'' @ int_str number in
     if v \<noteq> Some (JStr expected) then Inl (ValueError ''GitHub item URL must be canonical'') else Inr expected)"

definition payload_login :: "payload \<Rightarrow> string result" where
  "payload_login item = and_then (payload_object item ''user'') (\<lambda>user. payload_text user ''login'' 39)"

fun collect_labels :: "json list \<Rightarrow> string list \<Rightarrow> string list result" where
  "collect_labels [] labels = Inr labels"
| "collect_labels (v # vs) labels =
    (case dictionary (Some v) of
       Inl _ \<Rightarrow> Inl (ValueError ''GitHub label must be an object'')
     | Inr label \<Rightarrow>
         and_then (payload_text label ''name'' MAX_LABEL_LENGTH) (\<lambda>name.
           collect_labels vs (if name \<in> set labels then labels else labels @ [name])))"

definition payload_labels :: "payload \<Rightarrow> string list result" where
  "payload_labels item = (case map_of item ''labels'' of
      None \<Rightarrow> Inr []
    | Some (JArr vs) \<Rightarrow>
        if MAX_LABELS < length vs then Inl (ValueError ''GitHub labels exceed display bounds'')
        else collect_labels vs []
    | Some _ \<Rightarrow> Inl (ValueError ''GitHub labels exceed display bounds''))"

definition payload_ref :: "payload \<Rightarrow> string \<Rightarrow> string result" where
  "payload_ref item side = and_then (payload_object item side) (\<lambda>s. payload_text s ''ref'' 255)"

text \<open>\<open>str.lower\<close> on the letters that can pass the test that follows it.\<close>

definition lower_char :: "char \<Rightarrow> char" where
  "lower_char c = (if is_upper c then char_of (of_char c + 32 :: int) else c)"

definition payload_sha :: "payload \<Rightarrow> string \<Rightarrow> string result" where
  "payload_sha item side =
    and_then (payload_object item side) (\<lambda>s. and_then (payload_text s ''sha'' 40) (\<lambda>sha.
      let v = map lower_char sha in
      if length v \<noteq> 40 \<or> \<not> list_all is_lower_hex v
      then Inl (ValueError ''GitHub SHA must contain exactly 40 hexadecimal characters'') else Inr v))"

definition payload_timestamp :: "payload \<Rightarrow> string \<Rightarrow> string result" where
  "payload_timestamp item key = payload_text item key 40"

definition pull_request_state :: "payload \<Rightarrow> item_state" where
  "pull_request_state item =
    (if map_of item ''merged'' = Some (JBool True) then MERGED
     else if map_of item ''state'' = Some (JStr ''closed'') then CLOSED
     else if map_of item ''draft'' = Some (JBool True) then DRAFT
     else OPEN)"

definition activity_text :: "string \<Rightarrow> string" where
  "activity_text action = take MAX_ACTIVITY_LENGTH (map (\<lambda>c. if c = CHR ''_'' then CHR '' '' else c) action)"

section \<open>Events\<close>

definition pull_request_event :: "string \<Rightarrow> string \<Rightarrow> payload \<Rightarrow> mirror_event result" where
  "pull_request_event delivery_id action p =
    and_then (payload_object p ''pull_request'') (\<lambda>item.
    and_then (payload_repository p) (\<lambda>repository.
    and_then (payload_number item) (\<lambda>number.
    and_then (canonical_url (map_of item ''html_url'') repository ''pull'' number) (\<lambda>url.
    and_then (payload_text item ''title'' MAX_TITLE_LENGTH) (\<lambda>title.
    and_then (payload_login item) (\<lambda>login.
    and_then (payload_labels item) (\<lambda>ls.
    and_then (payload_ref item ''base'') (\<lambda>base_ref.
    and_then (payload_ref item ''head'') (\<lambda>head_ref.
    and_then (payload_sha item ''base'') (\<lambda>base_sha.
    and_then (payload_sha item ''head'') (\<lambda>head_sha.
    and_then (payload_timestamp item ''updated_at'') (\<lambda>ts.
    make_event
      \<lparr>e_delivery_id = delivery_id, e_event_name = ''pull_request'', e_action = action,
       e_repository = repository, e_item_kind = PULL_REQUEST, e_item_number = number,
       e_item_url = url, e_title = title, e_state = pull_request_state item, e_author_login = login,
       e_labels = ls, e_base_ref = Some base_ref, e_head_ref = Some head_ref,
       e_base_sha = Some base_sha, e_head_sha = Some head_sha,
       e_activity = ''Pull request '' @ activity_text action, e_item_updated_at = ts\<rparr>))))))))))))"

definition pull_request_marker :: "payload \<Rightarrow> payload option result" where
  "pull_request_marker item =
    (if map_of item ''pull_request'' \<in> {None, Some JNull} then Inr None
     else map_sum id Some (dictionary (map_of item ''pull_request'')))"

definition issue_event :: "string \<Rightarrow> string \<Rightarrow> string \<Rightarrow> payload \<Rightarrow> mirror_event result" where
  "issue_event delivery_id event_name action p =
    and_then (payload_object p ''issue'') (\<lambda>item.
    and_then (payload_repository p) (\<lambda>repository.
    and_then (payload_number item) (\<lambda>number.
    and_then (pull_request_marker item) (\<lambda>marker.
    let kind = (if marker \<noteq> None then PULL_REQUEST else ISSUE);
        path = (if kind = PULL_REQUEST then ''pull'' else ''issues'');
        url_source = (case marker of Some m \<Rightarrow> map_of m ''html_url'' | None \<Rightarrow> map_of item ''html_url'');
        state = (if map_of item ''state'' = Some (JStr ''closed'') then CLOSED else OPEN);
        subject = (if event_name = ''issue_comment'' then ''Comment'' else ''Issue'')
    in
    and_then (if event_name = ''issue_comment'' then payload_object p ''comment'' else Inr item) (\<lambda>updated_source.
    and_then (canonical_url url_source repository path number) (\<lambda>url.
    and_then (payload_text item ''title'' MAX_TITLE_LENGTH) (\<lambda>title.
    and_then (payload_login item) (\<lambda>login.
    and_then (payload_labels item) (\<lambda>ls.
    and_then (payload_timestamp updated_source ''updated_at'') (\<lambda>ts.
    make_event
      \<lparr>e_delivery_id = delivery_id, e_event_name = event_name, e_action = action,
       e_repository = repository, e_item_kind = kind, e_item_number = number,
       e_item_url = url, e_title = title, e_state = state, e_author_login = login,
       e_labels = ls, e_base_ref = None, e_head_ref = None, e_base_sha = None, e_head_sha = None,
       e_activity = subject @ '' '' @ activity_text action, e_item_updated_at = ts\<rparr>))))))))))"

text \<open>\<open>str(payload.get("action", ""))\<close>: the text of a value that is not a string is no action.\<close>

definition payload_action :: "payload \<Rightarrow> string" where
  "payload_action p = (case map_of p ''action'' of Some (JStr s) \<Rightarrow> s | _ \<Rightarrow> [])"

definition event_from_github_webhook :: "string \<Rightarrow> string \<Rightarrow> payload \<Rightarrow> mirror_event option result" where
  "event_from_github_webhook event_name delivery_id p =
    (let action = payload_action p in
     if action \<notin> set (event_actions event_name) then Inr None
     else map_sum id Some
       (if event_name = ''pull_request'' then pull_request_event delivery_id action p
        else issue_event delivery_id event_name action p))"

section \<open>The route\<close>

text \<open>The HTTP answer: a status with its detail for the refusals, and what was queued.\<close>

datatype response = Refused nat | Ignored | Queued "string option" | Failed exn

record gateway_settings =
  gs_webhook_secret :: string
  gs_guild_id :: "int option"
  gs_channel_id :: "int option"

abbreviation MAX_GITHUB_WEBHOOK_BYTES :: nat where "MAX_GITHUB_WEBHOOK_BYTES \<equiv> 1048576"

text \<open>\<open>_read_limited_body\<close>: \<open>None\<close> when the chunks exceed the limit.\<close>

fun read_limited_body :: "string list \<Rightarrow> string \<Rightarrow> string option" where
  "read_limited_body [] body = Some body"
| "read_limited_body (chunk # chunks) body =
    (if MAX_GITHUB_WEBHOOK_BYTES < length body + length chunk then None
     else read_limited_body chunks (body @ chunk))"

text \<open>\<open>hmac\<close> is \<open>hmac.new(secret, body, hashlib.sha256).hexdigest()\<close>. \<open>compare_digest\<close> of two strings
  raises when one of them is not ASCII.\<close>

definition verify_github_signature ::
    "(string \<Rightarrow> string \<Rightarrow> string) \<Rightarrow> string \<Rightarrow> string \<Rightarrow> string option \<Rightarrow> bool result" where
  "verify_github_signature hmac secret body header =
    (if secret = [] then Inl (ValueError ''GitHub webhook secret must be configured'')
     else case header of
       None \<Rightarrow> Inr False
     | Some h \<Rightarrow>
         if h = [] \<or> take 7 h \<noteq> ''sha256='' then Inr False
         else if \<not> list_all (char_in 0 127) (drop 7 h) then Inl TypeError
         else Inr (hmac secret body = drop 7 h))"

text \<open>\<open>loads\<close> is \<open>json.loads\<close> of the body, \<open>None\<close> when it raises.\<close>

definition github_webhook ::
    "(string \<Rightarrow> string \<Rightarrow> string) \<Rightarrow> (string \<Rightarrow> json option) \<Rightarrow> gateway_settings \<Rightarrow> mirror_env \<Rightarrow> mirror_store
     \<Rightarrow> string option \<Rightarrow> string option \<Rightarrow> string option \<Rightarrow> string list \<Rightarrow> response \<times> mirror_store" where
  "github_webhook hmac loads settings env st event_header delivery_header signature chunks =
    (if event_header \<in> {None, Some []} \<or> delivery_header \<in> {None, Some []} then (Refused 400, st)
     else if gs_webhook_secret settings = [] then (Refused 503, st)
     else case read_limited_body chunks [] of
       None \<Rightarrow> (Refused 413, st)
     | Some body \<Rightarrow>
         (case verify_github_signature hmac (gs_webhook_secret settings) body signature of
            Inl e \<Rightarrow> (Failed e, st)
          | Inr ok \<Rightarrow> if \<not> ok then (Refused 401, st) else (case (gs_guild_id settings, gs_channel_id settings) of
             (Some guild, Some channel) \<Rightarrow>
               (case loads body of
                  Some (JObj p) \<Rightarrow>
                    (case event_from_github_webhook (the event_header) (the delivery_header) p of
                       Inl e \<Rightarrow> (Refused 400, st)
                     | Inr None \<Rightarrow> (Ignored, st)
                     | Inr (Some event) \<Rightarrow>
                         (case upsert_event env st event guild channel of
                            (Inl e, st') \<Rightarrow> (Failed e, st')
                          | (Inr (r, _), st') \<Rightarrow>
                              (Queued (if m_publication_pending r then Some (m_mirror_id r) else None), st')))
                | _ \<Rightarrow> (Refused 400, st))
           | _ \<Rightarrow> (Refused 503, st))))"

section \<open>Properties of events\<close>

lemma payload_text_Inr:
  "payload_text item key m = Inr s \<longleftrightarrow> map_of item key = Some (JStr s) \<and> s \<noteq> [] \<and> length s \<le> m"
  by (auto simp: payload_text_def split: option.splits json.splits)

lemma map_sum_eq_Inr: "map_sum id f r = Inr y \<longleftrightarrow> (\<exists>x. r = Inr x \<and> y = f x)"
  by (cases r) auto

lemma event_from_cases:
  assumes "event_from_github_webhook event_name delivery_id p = Inr (Some e)"
  obtains (pull) action where "event_name = ''pull_request''" and "pull_request_event delivery_id action p = Inr e"
    | (issue) action where "event_name \<noteq> ''pull_request''" and "issue_event delivery_id event_name action p = Inr e"
  using assms by (auto simp: event_from_github_webhook_def Let_def map_sum_eq_Inr split: if_splits)

lemma pull_request_event_valid:
  assumes "pull_request_event delivery_id action p = Inr e"
  shows "valid_event e \<and> e_delivery_id e = delivery_id \<and> e_event_name e = ''pull_request'' \<and> complete_event e"
  using assms unfolding pull_request_event_def
  by (auto simp: and_then_eq_Inr make_event_Inr complete_event_def)

lemma issue_event_valid:
  assumes "issue_event delivery_id event_name action p = Inr e"
  shows "valid_event e \<and> e_delivery_id e = delivery_id \<and> e_event_name e = event_name
     \<and> (e_item_kind e = ISSUE \<longrightarrow> complete_event e)"
  using assms unfolding issue_event_def Let_def
  by (auto simp: and_then_eq_Inr make_event_Inr complete_event_def)

lemma event_from_valid:
  assumes "event_from_github_webhook event_name delivery_id p = Inr (Some e)"
  shows "valid_event e \<and> e_delivery_id e = delivery_id \<and> e_event_name e = event_name
     \<and> (event_name = ''pull_request'' \<or> e_item_kind e = ISSUE \<longrightarrow> complete_event e)"
  using assms
proof (cases rule: event_from_cases)
  case (pull action)
  then show ?thesis using pull_request_event_valid by blast
next
  case (issue action)
  then show ?thesis using issue_event_valid by blast
qed

text \<open>
  Whatever payload arrives, an event made of it is one the mirror store can absorb: its
  constructor has accepted it, it carries the delivery identifier and the name of the request, and
  unless it is a comment on (or an issue event about) a pull request it describes the whole item,
  so that the order of delivery does not matter.
\<close>

theorem webhook_event_valid:
  assumes "event_from_github_webhook event_name delivery_id p = Inr (Some e)"
  shows "valid_event e \<and> e_delivery_id e = delivery_id \<and> e_event_name e = event_name
     \<and> (event_name = ''pull_request'' \<or> e_item_kind e = ISSUE \<longrightarrow> complete_event e)"
  by (rule event_from_valid [OF assms])

section \<open>Properties of the route\<close>

lemma read_limited_acc:
  "length body \<le> MAX_GITHUB_WEBHOOK_BYTES \<Longrightarrow> read_limited_body chunks body
     = (if length (body @ concat chunks) \<le> MAX_GITHUB_WEBHOOK_BYTES then Some (body @ concat chunks) else None)"
  by (induction chunks body rule: read_limited_body.induct) (auto simp: not_less)

lemma read_limited_all:
  "read_limited_body chunks [] = (if length (concat chunks) \<le> 1048576 then Some (concat chunks) else None)"
  using read_limited_acc [of "[]" chunks] by simp

text \<open>
  C36. The limit on a body is exact however it is cut into chunks: a body of at most one MiB is
  read completely and unchanged, a longer one is refused.
\<close>

theorem read_limited_exact:
  "read_limited_body chunks []
     = (if length (concat chunks) \<le> 1048576 then Some (concat chunks) else None)"
  by (rule read_limited_all)

lemma signature_verified:
  "verify_github_signature hmac secret body header = Inr True
     \<longleftrightarrow> secret \<noteq> [] \<and> header = Some (''sha256='' @ hmac secret body) \<and> list_all (char_in 0 127) (hmac secret body)"
proof (cases header)
  case (Some h)
  have split: "h = ''sha256='' @ x \<longleftrightarrow> take 7 h = ''sha256='' \<and> drop 7 h = x" for x
    using append_eq_conv_conj [of "''sha256=''" x h] by (auto simp: eval_nat_numeral)
  have "verify_github_signature hmac secret body (Some h) = Inr True \<longleftrightarrow>
      secret \<noteq> [] \<and> (take 7 h = ''sha256='' \<and> drop 7 h = hmac secret body) \<and> list_all (char_in 0 127) (hmac secret body)"
    by (auto simp: verify_github_signature_def)
  then show ?thesis using Some by (simp only: split option.inject)
qed (simp add: verify_github_signature_def)

definition accepted_request ::
    "(string \<Rightarrow> string \<Rightarrow> string) \<Rightarrow> gateway_settings \<Rightarrow> string option \<Rightarrow> string list \<Rightarrow> bool" where
  "accepted_request hmac settings signature chunks \<longleftrightarrow>
     gs_webhook_secret settings \<noteq> [] \<and> length (concat chunks) \<le> MAX_GITHUB_WEBHOOK_BYTES
     \<and> signature = Some (''sha256='' @ hmac (gs_webhook_secret settings) (concat chunks))"

lemma webhook_cases:
  assumes "github_webhook hmac loads settings env st event_header delivery_header signature chunks = (resp, st')"
  shows "(st' = st \<and> (\<forall>q. resp \<noteq> Queued q)) \<or> (accepted_request hmac settings signature chunks
     \<and> (\<exists>p e name delivery guild channel. loads (concat chunks) = Some (JObj p)
          \<and> event_header = Some name \<and> delivery_header = Some delivery
          \<and> gs_guild_id settings = Some guild \<and> gs_channel_id settings = Some channel
          \<and> event_from_github_webhook name delivery p = Inr (Some e)
          \<and> st' = snd (upsert_event env st e guild channel)))"
proof (cases "st' = st \<and> (\<forall>q. resp \<noteq> Queued q)")
  case False
  let ?secret = "gs_webhook_secret settings" and ?body = "concat chunks"
  note w = assms [unfolded github_webhook_def read_limited_all]
  have 1: "event_header \<notin> {None, Some []}" "delivery_header \<notin> {None, Some []}" "?secret \<noteq> []"
    "length ?body \<le> MAX_GITHUB_WEBHOOK_BYTES"
    using w False by (auto split: if_splits)
  note w1 = w [simplified 1 if_False if_True simp_thms option.case]
  have 2: "verify_github_signature hmac ?secret ?body signature = Inr True"
    using w1 False by (auto split: sum.splits if_splits)
  note w2 = w1 [unfolded 2, simplified]
  obtain guild channel where 3: "gs_guild_id settings = Some guild" "gs_channel_id settings = Some channel"
    using w2 False by (auto split: option.splits)
  obtain p where 4: "loads ?body = Some (JObj p)"
    using w2 False unfolding 3 by (auto split: option.splits json.splits)
  obtain e where 5: "event_from_github_webhook (the event_header) (the delivery_header) p = Inr (Some e)"
    using w2 False unfolding 3 4 by (auto split: option.splits sum.splits)
  have "st' = snd (upsert_event env st e guild channel)"
    using w2 unfolding 3 4 by (auto simp: 5 split: prod.splits sum.splits)
  then show ?thesis using 1 2 3 4 5 by (auto simp: signature_verified accepted_request_def)
qed simp

text \<open>
  C12. Only an authentic request changes the mirror store. A request after which the store differs,
  or which is answered as queued, carried the HMAC of its whole body under the configured secret, was
  at most one MiB long, and the only thing it did is the upsert, under the configured
  destination, of the event its payload describes, with the delivery identifier of its header;
  every other request, malformed, unsigned or failing, leaves the store as it was.
\<close>

theorem webhook_authenticated:
  assumes "github_webhook hmac loads settings env st event_header delivery_header signature chunks = (resp, st')"
    and "st' \<noteq> st \<or> resp = Queued q"
  shows "gs_webhook_secret settings \<noteq> [] \<and> length (concat chunks) \<le> 1048576
    \<and> signature = Some (''sha256='' @ hmac (gs_webhook_secret settings) (concat chunks))
    \<and> (\<exists>p e name delivery guild channel. loads (concat chunks) = Some (JObj p)
         \<and> event_header = Some name \<and> delivery_header = Some delivery
         \<and> gs_guild_id settings = Some guild \<and> gs_channel_id settings = Some channel
         \<and> event_from_github_webhook name delivery p = Inr (Some e)
         \<and> e_delivery_id e = delivery \<and> valid_event e
         \<and> st' = snd (upsert_event env st e guild channel))"
proof -
  obtain p e name delivery guild channel where acc: "accepted_request hmac settings signature chunks"
    and w: "loads (concat chunks) = Some (JObj p)" "event_header = Some name" "delivery_header = Some delivery"
      "gs_guild_id settings = Some guild" "gs_channel_id settings = Some channel"
      "event_from_github_webhook name delivery p = Inr (Some e)" "st' = snd (upsert_event env st e guild channel)"
    using webhook_cases [OF assms(1)] assms(2) by blast
  have "e_delivery_id e = delivery" "valid_event e" using event_from_valid [OF w(6)] by simp_all
  with w have "\<exists>p e name delivery guild channel. loads (concat chunks) = Some (JObj p)
         \<and> event_header = Some name \<and> delivery_header = Some delivery
         \<and> gs_guild_id settings = Some guild \<and> gs_channel_id settings = Some channel
         \<and> event_from_github_webhook name delivery p = Inr (Some e)
         \<and> e_delivery_id e = delivery \<and> valid_event e
         \<and> st' = snd (upsert_event env st e guild channel)" by blast
  with acc show ?thesis unfolding accepted_request_def by blast
qed

lemma event_author:
  assumes "event_from_github_webhook event_name delivery_id p = Inr (Some e)"
  obtains item where "payload_object p (if event_name = ''pull_request'' then ''pull_request'' else ''issue'') = Inr item"
    and "payload_login item = Inr (e_author_login e)"
  using assms
proof (cases rule: event_from_cases)
  case (pull action)
  then show thesis using that by (auto simp: pull_request_event_def and_then_eq_Inr make_event_Inr)
next
  case (issue action)
  then show thesis using that by (auto simp: issue_event_def Let_def and_then_eq_Inr make_event_Inr)
qed

lemma bot_login_invalid: "\<not> valid_login (name @ ''[bot]'')"
proof -
  have "\<not> is_alnum CHR ''[''" by code_simp
  then show ?thesis by (cases name) (simp_all add: valid_login_def)
qed

text \<open>
  C37. Items opened by GitHub Apps are never mirrored. A supported event whose item was opened by a bot account, such as
  \<open>dependabot[bot]\<close>, is refused as invalid, because the pattern of logins has no brackets; the request that
  carries it, signed or not, leaves the mirror store as it was and is not queued.
\<close>

theorem bot_author_refused:
  assumes "payload_action p \<in> set (event_actions event_name)"
    and "map_of p (if event_name = ''pull_request'' then ''pull_request'' else ''issue'') = Some (JObj item)"
    and "map_of item ''user'' = Some (JObj user)" and "map_of user ''login'' = Some (JStr (name @ ''[bot]''))"
    and "loads (concat chunks) = Some (JObj p)"
    and "github_webhook hmac loads settings env st (Some event_name) (Some delivery_id) signature chunks = (resp, st')"
  shows "(\<exists>x. event_from_github_webhook event_name delivery_id p = Inl x) \<and> st' = st \<and> (\<forall>q. resp \<noteq> Queued q)"
proof -
  have none: "event_from_github_webhook event_name delivery_id p \<noteq> Inr (Some e)" for e
  proof
    assume e: "event_from_github_webhook event_name delivery_id p = Inr (Some e)"
    then obtain i where i: "payload_object p (if event_name = ''pull_request'' then ''pull_request'' else ''issue'') = Inr i"
      "payload_login i = Inr (e_author_login e)" by (rule event_author)
    then have "e_author_login e = name @ ''[bot]''"
      using assms(2-4) by (auto simp: payload_object_def dictionary_def payload_login_def and_then_eq_Inr payload_text_Inr)
    moreover have "valid_login (e_author_login e)"
      using event_from_valid [OF e] unfolding valid_event_def event_checks_def no_failure_simps by simp
    ultimately show False using bot_login_invalid by simp
  qed
  moreover have "event_from_github_webhook event_name delivery_id p \<noteq> Inr None"
    using assms(1) by (auto simp: event_from_github_webhook_def Let_def map_sum_eq_Inr)
  ultimately have "\<exists>x. event_from_github_webhook event_name delivery_id p = Inl x"
    by (metis old.sum.exhaust option.exhaust)
  moreover have "st' = st \<and> (\<forall>q. resp \<noteq> Queued q)"
    using webhook_cases [OF assms(6)] none assms(5) by auto
  ultimately show ?thesis by blast
qed

text \<open>
  A signature header outside ASCII makes the route fail with the \<open>TypeError\<close> of
  \<open>compare_digest\<close> instead of refusing the request as unauthorized.
\<close>

theorem non_ascii_signature_fails:
  assumes "secret \<noteq> []" and "\<not> list_all (char_in 0 127) sig"
  shows "verify_github_signature hmac secret body (Some (''sha256='' @ sig)) = Inl TypeError"
  using assms by (simp add: verify_github_signature_def)

section \<open>A delivery\<close>

definition example_payload :: payload where
  "example_payload = [(''action'', JStr ''opened''),
    (''issue'', JObj [(''number'', JInt 7), (''html_url'', JStr ''https://github.com/o/r/issues/7''),
       (''title'', JStr ''T''), (''state'', JStr ''open''), (''user'', JObj [(''login'', JStr ''ann'')]),
       (''labels'', JArr [JObj [(''name'', JStr ''bug'')]]), (''updated_at'', JStr ''2026-07-17T10:00:00Z'')]),
    (''repository'', JObj [(''full_name'', JStr ''o/r'')])]"

lemma example_webhook_event:
  "event_from_github_webhook ''issues'' ''d1'' example_payload = Inr (Some example_event)"
  by code_simp

theorem webhook_event_valid_witness: "complete_event example_event"
  using webhook_event_valid [OF example_webhook_event] by (simp add: example_event_def)

theorem non_ascii_signature_fails_witness:
  "verify_github_signature (\<lambda>s b. s) ''key'' ''body'' (Some (''sha256='' @ [char_of (200::nat)])) = Inl TypeError"
  by (rule non_ascii_signature_fails) code_simp+

text \<open>A keyed digest that is only the key stands for the HMAC here.\<close>

lemma example_webhook:
  "github_webhook (\<lambda>key body. key) (\<lambda>body. Some (JObj example_payload))
     \<lparr>gs_webhook_secret = ''key'', gs_guild_id = Some 5, gs_channel_id = Some 6\<rparr> example_mirror_env empty_mirrors
     (Some ''issues'') (Some ''d1'') (Some ''sha256=key'') [''bo'', ''dy'']
   = (Queued (Some (m_mirror_id first_mirror)), first_store)"
proof -
  have "m_publication_pending first_mirror" by (simp add: first_mirror_def first_record_def)
  then show ?thesis
    by (simp add: github_webhook_def verify_github_signature_def example_webhook_event first_upsert char_in_def)
qed

theorem webhook_authenticated_witness:
  "\<exists>p e. event_from_github_webhook ''issues'' ''d1'' p = Inr (Some e) \<and> valid_event e
     \<and> first_store = snd (upsert_event example_mirror_env empty_mirrors e 5 6)"
  using webhook_authenticated [OF example_webhook disjI2 [OF refl]] by auto

text \<open>The same delivery about an issue that a bot opened, correctly signed.\<close>

definition bot_payload :: payload where
  "bot_payload = [(''action'', JStr ''opened''),
    (''issue'', JObj [(''number'', JInt 7), (''html_url'', JStr ''https://github.com/o/r/issues/7''),
       (''title'', JStr ''T''), (''state'', JStr ''open''), (''user'', JObj [(''login'', JStr ''dependabot[bot]'')]),
       (''labels'', JArr []), (''updated_at'', JStr ''2026-07-17T10:00:00Z'')]),
    (''repository'', JObj [(''full_name'', JStr ''o/r'')])]"

theorem bot_author_refused_witness:
  "github_webhook (\<lambda>key body. key) (\<lambda>body. Some (JObj bot_payload))
     \<lparr>gs_webhook_secret = ''key'', gs_guild_id = Some 5, gs_channel_id = Some 6\<rparr> example_mirror_env empty_mirrors
     (Some ''issues'') (Some ''d1'') (Some ''sha256=key'') [''bo'', ''dy''] = (Refused 400, empty_mirrors)"
proof -
  let ?run = "github_webhook (\<lambda>key body. key) (\<lambda>body. Some (JObj bot_payload))
     \<lparr>gs_webhook_secret = ''key'', gs_guild_id = Some 5, gs_channel_id = Some 6\<rparr> example_mirror_env empty_mirrors
     (Some ''issues'') (Some ''d1'') (Some ''sha256=key'') [''bo'', ''dy'']"
  obtain resp st' where run: "?run = (resp, st')" by fastforce
  have a: "payload_action bot_payload \<in> set (event_actions ''issues'')" by code_simp
  obtain item user where i: "map_of bot_payload ''issue'' = Some (JObj item)" "map_of item ''user'' = Some (JObj user)"
    "map_of user ''login'' = Some (JStr (''dependabot'' @ ''[bot]''))"
    by (simp add: bot_payload_def)
  have i': "map_of bot_payload (if ''issues'' = ''pull_request'' then ''pull_request'' else ''issue'') = Some (JObj item)"
    using i(1) by simp
  from bot_author_refused [OF a i' i(2,3) refl run]
  obtain x where x: "event_from_github_webhook ''issues'' ''d1'' bot_payload = Inl x" and st: "st' = empty_mirrors" by blast
  have "resp = Refused 400"
    using run x by (simp add: github_webhook_def verify_github_signature_def char_in_def)
  then show ?thesis using run st by simp
qed

end
