(* ===== verification/MirrorCards.thy ===== *)
theory MirrorCards
  imports MirrorSerialization MirrorOrder
begin

text \<open>
  \<open>github_mirror_cards.py\<close>, the custom identifiers of \<open>github_mirror_components.py\<close> and the search for
  a delivery marker in a message of \<open>github_mirror_channel.py\<close>: what a card shows, which actions its
  buttons stand for, and how a card that was sent is found again.
\<close>

section \<open>The card of a record\<close>

text \<open>What the code takes from \<open>discord.py\<close>, and the arrow between the references, which is not among the
  characters of the model.\<close>

datatype button_style = LINK | PRIMARY | SECONDARY | SUCCESS

datatype accent_color = PURPLE | RED | LIGHT_GREY | GREEN

datatype button_target = Opens string | Triggers string

datatype card_button = Button (b_label: string) (b_style: button_style) (b_target: button_target)

record card_view =
  cv_heading :: string
  cv_details :: string
  cv_buttons :: "card_button list"
  cv_accent :: accent_color

record discord_library =
  dl_escape :: "string \<Rightarrow> string"
  dl_arrow :: string
  dl_total_children :: "card_view \<Rightarrow> nat"
  dl_content_length :: "card_view \<Rightarrow> nat"

definition ACTION_LABELS :: "(mirror_action \<times> string \<times> button_style) list" where
  "ACTION_LABELS =
    [(M_REVIEW, ''Review'', PRIMARY), (M_SECURITY_REVIEW, ''Security review'', SECONDARY),
     (M_VULNERABILITY_SCAN, ''Vulnerability scan'', SECONDARY), (M_WORK, ''Work on this'', SUCCESS)]"

definition github_mirror_delivery_marker :: "string \<Rightarrow> string" where
  "github_mirror_delivery_marker nonce = ''-# StudyOS delivery marker: `'' @ nonce @ ''`''"

definition heading :: "discord_library \<Rightarrow> mirror_record \<Rightarrow> string" where
  "heading lib r = ''### '' @ (if m_item_kind r = PULL_REQUEST then ''Pull request'' else ''Issue'')
     @ '' #'' @ int_str (m_item_number r) @ '': '' @ dl_escape lib (m_title r)"

fun state_title :: "item_state \<Rightarrow> string" where
  "state_title OPEN = ''Open''"
| "state_title DRAFT = ''Draft''"
| "state_title CLOSED = ''Closed''"
| "state_title MERGED = ''Merged''"

fun join_texts :: "string \<Rightarrow> string list \<Rightarrow> string" where
  "join_texts sep [] = []"
| "join_texts sep [s] = s"
| "join_texts sep (s # ss) = s @ sep @ join_texts sep ss"

definition delivery_nonce :: "mirror_record \<Rightarrow> string option" where
  "delivery_nonce r =
    (if m_card_create_nonce r \<in> {None, Some []} then m_card_cleanup_nonce r else m_card_create_nonce r)"

text \<open>The lines of \<open>_details\<close> before the marker.\<close>

definition shown_lines :: "discord_library \<Rightarrow> mirror_record \<Rightarrow> string list" where
  "shown_lines lib r =
    (let middot = char_of (183 :: nat) in
     [''**'' @ state_title (m_state r) @ ''** '' @ [middot] @ '' `'' @ dl_escape lib (m_repository r) @ ''` ''
          @ [middot] @ '' by `@'' @ dl_escape lib (m_author_login r) @ ''`'',
      dl_escape lib (m_activity r)]
     @ (if m_labels r \<noteq> []
        then [''Labels: '' @ join_texts '', '' (map (\<lambda>l. ''`'' @ dl_escape lib l @ ''`'') (m_labels r))] else [])
     @ (case (m_item_kind r, m_base_ref r, m_head_ref r) of
          (PULL_REQUEST, Some base, Some head) \<Rightarrow>
            if base \<noteq> [] \<and> head \<noteq> []
            then [''`'' @ dl_escape lib head @ ''` '' @ dl_arrow lib @ '' `'' @ dl_escape lib base @ ''`''] else []
        | _ \<Rightarrow> []))"

definition details :: "discord_library \<Rightarrow> mirror_record \<Rightarrow> string" where
  "details lib r = join_texts [char_of (10 :: nat)] (shown_lines lib r
     @ (case delivery_nonce r of None \<Rightarrow> [] | Some nonce \<Rightarrow> [github_mirror_delivery_marker nonce]))"

definition action_custom_id :: "mirror_action \<Rightarrow> string \<Rightarrow> string" where
  "action_custom_id a mirror_id = ''studyos:github:'' @ the (map_of action_values a) @ '':'' @ mirror_id"

definition buttons :: "mirror_record \<Rightarrow> card_button list" where
  "buttons r = Button ''Open on GitHub'' LINK (Opens (m_item_url r))
     # (if m_state r \<in> {OPEN, DRAFT}
        then map (\<lambda>(a, label, style). Button label style (Triggers (action_custom_id a (m_mirror_id r)))) ACTION_LABELS
        else [])"

fun accent_of :: "item_state \<Rightarrow> accent_color" where
  "accent_of MERGED = PURPLE"
| "accent_of CLOSED = RED"
| "accent_of DRAFT = LIGHT_GREY"
| "accent_of OPEN = GREEN"

definition github_mirror_view :: "discord_library \<Rightarrow> mirror_record \<Rightarrow> card_view result" where
  "github_mirror_view lib r =
    (let view = \<lparr>cv_heading = heading lib r, cv_details = details lib r, cv_buttons = buttons r,
                 cv_accent = accent_of (m_state r)\<rparr> in
     if 40 < dl_total_children lib view \<or> 4000 < dl_content_length lib view
     then Inl (ValueError ''GitHub mirror card exceeds Discord Components V2 bounds'') else Inr view)"

text \<open>\<open>github_mirror_card_signature\<close>: the fields that, according to its comment, can change the card.\<close>

definition github_mirror_card_signature where
  "github_mirror_card_signature (r :: mirror_record) =
    (m_mirror_id r, m_repository r, m_item_kind r, m_item_number r, m_item_url r, m_title r, m_state r,
     m_author_login r, m_labels r, m_base_ref r, m_head_ref r, m_activity r)"

section \<open>Buttons\<close>

text \<open>\<open>GITHUB_ACTION_TEMPLATE\<close>, matched against the whole identifier, and \<open>GitHubMirrorAction\<close> of its
  first group.\<close>

definition from_custom_id :: "string \<Rightarrow> (mirror_action \<times> string) option" where
  "from_custom_id s =
    (if take 15 s \<noteq> ''studyos:github:'' then None
     else case split_on CHR '':'' (drop 15 s) of
       [v, mirror_id] \<Rightarrow>
         if fullmatch_n is_lower_hex 32 mirror_id
         then map_option (\<lambda>(a, _). (a, mirror_id)) (List.find (\<lambda>(a, t). t = v) action_values) else None
     | _ \<Rightarrow> None)"

lemma split_on_none: "c \<notin> set s \<Longrightarrow> split_on c s = [s]"
  by (induction s) auto

lemma split_on_sep: "c \<notin> set a \<Longrightarrow> split_on c (a @ c # b) = a # split_on c b"
  by (induction a) auto

lemma split_on_two: "split_on c s = [a, b] \<longleftrightarrow> c \<notin> set a \<and> c \<notin> set b \<and> s = a @ c # b"
proof
  show "split_on c s = [a, b] \<Longrightarrow> c \<notin> set a \<and> c \<notin> set b \<and> s = a @ c # b"
  proof (induction s arbitrary: a)
    case (Cons x s)
    have one: "split_on c t = [d] \<Longrightarrow> c \<notin> set d \<and> t = d" for t d
      by (induction t arbitrary: d) (auto split: if_splits list.splits)
    show ?case
    proof (cases "x = c")
      case True
      then show ?thesis using Cons.prems one [of s b] by auto
    next
      case False
      then obtain a' where "a = x # a'" "split_on c s = [a', b]"
        using Cons.prems by (auto split: list.splits)
      then show ?thesis using Cons.IH [of a'] False by auto
    qed
  qed simp
qed (simp add: split_on_sep split_on_none)

lemma action_value: "map_of action_values a = Some v \<longleftrightarrow> List.find (\<lambda>(b, t). t = v) action_values = Some (a, v)"
  by (cases a) (auto simp: action_values_def split: if_splits)

lemma find_value_self:
  "(\<exists>v. List.find (\<lambda>(b, t). t = w) table = Some (a, v)) \<longleftrightarrow> List.find (\<lambda>(b, t). t = w) table = Some (a, w)"
  using find_SomeD by fastforce

lemma action_value_plain: "map_of action_values a = Some v \<Longrightarrow> CHR '':'' \<notin> set v"
  by (cases a) (auto simp: action_values_def)

lemma hex_no_colon: "fullmatch_n is_lower_hex n s \<Longrightarrow> CHR '':'' \<notin> set s"
proof -
  have "\<not> is_lower_hex CHR '':''" by code_simp
  then show "fullmatch_n is_lower_hex n s \<Longrightarrow> CHR '':'' \<notin> set s" by (auto simp: fullmatch_n_def list_all_iff)
qed

lemma action_value_total: "\<exists>v. map_of action_values a = Some v"
  by (cases a) (simp_all add: action_values_def)

text \<open>
  A button identifies its action: an identifier is accepted as action \<open>a\<close> on mirror \<open>k\<close> exactly
  when it is the one the card of \<open>k\<close> gives to \<open>a\<close>, and \<open>k\<close> has the form of a mirror identifier. No two
  buttons share an identifier, and no other text passes.
\<close>

theorem button_roundtrip:
  "from_custom_id s = Some (a, k) \<longleftrightarrow> s = action_custom_id a k \<and> fullmatch_n is_lower_hex 32 k"
proof -
  obtain v where v: "map_of action_values a = Some v" using action_value_total by blast
  have prefix: "s = ''studyos:github:'' @ t \<longleftrightarrow> take 15 s = ''studyos:github:'' \<and> drop 15 s = t" for t
    using append_eq_conv_conj [of "''studyos:github:''" t s] by (auto simp: eval_nat_numeral)
  have "from_custom_id s = Some (a, k) \<longleftrightarrow> take 15 s = ''studyos:github:''
      \<and> (\<exists>w. split_on CHR '':'' (drop 15 s) = [w, k] \<and> List.find (\<lambda>(b, t). t = w) action_values = Some (a, w))
      \<and> fullmatch_n is_lower_hex 32 k"
    by (auto simp: from_custom_id_def find_value_self [symmetric] split: list.splits)
  also have "\<dots> \<longleftrightarrow> take 15 s = ''studyos:github:'' \<and> split_on CHR '':'' (drop 15 s) = [v, k]
      \<and> fullmatch_n is_lower_hex 32 k"
    using v action_value by (metis option.inject)
  also have "\<dots> \<longleftrightarrow> s = action_custom_id a k \<and> fullmatch_n is_lower_hex 32 k"
    using action_value_plain [OF v] hex_no_colon [of 32 k] prefix [of "v @ CHR '':'' # k"] v
    by (auto simp: split_on_two action_custom_id_def)
  finally show ?thesis .
qed

section \<open>Cards\<close>

lemma join_texts_snoc: "xs \<noteq> [] \<Longrightarrow> join_texts sep (xs @ [x]) = join_texts sep xs @ sep @ x"
  by (induction sep xs rule: join_texts.induct) auto

lemma details_marker:
  "details lib r = join_texts [char_of (10 :: nat)] (shown_lines lib r)
     @ (case delivery_nonce r of None \<Rightarrow> [] | Some n \<Rightarrow> [char_of (10 :: nat)] @ github_mirror_delivery_marker n)"
proof -
  have "shown_lines lib r \<noteq> []" by (simp add: shown_lines_def Let_def)
  then show ?thesis by (simp add: details_def join_texts_snoc split: option.splits)
qed

lemma shown_lines_signature:
  "github_mirror_card_signature r = github_mirror_card_signature q \<Longrightarrow> shown_lines lib r = shown_lines lib q"
  by (simp add: github_mirror_card_signature_def shown_lines_def)

text \<open>
  The signature decides what a card shows except for the delivery marker: two records with one
  signature have the same heading, buttons, color and lines, and their cards are equal exactly
  when they also carry the same marker.
\<close>

theorem signature_up_to_marker:
  assumes "github_mirror_card_signature r = github_mirror_card_signature q"
  shows "heading lib r = heading lib q \<and> buttons r = buttons q \<and> accent_of (m_state r) = accent_of (m_state q)
    \<and> (details lib r = details lib q \<longleftrightarrow> delivery_nonce r = delivery_nonce q)"
proof -
  have "heading lib r = heading lib q" "buttons r = buttons q" "accent_of (m_state r) = accent_of (m_state q)"
    using assms by (simp_all add: github_mirror_card_signature_def heading_def buttons_def)
  moreover have "details lib r = details lib q \<longleftrightarrow> delivery_nonce r = delivery_nonce q"
    unfolding details_marker shown_lines_signature [OF assms]
    by (auto simp: github_mirror_delivery_marker_def split: option.splits)
  ultimately show ?thesis by blast
qed

definition plain_library :: discord_library where
  "plain_library = \<lparr>dl_escape = (\<lambda>s. s), dl_arrow = ''->'', dl_total_children = (\<lambda>v. 4 + length (cv_buttons v)),
     dl_content_length = (\<lambda>v. length (cv_heading v) + length (cv_details v))\<rparr>"

theorem signature_up_to_marker_witness:
  "details plain_library (example_mirror\<lparr>m_card_cleanup_nonce := Some ''gm:0123456789abcdefghijkl''\<rparr>)
     \<noteq> details plain_library example_mirror"
proof -
  let ?r = "example_mirror\<lparr>m_card_cleanup_nonce := Some ''gm:0123456789abcdefghijkl''\<rparr>"
  have "github_mirror_card_signature ?r = github_mirror_card_signature example_mirror"
    by (simp add: github_mirror_card_signature_def)
  from signature_up_to_marker [OF this, of plain_library] show ?thesis
    by (simp add: delivery_nonce_def example_mirror_def)
qed

end
