(* ===== verification/MirrorDiscord.thy ===== *)
theory MirrorDiscord
  imports MirrorCards
begin

text \<open>
  \<open>github_mirror_channel.py\<close> and \<open>github_mirror_discord.py\<close>: the checks on what Discord returns (channels,
  threads, cards, permissions) and the search of a channel's history for a delivery marker. Discord
  objects are records of the attributes the code reads; what the library answers is an argument.
\<close>

section \<open>Channels\<close>

datatype channel_type = TEXT | NEWS | PUBLIC_THREAD | OTHER_CHANNEL

record permissions =
  may_view_channel :: bool
  may_send_messages :: bool
  may_read_history :: bool
  may_create_public_threads :: bool
  may_send_in_threads :: bool

text \<open>A member is given by its identifier. The last two fields tell whether the object has the methods
  the code looks for, \<open>ch_me\<close> is \<open>channel.guild.me\<close>.\<close>

record channel =
  ch_id :: int
  ch_type :: channel_type
  ch_guild_id :: int
  ch_parent_id :: "int option"
  ch_locked :: bool
  ch_me :: "int option"
  ch_permissions :: "int option \<Rightarrow> permissions"
  ch_messageable :: bool
  ch_has_permissions :: bool
  ch_has_fetch :: bool

record guild =
  g_id :: int
  g_me :: "int option"

record card_message =
  cm_id :: int
  cm_channel :: channel

text \<open>What \<open>client.get_channel\<close>, \<open>client.fetch_channel\<close>, a channel's \<open>fetch_message\<close> and a card's
  \<open>create_thread\<close> answer.\<close>

record discord_client =
  dc_get_channel :: "int \<Rightarrow> channel option"
  dc_fetch_channel :: "int \<Rightarrow> channel result"
  dc_fetch_message :: "int \<Rightarrow> int \<Rightarrow> card_message result"
  dc_create_thread :: "int \<Rightarrow> string \<Rightarrow> channel result"

definition resolve_mirror_channel :: "discord_client \<Rightarrow> int option \<Rightarrow> int option \<Rightarrow> channel result" where
  "resolve_mirror_channel client guild channel =
    (case (guild, channel) of
       (Some guild_id, Some channel_id) \<Rightarrow>
         and_then (case dc_get_channel client channel_id of
             Some c \<Rightarrow> Inr c
           | None \<Rightarrow> (case dc_fetch_channel client channel_id of
               Inl DiscordNotFound \<Rightarrow>
                 Inl (GitHubMirrorConfigurationError ''Configured Discord PR channel does not exist'')
             | Inl DiscordForbidden \<Rightarrow> Inl GitHubMirrorChannelAccessError
             | r \<Rightarrow> r)) (\<lambda>c.
         if \<not> ch_messageable c
         then Inl (GitHubMirrorConfigurationError ''Configured Discord PR channel is not messageable'')
         else if ch_type c \<notin> {TEXT, NEWS}
         then Inl (GitHubMirrorConfigurationError
           ''Configured Discord PR channel must be a guild text or announcement channel'')
         else if ch_id c \<noteq> channel_id \<or> ch_guild_id c \<noteq> guild_id
         then Inl (GitHubMirrorConfigurationError
           ''Configured Discord PR channel is outside the configured guild'')
         else case ch_me c of
           None \<Rightarrow> Inl GitHubMirrorChannelAccessError
         | Some me \<Rightarrow>
             let p = ch_permissions c (Some me) in
             if \<not> (may_view_channel p \<and> may_send_messages p \<and> may_read_history p)
             then Inl GitHubMirrorChannelAccessError
             else Inr c)
     | _ \<Rightarrow> Inl (GitHubMirrorConfigurationError
         ''DISCORD_GUILD_ID and DISCORD_PR_CHANNEL_ID are required for GitHub mirrors''))"

section \<open>Delivery markers\<close>

text \<open>The objects of a message's view, by address, with the attributes the search reads: \<open>None\<close> as a
  reference is Python's \<open>None\<close>; \<open>cp_items\<close> are the elements of a list or tuple; an address beyond the
  heap is an object with none of these attributes.\<close>

type_synonym reference = "nat option"

record view_object =
  cp_content :: "string option"
  cp_items :: "reference list option"
  cp_children :: "reference list option"
  cp_components :: "reference list option"

definition object_at :: "view_object list \<Rightarrow> nat \<Rightarrow> view_object" where
  "object_at heap i = (if i < length heap then heap ! i
    else \<lparr>cp_content = None, cp_items = None, cp_children = None, cp_components = None\<rparr>)"

fun contains :: "string \<Rightarrow> string \<Rightarrow> bool" where
  "contains marker [] = (marker = [])"
| "contains marker (c # cs) = (take (length marker) (c # cs) = marker \<or> contains marker cs)"

definition marked :: "view_object list \<Rightarrow> string \<Rightarrow> nat \<Rightarrow> bool" where
  "marked heap marker i =
    (case cp_content (object_at heap i) of None \<Rightarrow> False | Some text \<Rightarrow> contains marker text)"

definition references_of :: "view_object list \<Rightarrow> nat \<Rightarrow> reference list" where
  "references_of heap i =
    (let or_empty = (\<lambda>v. case v of None \<Rightarrow> [] | Some rs \<Rightarrow> rs) in
     case cp_items (object_at heap i) of
       Some items \<Rightarrow> items
     | None \<Rightarrow> or_empty (cp_children (object_at heap i)) @ or_empty (cp_components (object_at heap i)))"

text \<open>The loop of \<open>_component_contains\<close>; the end of \<open>pending\<close>, where \<open>pop\<close> and \<open>extend\<close> work, is the head of
  the list.\<close>

function component_contains :: "view_object list \<Rightarrow> string \<Rightarrow> reference list \<Rightarrow> nat list \<Rightarrow> bool" where
  "component_contains heap marker [] seen = False"
| "component_contains heap marker (None # pending) seen = component_contains heap marker pending seen"
| "component_contains heap marker (Some i # pending) seen =
    (if i \<in> set seen then component_contains heap marker pending seen
     else if marked heap marker i then True
     else component_contains heap marker (rev (references_of heap i) @ pending) (i # seen))"
  by pat_completeness auto
termination
proof (relation "measures [\<lambda>(heap, marker, pending, seen). card ({..<length heap} - set seen),
    \<lambda>(heap, marker, pending, seen). length pending]", goal_cases)
  case (4 heap marker i pending seen)
  show ?case
  proof (cases "i < length heap")
    case True
    then have "{..<length heap} - set (i # seen) \<subset> {..<length heap} - set seen" using 4(1) by auto
    then show ?thesis by (simp add: psubset_card_mono)
  next
    case False
    then have "{..<length heap} - insert i (set seen) = {..<length heap} - set seen" by auto
    with False show ?thesis by (simp add: references_of_def object_at_def)
  qed
qed auto

definition view_edges :: "view_object list \<Rightarrow> (nat \<times> nat) set" where
  "view_edges heap = {(i, j). Some j \<in> set (references_of heap i)}"

lemma component_contains_reaches:
  assumes "\<And>i. i \<in> set seen \<Longrightarrow> \<not> marked heap marker i
      \<and> (\<forall>j. (i, j) \<in> view_edges heap \<longrightarrow> j \<in> set seen \<or> Some j \<in> set pending)"
  shows "component_contains heap marker pending seen
    \<longleftrightarrow> (\<exists>i \<in> (view_edges heap)\<^sup>* `` ({j. Some j \<in> set pending} \<union> set seen). marked heap marker i)"
  using assms
proof (induction heap marker pending seen rule: component_contains.induct)
  case (1 heap marker seen)
  then have "(view_edges heap)\<^sup>* `` set seen = set seen"
    by (intro Image_closed_trancl) auto
  then show ?case using 1 by auto
next
  case (2 heap marker pending seen)
  have "{j. Some j \<in> set (None # pending)} = {j. Some j \<in> set pending}" by auto
  then show ?case using 2(1) 2(2) by simp
next
  case (3 heap marker i pending seen)
  let ?E = "view_edges heap"
  show ?case
  proof (cases "i \<in> set seen")
    case True
    then have s: "{j. Some j \<in> set (Some i # pending)} \<union> set seen = {j. Some j \<in> set pending} \<union> set seen" by auto
    have "component_contains heap marker pending seen
        \<longleftrightarrow> (\<exists>i \<in> ?E\<^sup>* `` ({j. Some j \<in> set pending} \<union> set seen). marked heap marker i)"
      using True 3(3) by (intro 3(1)) fastforce+
    with True s show ?thesis by simp
  next
    case new: False
    show ?thesis
    proof (cases "marked heap marker i")
      case True
      have "i \<in> ?E\<^sup>* `` ({j. Some j \<in> set (Some i # pending)} \<union> set seen)" by auto
      with True new show ?thesis by auto
    next
      case False
      let ?pending = "rev (references_of heap i) @ pending"
      have IH: "component_contains heap marker ?pending (i # seen)
        \<longleftrightarrow> (\<exists>k \<in> ?E\<^sup>* `` ({j. Some j \<in> set ?pending} \<union> set (i # seen)). marked heap marker k)"
        using new False 3(3) by (intro 3(2)) (fastforce simp: view_edges_def)+
      have "{j. Some j \<in> set ?pending} \<union> set (i # seen)
          = ?E `` {i} \<union> ({j. Some j \<in> set (Some i # pending)} \<union> set seen)"
        by (auto simp: view_edges_def)
      moreover have "?E\<^sup>* `` (?E `` {i} \<union> A) = ?E\<^sup>* `` A" if "i \<in> A" for A
        using that by (auto intro: converse_rtrancl_into_rtrancl)
      ultimately show ?thesis using IH new False by simp
    qed
  qed
qed

text \<open>
  The search of a message ends on every object graph, cyclic ones included, and is exact: it
  finds the marker if and only if some object reachable from the root has a text with the marker in
  it.
\<close>

theorem component_search_exact:
  "component_contains heap marker [root] []
     \<longleftrightarrow> (\<exists>start i. root = Some start \<and> (start, i) \<in> (view_edges heap)\<^sup>* \<and> marked heap marker i)"
  using component_contains_reaches [of "[]" heap marker "[root]"] by auto

section \<open>Messages of the bot\<close>

record mirror_message =
  mm_id :: int
  mm_nonce :: "string option"
  mm_author :: "int option"
  mm_view :: reference
  mm_components :: reference

definition has_delivery_marker :: "view_object list \<Rightarrow> mirror_message \<Rightarrow> string \<Rightarrow> bool" where
  "has_delivery_marker heap message nonce \<longleftrightarrow> mm_nonce message = Some nonce
     \<or> (\<exists>root \<in> {mm_view message, mm_components message}.
          component_contains heap (github_mirror_delivery_marker nonce) [root] [])"

text \<open>The history is the list of messages with the exception that ends the iteration, if any.\<close>

definition find_bot_delivery_messages ::
    "view_object list \<Rightarrow> channel \<Rightarrow> mirror_message list \<times> exn option \<Rightarrow> string \<Rightarrow> mirror_message list result" where
  "find_bot_delivery_messages heap c history nonce =
    (case ch_me c of
       None \<Rightarrow> Inl GitHubMirrorChannelAccessError
     | Some me \<Rightarrow>
         if me \<le> 0 then Inl GitHubMirrorChannelAccessError
         else case snd history of
           Some DiscordForbidden \<Rightarrow> Inl GitHubMirrorChannelAccessError
         | Some e \<Rightarrow> Inl e
         | None \<Rightarrow> Inr (filter (\<lambda>m. mm_author m = Some me \<and> has_delivery_marker heap m nonce) (fst history)))"

section \<open>Interactions with a card\<close>

record interaction =
  i_id :: int
  i_guild :: "guild option"
  i_guild_id :: "int option"
  i_channel_id :: "int option"
  i_user :: "int option"
  i_message :: "card_message option"

text \<open>The loop over \<open>(actor, "You")\<close> and \<open>(bot, "StudyOS")\<close>.\<close>

definition check_members :: "(permissions \<Rightarrow> bool) \<Rightarrow> channel \<Rightarrow> int option \<Rightarrow> int option \<Rightarrow> string \<Rightarrow> unit result" where
  "check_members allowed c actor own complaint =
    (if \<not> allowed (ch_permissions c actor) then Inl (GitHubMirrorDiscordError (''You cannot '' @ complaint))
     else if \<not> allowed (ch_permissions c own) then Inl (GitHubMirrorDiscordError (''StudyOS cannot '' @ complaint))
     else Inr ())"

definition validate_parent_permissions ::
    "mirror_record \<Rightarrow> card_message \<Rightarrow> guild \<Rightarrow> int option \<Rightarrow> unit result" where
  "validate_parent_permissions r message g actor =
    (let c = cm_channel message in
     if g_id g \<noteq> m_guild_id r \<or> ch_id c \<noteq> m_channel_id r \<or> ch_type c \<noteq> TEXT \<or> \<not> ch_has_permissions c
     then Inl (GitHubMirrorDiscordError ''GitHub actions require the mirrored server text channel.'')
     else check_members (\<lambda>p. may_view_channel p \<and> may_create_public_threads p \<and> may_send_in_threads p)
       c actor (g_me g) ''create and use a public thread in this channel.'')"

definition validated_button :: "mirror_record \<Rightarrow> interaction \<Rightarrow> card_message result" where
  "validated_button r i =
    (case (i_guild i, i_message i) of
       (Some g, Some message) \<Rightarrow>
         if i_guild_id i \<noteq> Some (m_guild_id r) \<or> i_channel_id i \<noteq> Some (m_channel_id r)
           \<or> Some (cm_id message) \<noteq> m_card_message_id r \<or> ch_id (cm_channel message) \<noteq> m_channel_id r
         then Inl (GitHubMirrorDiscordError ''This GitHub card is no longer current.'')
         else and_then (validate_parent_permissions r message g (i_user i)) (\<lambda>_. Inr message)
     | _ \<Rightarrow> Inl (GitHubMirrorDiscordError ''This GitHub card is no longer current.''))"

definition validate_modal ::
    "mirror_record \<Rightarrow> interaction \<Rightarrow> int \<Rightarrow> int \<Rightarrow> card_message \<Rightarrow> unit result" where
  "validate_modal r i expected_card_id expected_actor_id message =
    (case i_guild i of
       None \<Rightarrow> Inl (GitHubMirrorDiscordError ''This GitHub action is no longer authorized.'')
     | Some g \<Rightarrow>
         if i_guild_id i \<noteq> Some (m_guild_id r) \<or> i_channel_id i \<noteq> Some (m_channel_id r)
           \<or> i_user i \<noteq> Some expected_actor_id \<or> m_card_message_id r \<noteq> Some expected_card_id
           \<or> cm_id message \<noteq> expected_card_id
         then Inl (GitHubMirrorDiscordError ''This GitHub action is no longer authorized.'')
         else validate_parent_permissions r message g (i_user i))"

section \<open>Cards and threads\<close>

definition fetch_item_channel :: "discord_client \<Rightarrow> int option \<Rightarrow> bool \<Rightarrow> channel option result" where
  "fetch_item_channel client channel_id allow_missing =
    (case channel_id of
       None \<Rightarrow> Inr None
     | Some k \<Rightarrow>
         (case dc_get_channel client k of
            Some c \<Rightarrow> Inr (Some c)
          | None \<Rightarrow>
              (case dc_fetch_channel client k of
                 Inr c \<Rightarrow> Inr (Some c)
               | Inl DiscordNotFound \<Rightarrow> if allow_missing then Inr None
                   else Inl (GitHubMirrorDiscordError ''The GitHub item channel is no longer available.'')
               | Inl e \<Rightarrow> Inl e)))"

definition fetch_card_message :: "discord_client \<Rightarrow> mirror_record \<Rightarrow> guild \<Rightarrow> card_message result" where
  "fetch_card_message client r g =
    (case m_card_message_id r of
       None \<Rightarrow> Inl (GitHubMirrorDiscordError ''This GitHub item has no current Discord card.'')
     | Some card_id \<Rightarrow>
         and_then (fetch_item_channel client (Some (m_channel_id r)) False) (\<lambda>found.
         case found of
           None \<Rightarrow> Inl (GitHubMirrorDiscordError ''The mirrored GitHub channel is unavailable.'')
         | Some c \<Rightarrow>
             if ch_type c \<noteq> TEXT \<or> ch_guild_id c \<noteq> g_id g \<or> \<not> ch_has_fetch c
             then Inl (GitHubMirrorDiscordError ''The mirrored GitHub channel is unavailable.'')
             else (case dc_fetch_message client (ch_id c) card_id of
                 Inl DiscordNotFound \<Rightarrow> Inl (GitHubMirrorDiscordError ''The mirrored GitHub card is unavailable.'')
               | Inl e \<Rightarrow> Inl e
               | Inr message \<Rightarrow>
                   if cm_id message \<noteq> card_id
                   then Inl (GitHubMirrorDiscordError ''Discord returned the wrong GitHub card.'')
                   else Inr message)))"

definition validated_thread :: "channel option \<Rightarrow> mirror_record \<Rightarrow> guild \<Rightarrow> int option \<Rightarrow> channel result" where
  "validated_thread candidate r g actor =
    (case candidate of
       None \<Rightarrow> Inl (GitHubMirrorDiscordError ''The GitHub item thread is not a usable public thread.'')
     | Some t \<Rightarrow>
         if ch_type t \<noteq> PUBLIC_THREAD \<or> ch_parent_id t \<noteq> Some (m_channel_id r) \<or> ch_locked t
           \<or> \<not> ch_has_permissions t
         then Inl (GitHubMirrorDiscordError ''The GitHub item thread is not a usable public thread.'')
         else and_then (check_members (\<lambda>p. may_view_channel p \<and> may_send_in_threads p)
             t actor (g_me g) ''use the GitHub item thread.'') (\<lambda>_. Inr t))"

definition thread_name :: "mirror_record \<Rightarrow> string" where
  "thread_name r = (if m_item_kind r = PULL_REQUEST then ''pr'' else ''issue'')
     @ ''-'' @ int_str (m_item_number r) @ ''-studyos''"

definition resolve_or_create_thread ::
    "discord_client \<Rightarrow> mirror_record \<Rightarrow> card_message \<Rightarrow> guild \<Rightarrow> int option \<Rightarrow> channel result" where
  "resolve_or_create_thread client r message g actor =
    and_then (validate_parent_permissions r message g actor) (\<lambda>_.
    if m_thread_id r \<noteq> None then
      and_then (fetch_item_channel client (m_thread_id r) False) (\<lambda>existing.
      validated_thread existing r g actor)
    else
      and_then (fetch_item_channel client (m_card_message_id r) True) (\<lambda>recovered.
      if recovered \<noteq> None then validated_thread recovered r g actor
      else (case dc_create_thread client (cm_id message) (thread_name r) of
          Inl e \<Rightarrow> if is_http_exception e
            then Inl (GitHubMirrorDiscordError ''StudyOS could not create the GitHub item thread.'') else Inl e
        | Inr created \<Rightarrow> validated_thread (Some created) r g actor)))"

section \<open>Properties\<close>

text \<open>
  The publisher only ever writes to the configured channel: a resolved channel has the
  configured identifier and guild, is a text or announcement channel the bot is a member of, and
  the bot may view it, send to it and read its history. Without configured identifiers there is no
  channel.
\<close>

theorem resolved_channel_vetted:
  assumes "resolve_mirror_channel client guild channel = Inr c"
  shows "guild = Some (ch_guild_id c) \<and> channel = Some (ch_id c) \<and> ch_type c \<in> {TEXT, NEWS}
    \<and> (\<exists>me. ch_me c = Some me \<and> may_view_channel (ch_permissions c (Some me))
         \<and> may_send_messages (ch_permissions c (Some me)) \<and> may_read_history (ch_permissions c (Some me)))"
  using assms unfolding resolve_mirror_channel_def
  by (cases guild; cases channel) (auto simp: and_then_eq_Inr Let_def split: if_splits option.splits)

text \<open>
  A task runs only in a usable thread of its item: a thread that is resolved or created is an
  unlocked public thread of the mirrored channel, in which the actor and the bot may read and write,
  and the card it belongs to is in that channel of the record's guild. A record that already has a
  thread gets the channel Discord knows under that identifier, never a new one.
\<close>

theorem resolved_thread_vetted:
  assumes "resolve_or_create_thread client r message g actor = Inr t"
  shows "ch_type t = PUBLIC_THREAD \<and> ch_parent_id t = Some (m_channel_id r) \<and> \<not> ch_locked t
    \<and> may_view_channel (ch_permissions t actor) \<and> may_send_in_threads (ch_permissions t actor)
    \<and> may_view_channel (ch_permissions t (g_me g)) \<and> may_send_in_threads (ch_permissions t (g_me g))
    \<and> g_id g = m_guild_id r \<and> ch_id (cm_channel message) = m_channel_id r
    \<and> (\<forall>k. m_thread_id r = Some k \<longrightarrow> fetch_item_channel client (Some k) False = Inr (Some t))"
proof -
  have thread: "validated_thread (Some t) r g actor = Inr t \<and> c = Some t" if "validated_thread c r g actor = Inr t" for c
    using that by (auto simp: validated_thread_def and_then_eq_Inr split: option.splits if_splits)
  obtain c where c: "validate_parent_permissions r message g actor = Inr ()" "validated_thread c r g actor = Inr t"
    "\<And>k. m_thread_id r = Some k \<Longrightarrow> fetch_item_channel client (Some k) False = Inr c"
    using assms unfolding resolve_or_create_thread_def
    by (auto simp: and_then_eq_Inr split: if_splits sum.splits)
  have "ch_type t = PUBLIC_THREAD \<and> ch_parent_id t = Some (m_channel_id r) \<and> \<not> ch_locked t
    \<and> may_view_channel (ch_permissions t actor) \<and> may_send_in_threads (ch_permissions t actor)
    \<and> may_view_channel (ch_permissions t (g_me g)) \<and> may_send_in_threads (ch_permissions t (g_me g))"
    using thread [OF c(2)] by (auto simp: validated_thread_def check_members_def split: if_splits)
  moreover have "g_id g = m_guild_id r" "ch_id (cm_channel message) = m_channel_id r"
    using c(1) by (auto simp: validate_parent_permissions_def Let_def split: if_splits)
  ultimately show ?thesis using thread [OF c(2)] c(3) by blast
qed

section \<open>A channel with a thread\<close>

definition example_channel :: channel where
  "example_channel = \<lparr>ch_id = 6, ch_type = TEXT, ch_guild_id = 5, ch_parent_id = None, ch_locked = False,
     ch_me = Some 9, ch_permissions = (\<lambda>_. \<lparr>may_view_channel = True, may_send_messages = True,
       may_read_history = True, may_create_public_threads = True, may_send_in_threads = True\<rparr>),
     ch_messageable = True, ch_has_permissions = True, ch_has_fetch = True\<rparr>"

definition example_thread :: channel where
  "example_thread = example_channel\<lparr>ch_id := 70, ch_type := PUBLIC_THREAD, ch_parent_id := Some 6\<rparr>"

definition example_guild :: guild where
  "example_guild = \<lparr>g_id = 5, g_me = Some 9\<rparr>"

definition example_card :: card_message where
  "example_card = \<lparr>cm_id = 60, cm_channel = example_channel\<rparr>"

definition example_client :: discord_client where
  "example_client = \<lparr>dc_get_channel = (\<lambda>k. if k = 6 then Some example_channel else None),
     dc_fetch_channel = (\<lambda>_. Inl DiscordNotFound), dc_fetch_message = (\<lambda>_ _. Inr example_card),
     dc_create_thread = (\<lambda>_ _. Inr example_thread)\<rparr>"

lemmas example_discord = example_channel_def example_thread_def example_guild_def example_card_def example_client_def

theorem resolved_channel_vetted_witness: "ch_type example_channel \<in> {TEXT, NEWS}"
proof -
  have "resolve_mirror_channel example_client (Some 5) (Some 6) = Inr example_channel"
    by (simp add: resolve_mirror_channel_def example_discord)
  from resolved_channel_vetted [OF this] show ?thesis by blast
qed

theorem resolved_thread_vetted_witness: "ch_type example_thread = PUBLIC_THREAD \<and> \<not> ch_locked example_thread"
proof -
  have "resolve_or_create_thread example_client (example_mirror\<lparr>m_card_message_id := Some 60\<rparr>) example_card
      example_guild (Some 8) = Inr example_thread"
    by (simp add: resolve_or_create_thread_def validate_parent_permissions_def validated_thread_def
        check_members_def fetch_item_channel_def example_discord example_mirror_def)
  from resolved_thread_vetted [OF this] show ?thesis by blast
qed

end
