(* ===== verification/Effects.thy ===== *)
theory Effects
  imports Prelude
begin

text \<open>
  The coroutines of the gateway as programs on an explicit state: a program returns a result (a value or
  an exception) and the state it leaves. An \<open>await\<close> gives its outcome and what the other coroutines did
  to the state in the meantime. Weakest preconditions, with one postcondition for values and one
  for exceptions, are computed by simplification with the collection \<open>wp\<close>.
\<close>

section \<open>Programs\<close>

type_synonym ('s, 'a) prog = "'s \<Rightarrow> 'a result \<times> 's"

type_synonym ('s, 'a) await = "'a result \<times> ('s \<Rightarrow> 's)"

definition return :: "'a \<Rightarrow> ('s, 'a) prog" where
  "return x = (\<lambda>s. (Inr x, s))"

definition raise :: "exn \<Rightarrow> ('s, 'a) prog" where
  "raise e = (\<lambda>s. (Inl e, s))"

definition bind :: "('s, 'a) prog \<Rightarrow> ('a \<Rightarrow> ('s, 'b) prog) \<Rightarrow> ('s, 'b) prog" where
  "bind m f = (\<lambda>s. case m s of (Inl e, s') \<Rightarrow> (Inl e, s') | (Inr x, s') \<Rightarrow> f x s')"

text \<open>\<open>try: m except: h(e)\<close>; a handler re-raises what its clauses do not catch.\<close>

definition try_catch :: "('s, 'a) prog \<Rightarrow> (exn \<Rightarrow> ('s, 'a) prog) \<Rightarrow> ('s, 'a) prog" where
  "try_catch m h = (\<lambda>s. case m s of (Inl e, s') \<Rightarrow> h e s' | (Inr x, s') \<Rightarrow> (Inr x, s'))"

text \<open>\<open>try: m finally: c\<close>.\<close>

definition ensuring :: "('s, 'a) prog \<Rightarrow> ('s, unit) prog \<Rightarrow> ('s, 'a) prog" where
  "ensuring m c = (\<lambda>s. case m s of (r, s') \<Rightarrow>
     (case c s' of (Inl e, s'') \<Rightarrow> (Inl e, s'') | (Inr _, s'') \<Rightarrow> (r, s'')))"

text \<open>The same with a clause that does nothing after an accepted outcome.\<close>

definition ensuring_unless :: "('a \<Rightarrow> bool) \<Rightarrow> ('s, 'a) prog \<Rightarrow> ('s, unit) prog \<Rightarrow> ('s, 'a) prog" where
  "ensuring_unless accepted m c = (\<lambda>s. case m s of (r, s') \<Rightarrow>
     (if (case r of Inl _ \<Rightarrow> False | Inr x \<Rightarrow> accepted x) then (r, s')
      else (case c s' of (Inl e, s'') \<Rightarrow> (Inl e, s'') | (Inr _, s'') \<Rightarrow> (r, s''))))"

text \<open>\<open>try: m except BaseException: c; raise\<close>.\<close>

abbreviation on_error :: "('s, 'a) prog \<Rightarrow> ('s, unit) prog \<Rightarrow> ('s, 'a) prog" where
  "on_error m c \<equiv> try_catch m (\<lambda>e. bind c (\<lambda>_. raise e))"

text \<open>Closing several things: all of them are tried, the first exception is raised.\<close>

fun close_loop :: "exn option \<Rightarrow> ('s, unit) prog list \<Rightarrow> ('s, unit) prog" where
  "close_loop first [] = (case first of None \<Rightarrow> return () | Some e \<Rightarrow> raise e)"
| "close_loop first (m # ms) =
    bind (try_catch (bind m (\<lambda>_. return first)) (\<lambda>e. return (case first of None \<Rightarrow> Some e | Some f \<Rightarrow> Some f)))
      (\<lambda>first'. close_loop first' ms)"

definition close_all :: "('s, unit) prog list \<Rightarrow> ('s, unit) prog" where
  "close_all = close_loop None"

definition from_result :: "'a result \<Rightarrow> ('s, 'a) prog" where
  "from_result r = (\<lambda>s. (r, s))"

definition reading :: "('s \<Rightarrow> 'a result) \<Rightarrow> ('s, 'a) prog" where
  "reading f = (\<lambda>s. (f s, s))"

definition modify :: "('s \<Rightarrow> 's) \<Rightarrow> ('s, unit) prog" where
  "modify f = (\<lambda>s. (Inr (), f s))"

definition awaiting :: "('s, 'a) await \<Rightarrow> ('s, 'a) prog" where
  "awaiting a = (\<lambda>s. (fst a, snd a s))"

text \<open>An operation on a component of the state.\<close>

definition zoomed :: "('s \<Rightarrow> 'c) \<Rightarrow> ('c \<Rightarrow> 's \<Rightarrow> 's) \<Rightarrow> ('c \<Rightarrow> 'a result \<times> 'c) \<Rightarrow> ('s, 'a) prog" where
  "zoomed get put m = (\<lambda>s. case m (get s) of (r, c) \<Rightarrow> (r, put c s))"

definition is_exception :: "exn \<Rightarrow> bool" where
  "is_exception e \<longleftrightarrow> e \<noteq> CancelledError"

text \<open>\<open>except Exception: pass\<close>.\<close>

definition suppressed :: "('s, unit) prog \<Rightarrow> ('s, unit) prog" where
  "suppressed m = try_catch m (\<lambda>e. if is_exception e then return () else raise e)"

section \<open>Weakest preconditions\<close>

definition wp :: "('s, 'a) prog \<Rightarrow> ('a \<Rightarrow> 's \<Rightarrow> bool) \<Rightarrow> (exn \<Rightarrow> 's \<Rightarrow> bool) \<Rightarrow> 's \<Rightarrow> bool" where
  "wp m Q E s = (case m s of (Inr x, s') \<Rightarrow> Q x s' | (Inl e, s') \<Rightarrow> E e s')"

named_theorems wp "weakest preconditions of programs"

text \<open>The equations are between predicates, so that they also apply under another \<open>wp\<close>.\<close>

lemma wp_basic [wp]:
  "wp (return x) Q E = Q x"
  "wp (raise e) Q E = E e"
  "wp (modify f) R E = (\<lambda>s. R () (f s))"
  "wp (from_result r) Q E = (\<lambda>s. case r of Inr x \<Rightarrow> Q x s | Inl e \<Rightarrow> E e s)"
  "wp (reading g) Q E = (\<lambda>s. case g s of Inr x \<Rightarrow> Q x s | Inl e \<Rightarrow> E e s)"
  "wp (awaiting a) Q E = (\<lambda>s. case fst a of Inr x \<Rightarrow> Q x (snd a s) | Inl e \<Rightarrow> E e (snd a s))"
  by (auto simp: wp_def return_def raise_def modify_def from_result_def reading_def awaiting_def fun_eq_iff
      split: sum.splits)

lemma wp_bind [wp]: "wp (bind m f) Q E = wp m (\<lambda>x. wp (f x) Q E) E"
  by (auto simp: wp_def bind_def fun_eq_iff split: sum.splits prod.splits)

lemma wp_try_catch [wp]: "wp (try_catch m h) Q E = wp m Q (\<lambda>e. wp (h e) Q E)"
  by (auto simp: wp_def try_catch_def fun_eq_iff split: sum.splits prod.splits)

lemma wp_ensuring [wp]:
  "wp (ensuring m c) Q E = wp m (\<lambda>x. wp c (\<lambda>_. Q x) E) (\<lambda>e. wp c (\<lambda>_. E e) E)"
proof (rule ext)
  fix s
  show "wp (ensuring m c) Q E s = wp m (\<lambda>x. wp c (\<lambda>_. Q x) E) (\<lambda>e. wp c (\<lambda>_. E e) E) s"
  proof (cases "m s")
    case (Pair r t)
    then show ?thesis by (cases r; cases "fst (c t)") (auto simp: wp_def ensuring_def split: sum.splits prod.splits)
  qed
qed

lemma wp_ensuring_unless [wp]:
  "wp (ensuring_unless p m c) Q E =
    wp m (\<lambda>x s. if p x then Q x s else wp c (\<lambda>_. Q x) E s) (\<lambda>e. wp c (\<lambda>_. E e) E)"
proof (rule ext)
  fix s
  show "wp (ensuring_unless p m c) Q E s =
    wp m (\<lambda>x s. if p x then Q x s else wp c (\<lambda>_. Q x) E s) (\<lambda>e. wp c (\<lambda>_. E e) E) s"
  proof (cases "m s")
    case (Pair r t)
    then show ?thesis
      by (cases r; cases "fst (c t)") (auto simp: wp_def ensuring_unless_def split: sum.splits prod.splits)
  qed
qed

lemma wp_suppressed [wp]: "wp (suppressed m) Q E = wp m Q (\<lambda>e. if is_exception e then Q () else E e)"
  by (auto simp: wp_def suppressed_def try_catch_def return_def raise_def fun_eq_iff split: sum.splits prod.splits)

lemma wp_if [wp]: "wp (if b then m else n) Q E = (if b then wp m Q E else wp n Q E)"
  by simp

lemma wp_mono:
  assumes "wp m Q E s" and "\<And>x s'. Q x s' \<Longrightarrow> Q' x s'" and "\<And>e s'. E e s' \<Longrightarrow> E' e s'"
  shows "wp m Q' E' s"
  using assms by (auto simp: wp_def split: sum.splits prod.splits)

text \<open>A claim about every outcome is one about the state after the program.\<close>

lemma wp_state: "wp m (\<lambda>_. P) (\<lambda>_. P) s \<longleftrightarrow> P (snd (m s))"
  by (auto simp: wp_def split: sum.splits prod.splits)

lemma wp_outcome: "m s = (r, s') \<Longrightarrow> wp m Q E s \<longleftrightarrow> (case r of Inr x \<Rightarrow> Q x s' | Inl e \<Rightarrow> E e s')"
  by (simp add: wp_def split: sum.splits)

end
