(* ===== verification/MirrorPublisher.thy ===== *)
theory MirrorPublisher
  imports MirrorStoreProps MirrorDiscord Effects
begin

text \<open>
  \<open>github_mirror_publisher.py\<close>: how the card of a mirrored item is created in the configured channel,
  brought up to date, found again after an uncertain send and replaced when it was deleted. The store is
  that of \<open>MirrorStore\<close>, the checks of the channel and the search of its history are those of
  \<open>MirrorDiscord\<close>. What Discord answers may differ from call to call, so it is indexed by the number of
  calls made so far; after a call other coroutines, and other processes on the same directory, may have
  changed everything.
\<close>

section \<open>State\<close>

text \<open>\<open>ps_shown\<close> records what Discord accepted: the message and the record whose view it was sent or edited with.\<close>

record pub_state =
  ps_mirrors :: mirror_store
  ps_calls :: nat
  ps_shown :: "(int \<times> mirror_record) list"

record publisher =
  pb_guild :: "int option"
  pb_channel :: "int option"
  pb_client :: "nat \<Rightarrow> discord_client"
  pb_library :: discord_library
  pb_store :: "nat \<Rightarrow> mirror_env"
  pb_send :: "nat \<Rightarrow> mirror_message result"
  pb_fetch :: "nat \<Rightarrow> int \<Rightarrow> mirror_message result"
  pb_edit :: "nat \<Rightarrow> mirror_message \<Rightarrow> unit result"
  pb_delete :: "nat \<Rightarrow> mirror_message \<Rightarrow> unit result"
  pb_history :: "nat \<Rightarrow> view_object list \<times> mirror_message list \<times> exn option"
  pb_between :: "nat \<Rightarrow> pub_state \<Rightarrow> pub_state"

type_synonym 'a publication = "(pub_state, 'a) prog"

definition RECONCILE_ATTEMPTS :: nat where
  "RECONCILE_ATTEMPTS = 8"

text \<open>A call of Discord, with what it leaves on record, and an operation of the store.\<close>

definition discord_call :: "publisher \<Rightarrow> (nat \<Rightarrow> 'a result) \<Rightarrow> ('a \<Rightarrow> (int \<times> mirror_record) list) \<Rightarrow> 'a publication" where
  "discord_call p answer accepted = (\<lambda>s.
    let n = ps_calls s; r = answer n; new = (case r of Inl _ \<Rightarrow> [] | Inr x \<Rightarrow> accepted x) in
    (r, pb_between p n (s\<lparr>ps_calls := n + 1, ps_shown := new @ ps_shown s\<rparr>)))"

definition on_mirrors :: "publisher \<Rightarrow> (mirror_env \<Rightarrow> mirror_store \<Rightarrow> 'a mirror_op) \<Rightarrow> 'a publication" where
  "on_mirrors p f = (\<lambda>s.
    let n = ps_calls s in
    case f (pb_store p n) (ps_mirrors s) of
      (r, st) \<Rightarrow> (r, pb_between p n (s\<lparr>ps_mirrors := st, ps_calls := n + 1\<rparr>)))"

definition pub_get :: "publisher \<Rightarrow> string \<Rightarrow> mirror_record publication" where
  "pub_get p k = on_mirrors p (\<lambda>env st. (get_mirror (me_read env) st k, st))"

definition find_messages :: "publisher \<Rightarrow> channel \<Rightarrow> string \<Rightarrow> mirror_message list publication" where
  "find_messages p ch nonce = discord_call p
    (\<lambda>n. case pb_history p n of (heap, history) \<Rightarrow> find_bot_delivery_messages heap ch history nonce) (\<lambda>_. [])"

section \<open>One card\<close>

definition forbidden :: "exn \<Rightarrow> exn" where
  "forbidden e = (if e = DiscordForbidden then GitHubMirrorChannelAccessError else e)"

definition render_card :: "publisher \<Rightarrow> mirror_message \<Rightarrow> mirror_record \<Rightarrow> unit publication" where
  "render_card p message r =
    try_catch (bind (from_result (github_mirror_view (pb_library p) r)) (\<lambda>_.
        discord_call p (\<lambda>n. pb_edit p n message) (\<lambda>_. [(mm_id message, r)])))
      (\<lambda>e. raise (forbidden e))"

fun reconcile_loop :: "publisher \<Rightarrow> nat \<Rightarrow> mirror_message \<Rightarrow> string \<Rightarrow> int \<Rightarrow> mirror_record publication" where
  "reconcile_loop p 0 message mirror_id rendered_revision =
    raise (RuntimeError ''GitHub mirror card did not reach a stable revision'')"
| "reconcile_loop p (Suc attempts) message mirror_id rendered_revision =
    bind (pub_get p mirror_id) (\<lambda>canonical.
    if m_card_message_id canonical \<noteq> Some (mm_id message) then return canonical
    else bind (if m_revision canonical \<noteq> rendered_revision
               then bind (render_card p message canonical) (\<lambda>_. return (m_revision canonical))
               else return rendered_revision) (\<lambda>rendered_revision.
    bind (pub_get p mirror_id) (\<lambda>latest.
    if m_card_message_id latest \<noteq> Some (mm_id message) then return latest
    else if m_revision latest = rendered_revision then return latest
    else reconcile_loop p attempts message mirror_id rendered_revision)))"

definition reconcile_card :: "publisher \<Rightarrow> mirror_message \<Rightarrow> mirror_record \<Rightarrow> mirror_record publication" where
  "reconcile_card p message rendered =
    reconcile_loop p RECONCILE_ATTEMPTS message (m_mirror_id rendered) (m_revision rendered)"

fun delete_except :: "publisher \<Rightarrow> int option \<Rightarrow> mirror_message list \<Rightarrow> unit publication" where
  "delete_except p keep [] = return ()"
| "delete_except p keep (candidate # rest) =
    bind (if Some (mm_id candidate) = keep then return ()
          else try_catch (discord_call p (\<lambda>n. pb_delete p n candidate) (\<lambda>_. []))
            (\<lambda>e. if e = DiscordNotFound then return () else raise e)) (\<lambda>_.
    delete_except p keep rest)"

definition delete_nonce_matches :: "publisher \<Rightarrow> channel \<Rightarrow> string \<Rightarrow> int option \<Rightarrow> unit publication" where
  "delete_nonce_matches p ch nonce keep = bind (find_messages p ch nonce) (delete_except p keep)"

fun delete_uncommitted_cards :: "publisher \<Rightarrow> mirror_message list \<Rightarrow> bool publication" where
  "delete_uncommitted_cards p [] = return True"
| "delete_uncommitted_cards p (message # rest) =
    bind (try_catch (bind (discord_call p (\<lambda>n. pb_delete p n message) (\<lambda>_. [])) (\<lambda>_. return True))
        (\<lambda>e. if e = DiscordNotFound then return True else if is_exception e then return False else raise e)) (\<lambda>gone.
    bind (delete_uncommitted_cards p rest) (\<lambda>removed. return (gone \<and> removed)))"

definition cleanup_duplicates ::
    "publisher \<Rightarrow> channel \<Rightarrow> mirror_message \<Rightarrow> mirror_record \<Rightarrow> mirror_record publication" where
  "cleanup_duplicates p ch message r =
    (case m_card_cleanup_nonce r of
       None \<Rightarrow> return r
     | Some nonce \<Rightarrow>
         bind (delete_nonce_matches p ch nonce (Some (mm_id message))) (\<lambda>_.
         bind (on_mirrors p (\<lambda>env st. complete_card_cleanup env st (m_mirror_id r) nonce)) (\<lambda>(cleaned, _).
         if github_mirror_card_signature cleaned = github_mirror_card_signature r then return cleaned
         else bind (render_card p message cleaned) (\<lambda>_. reconcile_card p message cleaned))))"

text \<open>\<open>message\<close> or the message fetched for the record; \<open>None\<close> when it does not exist.\<close>

definition attached_message ::
    "publisher \<Rightarrow> int \<Rightarrow> mirror_message option \<Rightarrow> mirror_message option publication" where
  "attached_message p card_id message =
    (if map_option mm_id message = Some card_id then return message
     else try_catch (bind (discord_call p (\<lambda>n. pb_fetch p n card_id) (\<lambda>_. [])) (\<lambda>m. return (Some m)))
       (\<lambda>e. if e = DiscordNotFound then return None else raise (forbidden e)))"

fun least_message :: "mirror_message \<Rightarrow> mirror_message list \<Rightarrow> mirror_message" where
  "least_message best [] = best"
| "least_message best (m # ms) = least_message (if mm_id m < mm_id best then m else best) ms"

text \<open>The send, and its \<open>except\<close> clauses: when the outcome is unknown, the messages are those of the history.\<close>

definition send_failed ::
    "publisher \<Rightarrow> channel \<Rightarrow> mirror_record \<Rightarrow> string \<Rightarrow> exn \<Rightarrow> mirror_message list publication" where
  "send_failed p ch r nonce e =
    (if e = DiscordForbidden then
       bind (on_mirrors p (\<lambda>env st. release_card_creation env st (m_mirror_id r) nonce)) (\<lambda>_.
       raise GitHubMirrorChannelAccessError)
     else if is_http_exception e then
       bind (find_messages p ch nonce) (\<lambda>matches. if matches \<noteq> [] then return matches else raise e)
     else raise e)"

definition send_card ::
    "publisher \<Rightarrow> channel \<Rightarrow> mirror_record \<Rightarrow> string \<Rightarrow> mirror_message list publication" where
  "send_card p ch r nonce =
    try_catch (bind (from_result (github_mirror_view (pb_library p) r)) (\<lambda>_.
        bind (discord_call p (\<lambda>n. pb_send p n) (\<lambda>m. [(mm_id m, r)])) (\<lambda>m. return [m])))
      (send_failed p ch r nonce)"

text \<open>\<open>finish\<close> is \<open>_finish_attached_card\<close> with the message that was sent.\<close>

definition best_effort_reconcile ::
    "publisher \<Rightarrow> string \<Rightarrow> (mirror_record \<Rightarrow> mirror_record publication) \<Rightarrow> unit publication" where
  "best_effort_reconcile p mirror_id finish =
    suppressed (bind (pub_get p mirror_id) (\<lambda>canonical.
      if m_card_message_id canonical \<noteq> None then bind (finish canonical) (\<lambda>_. return ()) else return ()))"

section \<open>Creating, finishing and replacing\<close>

text \<open>The four methods call each other without bound, since a card may be deleted as often as it is
  created; \<open>fuel\<close> is the depth of the interpreter's stack, whose exhaustion is a \<open>RecursionError\<close>, a
  \<open>RuntimeError\<close>.\<close>

definition recursion_error :: exn where
  "recursion_error = RuntimeError ''maximum recursion depth exceeded''"

fun create_card :: "publisher \<Rightarrow> channel \<Rightarrow> nat \<Rightarrow> mirror_record \<Rightarrow> mirror_record publication"
and attach_created_cards ::
    "publisher \<Rightarrow> channel \<Rightarrow> nat \<Rightarrow> mirror_message list \<Rightarrow> mirror_record \<Rightarrow> mirror_record publication"
and finish_attached_card ::
    "publisher \<Rightarrow> channel \<Rightarrow> nat \<Rightarrow> mirror_record \<Rightarrow> mirror_message option \<Rightarrow> nat \<Rightarrow> mirror_record publication"
and replace_missing_card :: "publisher \<Rightarrow> channel \<Rightarrow> nat \<Rightarrow> mirror_record \<Rightarrow> mirror_record publication" where
  "create_card p ch 0 r = raise recursion_error"
| "create_card p ch (Suc fuel) r =
    bind (on_mirrors p (\<lambda>env st. claim_card_creation env st (m_mirror_id r))) (\<lambda>(r, claimed).
    if m_card_message_id r \<noteq> None then finish_attached_card p ch fuel r None 0
    else case m_card_create_nonce r of
        None \<Rightarrow> raise (RuntimeError ''pending Discord mirror card creation has no nonce'')
      | Some nonce \<Rightarrow>
          bind (if claimed then return [] else find_messages p ch nonce) (\<lambda>matches.
          bind (if matches \<noteq> [] then return matches else send_card p ch r nonce) (\<lambda>messages.
          attach_created_cards p ch fuel messages r)))"
| "attach_created_cards p ch 0 messages r = raise recursion_error"
| "attach_created_cards p ch (Suc fuel) messages r =
    (let message = least_message (hd messages) (tl messages) in
     if mm_id message \<le> 0 then raise (RuntimeError ''Discord returned an invalid mirror card ID'')
     else case m_card_create_nonce r of
        None \<Rightarrow> raise (RuntimeError ''pending Discord mirror card creation has no nonce'')
      | Some nonce \<Rightarrow>
          bind (try_catch
              (on_mirrors p (\<lambda>env st. attach_card_if_missing env st (m_mirror_id r) (mm_id message) nonce))
              (\<lambda>e. if e = TaskStoreDurabilityError then
                  bind (best_effort_reconcile p (m_mirror_id r)
                      (\<lambda>canonical. finish_attached_card p ch fuel canonical (Some message) 0)) (\<lambda>_. raise e)
                else if is_exception e then
                  bind (delete_uncommitted_cards p messages) (\<lambda>removed.
                  bind (if removed
                        then bind (on_mirrors p (\<lambda>env st. release_card_creation env st (m_mirror_id r) nonce))
                          (\<lambda>_. return ())
                        else return ()) (\<lambda>_. raise e))
                else raise e)) (\<lambda>(retained, attached).
          finish_attached_card p ch fuel retained (Some message) 0))"
| "finish_attached_card p ch 0 r message redirects = raise recursion_error"
| "finish_attached_card p ch (Suc fuel) r message redirects =
    (if RECONCILE_ATTEMPTS \<le> redirects
     then raise (RuntimeError ''GitHub mirror card identity did not reach a stable revision'')
     else case m_card_message_id r of
        None \<Rightarrow> raise AssertionError
      | Some card_id \<Rightarrow>
          bind (attached_message p card_id message) (\<lambda>found.
          case found of
            None \<Rightarrow> replace_missing_card p ch fuel r
          | Some message \<Rightarrow>
              try_catch
                (bind (render_card p message r) (\<lambda>_.
                 bind (reconcile_card p message r) (\<lambda>retained.
                 if m_card_message_id retained \<noteq> Some (mm_id message)
                 then finish_attached_card p ch fuel retained None (redirects + 1)
                 else bind (cleanup_duplicates p ch message retained) (\<lambda>retained.
                 if m_card_message_id retained \<noteq> Some (mm_id message)
                 then finish_attached_card p ch fuel retained None (redirects + 1)
                 else return retained))))
                (\<lambda>e. if e = DiscordNotFound then replace_missing_card p ch fuel r else raise e)))"
| "replace_missing_card p ch 0 r = raise recursion_error"
| "replace_missing_card p ch (Suc fuel) r =
    (case m_card_message_id r of
       None \<Rightarrow> raise AssertionError
     | Some missing_message_id \<Rightarrow>
         bind (case m_card_cleanup_nonce r of
             None \<Rightarrow> return r
           | Some nonce \<Rightarrow>
               bind (delete_nonce_matches p ch nonce None) (\<lambda>_.
               bind (on_mirrors p (\<lambda>env st. complete_card_cleanup env st (m_mirror_id r) nonce)) (\<lambda>(r, _).
               return r))) (\<lambda>r.
         bind (on_mirrors p (\<lambda>env st. clear_card_if_matches env st (m_mirror_id r) missing_message_id)) (\<lambda>(cleared, _).
         if m_card_message_id cleared = None then create_card p ch fuel cleared
         else finish_attached_card p ch fuel cleared None 0)))"

section \<open>Publishing\<close>

fun publish_loop :: "publisher \<Rightarrow> channel \<Rightarrow> nat \<Rightarrow> nat \<Rightarrow> string \<Rightarrow> mirror_record publication" where
  "publish_loop p ch fuel 0 mirror_id =
    raise (RuntimeError ''GitHub mirror publication did not reach a stable revision'')"
| "publish_loop p ch fuel (Suc attempts) mirror_id =
    bind (pub_get p mirror_id) (\<lambda>r.
    bind (if m_card_message_id r = None then create_card p ch fuel r
          else finish_attached_card p ch fuel r None 0) (\<lambda>delivered.
    bind (on_mirrors p (\<lambda>env st. complete_publication env st mirror_id (m_revision delivered))) (\<lambda>(completed, _).
    if \<not> m_publication_pending completed then return completed
    else publish_loop p ch fuel attempts mirror_id)))"

definition publish_staged :: "publisher \<Rightarrow> nat \<Rightarrow> string \<Rightarrow> mirror_record publication" where
  "publish_staged p fuel mirror_id =
    bind (pub_get p mirror_id) (\<lambda>r.
    if (Some (m_guild_id r), Some (m_channel_id r)) \<noteq> (pb_guild p, pb_channel p)
    then raise (GitHubMirrorConfigurationError ''Persisted GitHub mirror destination does not match this publisher'')
    else bind (discord_call p (\<lambda>n. resolve_mirror_channel (pb_client p n) (pb_guild p) (pb_channel p)) (\<lambda>_. [])) (\<lambda>ch.
    publish_loop p ch fuel RECONCILE_ATTEMPTS mirror_id))"

definition publish :: "publisher \<Rightarrow> nat \<Rightarrow> mirror_event \<Rightarrow> mirror_record publication" where
  "publish p fuel e =
    (case (pb_guild p, pb_channel p) of
       (Some guild_id, Some channel_id) \<Rightarrow>
         bind (on_mirrors p (\<lambda>env st. upsert_event env st e guild_id channel_id)) (\<lambda>(r, _).
         publish_staged p fuel (m_mirror_id r))
     | _ \<Rightarrow> raise (GitHubMirrorConfigurationError
         ''DISCORD_GUILD_ID and DISCORD_PR_CHANNEL_ID are required for GitHub mirrors''))"

end
