(* ===== verification/MirrorPublisherProps.thy ===== *)
theory MirrorPublisherProps
  imports MirrorPublisher MirrorLifecycle
begin

text \<open>
  The publisher's promise: a record is only marked as published when its content was accepted by Discord
  on the card it names. It holds of the store at every moment, whatever Discord answers and whatever other
  coroutines do to the store meanwhile, as long as they keep it as well.
\<close>

section \<open>The invariant and the order of states\<close>

definition displayed :: "pub_state \<Rightarrow> mirror_record \<Rightarrow> bool" where
  "displayed s r \<longleftrightarrow> (\<exists>m v. m_card_message_id r = Some m \<and> (m, v) \<in> set (ps_shown s)
     \<and> github_mirror_card_signature v = github_mirror_card_signature r)"

text \<open>What a card shows: the content Discord accepted last for the message.\<close>

definition shows_last :: "pub_state \<Rightarrow> mirror_record \<Rightarrow> bool" where
  "shows_last s r \<longleftrightarrow> (case m_card_message_id r of None \<Rightarrow> False
     | Some m \<Rightarrow> (case map_of (ps_shown s) m of None \<Rightarrow> False
         | Some v \<Rightarrow> github_mirror_card_signature v = github_mirror_card_signature r))"

definition pub_ok :: "pub_state \<Rightarrow> bool" where
  "pub_ok s \<longleftrightarrow> mirror_ok (ps_mirrors s)
     \<and> (\<forall>k r. mirror_map (ps_mirrors s) k = Some r \<and> \<not> m_publication_pending r \<longrightarrow> displayed s r)"

text \<open>A record that is or was in the store.\<close>

definition known :: "mirror_record \<Rightarrow> pub_state \<Rightarrow> bool" where
  "known r s \<longleftrightarrow> (\<exists>q. mirror_map (ps_mirrors s) (m_mirror_id r) = Some q \<and> carried r q)"

definition evolves :: "pub_state \<Rightarrow> pub_state \<Rightarrow> bool" where
  "evolves s s' \<longleftrightarrow> pub_ok s' \<and> set (ps_shown s) \<subseteq> set (ps_shown s')
     \<and> (\<forall>k r. mirror_map (ps_mirrors s) k = Some r \<longrightarrow> (\<exists>q. mirror_map (ps_mirrors s') k = Some q \<and> carried r q))"

lemma evolves_ok: "evolves s s' \<Longrightarrow> pub_ok s'"
  by (simp add: evolves_def)

lemma evolves_refl: "pub_ok s \<Longrightarrow> evolves s s"
  by (simp add: evolves_def carried_def)

lemma evolves_trans: "evolves s' s'' \<Longrightarrow> evolves s s' \<Longrightarrow> evolves s s''"
  unfolding evolves_def using carried_trans by (meson subset_trans)

lemma known_mono: "evolves s s' \<Longrightarrow> known r s \<Longrightarrow> known r s'"
  unfolding evolves_def known_def using carried_trans by meson

lemma displayed_mono: "evolves s s' \<Longrightarrow> displayed s r \<Longrightarrow> displayed s' r"
  unfolding evolves_def displayed_def by blast

lemma shown_mono: "evolves s s' \<Longrightarrow> x \<in> set (ps_shown s) \<Longrightarrow> x \<in> set (ps_shown s')"
  by (auto simp: evolves_def)

lemma stored_known:
  assumes "pub_ok s" and "mirror_map (ps_mirrors s) k = Some r"
  shows "m_mirror_id r = k" and "known r s" and "m_publication_pending r \<or> displayed s r"
    and "known v s \<Longrightarrow> m_mirror_id v = k \<Longrightarrow> carried v r"
proof -
  obtain records where l: "load_mirrors READ_OK (ms_directory (ps_mirrors s)) = Inr records" "records_ok records"
    using assms(1) by (auto simp: pub_ok_def mirror_ok_def)
  then have "map_ok (mirror_map (ps_mirrors s))" by (simp add: mirror_map_def records_ok_def)
  from map_okD(1) [OF this assms(2)] show k: "m_mirror_id r = k" .
  then show "known r s" using assms(2) by (simp add: known_def carried_def)
  show "m_publication_pending r \<or> displayed s r" using assms by (auto simp: pub_ok_def)
  show "known v s \<Longrightarrow> m_mirror_id v = k \<Longrightarrow> carried v r" using assms(2) by (simp add: known_def)
qed

section \<open>Operations of the store\<close>

lemma evolvesI:
  assumes "pub_ok s" and "refines (ps_mirrors s) st"
    and "\<And>k r. mirror_map st k = Some r \<Longrightarrow> m_publication_pending r \<or> displayed s r"
  shows "evolves s (s\<lparr>ps_mirrors := st\<rparr>)"
proof -
  have "displayed (s\<lparr>ps_mirrors := st\<rparr>) r = displayed s r" for r by (simp add: displayed_def)
  then show ?thesis
    using assms item_step_carries [of "mirror_map (ps_mirrors s)" "mirror_map st"]
    unfolding evolves_def pub_ok_def refines_def by fastforce
qed

text \<open>A body that returns the record it finds or stores, and stores a published record only if it is shown.\<close>

definition body_shows :: "string \<Rightarrow> pub_state \<Rightarrow> (mirrors \<Rightarrow> (mirror_record option \<times> mirror_record \<times> 'a) result) \<Rightarrow> bool" where
  "body_shows k s body \<longleftrightarrow> (\<forall>records o' x v. records_ok records \<and> mirror_map (ps_mirrors s) = map_of records
     \<and> body records = Inr (o', x, v) \<longrightarrow>
       (\<exists>r. map_of records k = Some r \<and> (case o' of None \<Rightarrow> x = r
          | Some y \<Rightarrow> y = x \<and> (m_publication_pending x \<or> displayed s x))))"

lemma mutation_evolves:
  assumes "pub_ok s" and m: "mutation env rd (ps_mirrors s) body = (res, st)"
    and "steps_record k body" and "body_shows k s body"
  shows "evolves s (s\<lparr>ps_mirrors := st\<rparr>)" and "res = Inr (x, v) \<Longrightarrow> mirror_map st k = Some x"
proof -
  have ok: "mirror_ok (ps_mirrors s)" using assms(1) by (simp add: pub_ok_def)
  have c: "committable rd (ps_mirrors s) body"
    using steps_record_ok [OF assms(3)] unfolding committable_def by blast
  have keep: "m_publication_pending r \<or> displayed s r" if "mirror_map (ps_mirrors s) j = Some r" for j r
    by (rule stored_known(3) [OF assms(1) that])
  have "(\<forall>j r. mirror_map st j = Some r \<longrightarrow> m_publication_pending r \<or> displayed s r)
      \<and> (\<forall>x v. res = Inr (x, v) \<longrightarrow> mirror_map st k = Some x)"
    using mutation_cases [OF ok m c]
  proof (elim disjE exE conjE)
    fix e assume "res = Inl e" "untouched (ps_mirrors s) st"
    then show ?thesis using keep untouched_map [of "ps_mirrors s" st] by simp
  next
    fix records w assume l: "canonical_records rd (ps_mirrors s) = Inr records" "body records = Inr (None, w)"
      "res = Inr w" "st = ps_mirrors s"
    obtain y u where w: "w = (y, u)" by (cases w) auto
    have "map_of records k = Some y"
      using assms(4) canonical_ok [OF ok l(1)] canonical_map [OF l(1)] l(2) w by (fastforce simp: body_shows_def)
    then show ?thesis using keep l(3,4) w canonical_map [OF l(1)] by auto
  next
    fix records r w assume l: "canonical_records rd (ps_mirrors s) = Inr records" "body records = Inr (Some r, w)"
      "res \<in> {Inr w, Inl TaskStoreDurabilityError}" "stored_record (ps_mirrors s) r st"
    obtain y u where w: "w = (y, u)" by (cases w) auto
    have y: "r = y" "m_publication_pending y \<or> displayed s y"
      using assms(4) canonical_ok [OF ok l(1)] canonical_map [OF l(1)] l(2) w by (fastforce simp: body_shows_def)+
    obtain q where q: "map_of records k = Some q" "succeeds q {} r"
      using assms(3) canonical_ok [OF ok l(1)] l(2) unfolding steps_record_def by blast
    have "m_mirror_id q = k"
      by (rule stored_known(1) [OF assms(1)]) (simp add: canonical_map [OF l(1)] q(1))
    then have "m_mirror_id r = k" using q(2) by (simp add: succeeds_def)
    then have "mirror_map st = (mirror_map (ps_mirrors s))(k \<mapsto> y)" using l(4) y(1) by (simp add: stored_record_def)
    then show ?thesis using keep y(2) l(3) w by auto
  qed
  then have a: "\<And>j r. mirror_map st j = Some r \<Longrightarrow> m_publication_pending r \<or> displayed s r"
    and b: "res = Inr (x, v) \<Longrightarrow> mirror_map st k = Some x" by blast+
  show "evolves s (s\<lparr>ps_mirrors := st\<rparr>)"
    by (rule evolvesI [OF assms(1) steps_record_refines [OF ok m assms(3)] a])
  show "res = Inr (x, v) \<Longrightarrow> mirror_map st k = Some x" by (rule b)
qed

lemma guarded_evolves:
  assumes "pub_ok s" and g: "guarded_mutation env (ps_mirrors s) body = (res, st)"
    and "steps_record k body" and "body_shows k s body"
  shows "evolves s (s\<lparr>ps_mirrors := st\<rparr>)" and "res = Inr (x, v) \<Longrightarrow> mirror_map st k = Some x"
proof -
  have "(st = ps_mirrors s \<and> (\<exists>e. res = Inl e)) \<or> mutation env (me_read env) (ps_mirrors s) body = (res, st)"
    using g by (auto simp: guarded_mutation_def split: sum.splits)
  then show "evolves s (s\<lparr>ps_mirrors := st\<rparr>)" "res = Inr (x, v) \<Longrightarrow> mirror_map st k = Some x"
    using mutation_evolves [OF assms(1) _ assms(3,4)] evolves_refl [OF assms(1)] by fastforce+
qed

section \<open>The bodies\<close>

lemma stamped_displayed:
  assumes "immutable_part r = immutable_part c" and "m_card_message_id c = m_card_message_id r" and "displayed s r"
  shows "displayed s (stamped r c ts)"
  using assms by (auto simp: displayed_def immutable_part_def stamped_def github_mirror_card_signature_def)

lemma updated_displayed:
  assumes "updated_record r f ts = Inr x"
    and "\<And>c. f r = Inr c \<Longrightarrow> \<not> m_publication_pending c \<Longrightarrow> m_card_message_id c = m_card_message_id r \<and> displayed s r"
  shows "m_publication_pending x \<or> displayed s x"
proof -
  obtain c where c: "f r = Inr c" "immutable_part r = immutable_part c" "x = stamped r c ts"
    using assms(1) by (auto simp: updated_record_Inr)
  show ?thesis
  proof (cases "m_publication_pending c")
    case False
    then show ?thesis using assms(2) [OF c(1)] stamped_displayed [OF c(2)] c(3) by blast
  qed (simp add: c(3) stamped_def)
qed

lemma displayed_card: "displayed s r \<Longrightarrow> m_card_message_id r \<noteq> None"
  by (auto simp: displayed_def)

lemma body_showsI:
  assumes "pub_ok s"
    and "\<And>records o' x v. mirror_map (ps_mirrors s) = map_of records \<Longrightarrow> body records = Inr (o', x, v) \<Longrightarrow> \<exists>r. map_of records k = Some r
       \<and> (o' = None \<and> x = r \<or> o' = Some x \<and> (\<exists>ts f. updated_record r f ts = Inr x
            \<and> (\<forall>c. f r = Inr c \<and> \<not> m_publication_pending c \<longrightarrow>
                 m_card_message_id r = None \<and> \<not> m_publication_pending r
                 \<or> m_card_message_id c = m_card_message_id r \<and> (m_publication_pending r \<longrightarrow> displayed s r))))"
  shows "body_shows k s body"
  unfolding body_shows_def
proof (intro allI impI, elim conjE)
  fix records o' x v assume r: "records_ok records" "mirror_map (ps_mirrors s) = map_of records"
    "body records = Inr (o', x, v)"
  from assms(2) [OF r(2,3)] obtain q where q: "map_of records k = Some q"
    and c: "o' = None \<and> x = q \<or> o' = Some x \<and> (\<exists>ts f. updated_record q f ts = Inr x
            \<and> (\<forall>c. f q = Inr c \<and> \<not> m_publication_pending c \<longrightarrow>
                 m_card_message_id q = None \<and> \<not> m_publication_pending q
                 \<or> m_card_message_id c = m_card_message_id q \<and> (m_publication_pending q \<longrightarrow> displayed s q)))"
    by blast
  have d: "m_publication_pending q \<or> displayed s q" by (rule stored_known(3) [OF assms(1), of k]) (simp add: r(2) q)
  from c show "\<exists>r. map_of records k = Some r \<and> (case o' of None \<Rightarrow> x = r
      | Some y \<Rightarrow> y = x \<and> (m_publication_pending x \<or> displayed s x))"
  proof (elim disjE conjE exE)
    fix ts f assume o: "o' = Some x" and u: "updated_record q f ts = Inr x"
      and f: "\<forall>c. f q = Inr c \<and> \<not> m_publication_pending c \<longrightarrow>
                 m_card_message_id q = None \<and> \<not> m_publication_pending q
                 \<or> m_card_message_id c = m_card_message_id q \<and> (m_publication_pending q \<longrightarrow> displayed s q)"
    have "m_publication_pending x \<or> displayed s x"
      by (rule updated_displayed [OF u]) (use f d displayed_card in blast)
    then show ?thesis using q o by simp
  qed (use q in simp)
qed


lemma claim_shows: "pub_ok s \<Longrightarrow> body_shows k s (claim_card_body env k)"
  by (rule body_showsI)
     (force simp: claim_card_body_def and_then_eq_Inr find_mirror_Inr stamp_record_Inr claim_card_record_def
       make_mirror_Inr split: if_splits)+

lemma attach_shows: "pub_ok s \<Longrightarrow> body_shows k s (attach_card_body env k msg nonce)"
  by (rule body_showsI)
     (force simp: attach_card_body_def and_then_eq_Inr find_mirror_Inr stamp_record_Inr attach_card_record_def
       queue_card_cleanup_record_def make_mirror_Inr split: if_splits)+

lemma release_shows: "pub_ok s \<Longrightarrow> body_shows k s (release_card_body env k nonce)"
  by (rule body_showsI)
     (force simp: release_card_body_def and_then_eq_Inr find_mirror_Inr stamp_record_Inr
       release_card_creation_record_def make_mirror_Inr split: if_splits)+

lemma cleanup_shows: "pub_ok s \<Longrightarrow> body_shows k s (cleanup_body env k nonce)"
  by (rule body_showsI)
     (force simp: cleanup_body_def and_then_eq_Inr find_mirror_Inr stamp_record_Inr
       complete_card_cleanup_record_def make_mirror_Inr split: if_splits)+

lemma clear_shows: "pub_ok s \<Longrightarrow> body_shows k s (clear_card_body env k msg)"
  by (rule body_showsI)
     (force simp: clear_card_body_def and_then_eq_Inr find_mirror_Inr stamp_record_Inr
       clear_card_record_def make_mirror_Inr split: if_splits)+

lemma publication_shows:
  assumes "pub_ok s" and "known d s" and "displayed s d" and "m_mirror_id d = k"
  shows "body_shows k s (publication_body env k (m_revision d))"
proof (rule body_showsI [OF assms(1)])
  fix records o' x v assume m: "mirror_map (ps_mirrors s) = map_of records"
    and b: "publication_body env k (m_revision d) records = Inr (o', x, v)"
  from b obtain r where r: "map_of records k = Some r"
    and c: "o' = None \<and> x = r \<or> m_revision r = m_revision d \<and> o' = Some x
      \<and> (\<exists>ts. updated_record r (\<lambda>r. make_mirror (r\<lparr>m_publication_pending := False\<rparr>)) ts = Inr x)"
    by (auto simp: publication_body_def and_then_eq_Inr find_mirror_Inr stamp_record_Inr split: if_splits)
  have "m_revision r = m_revision d \<Longrightarrow> r = d"
    using stored_known(4) [OF assms(1) _ assms(2,4), of r] m r by (simp add: carried_def)
  then have "m_revision r = m_revision d \<Longrightarrow> displayed s r" using assms(3) by simp
  with r c show "\<exists>r. map_of records k = Some r
       \<and> (o' = None \<and> x = r \<or> o' = Some x \<and> (\<exists>ts f. updated_record r f ts = Inr x
            \<and> (\<forall>c. f r = Inr c \<and> \<not> m_publication_pending c \<longrightarrow>
                 m_card_message_id r = None \<and> \<not> m_publication_pending r
                 \<or> m_card_message_id c = m_card_message_id r \<and> (m_publication_pending r \<longrightarrow> displayed s r))))"
    by (force simp: make_mirror_Inr)
qed

text \<open>What a program that returns a record of the item \<open>k\<close> may assume of it.\<close>

definition item :: "string \<Rightarrow> mirror_record \<Rightarrow> pub_state \<Rightarrow> bool" where
  "item k r s \<longleftrightarrow> m_mirror_id r = k \<and> known r s"

lemma item_mono: "evolves s s' \<Longrightarrow> item k r s \<Longrightarrow> item k r s'"
  by (simp add: item_def known_mono)

section \<open>Rules for programs\<close>

text \<open>Discord fetches the message it is asked for; the others keep the invariant and never go back.\<close>

definition fair :: "publisher \<Rightarrow> bool" where
  "fair p \<longleftrightarrow> (\<forall>n s. pub_ok s \<longrightarrow> evolves s (pb_between p n s))
     \<and> (\<forall>n k m. pb_fetch p n k = Inr m \<longrightarrow> mm_id m = k)"

text \<open>Nobody else shows anything, and whatever the others change in the item they leave it marked for publication, as
  the arrival of an event does.\<close>

definition unseen :: "publisher \<Rightarrow> bool" where
  "unseen p \<longleftrightarrow> (\<forall>n s. ps_shown (pb_between p n s) = ps_shown s)"

definition alone :: "publisher \<Rightarrow> string \<Rightarrow> bool" where
  "alone p k \<longleftrightarrow> unseen p \<and> (\<forall>n s r. mirror_map (ps_mirrors s) k = Some r \<longrightarrow>
     rel_option (\<lambda>q r. q = r \<or> m_publication_pending q) (mirror_map (ps_mirrors (pb_between p n s)) k) (Some r))"

text \<open>A record that is the stored one unless the item was marked since.\<close>

definition fresh :: "publisher \<Rightarrow> string \<Rightarrow> mirror_record \<Rightarrow> pub_state \<Rightarrow> bool" where
  "fresh p k x s \<longleftrightarrow> (alone p k \<longrightarrow>
     rel_option (\<lambda>q r. q = r \<or> m_publication_pending q) (mirror_map (ps_mirrors s) k) (Some x))"

lemma alone_unseen: "alone p k \<Longrightarrow> unseen p"
  by (simp add: alone_def)

lemma fresh_between:
  assumes "fresh p k x s"
  shows "fresh p k x (pb_between p n s)"
  unfolding fresh_def
proof
  assume a: "alone p k"
  then obtain q where q: "mirror_map (ps_mirrors s) k = Some q" "q = x \<or> m_publication_pending q"
    using assms by (auto simp: fresh_def option_rel_Some2)
  then obtain q' where "mirror_map (ps_mirrors (pb_between p n s)) k = Some q'" "q' = q \<or> m_publication_pending q'"
    using a by (fastforce simp: alone_def option_rel_Some2)
  then show "rel_option (\<lambda>q r. q = r \<or> m_publication_pending q) (mirror_map (ps_mirrors (pb_between p n s)) k) (Some x)"
    using q(2) by auto
qed

lemma fresh_fields [simp]: "fresh p k x (s\<lparr>ps_calls := n\<rparr>) = fresh p k x s"
  by (simp add: fresh_def)

named_theorems evolving "rules for programs of the publisher"

lemma pub_ok_fields: "pub_ok s \<Longrightarrow> evolves s (s\<lparr>ps_calls := n, ps_shown := new @ ps_shown s\<rparr>)"
proof -
  have "displayed s r \<Longrightarrow> displayed (s\<lparr>ps_calls := n, ps_shown := new @ ps_shown s\<rparr>) r" for r
    by (auto simp: displayed_def)
  then show "pub_ok s \<Longrightarrow> evolves s (s\<lparr>ps_calls := n, ps_shown := new @ ps_shown s\<rparr>)"
    by (auto simp: pub_ok_def evolves_def carried_def)
qed

lemma pub_ok_calls: "pub_ok s \<Longrightarrow> evolves s (s\<lparr>ps_calls := n\<rparr>)"
  using pub_ok_fields [where s = s and new = "[]" and n = n] by simp

lemma evolving_call [evolving]:
  assumes "pub_ok s" and "fair p"
    and "\<And>x s' n. evolves s s' \<Longrightarrow> answer n = Inr x \<Longrightarrow> set (accepted x) \<subseteq> set (ps_shown s')
      \<Longrightarrow> unseen p \<longrightarrow> ps_shown s' = accepted x @ ps_shown s \<Longrightarrow> Q x s'"
    and "\<And>e s'. evolves s s' \<Longrightarrow> unseen p \<longrightarrow> ps_shown s' = ps_shown s \<Longrightarrow> E e s'"
  shows "wp (discord_call p answer accepted) Q E s"
proof -
  have e: "evolves s (pb_between p n (s\<lparr>ps_calls := m, ps_shown := new @ ps_shown s\<rparr>))"
    and shown: "set new \<subseteq> set (ps_shown (pb_between p n (s\<lparr>ps_calls := m, ps_shown := new @ ps_shown s\<rparr>)))" for n m new
  proof -
    let ?t = "s\<lparr>ps_calls := m, ps_shown := new @ ps_shown s\<rparr>"
    have a: "evolves s ?t" by (rule pub_ok_fields [OF assms(1)])
    moreover have b: "evolves ?t (pb_between p n ?t)" using assms(2) evolves_ok [OF a] by (simp add: fair_def)
    ultimately show "evolves s (pb_between p n ?t)" using evolves_trans by blast
    show "set new \<subseteq> set (ps_shown (pb_between p n ?t))" using shown_mono [OF b] by auto
  qed
  show ?thesis
  proof (cases "answer (ps_calls s)")
    case (Inl err)
    have "E err (pb_between p (ps_calls s) (s\<lparr>ps_calls := ps_calls s + 1, ps_shown := [] @ ps_shown s\<rparr>))"
      by (rule assms(4) [OF e]) (simp add: unseen_def)
    then show ?thesis using Inl by (simp add: wp_def discord_call_def Let_def)
  next
    case (Inr x)
    have "Q x (pb_between p (ps_calls s) (s\<lparr>ps_calls := ps_calls s + 1, ps_shown := accepted x @ ps_shown s\<rparr>))"
      by (rule assms(3) [OF e Inr shown]) (simp add: unseen_def)
    then show ?thesis using Inr by (simp add: wp_def discord_call_def Let_def)
  qed
qed

lemma evolving_op:
  assumes "pub_ok s" and "fair p"
    and "\<And>env st' res. f env (ps_mirrors s) = (res, st') \<Longrightarrow> evolves s (s\<lparr>ps_mirrors := st'\<rparr>)"
    and "\<And>env st' x v. f env (ps_mirrors s) = (Inr (x, v), st') \<Longrightarrow> mirror_map st' k = Some x"
    and "\<And>x v s'. evolves s s' \<Longrightarrow> item k x s' \<Longrightarrow> m_publication_pending x \<or> displayed s' x
      \<Longrightarrow> fresh p k x s' \<Longrightarrow> unseen p \<longrightarrow> ps_shown s' = ps_shown s
      \<Longrightarrow> \<exists>env st'. f env (ps_mirrors s) = (Inr (x, v), st') \<Longrightarrow> Q (x, v) s'"
    and "\<And>e s'. evolves s s' \<Longrightarrow> E e s'"
  shows "wp (on_mirrors p f) Q E s"
proof -
  obtain res st where f: "f (pb_store p (ps_calls s)) (ps_mirrors s) = (res, st)" by fastforce
  let ?t = "s\<lparr>ps_mirrors := st, ps_calls := ps_calls s + 1\<rparr>"
  let ?u = "pb_between p (ps_calls s) ?t"
  have m: "evolves s (s\<lparr>ps_mirrors := st\<rparr>)" by (rule assms(3) [OF f])
  then have t: "evolves s ?t" using evolves_trans [OF pub_ok_calls [OF evolves_ok [OF m]] m] by simp
  have b: "evolves ?t ?u" using assms(2) evolves_ok [OF t] by (simp add: fair_def)
  have u: "evolves s ?u" by (rule evolves_trans [OF b t])
  show ?thesis
  proof (cases res)
    case (Inr y)
    obtain x v where y: "y = (x, v)" by (cases y) auto
    have "mirror_map (ps_mirrors ?t) k = Some x" using assms(4) f Inr y by simp
    note k = stored_known(1-3) [OF evolves_ok [OF t] this]
    have i: "item k x ?t" using k(1,2) by (simp only: item_def)
    have "fresh p k x ?t" using assms(4) f Inr y by (simp add: fresh_def)
    then have f': "fresh p k x ?u" by (rule fresh_between)
    have "Q (x, v) ?u"
      by (rule assms(5) [OF u item_mono [OF b i] _ f'])
        (use k(3) displayed_mono [OF b] in blast, simp add: unseen_def, use f Inr y in blast)
    then show ?thesis using f Inr y by (simp add: wp_def on_mirrors_def Let_def)
  qed (use f assms(6) [OF u] in \<open>simp add: wp_def on_mirrors_def Let_def\<close>)
qed

lemma evolving_get [evolving]:
  assumes "pub_ok s" and "fair p"
    and "\<And>r s'. evolves s s' \<Longrightarrow> item k r s' \<Longrightarrow> m_publication_pending r \<or> displayed s' r
      \<Longrightarrow> (\<And>v. known v s \<Longrightarrow> m_mirror_id v = k \<Longrightarrow> carried v r)
      \<Longrightarrow> fresh p k r s' \<Longrightarrow> unseen p \<longrightarrow> ps_shown s' = ps_shown s \<Longrightarrow> Q r s'"
    and "\<And>e s'. evolves s s' \<Longrightarrow> E e s'"
  shows "wp (pub_get p k) Q E s"
proof -
  let ?env = "pb_store p (ps_calls s)"
  let ?t = "s\<lparr>ps_calls := ps_calls s + 1\<rparr>"
  let ?u = "pb_between p (ps_calls s) ?t"
  have t: "evolves s ?t" by (rule pub_ok_calls [OF assms(1)])
  have b: "evolves ?t ?u" using assms(2) evolves_ok [OF t] by (simp add: fair_def)
  have u: "evolves s ?u" by (rule evolves_trans [OF b t])
  show ?thesis
  proof (cases "get_mirror (me_read ?env) (ps_mirrors s) k")
    case (Inr r)
    then obtain records where "canonical_records (me_read ?env) (ps_mirrors s) = Inr records" "map_of records k = Some r"
      by (auto simp: get_mirror_def and_then_eq_Inr find_mirror_Inr)
    then have m: "mirror_map (ps_mirrors s) k = Some r" using canonical_map by metis
    note k = stored_known [OF assms(1) m]
    have i: "item k r s" using k(1,2) by (simp only: item_def)
    have "fresh p k r ?t" using m by (simp add: fresh_def)
    then have f: "fresh p k r ?u" by (rule fresh_between)
    have "Q r ?u"
    proof (rule assms(3) [OF u item_mono [OF u i] _ _ f])
      show "m_publication_pending r \<or> displayed ?u r" using k(3) displayed_mono [OF u] by blast
      show "carried v r" if "known v s" "m_mirror_id v = k" for v by (rule k(4) [OF that])
    qed (simp add: unseen_def)
    then show ?thesis using Inr by (simp add: wp_def pub_get_def on_mirrors_def Let_def)
  qed (use assms(4) [OF u] in \<open>simp add: wp_def pub_get_def on_mirrors_def Let_def\<close>)
qed

section \<open>The operations of the store as programs\<close>

lemma evolving_guarded:
  assumes "pub_ok s" and "fair p" and "\<And>env. steps_record k (body env)" and "\<And>env. body_shows k s (body env)"
    and "\<And>x v s'. evolves s s' \<Longrightarrow> item k x s'
      \<Longrightarrow> m_publication_pending x \<or> displayed s' x \<Longrightarrow> fresh p k x s'
      \<Longrightarrow> unseen p \<longrightarrow> ps_shown s' = ps_shown s
      \<Longrightarrow> \<exists>env st'. guarded_mutation env (ps_mirrors s) (body env) = (Inr (x, v), st') \<Longrightarrow> Q (x, v) s'"
    and "\<And>e s'. evolves s s' \<Longrightarrow> E e s'"
  shows "wp (on_mirrors p (\<lambda>env st. guarded_mutation env st (body env))) Q E s"
proof (rule evolving_op [where k = k and s = s and p = p and Q = Q and E = E])
  show "evolves s (s\<lparr>ps_mirrors := st\<rparr>)" if "guarded_mutation env (ps_mirrors s) (body env) = (res, st)" for env st res
    by (rule guarded_evolves(1) [OF assms(1) that assms(3,4)])
  show "mirror_map st k = Some x" if "guarded_mutation env (ps_mirrors s) (body env) = (Inr (x, v), st)" for env st x v
    by (rule guarded_evolves(2) [OF assms(1) that assms(3,4) refl])
qed (fact assms)+

lemma evolving_claim [evolving]:
  assumes "pub_ok s" and "fair p"
    and "\<And>x v s'. evolves s s' \<Longrightarrow> item k x s'
      \<Longrightarrow> m_publication_pending x \<or> displayed s' x \<Longrightarrow> Q (x, v) s'"
    and "\<And>e s'. evolves s s' \<Longrightarrow> E e s'"
  shows "wp (on_mirrors p (\<lambda>env st. claim_card_creation env st k)) Q E s"
  unfolding claim_card_creation_def using assms claim_card_steps claim_shows
  by (intro evolving_guarded [where k = k and s = s]) blast+

lemma evolving_release [evolving]:
  assumes "pub_ok s" and "fair p"
    and "\<And>x v s'. evolves s s' \<Longrightarrow> Q (x, v) s'" and "\<And>e s'. evolves s s' \<Longrightarrow> E e s'"
  shows "wp (on_mirrors p (\<lambda>env st. release_card_creation env st k nonce)) Q E s"
  unfolding release_card_creation_def using assms release_card_steps release_shows
  by (intro evolving_guarded [where k = k and s = s]) blast+

lemma evolving_cleanup [evolving]:
  assumes "pub_ok s" and "fair p"
    and "\<And>x v s'. evolves s s' \<Longrightarrow> item k x s'
      \<Longrightarrow> m_publication_pending x \<or> displayed s' x \<Longrightarrow> fresh p k x s'
      \<Longrightarrow> unseen p \<longrightarrow> ps_shown s' = ps_shown s \<Longrightarrow> Q (x, v) s'"
    and "\<And>e s'. evolves s s' \<Longrightarrow> E e s'"
  shows "wp (on_mirrors p (\<lambda>env st. complete_card_cleanup env st k nonce)) Q E s"
  unfolding complete_card_cleanup_def using assms cleanup_steps cleanup_shows
  by (intro evolving_guarded [where k = k and s = s]) blast+

lemma evolving_clear [evolving]:
  assumes "pub_ok s" and "fair p"
    and "\<And>x v s'. evolves s s' \<Longrightarrow> item k x s'
      \<Longrightarrow> m_publication_pending x \<or> displayed s' x \<Longrightarrow> Q (x, v) s'"
    and "\<And>e s'. evolves s s' \<Longrightarrow> E e s'"
  shows "wp (on_mirrors p (\<lambda>env st. clear_card_if_matches env st k msg)) Q E s"
  unfolding clear_card_if_matches_def using assms clear_card_steps clear_shows
  by (intro evolving_guarded [where k = k and s = s]) blast+

lemma evolving_attach [evolving]:
  assumes "pub_ok s" and "fair p"
    and "\<And>x v s'. evolves s s' \<Longrightarrow> item k x s'
      \<Longrightarrow> m_publication_pending x \<or> displayed s' x \<Longrightarrow> Q (x, v) s'"
    and "\<And>e s'. evolves s s' \<Longrightarrow> E e s'"
  shows "wp (on_mirrors p (\<lambda>env st. attach_card_if_missing env st k msg nonce)) Q E s"
proof (rule evolving_op [where k = k and s = s and p = p and Q = Q and E = E])
  note m = mutation_evolves [OF assms(1) _ attach_card_steps attach_shows [OF assms(1)]]
  have c: "st = ps_mirrors s \<and> (\<exists>e. res = Inl e)
      \<or> mutation env (me_read env) (ps_mirrors s) (attach_card_body env k msg nonce) = (res, st)"
    if "attach_card_if_missing env (ps_mirrors s) k msg nonce = (res, st)" for env res st
    using that by (auto simp: attach_card_if_missing_def split: sum.splits)
  show "evolves s (s\<lparr>ps_mirrors := st\<rparr>)" if "attach_card_if_missing env (ps_mirrors s) k msg nonce = (res, st)"
    for env st res
    using c [OF that] m(1) evolves_refl [OF assms(1)] by fastforce
  show "mirror_map st k = Some x" if "attach_card_if_missing env (ps_mirrors s) k msg nonce = (Inr (x, v), st)"
    for env st x v
    using c [OF that] m(2) by blast
qed (use assms in blast)+

section \<open>Programs on one card\<close>

lemmas pub_simps = wp_bind wp_try_catch wp_suppressed wp_if wp_basic(1-5)

lemma evolving_find [evolving]:
  assumes "pub_ok s" and "fair p"
    and "\<And>x s'. evolves s s' \<Longrightarrow> unseen p \<longrightarrow> ps_shown s' = ps_shown s \<Longrightarrow> Q x s'" and "\<And>e s'. evolves s s' \<Longrightarrow> E e s'"
  shows "wp (find_messages p ch nonce) Q E s"
  unfolding find_messages_def by (rule evolving_call [OF assms(1,2)]) (use assms(3,4) in simp_all)

lemma evolving_render:
  assumes "pub_ok s" and "fair p"
    and "\<And>s'. evolves s s' \<Longrightarrow> (mm_id m, r) \<in> set (ps_shown s')
      \<Longrightarrow> unseen p \<longrightarrow> ps_shown s' = (mm_id m, r) # ps_shown s \<Longrightarrow> Q () s'" and "\<And>e s'. evolves s s' \<Longrightarrow> E e s'"
  shows "wp (render_card p m r) Q E s"
  unfolding render_card_def using assms evolves_refl [OF assms(1)]
  by (auto simp: pub_simps intro!: evolving_call split: sum.split)

lemma evolving_delete_except [evolving]:
  assumes "pub_ok s" and "fair p"
    and "\<And>s'. evolves s s' \<Longrightarrow> unseen p \<longrightarrow> ps_shown s' = ps_shown s \<Longrightarrow> Q () s'" and "\<And>e s'. evolves s s' \<Longrightarrow> E e s'"
  shows "wp (delete_except p keep ms) Q E s"
  using assms
proof (induction ms arbitrary: s)
  case Nil
  then show ?case by (simp add: pub_simps evolves_refl)
next
  case (Cons m ms)
  have IH: "wp (delete_except p keep ms) Q E s'" if t: "evolves s s'" "unseen p \<longrightarrow> ps_shown s' = ps_shown s" for s'
  proof (rule Cons.IH [OF evolves_ok [OF t(1)] Cons.prems(2)])
    show "Q () u" if "evolves s' u" "unseen p \<longrightarrow> ps_shown u = ps_shown s'" for u
      by (rule Cons.prems(3) [OF evolves_trans [OF that(1) t(1)]]) (use that(2) t(2) in simp)
  qed (use Cons.prems(4) evolves_trans [OF _ t(1)] in blast)
  then show ?case using Cons.prems evolves_refl [OF Cons.prems(1)]
    by (auto simp: pub_simps intro!: evolving_call)
qed

lemma evolving_delete_uncommitted [evolving]:
  assumes "pub_ok s" and "fair p"
    and "\<And>x s'. evolves s s' \<Longrightarrow> Q x s'" and "\<And>e s'. evolves s s' \<Longrightarrow> E e s'"
  shows "wp (delete_uncommitted_cards p ms) Q E s"
  using assms
proof (induction ms arbitrary: s Q)
  case Nil
  then show ?case by (simp add: pub_simps evolves_refl)
next
  case (Cons m ms)
  have IH: "wp (delete_uncommitted_cards p ms) R E s'" if "evolves s s'" "\<And>x t. evolves s t \<Longrightarrow> R x t" for s' R
    by (rule Cons.IH [OF evolves_ok [OF that(1)] Cons.prems(2)]) (use Cons.prems(4) evolves_trans that in blast)+
  then show ?case using Cons.prems
    by (auto simp: pub_simps intro!: evolving_call)
qed

lemma evolving_delete_nonce [evolving]:
  assumes "pub_ok s" and "fair p"
    and "\<And>s'. evolves s s' \<Longrightarrow> unseen p \<longrightarrow> ps_shown s' = ps_shown s \<Longrightarrow> Q () s'" and "\<And>e s'. evolves s s' \<Longrightarrow> E e s'"
  shows "wp (delete_nonce_matches p ch nonce keep) Q E s"
  unfolding delete_nonce_matches_def wp_bind
proof (rule evolving_find [OF assms(1,2)])
  fix ms t assume t: "evolves s t" "unseen p \<longrightarrow> ps_shown t = ps_shown s"
  show "wp (delete_except p keep ms) Q E t"
  proof (rule evolving_delete_except [OF evolves_ok [OF t(1)] assms(2)])
    show "Q () u" if "evolves t u" "unseen p \<longrightarrow> ps_shown u = ps_shown t" for u
      by (rule assms(3) [OF evolves_trans [OF that(1) t(1)]]) (use that(2) t(2) in simp)
  qed (use assms(4) evolves_trans [OF _ t(1)] in blast)
qed (use assms(4) in blast)

lemma same_revision:
  "carried v r \<Longrightarrow> m_revision r = m_revision v \<Longrightarrow> r = v"
  by (auto simp: carried_def)

text \<open>The message \<open>m\<close> shows \<open>v\<close>; the record \<open>x\<close> is on its card.\<close>

definition shown_on :: "publisher \<Rightarrow> int \<Rightarrow> mirror_record \<Rightarrow> pub_state \<Rightarrow> bool" where
  "shown_on p m v s \<longleftrightarrow> (m, v) \<in> set (ps_shown s) \<and> (unseen p \<longrightarrow> map_of (ps_shown s) m = Some v)"

definition on_card :: "publisher \<Rightarrow> string \<Rightarrow> mirror_record \<Rightarrow> pub_state \<Rightarrow> bool" where
  "on_card p k x s \<longleftrightarrow> displayed s x \<and> (unseen p \<longrightarrow> shows_last s x) \<and> fresh p k x s"

lemma shown_quiet: "shown_on p m v s \<Longrightarrow> evolves s s' \<Longrightarrow> unseen p \<longrightarrow> ps_shown s' = ps_shown s \<Longrightarrow> shown_on p m v s'"
  using shown_mono by (auto simp: shown_on_def)

lemma shown_on_card:
  assumes "shown_on p m v s" and "fresh p k x s" and "m_card_message_id x = Some m"
    and "github_mirror_card_signature v = github_mirror_card_signature x"
  shows "on_card p k x s"
  using assms by (auto simp: on_card_def displayed_def shows_last_def shown_on_def)

lemma on_card_displayed: "on_card p k x s \<Longrightarrow> displayed s x"
  by (simp add: on_card_def)

lemma evolving_show [evolving]:
  assumes "pub_ok s" and "fair p"
    and "\<And>s'. evolves s s' \<Longrightarrow> shown_on p (mm_id m) r s' \<Longrightarrow> Q () s'" and "\<And>e s'. evolves s s' \<Longrightarrow> E e s'"
  shows "wp (render_card p m r) Q E s"
  by (rule evolving_render [OF assms(1,2)]) (use assms(3,4) in \<open>simp_all add: shown_on_def\<close>)

lemma evolving_reconcile_loop:
  assumes "pub_ok s" and "fair p" and "item k v s" and "shown_on p (mm_id m) v s"
    and "\<And>x s'. evolves s s' \<Longrightarrow> item k x s'
      \<Longrightarrow> (m_card_message_id x = Some (mm_id m) \<Longrightarrow> on_card p k x s') \<Longrightarrow> Q x s'"
    and "\<And>e s'. evolves s s' \<Longrightarrow> E e s'"
  shows "wp (reconcile_loop p n m k (m_revision v)) Q E s"
  using assms
proof (induction n arbitrary: s v)
  case 0
  then show ?case by (simp add: pub_simps evolves_refl)
next
  case (Suc n)
  note ok = Suc.prems(1) and fair = Suc.prems(2) and v = Suc.prems(3) and vs = Suc.prems(4) and Q = Suc.prems(5)
    and E = Suc.prems(6)
  have second: "wp (pub_get p k) (\<lambda>latest. if m_card_message_id latest \<noteq> Some (mm_id m) then Q latest
      else if m_revision latest = m_revision w then Q latest
      else wp (reconcile_loop p n m k (m_revision w)) Q E) E t"
    if t: "evolves s t" and w: "item k w t" "shown_on p (mm_id m) w t" for w t
  proof (rule evolving_get [OF evolves_ok [OF t] fair])
    fix r t' assume t': "evolves t t'" and r: "item k r t'"
      and c: "\<And>v. known v t \<Longrightarrow> m_mirror_id v = k \<Longrightarrow> carried v r"
      and f: "fresh p k r t'" and quiet: "unseen p \<longrightarrow> ps_shown t' = ps_shown t"
    have st': "evolves s t'" by (rule evolves_trans [OF t' t])
    note wt' = shown_quiet [OF w(2) t' quiet]
    have rest: "wp (reconcile_loop p n m k (m_revision w)) Q E t'"
      by (rule Suc.IH [OF evolves_ok [OF t'] fair item_mono [OF t' w(1)] wt'])
         (use Q E evolves_trans [OF _ st'] in blast)+
    have "on_card p k r t'" if "m_revision r = m_revision w" "m_card_message_id r = Some (mm_id m)"
    proof -
      have "r = w" using same_revision [OF c] w(1) that(1) by (simp add: item_def)
      then show ?thesis using shown_on_card [OF wt' f that(2)] by simp
    qed
    then show "(if m_card_message_id r \<noteq> Some (mm_id m) then Q r
      else if m_revision r = m_revision w then Q r
      else wp (reconcile_loop p n m k (m_revision w)) Q E) t'"
      using rest Q [OF st' r] by (auto simp: pub_simps)
  qed (use E evolves_trans [OF _ t] in blast)
  show ?case unfolding reconcile_loop.simps pub_simps
  proof (rule evolving_get [OF ok fair])
    fix r t assume t: "evolves s t" and i: "item k r t" and quiet: "unseen p \<longrightarrow> ps_shown t = ps_shown s"
    show "(if m_card_message_id r \<noteq> Some (mm_id m) then Q r
        else if m_revision r \<noteq> m_revision v
             then wp (render_card p m r) (\<lambda>_. wp (pub_get p k) (\<lambda>latest. if m_card_message_id latest \<noteq> Some (mm_id m)
               then Q latest else if m_revision latest = m_revision r then Q latest
               else wp (reconcile_loop p n m k (m_revision r)) Q E) E) E
             else wp (pub_get p k) (\<lambda>latest. if m_card_message_id latest \<noteq> Some (mm_id m)
               then Q latest else if m_revision latest = m_revision v then Q latest
               else wp (reconcile_loop p n m k (m_revision v)) Q E) E) t"
      using second [OF _ item_mono [OF _ i]] second [OF t item_mono [OF t v] shown_quiet [OF vs t quiet]]
        Q [OF t i] evolves_trans [OF _ t] E
      by (auto simp: pub_simps intro!: evolving_show [OF evolves_ok [OF t] fair])
  qed (use E in blast)
qed

lemma evolving_reconcile [evolving]:
  assumes "pub_ok s" and "fair p" and "item k v s" and "shown_on p (mm_id m) v s"
    and "\<And>x s'. evolves s s' \<Longrightarrow> item k x s'
      \<Longrightarrow> (m_card_message_id x = Some (mm_id m) \<Longrightarrow> on_card p k x s') \<Longrightarrow> Q x s'"
    and "\<And>e s'. evolves s s' \<Longrightarrow> E e s'"
  shows "wp (reconcile_card p m v) Q E s"
proof -
  have "m_mirror_id v = k" using assms(3) by (simp add: item_def)
  then show ?thesis unfolding reconcile_card_def
    using evolving_reconcile_loop [OF assms(1-4), where Q = Q and E = E] assms(5,6) by simp
qed

lemma evolving_cleanup_duplicates [evolving]:
  assumes ok: "pub_ok s" and fair: "fair p" and r: "item k r s" "on_card p k r s" "m_card_message_id r = Some (mm_id m)"
    and Q: "\<And>x s'. evolves s s' \<Longrightarrow> item k x s'
      \<Longrightarrow> (m_card_message_id x = Some (mm_id m) \<Longrightarrow> on_card p k x s') \<Longrightarrow> Q x s'"
    and E: "\<And>e s'. evolves s s' \<Longrightarrow> E e s'"
  shows "wp (cleanup_duplicates p ch m r) Q E s"
proof (cases "m_card_cleanup_nonce r")
  case None
  then show ?thesis using Q [OF evolves_refl [OF ok] r(1)] r(2) by (simp add: cleanup_duplicates_def pub_simps)
next
  case (Some nonce)
  have k: "m_mirror_id r = k" using r(1) by (simp add: item_def)
  have render: "wp (render_card p m x) (\<lambda>_. wp (reconcile_card p m x) Q E) E t"
    if t: "evolves s t" and x: "item k x t" for x t
  proof (rule evolving_show [OF evolves_ok [OF t] fair])
    fix u assume u: "evolves t u" "shown_on p (mm_id m) x u"
    show "wp (reconcile_card p m x) Q E u"
      by (rule evolving_reconcile [OF evolves_ok [OF u(1)] fair item_mono [OF u(1) x] u(2)])
         (use Q E evolves_trans [OF _ evolves_trans [OF u(1) t]] in blast)+
  qed (use E evolves_trans [OF _ t] in blast)
  have same: "Q x t" if t: "evolves s t" "item k x t" "fresh p k x t" "unseen p \<longrightarrow> ps_shown t = ps_shown s"
    "github_mirror_card_signature x = github_mirror_card_signature r" for x t
  proof (rule Q [OF t(1,2)])
    assume "m_card_message_id x = Some (mm_id m)"
    moreover have "displayed t r" by (rule displayed_mono [OF t(1) on_card_displayed [OF r(2)]])
    ultimately show "on_card p k x t" using r(2,3) t(3-5) by (auto simp: on_card_def displayed_def shows_last_def split: option.splits)
  qed
  show ?thesis unfolding cleanup_duplicates_def Some option.case pub_simps k
  proof (rule evolving_delete_nonce [OF ok fair])
    fix t assume t: "evolves s t" "unseen p \<longrightarrow> ps_shown t = ps_shown s"
    show "wp (on_mirrors p (\<lambda>env st. complete_card_cleanup env st k nonce))
        (\<lambda>x. wp (case x of (cleaned, _) \<Rightarrow>
           if github_mirror_card_signature cleaned = github_mirror_card_signature r then return cleaned
           else bind (render_card p m cleaned) (\<lambda>_. reconcile_card p m cleaned)) Q E) E t"
    proof (rule evolving_cleanup [OF evolves_ok [OF t(1)] fair])
      fix x u v assume u: "evolves t u" "item k x u" "fresh p k x u" "unseen p \<longrightarrow> ps_shown u = ps_shown t"
      have su: "evolves s u" by (rule evolves_trans [OF u(1) t(1)])
      show "wp (case (x, v) of (cleaned, _) \<Rightarrow>
           if github_mirror_card_signature cleaned = github_mirror_card_signature r then return cleaned
           else bind (render_card p m cleaned) (\<lambda>_. reconcile_card p m cleaned)) Q E u"
        using same [OF su u(2,3)] render [OF su u(2)] u(4) t(2) by (simp add: pub_simps)
    qed (use E evolves_trans [OF _ t(1)] in blast)
  qed (use E in blast)
qed

lemma evolving_attached [evolving]:
  assumes "pub_ok s" and "fair p"
    and "\<And>s'. evolves s s' \<Longrightarrow> Q None s'" and "\<And>m s'. evolves s s' \<Longrightarrow> mm_id m = card_id \<Longrightarrow> Q (Some m) s'"
    and "\<And>e s'. evolves s s' \<Longrightarrow> E e s'"
  shows "wp (attached_message p card_id message) Q E s"
proof -
  have f: "pb_fetch p n card_id = Inr m \<Longrightarrow> mm_id m = card_id" for n m using assms(2) by (simp add: fair_def)
  show ?thesis unfolding attached_message_def using assms evolves_refl [OF assms(1)] f
    by (auto simp: pub_simps intro!: evolving_call)
qed

lemma evolving_send [evolving]:
  assumes "pub_ok s" and "fair p"
    and "\<And>ms s'. evolves s s' \<Longrightarrow> Q ms s'" and "\<And>e s'. evolves s s' \<Longrightarrow> E e s'"
  shows "wp (send_card p ch r nonce) Q E s"
proof -
  have h: "wp (send_failed p ch r nonce e) Q E t" if t: "evolves s t" for e t
    unfolding send_failed_def using assms(2-4) evolves_ok [OF t] evolves_trans [OF _ t] t
    by (auto simp: pub_simps intro!: evolving_release evolving_find)
  show ?thesis unfolding send_card_def
    using assms h evolves_refl [OF assms(1)]
    by (auto simp: pub_simps intro!: evolving_call split: sum.split)
qed

section \<open>Creating, finishing and replacing\<close>

definition delivers :: "publisher \<Rightarrow> string \<Rightarrow> pub_state \<Rightarrow> mirror_record publication \<Rightarrow> bool" where
  "delivers p k s prog \<longleftrightarrow> wp prog (\<lambda>x s'. evolves s s' \<and> item k x s' \<and> on_card p k x s') (\<lambda>_ s'. evolves s s') s"

lemma delivers_wp:
  assumes "delivers p k s prog" and "\<And>x s'. evolves s s' \<Longrightarrow> item k x s' \<Longrightarrow> on_card p k x s' \<Longrightarrow> Q x s'"
    and "\<And>e s'. evolves s s' \<Longrightarrow> E e s'"
  shows "wp prog Q E s"
  using assms(1) unfolding delivers_def by (rule wp_mono) (use assms(2,3) in blast)+

text \<open>One step of each method, given the methods it calls.\<close>

definition methods_deliver :: "publisher \<Rightarrow> nat \<Rightarrow> bool" where
  "methods_deliver p fuel \<longleftrightarrow> (\<forall>k s r ch. pub_ok s \<and> item k r s \<longrightarrow>
     delivers p k s (create_card p ch fuel r) \<and> delivers p k s (replace_missing_card p ch fuel r)
     \<and> (\<forall>messages. delivers p k s (attach_created_cards p ch fuel messages r))
     \<and> (\<forall>message n. delivers p k s (finish_attached_card p ch fuel r message n)))"

lemma methods_deliverD:
  assumes "methods_deliver p fuel" and "evolves s t" and "item k r t"
    and "\<And>x s'. evolves s s' \<Longrightarrow> item k x s' \<Longrightarrow> on_card p k x s' \<Longrightarrow> Q x s'" and "\<And>e s'. evolves s s' \<Longrightarrow> E e s'"
  shows "wp (create_card p ch fuel r) Q E t" and "wp (replace_missing_card p ch fuel r) Q E t"
    and "wp (attach_created_cards p ch fuel messages r) Q E t"
    and "wp (finish_attached_card p ch fuel r message n) Q E t"
proof -
  have d: "delivers p k t (create_card p ch fuel r)" "delivers p k t (replace_missing_card p ch fuel r)"
    "delivers p k t (attach_created_cards p ch fuel messages r)" "delivers p k t (finish_attached_card p ch fuel r message n)"
    using assms(1,3) evolves_ok [OF assms(2)] unfolding methods_deliver_def by blast+
  note t = evolves_trans [OF _ assms(2)]
  show "wp (create_card p ch fuel r) Q E t" by (rule delivers_wp [OF d(1)]) (use assms(4,5) t in blast)+
  show "wp (replace_missing_card p ch fuel r) Q E t" by (rule delivers_wp [OF d(2)]) (use assms(4,5) t in blast)+
  show "wp (attach_created_cards p ch fuel messages r) Q E t" by (rule delivers_wp [OF d(3)]) (use assms(4,5) t in blast)+
  show "wp (finish_attached_card p ch fuel r message n) Q E t" by (rule delivers_wp [OF d(4)]) (use assms(4,5) t in blast)+
qed

lemma create_step:
  assumes fair: "fair p" and IH: "methods_deliver p fuel" and ok: "pub_ok s" and r: "item k r s"
  shows "delivers p k s (create_card p ch (Suc fuel) r)"
proof -
  note next_call = methods_deliverD [OF IH, where s = s and k = k]
  have k: "m_mirror_id r = k" using r by (simp add: item_def)
  show ?thesis
    unfolding delivers_def create_card.simps pub_simps k
  proof (rule evolving_claim [OF ok fair])
    fix x b t assume t: "evolves s t" and x: "item k x t"
    note tok = evolves_ok [OF t] and st = evolves_trans [OF _ t]
    show "wp (case (x, b) of (r, claimed) \<Rightarrow>
            if m_card_message_id r \<noteq> None then finish_attached_card p ch fuel r None 0
            else case m_card_create_nonce r of
              None \<Rightarrow> raise (RuntimeError ''pending Discord mirror card creation has no nonce'')
            | Some nonce \<Rightarrow>
                bind (if claimed then return [] else find_messages p ch nonce) (\<lambda>matches.
                bind (if matches \<noteq> [] then return matches else send_card p ch r nonce) (\<lambda>messages.
                attach_created_cards p ch fuel messages r)))
          (\<lambda>x s'. evolves s s' \<and> item k x s' \<and> on_card p k x s') (\<lambda>_ s'. evolves s s') t"
      using t st x
      by (auto simp: pub_simps split: option.split
          intro!: next_call evolving_find [OF tok fair] evolving_send [OF _ fair])
        (blast intro: evolves_ok item_mono evolves_trans)+
  qed
qed

lemma replace_step:
  assumes fair: "fair p" and IH: "methods_deliver p fuel" and ok: "pub_ok s" and r: "item k r s"
  shows "delivers p k s (replace_missing_card p ch (Suc fuel) r)"
proof -
  let ?Q = "\<lambda>x s'. evolves s s' \<and> item k x s' \<and> on_card p k x s'" and ?E = "\<lambda>_::exn. evolves s"
  note next_call = methods_deliverD [OF IH, where s = s and k = k]
  have rest: "wp (on_mirrors p (\<lambda>env st. clear_card_if_matches env st (m_mirror_id q) msg)) (\<lambda>x. wp (case x of
      (cleared, _) \<Rightarrow> if m_card_message_id cleared = None then create_card p ch fuel cleared
         else finish_attached_card p ch fuel cleared None 0) ?Q ?E) ?E t"
    if t: "evolves s t" and q: "item k q t" for q t msg
  proof -
    have k: "m_mirror_id q = k" using q by (simp add: item_def)
    show ?thesis unfolding k
      by (rule evolving_clear [OF evolves_ok [OF t] fair])
        (auto simp: pub_simps intro!: next_call intro: evolves_trans [OF _ t])
  qed
  have k: "m_mirror_id r = k" using r by (simp add: item_def)
  show ?thesis
  proof (cases "m_card_message_id r")
    case None
    then show ?thesis using ok by (simp add: delivers_def pub_simps evolves_refl)
  next
    case (Some msg)
    show ?thesis
    proof (cases "m_card_cleanup_nonce r")
      case None
      then show ?thesis using rest [OF evolves_refl [OF ok] r] Some by (simp add: delivers_def pub_simps)
    next
      case nonce: (Some nonce)
      show ?thesis unfolding delivers_def replace_missing_card.simps Some nonce option.case pub_simps k
      proof (rule evolving_delete_nonce [OF ok fair])
        fix t assume t: "evolves s t"
        show "wp (on_mirrors p (\<lambda>env st. complete_card_cleanup env st k nonce)) (\<lambda>x. wp (case x of (r, _) \<Rightarrow> return r)
          (\<lambda>x. wp (on_mirrors p (\<lambda>env st. clear_card_if_matches env st (m_mirror_id x) msg)) (\<lambda>x. wp (case x of
              (cleared, _) \<Rightarrow> if m_card_message_id cleared = None then create_card p ch fuel cleared
                 else finish_attached_card p ch fuel cleared None 0) ?Q ?E) ?E) ?E) ?E t"
          by (rule evolving_cleanup [OF evolves_ok [OF t] fair])
            (auto simp: wp_basic(1) intro!: rest intro: evolves_trans [OF _ t])
      qed
    qed
  qed
qed

lemma finish_step:
  assumes fair: "fair p" and IH: "methods_deliver p fuel" and ok: "pub_ok s" and r: "item k r s"
  shows "delivers p k s (finish_attached_card p ch (Suc fuel) r message n)"
proof -
  let ?Q = "\<lambda>x s'. evolves s s' \<and> item k x s' \<and> on_card p k x s'"
  note next_call = methods_deliverD [OF IH, where s = s and k = k]
  let ?E = "\<lambda>e s'. evolves s s'"
  define H where "H = (\<lambda>e. wp (if e = DiscordNotFound then replace_missing_card p ch fuel r else raise e) ?Q ?E)"
  have handler: "H e t" if t: "evolves s t" for e t
    using t item_mono [OF t r] by (auto simp: H_def pub_simps intro!: next_call)
  have again: "wp (finish_attached_card p ch fuel x None (n + 1)) ?Q H t" if t: "evolves s t" and x: "item k x t" for x t
    by (rule next_call(4) [OF t x]) (use handler in blast)+
  have cleaned: "wp (cleanup_duplicates p ch m x) (\<lambda>y. if m_card_message_id y \<noteq> Some (mm_id m)
        then wp (finish_attached_card p ch fuel y None (n + 1)) ?Q H else ?Q y) H t"
    if t: "evolves s t" and x: "item k x t" "on_card p k x t" "m_card_message_id x = Some (mm_id m)" for x m t
    using handler again evolves_trans [OF _ t]
    by (intro evolving_cleanup_duplicates [OF evolves_ok [OF t] fair x]) auto
  have reconciled: "wp (reconcile_card p m r) (\<lambda>y. if m_card_message_id y \<noteq> Some (mm_id m)
        then wp (finish_attached_card p ch fuel y None (n + 1)) ?Q H
        else wp (cleanup_duplicates p ch m y) (\<lambda>y. if m_card_message_id y \<noteq> Some (mm_id m)
          then wp (finish_attached_card p ch fuel y None (n + 1)) ?Q H else ?Q y) H) H t"
    if t: "evolves s t" and x: "shown_on p (mm_id m) r t" for m t
    using handler again cleaned evolves_trans [OF _ t]
    by (intro evolving_reconcile [OF evolves_ok [OF t] fair item_mono [OF t r] x]) auto
  have rendered: "wp (render_card p m r) (\<lambda>_. wp (reconcile_card p m r) (\<lambda>y. if m_card_message_id y \<noteq> Some (mm_id m)
        then wp (finish_attached_card p ch fuel y None (n + 1)) ?Q H
        else wp (cleanup_duplicates p ch m y) (\<lambda>y. if m_card_message_id y \<noteq> Some (mm_id m)
          then wp (finish_attached_card p ch fuel y None (n + 1)) ?Q H else ?Q y) H) H) H t"
    if t: "evolves s t" for m t
    using handler reconciled evolves_trans [OF _ t] by (intro evolving_show [OF evolves_ok [OF t] fair]) blast+
  show ?thesis
  proof (cases "m_card_message_id r")
    case None
    then show ?thesis using ok by (simp add: delivers_def pub_simps evolves_refl)
  next
    case (Some card_id)
    define prog where "prog m = bind (render_card p m r) (\<lambda>_.
                 bind (reconcile_card p m r) (\<lambda>retained.
                 if m_card_message_id retained \<noteq> Some (mm_id m)
                 then finish_attached_card p ch fuel retained None (n + 1)
                 else bind (cleanup_duplicates p ch m retained) (\<lambda>retained.
                 if m_card_message_id retained \<noteq> Some (mm_id m)
                 then finish_attached_card p ch fuel retained None (n + 1)
                 else return retained)))" for m
    have "wp (attached_message p card_id message) (\<lambda>found. wp (case found of
            None \<Rightarrow> replace_missing_card p ch fuel r
          | Some message \<Rightarrow> try_catch (prog message)
              (\<lambda>e. if e = DiscordNotFound then replace_missing_card p ch fuel r else raise e)) ?Q ?E) ?E s"
    proof (rule evolving_attached [OF ok fair])
      fix t assume t: "evolves s t"
      show "wp (case None of None \<Rightarrow> replace_missing_card p ch fuel r | Some message \<Rightarrow> f message) ?Q ?E t" for f
        using t item_mono [OF t r] by (auto intro!: next_call)
    next
      fix m t assume t: "evolves s t"
      have "wp (prog m) ?Q H t" unfolding prog_def wp_bind wp_if wp_basic(1) by (rule rendered [OF t])
      then show "wp (case Some m of None \<Rightarrow> replace_missing_card p ch fuel r | Some message \<Rightarrow> try_catch (prog message)
          (\<lambda>e. if e = DiscordNotFound then replace_missing_card p ch fuel r else raise e)) ?Q ?E t"
        unfolding H_def by (simp only: option.case wp_try_catch)
    qed simp
    then show ?thesis using Some ok unfolding prog_def by (simp add: delivers_def pub_simps evolves_refl)
  qed
qed

lemma attach_step:
  assumes fair: "fair p" and IH: "methods_deliver p fuel" and ok: "pub_ok s" and r: "item k r s"
  shows "delivers p k s (attach_created_cards p ch (Suc fuel) messages r)"
proof -
  let ?Q = "\<lambda>x s'. evolves s s' \<and> item k x s' \<and> on_card p k x s'"
  let ?E = "\<lambda>(_ :: exn) s'. evolves s s'"
  let ?m = "least_message (hd messages) (tl messages)"
  note next_call = methods_deliverD [OF IH, where s = s and k = k]
  have k: "m_mirror_id r = k" using r by (simp add: item_def)
  have best_effort: "wp (best_effort_reconcile p k (\<lambda>canonical. finish_attached_card p ch fuel canonical (Some ?m) 0)) (\<lambda>_. wp (raise e) R ?E) ?E t" if t: "evolves s t"
    for e t and R :: "(mirror_record \<times> bool) \<Rightarrow> pub_state \<Rightarrow> bool"
    unfolding best_effort_reconcile_def pub_simps
    by (rule evolving_get [OF evolves_ok [OF t] fair])
       (auto simp: pub_simps intro!: next_call intro: evolves_trans [OF _ t])
  have deleted: "wp (delete_uncommitted_cards p messages) (\<lambda>removed. wp (bind (if removed
        then bind (on_mirrors p (\<lambda>env st. release_card_creation env st k nonce)) (\<lambda>_. return ()) else return ())
      (\<lambda>_. raise e)) R ?E) ?E t" if t: "evolves s t"
    for e t nonce and R :: "(mirror_record \<times> bool) \<Rightarrow> pub_state \<Rightarrow> bool"
    by (rule evolving_delete_uncommitted [OF evolves_ok [OF t] fair])
       (auto simp: pub_simps intro!: evolving_release [OF _ fair]
         intro: evolves_ok evolves_trans [OF _ t] evolves_trans [OF _ evolves_trans [OF _ t]])
  have "wp (on_mirrors p (\<lambda>env st. attach_card_if_missing env st k (mm_id ?m) nonce))
      (\<lambda>x. wp (case x of (retained, attached) \<Rightarrow> finish_attached_card p ch fuel retained (Some ?m) 0) ?Q ?E)
      (\<lambda>e. wp (if e = TaskStoreDurabilityError then
                  bind (best_effort_reconcile p k (\<lambda>canonical. finish_attached_card p ch fuel canonical (Some ?m) 0)) (\<lambda>_. raise e)
                else if is_exception e then
                  bind (delete_uncommitted_cards p messages) (\<lambda>removed.
                  bind (if removed
                        then bind (on_mirrors p (\<lambda>env st. release_card_creation env st k nonce))
                          (\<lambda>_. return ())
                        else return ()) (\<lambda>_. raise e))
                else raise e)
          (\<lambda>x :: mirror_record \<times> bool. wp (case x of (retained, attached) \<Rightarrow> finish_attached_card p ch fuel retained (Some ?m) 0) ?Q ?E) ?E) s"
    for nonce
  proof (rule evolving_attach [OF ok fair])
    fix x v t assume "evolves s t" "item k x t"
    then show "wp (case (x, v) of (retained, attached) \<Rightarrow> finish_attached_card p ch fuel retained (Some ?m) 0) ?Q ?E t"
      by (auto intro!: next_call)
  next
    fix e t assume t: "evolves s t"
    then show "wp (if e = TaskStoreDurabilityError then
                  bind (best_effort_reconcile p k (\<lambda>canonical. finish_attached_card p ch fuel canonical (Some ?m) 0)) (\<lambda>_. raise e)
                else if is_exception e then
                  bind (delete_uncommitted_cards p messages) (\<lambda>removed.
                  bind (if removed
                        then bind (on_mirrors p (\<lambda>env st. release_card_creation env st k nonce))
                          (\<lambda>_. return ())
                        else return ()) (\<lambda>_. raise e))
                else raise e)
          (\<lambda>x :: mirror_record \<times> bool. wp (case x of (retained, attached) \<Rightarrow> finish_attached_card p ch fuel retained (Some ?m) 0) ?Q ?E) ?E t"
      using best_effort [OF t] by (auto simp: wp_bind [of "best_effort_reconcile _ _ _"] wp_bind [of "delete_uncommitted_cards _ _"] wp_basic(2)
        intro!: deleted [OF t])
  qed
  then show ?thesis using ok unfolding delivers_def attach_created_cards.simps Let_def k
    by (simp add: wp_bind wp_try_catch wp_basic(2) evolves_refl split: option.split)
qed

lemma all_deliver:
  assumes "fair p"
  shows "methods_deliver p fuel"
proof (induction fuel)
  case 0
  show ?case by (simp add: methods_deliver_def delivers_def pub_simps evolves_refl)
next
  case (Suc fuel)
  show ?case
    unfolding methods_deliver_def
    using create_step [OF assms Suc] replace_step [OF assms Suc] attach_step [OF assms Suc] finish_step [OF assms Suc]
    by blast
qed

section \<open>Publishing\<close>

text \<open>An acknowledgement returns the stored record, or the acknowledged one with its content and its card.\<close>

lemma publication_result:
  assumes "pub_ok s" and "known d s" and "m_mirror_id d = k"
    and "guarded_mutation env (ps_mirrors s) (publication_body env k (m_revision d)) = (Inr (x, v), st')"
  shows "mirror_map (ps_mirrors s) k = Some x
     \<or> (m_card_message_id x = m_card_message_id d \<and> github_mirror_card_signature x = github_mirror_card_signature d)"
proof -
  obtain records where records: "canonical_records (me_read env) (ps_mirrors s) = Inr records"
    "publication_body env k (m_revision d) records = Inr (None, x, v) \<or> publication_body env k (m_revision d) records = Inr (Some x, x, v)"
    using assms(4) by (auto simp: guarded_mutation_def mutation_def and_then_eq_Inr and_then_eq_Inl publication_body_def
        stamp_record_Inr split: sum.splits prod.splits option.splits if_splits)
  note m = canonical_map [OF records(1)]
  obtain r where r: "map_of records k = Some r"
    and c: "x = r \<or> m_revision r = m_revision d
      \<and> (\<exists>ts. updated_record r (\<lambda>r. make_mirror (r\<lparr>m_publication_pending := False\<rparr>)) ts = Inr x)"
    using records(2) by (auto simp: publication_body_def and_then_eq_Inr find_mirror_Inr stamp_record_Inr split: if_splits)
  have "m_revision r = m_revision d \<Longrightarrow> r = d"
    using stored_known(4) [OF assms(1) _ assms(2,3), of r] m r by (simp add: carried_def)
  then show ?thesis using c r m
    by (auto simp: updated_record_Inr make_mirror_Inr stamped_def github_mirror_card_signature_def)
qed

lemma evolving_publication:
  assumes "pub_ok s" and "fair p" and d: "known d s" "on_card p k d s" "m_mirror_id d = k"
    and Q: "\<And>x v s'. evolves s s' \<Longrightarrow> item k x s' \<Longrightarrow> m_publication_pending x \<or> displayed s' x
      \<Longrightarrow> \<not> m_publication_pending x \<longrightarrow> alone p k \<longrightarrow> shows_last s' x \<Longrightarrow> Q (x, v) s'"
    and "\<And>e s'. evolves s s' \<Longrightarrow> E e s'"
  shows "wp (on_mirrors p (\<lambda>env st. complete_publication env st k (m_revision d))) Q E s"
  unfolding complete_publication_def
proof (rule evolving_guarded [OF assms(1,2) publication_steps publication_shows [OF assms(1) d(1) on_card_displayed [OF d(2)] d(3)]])
  fix x v s' assume x: "evolves s s'" "item k x s'" "m_publication_pending x \<or> displayed s' x"
    and quiet: "unseen p \<longrightarrow> ps_shown s' = ps_shown s"
    and r: "\<exists>env st'. guarded_mutation env (ps_mirrors s) (publication_body env k (m_revision d)) = (Inr (x, v), st')"
  have "shows_last s' x" if n: "\<not> m_publication_pending x" and a: "alone p k"
  proof -
    have f: "\<exists>q. mirror_map (ps_mirrors s) k = Some q \<and> (q = d \<or> m_publication_pending q)"
      using d(2) a by (auto simp: on_card_def fresh_def option_rel_Some2)
    have "m_card_message_id x = m_card_message_id d \<and> github_mirror_card_signature x = github_mirror_card_signature d"
      using r publication_result [OF assms(1) d(1,3)] f n by fastforce
    then show ?thesis using d(2) alone_unseen [OF a] quiet by (auto simp: on_card_def shows_last_def split: option.splits)
  qed
  then show "Q (x, v) s'" using Q [OF x] by blast
qed (use assms(7) in blast)

lemma publish_loop_delivers:
  assumes fair: "fair p" and ok: "pub_ok s"
  shows "wp (publish_loop p ch fuel n k)
    (\<lambda>x s'. evolves s s' \<and> item k x s' \<and> displayed s' x \<and> \<not> m_publication_pending x \<and> (alone p k \<longrightarrow> shows_last s' x)) (\<lambda>_ s'. evolves s s') s"
  using ok
proof (induction n arbitrary: s)
  case 0
  then show ?case by (simp add: wp_basic evolves_refl)
next
  case (Suc n)
  let ?Q = "\<lambda>x s'. evolves s s' \<and> item k x s' \<and> displayed s' x \<and> \<not> m_publication_pending x \<and> (alone p k \<longrightarrow> shows_last s' x)"
  let ?E = "\<lambda>(_ :: exn) s'. evolves s s'"
  note call = methods_deliverD [OF all_deliver [OF fair], where s = s and k = k]
  have complete: "wp (on_mirrors p (\<lambda>env st. complete_publication env st k (m_revision d))) (\<lambda>x. wp (case x of
      (completed, _) \<Rightarrow> if \<not> m_publication_pending completed then return completed
        else publish_loop p ch fuel n k) ?Q ?E) ?E t"
    if t: "evolves s t" and d: "item k d t" "on_card p k d t" for d t
  proof (rule evolving_publication [OF evolves_ok [OF t] fair _ d(2)])
    fix x v u assume u: "evolves t u" "item k x u" "m_publication_pending x \<or> displayed u x"
      "\<not> m_publication_pending x \<longrightarrow> alone p k \<longrightarrow> shows_last u x"
    have su: "evolves s u" by (rule evolves_trans [OF u(1) t])
    have "wp (publish_loop p ch fuel n k) ?Q ?E u"
      using Suc.IH [OF evolves_ok [OF u(1)]] evolves_trans [OF _ su] by (auto elim!: wp_mono)
    then show "wp (case (x, v) of (completed, _) \<Rightarrow> if \<not> m_publication_pending completed then return completed
        else publish_loop p ch fuel n k) ?Q ?E u"
      using u su by (auto simp: wp_basic)
  qed (use d t evolves_trans [OF _ t] in \<open>auto simp: item_def\<close>)
  show ?case unfolding publish_loop.simps wp_bind
  proof (rule evolving_get [OF Suc.prems fair])
    fix r t assume "evolves s t" "item k r t"
    then show "wp (if m_card_message_id r = None then create_card p ch fuel r
        else finish_attached_card p ch fuel r None 0)
        (\<lambda>x. wp (on_mirrors p (\<lambda>env st. complete_publication env st k (m_revision x))) (\<lambda>x. wp (case x of
          (completed, _) \<Rightarrow> if \<not> m_publication_pending completed then return completed
            else publish_loop p ch fuel n k) ?Q ?E) ?E) ?E t"
      by (auto simp: wp_if intro!: call complete)
  qed
qed

lemma staged_delivers:
  assumes fair: "fair p" and ok: "pub_ok s"
  shows "wp (publish_staged p fuel k)
    (\<lambda>x s'. evolves s s' \<and> item k x s' \<and> displayed s' x \<and> \<not> m_publication_pending x \<and> (alone p k \<longrightarrow> shows_last s' x)) (\<lambda>_ s'. evolves s s') s"
proof -
  let ?Q = "\<lambda>x s'. evolves s s' \<and> item k x s' \<and> displayed s' x \<and> \<not> m_publication_pending x \<and> (alone p k \<longrightarrow> shows_last s' x)"
  let ?E = "\<lambda>(_ :: exn) s'. evolves s s'"
  have "wp (publish_loop p ch fuel n k) ?Q ?E t" if "evolves s t" for ch n t
    by (rule wp_mono [OF publish_loop_delivers [OF fair evolves_ok [OF that]]]) (use evolves_trans [OF _ that] in blast)+
  then have "wp (discord_call p (\<lambda>n. resolve_mirror_channel (pb_client p n) (pb_guild p) (pb_channel p)) (\<lambda>_. []))
      (\<lambda>ch. wp (publish_loop p ch fuel n k) ?Q ?E) ?E t" if "evolves s t" for n t
    using that evolves_trans [OF _ that] by (intro evolving_call [OF evolves_ok [OF that] fair]) blast+
  then show ?thesis unfolding publish_staged_def wp_bind
    by (intro evolving_get [OF ok fair]) (auto simp: wp_basic wp_bind)
qed

lemma upsert_pending:
  assumes "records_ok records" and "upsert_body env guild channel e records = Inr (Some r, v)"
  shows "m_publication_pending r"
proof -
  obtain q dup where v: "v = (q, dup)" by (cases v) auto
  from upsert_body_Inr [OF assms(1) assms(2) [unfolded v]] have "m_publication_pending q \<and> r = q"
    by (auto dest!: update_from_event_Inr(1) simp: note_delivery_def)
       (auto simp: record_from_event_def make_mirror_Inr first_record_def)
  then show ?thesis by blast
qed

lemma evolving_store:
  assumes "pub_ok s" and "fair p"
    and "evolves s (s\<lparr>ps_mirrors := snd (f (pb_store p (ps_calls s)) (ps_mirrors s))\<rparr>)"
    and "\<And>x s'. evolves s s' \<Longrightarrow> Q x s'" and "\<And>e s'. evolves s s' \<Longrightarrow> E e s'"
  shows "wp (on_mirrors p f) Q E s"
proof -
  let ?t = "s\<lparr>ps_mirrors := snd (f (pb_store p (ps_calls s)) (ps_mirrors s)), ps_calls := ps_calls s + 1\<rparr>"
  have t: "evolves s ?t" using evolves_trans [OF pub_ok_calls [OF evolves_ok [OF assms(3)]] assms(3)] by simp
  have "evolves ?t (pb_between p (ps_calls s) ?t)" using assms(2) evolves_ok [OF t] by (simp add: fair_def)
  then have "evolves s (pb_between p (ps_calls s) ?t)" using t by (rule evolves_trans)
  then show ?thesis using assms(4,5)
    by (cases "f (pb_store p (ps_calls s)) (ps_mirrors s)") (auto simp: wp_def on_mirrors_def Let_def split: sum.split)
qed

text \<open>An event never marks anything as published, so receiving one keeps the invariant.\<close>

lemma upsert_evolves:
  assumes ok: "pub_ok s" and fresh: "mirror_map (ps_mirrors s) (uuid_hex (me_uuid env)) = None"
  shows "evolves s (s\<lparr>ps_mirrors := snd (upsert_event env (ps_mirrors s) e guild ch)\<rparr>)"
proof (rule evolvesI [OF ok])
  let ?st = "ps_mirrors s" and ?body = "upsert_body env guild ch e"
  have m: "mirror_ok ?st" using ok by (simp add: pub_ok_def)
  then show "refines ?st (snd (upsert_event env ?st e guild ch))" using fresh by (rule upsert_refines)
  have keep: "m_publication_pending r \<or> displayed s r" if "mirror_map ?st j = Some r" for j r
    by (rule stored_known(3) [OF ok that])
  fix k r assume r: "mirror_map (snd (upsert_event env ?st e guild ch)) k = Some r"
  obtain res st' where g: "upsert_event env ?st e guild ch = (res, st')" by fastforce
  show "m_publication_pending r \<or> displayed s r"
  proof (cases "st' = ?st")
    case True
    then show ?thesis using keep r g by simp
  next
    case False
    then have u: "mutation env (me_read env) ?st ?body = (res, st')"
      using g by (auto simp: upsert_event_def guarded_mutation_def split: sum.splits)
    have "committable (me_read env) ?st ?body"
      unfolding committable_def using upsert_body_ok fresh canonical_map by metis
    from mutation_cases [OF m u this] show ?thesis
    proof (elim disjE exE conjE)
      fix x assume "untouched ?st st'" then show ?thesis using keep r g untouched_map [of ?st st'] by simp
    next
      fix records q v assume l: "canonical_records (me_read env) ?st = Inr records" "?body records = Inr (Some q, v)"
        "stored_record ?st q st'"
      have "m_publication_pending q" by (rule upsert_pending [OF canonical_ok [OF m l(1)] l(2)])
      then show ?thesis using keep r g l(3) by (auto simp: stored_record_def split: if_splits)
    qed (use False in blast)
  qed
qed

lemma publish_evolves:
  assumes fair: "fair p" and ok: "pub_ok s"
    and fresh: "mirror_map (ps_mirrors s) (uuid_hex (me_uuid (pb_store p (ps_calls s)))) = None"
  shows "wp (publish p fuel e)
    (\<lambda>x s'. evolves s s' \<and> displayed s' x \<and> \<not> m_publication_pending x) (\<lambda>_ s'. evolves s s') s"
proof -
  have "wp (publish_staged p fuel k) (\<lambda>x s'. evolves s s' \<and> displayed s' x \<and> \<not> m_publication_pending x)
      (\<lambda>_ s'. evolves s s') t" if t: "evolves s t" for k t
    by (rule wp_mono [OF staged_delivers [OF fair evolves_ok [OF t]]]) (use evolves_trans [OF _ t] in blast)+
  then show ?thesis unfolding publish_def using evolves_refl [OF ok]
    by (auto simp: wp_basic wp_bind split: option.split intro!: evolving_store upsert_evolves ok fair fresh)
qed

text \<open>
  C4. Whatever Discord answers to the sends, edits, fetches, deletions and searches, whichever
  operations of the store fail, and whatever other coroutines do meanwhile while they keep the same
  invariant: publishing keeps, on success and on every exception, that Discord has accepted the content of every
  record marked as published for the card it names, and never takes a record back to an older version. It
  returns only a record of the item asked for that is no longer pending and whose content Discord accepted
  for its card. If moreover nobody else shows anything meanwhile, and the others leave the item marked for publication
  whenever they change it, then the content Discord accepted last for that card is that of the returned record.
\<close>

theorem published_card_current:
  assumes "fair p" and "pub_ok s"
  shows "case publish_staged p fuel k s of (outcome, s') \<Rightarrow> evolves s s'
    \<and> (case outcome of Inl _ \<Rightarrow> True
       | Inr r \<Rightarrow> m_mirror_id r = k \<and> \<not> m_publication_pending r \<and> displayed s' r \<and> (alone p k \<longrightarrow> shows_last s' r))"
  using staged_delivers [OF assms, of fuel k]
  by (auto simp: wp_def item_def split: prod.split sum.splits)

section \<open>A card in use\<close>

definition example_message :: "int \<Rightarrow> mirror_message" where
  "example_message k = \<lparr>mm_id = k, mm_nonce = None, mm_author = Some 1, mm_view = None, mm_components = None\<rparr>"

definition example_publisher :: publisher where
  "example_publisher = \<lparr>pb_guild = Some 5, pb_channel = Some 6, pb_client = (\<lambda>_. example_client),
     pb_library = plain_library, pb_store = (\<lambda>_. example_mirror_env), pb_send = (\<lambda>_. Inr (example_message 60)),
     pb_fetch = (\<lambda>_ k. Inr (example_message k)), pb_edit = (\<lambda>_ _. Inr ()), pb_delete = (\<lambda>_ _. Inr ()),
     pb_history = (\<lambda>_. ([], [], None)), pb_between = (\<lambda>_ s. s)\<rparr>"

definition attached_mirror :: mirror_record where
  "attached_mirror = first_mirror\<lparr>m_card_message_id := Some 60, m_revision := 2\<rparr>"

definition staged_state :: pub_state where
  "staged_state = \<lparr>ps_mirrors = holding [(m_mirror_id attached_mirror, attached_mirror)], ps_calls = 0, ps_shown = []\<rparr>"

lemma example_fair: "fair example_publisher"
  by (auto simp: fair_def example_publisher_def example_message_def evolves_refl)

lemma staged_ok: "pub_ok staged_state"
proof -
  have "valid_mirror attached_mirror" by code_simp
  then have "records_ok [(m_mirror_id attached_mirror, attached_mirror)]" by (rule single_ok) (rule refl)
  from holding_ok(1,2) [OF this] show ?thesis
    by (auto simp: pub_ok_def staged_state_def attached_mirror_def first_mirror_def first_record_def split: if_splits)
qed

theorem published_card_current_witness:
  "case publish_staged example_publisher 1 (m_mirror_id attached_mirror) staged_state of (outcome, s') \<Rightarrow>
     (case outcome of Inl _ \<Rightarrow> False | Inr r \<Rightarrow> m_revision r = 3 \<and> displayed s' r \<and> shows_last s' r)"
proof -
  obtain outcome s' where r: "publish_staged example_publisher 1 (m_mirror_id attached_mirror) staged_state = (outcome, s')"
    by fastforce
  have a: "alone example_publisher (m_mirror_id attached_mirror)"
    by (simp only: alone_def unseen_def example_publisher_def publisher.simps) simp
  have "case publish_staged example_publisher 1 (m_mirror_id attached_mirror) staged_state of (outcome, s') \<Rightarrow>
     (case outcome of Inl _ \<Rightarrow> False | Inr r \<Rightarrow> m_revision r = 3)" by code_simp
  then obtain q where q: "outcome = Inr q" "m_revision q = 3" unfolding r by (cases outcome) simp_all
  have "displayed s' q \<and> (alone example_publisher (m_mirror_id attached_mirror) \<longrightarrow> shows_last s' q)"
    using published_card_current [OF example_fair staged_ok, where fuel = 1 and k = "m_mirror_id attached_mirror"]
    unfolding r q(1) prod.case sum.case by (elim conjE) (rule conjI)
  then show ?thesis unfolding r q(1) prod.case sum.case using a q(2) by (elim conjE) (intro conjI, assumption, assumption, erule mp)
qed

end
