(* ===== verification/TaskRequest.thy ===== *)
theory TaskRequest
  imports TaskStoreProps
begin

text \<open>
  \<open>discord_task_request.py\<close>, \<open>discord_origin.py\<close>, \<open>discord_task_service_state.py\<close> and
  \<open>discord_task_failures.py\<close>: what a user asks for, the record a task starts as, the bounded memory of
  handled events, and what a failure is reported as.
\<close>

section \<open>Requests\<close>

record origin_context =
  oc_channel_id :: int
  oc_channel_name :: "string option"
  oc_channel_type :: "string option"
  oc_thread_id :: "int option"
  oc_thread_name :: "string option"
  oc_parent_channel_id :: "int option"
  oc_parent_channel_name :: "string option"
  oc_category_id :: "int option"
  oc_category_name :: "string option"

record staged_attachments =
  sa_paths :: "string list"
  sa_directory :: "string option"

definition no_attachments :: staged_attachments where
  "no_attachments = \<lparr>sa_paths = [], sa_directory = None\<rparr>"

record task_request =
  rq_source_kind :: source_kind
  rq_guild_id :: int
  rq_origin_channel_id :: int
  rq_execution_channel_id :: int
  rq_owner_id :: int
  rq_trigger_event_id :: int
  rq_source_message_id :: "int option"
  rq_prompt :: string
  rq_source_label :: string
  rq_attachments :: staged_attachments
  rq_origin_context :: "origin_context option"
  rq_intent :: intent
  rq_source_reference_id :: "string option"
  rq_repository_commit_sha :: "string option"
  rq_task_id :: "string option"

record steer_request =
  sr_prompt :: string
  sr_source_message_id :: "int option"
  sr_attachments :: staged_attachments
  sr_origin_context :: "origin_context option"

abbreviation MAX_TASK_PROMPT_CHARS :: nat where "MAX_TASK_PROMPT_CHARS \<equiv> 4000"
abbreviation MAX_TASK_SOURCE_LABEL_CHARS :: nat where "MAX_TASK_SOURCE_LABEL_CHARS \<equiv> 200"

definition positive_id :: "int \<Rightarrow> string \<Rightarrow> (bool \<times> exn) list" where
  "positive_id v name = [(v \<le> 0, ValueError (name @ '' must be a positive integer''))]"

definition optional_positive_id :: "int option \<Rightarrow> string \<Rightarrow> (bool \<times> exn) list" where
  "optional_positive_id v name = (case v of None \<Rightarrow> [] | Some i \<Rightarrow> positive_id i name)"

definition request_text :: "string \<Rightarrow> string \<Rightarrow> nat \<Rightarrow> (bool \<times> exn) list" where
  "request_text v name maximum =
    [(py_strip v = [] \<or> maximum < length v,
      ValueError (name @ '' must be between 1 and '' @ int_str (int maximum) @ '' characters''))]"

definition request_task_id :: "string option \<Rightarrow> (bool \<times> exn) list" where
  "request_task_id v = (case v of None \<Rightarrow> []
    | Some s \<Rightarrow> [(\<not> canonical_uuid s, ValueError ''task_id must be a canonical UUID'')])"

definition request_checks :: "task_request \<Rightarrow> (bool \<times> exn) list" where
  "request_checks q =
    positive_id (rq_guild_id q) ''guild_id'' @ positive_id (rq_origin_channel_id q) ''origin_channel_id''
    @ positive_id (rq_execution_channel_id q) ''execution_channel_id'' @ positive_id (rq_owner_id q) ''owner_id''
    @ positive_id (rq_trigger_event_id q) ''trigger_event_id''
    @ optional_positive_id (rq_source_message_id q) ''source_message_id''
    @ request_text (rq_prompt q) ''prompt'' MAX_TASK_PROMPT_CHARS
    @ request_text (rq_source_label q) ''source_label'' MAX_TASK_SOURCE_LABEL_CHARS
    @ [(\<not> valid_source_reference_id (rq_source_reference_id q),
        ValueError ''source_reference_id must be 32 lowercase hexadecimal characters''),
       (\<not> valid_repository_commit_sha (rq_repository_commit_sha q),
        ValueError ''repository_commit_sha must be 40 lowercase hexadecimal characters'')]
    @ request_task_id (rq_task_id q)"

definition make_request :: "task_request \<Rightarrow> task_request result" where
  "make_request q = and_then (raise_first (request_checks q)) (\<lambda>_. Inr q)"

definition make_steer_request :: "steer_request \<Rightarrow> steer_request result" where
  "make_steer_request q =
    and_then (raise_first (request_text (sr_prompt q) ''prompt'' MAX_TASK_PROMPT_CHARS
      @ optional_positive_id (sr_source_message_id q) ''source_message_id'')) (\<lambda>_. Inr q)"

section \<open>The first record of a task\<close>

definition as_timestamp :: "datetime \<Rightarrow> string result" where
  "as_timestamp now =
    (if dt_offset now = None then Inl (ValueError ''timestamp must have a timezone'')
     else and_then (as_utc now) (\<lambda>u. Inr (isoformat u)))"

text \<open>\<open>request.task_id or task_id\<close>.\<close>

definition requested_id :: "task_request \<Rightarrow> string \<Rightarrow> string" where
  "requested_id q task_id = (case rq_task_id q of Some s \<Rightarrow> if s \<noteq> [] then s else task_id | None \<Rightarrow> task_id)"

definition new_record :: "task_request \<Rightarrow> string \<Rightarrow> datetime \<Rightarrow> task_record option \<Rightarrow> task_record result" where
  "new_record q task_id now continued_from =
    and_then (as_timestamp now) (\<lambda>ts.
    make_task_record
      \<lparr>t_task_id = requested_id q task_id, t_revision = 0, t_owner_id = rq_owner_id q,
       t_guild_id = rq_guild_id q, t_origin_channel_id = rq_origin_channel_id q,
       t_execution_channel_id = rq_execution_channel_id q, t_trigger_event_id = rq_trigger_event_id q,
       t_source_message_id = rq_source_message_id q, t_card_message_id = None, t_result_message_id = None,
       t_source_kind = rq_source_kind q, t_source_label = rq_source_label q, t_created_at = ts,
       t_updated_at = ts, t_attempt = 1, t_state = STARTING, t_failure = None,
       t_interruption_cause = None, t_continued_from = map_option t_task_id continued_from,
       t_continued_to = None,
       t_intent = (case continued_from of None \<Rightarrow> rq_intent q | Some p \<Rightarrow> t_intent p),
       t_source_reference_id =
         (case continued_from of None \<Rightarrow> rq_source_reference_id q | Some p \<Rightarrow> t_source_reference_id p),
       t_repository_commit_sha =
         (case continued_from of None \<Rightarrow> rq_repository_commit_sha q | Some p \<Rightarrow> t_repository_commit_sha p)\<rparr>)"

section \<open>Handled events\<close>

text \<open>\<open>BoundedClaims\<close>: an \<open>OrderedDict\<close> of event identifiers, oldest first.\<close>

type_synonym claims = "(int, string) pydict"

definition move_to_end :: "int \<Rightarrow> claims \<Rightarrow> claims" where
  "move_to_end k d = (case map_of d k of None \<Rightarrow> d | Some v \<Rightarrow> AList.delete k d @ [(k, v)])"

definition trim_claims :: "nat \<Rightarrow> claims \<Rightarrow> claims" where
  "trim_claims maximum d = (if maximum < length d then tl d else d)"

definition claim_event :: "nat \<Rightarrow> claims \<Rightarrow> int \<Rightarrow> string \<Rightarrow> string option \<times> claims" where
  "claim_event maximum d event_id task_id =
    (case map_of d event_id of
       Some prior \<Rightarrow> (Some prior, move_to_end event_id d)
     | None \<Rightarrow> (None, trim_claims maximum (AList.update event_id task_id d)))"

definition existing_claim :: "claims \<Rightarrow> int \<Rightarrow> string option" where
  "existing_claim d event_id = map_of d event_id"

definition remember_event :: "nat \<Rightarrow> claims \<Rightarrow> int \<Rightarrow> string \<Rightarrow> claims" where
  "remember_event maximum d event_id task_id =
    trim_claims maximum (move_to_end event_id (AList.update event_id task_id d))"

section \<open>Failures\<close>

definition failure_of :: "failure_category \<Rightarrow> string \<Rightarrow> task_failure" where
  "failure_of c s = \<lparr>f_category = c, f_summary = s, f_retry_mode = NO_RETRY\<rparr>"

definition resumable_failure :: "failure_category \<Rightarrow> string \<Rightarrow> bool \<Rightarrow> bool \<Rightarrow> task_failure" where
  "resumable_failure c summary persisted_session active_turn =
    (if persisted_session \<and> \<not> active_turn
     then \<lparr>f_category = c, f_summary = summary, f_retry_mode = CONTINUE_SESSION\<rparr>
     else if active_turn
     then failure_of c ''An agent turn may still be active, so recovery is unavailable yet.''
     else failure_of c ''The agent session was not saved, so recovery is unavailable.'')"

definition classify_agent_failure :: "exn \<Rightarrow> bool \<Rightarrow> bool \<Rightarrow> task_failure" where
  "classify_agent_failure e persisted_session active_turn = (case e of
      AgentTurnTimedOut \<Rightarrow> resumable_failure CAT_TIMEOUT
        ''The agent timed out. Partial work and the agent session were kept.'' persisted_session active_turn
    | AgentRuntimeDisconnected \<Rightarrow> resumable_failure RUNTIME_DISCONNECTED
        ''Codex app server disconnected. The session and worktree were kept.'' persisted_session active_turn
    | AgentRuntimeIncompatible \<Rightarrow>
        failure_of RUNTIME_INCOMPATIBLE ''The configured Codex app server is incompatible.''
    | AgentProcessFailed \<Rightarrow>
        failure_of AGENT_PROCESS_FAILED ''The agent process exited before returning a result.''
    | AgentInvalidOutput \<Rightarrow> failure_of INVALID_AGENT_OUTPUT ''The agent returned an invalid result.''
    | AgentConfigurationError \<Rightarrow> failure_of CONFIGURATION ''The gateway configuration is incomplete.''
    | AgentWorkspaceOrAttachmentError \<Rightarrow> failure_of WORKSPACE_OR_ATTACHMENT
        ''The workspace or attachment could not be prepared safely.''
    | _ \<Rightarrow> failure_of INTERNAL ''The task failed safely. Check the task ID with an administrator.'')"

definition classify_delivery_failure :: "bool \<Rightarrow> task_failure" where
  "classify_delivery_failure definitive_non_delivery =
    (if definitive_non_delivery
     then \<lparr>f_category = DISCORD_DELIVERY,
           f_summary = ''Discord could not deliver the result. It is safe to retry delivery.'',
           f_retry_mode = RETRY_DELIVERY\<rparr>
     else failure_of DISCORD_DELIVERY
       ''Discord delivery may have succeeded. Check the channel before trying again.'')"

text \<open>The constructor of a failure accepts all of these.\<close>

lemma failure_constructed:
  "make_failure (f_category f) (f_summary f) (f_retry_mode f) = Inr f \<longleftrightarrow> valid_failure f"
  by (cases f) (auto simp: make_failure_def valid_failure_def)

lemma classified_valid: "valid_failure (classify_agent_failure e p a)" "valid_failure (classify_delivery_failure d)"
  by (simp_all add: classify_agent_failure_def resumable_failure_def failure_of_def
      classify_delivery_failure_def valid_failure_def split: exn.split)

lemma classified_category: "f_category (classify_agent_failure e p a) \<noteq> DISCORD_DELIVERY"
  by (simp add: classify_agent_failure_def resumable_failure_def failure_of_def split: exn.split)

lemma classified_retry:
  "f_retry_mode (classify_agent_failure e p a) =
    (if p \<and> \<not> a \<and> e \<in> {AgentTurnTimedOut, AgentRuntimeDisconnected} then CONTINUE_SESSION else NO_RETRY)"
  by (auto simp: classify_agent_failure_def resumable_failure_def failure_of_def split: exn.split)

section \<open>Properties of requests and events\<close>

definition request_ok :: "task_request \<Rightarrow> bool" where
  "request_ok q \<longleftrightarrow> (\<forall>(bad, e) \<in> set (request_checks q). \<not> bad)"

lemma make_request_Inr [result_simps]: "make_request q = Inr q' \<longleftrightarrow> q' = q \<and> request_ok q"
  by (auto simp: make_request_def and_then_eq_Inr raise_first_Inr request_ok_def)

lemma as_timestamp_text:
  assumes "as_timestamp now = Inr ts"
  shows "aware_text ts" and "timestamp_text now = Inr ts"
proof -
  show t: "timestamp_text now = Inr ts" using assms by (auto simp: as_timestamp_def timestamp_text_def split: if_splits)
  show "aware_text ts" using timestamp_text_utc [OF t] by blast
qed

lemma request_okD:
  assumes "request_ok q"
  shows "0 < rq_guild_id q" "0 < rq_origin_channel_id q" "0 < rq_execution_channel_id q" "0 < rq_owner_id q"
    "0 < rq_trigger_event_id q" "\<forall>i \<in> set_option (rq_source_message_id q). 0 < i"
    "rq_source_label q \<noteq> []" "length (rq_source_label q) \<le> 200"
    "valid_source_reference_id (rq_source_reference_id q)"
    "valid_repository_commit_sha (rq_repository_commit_sha q)"
    "\<forall>s \<in> set_option (rq_task_id q). canonical_uuid s"
  using assms
  by (auto simp: request_ok_def request_checks_def positive_id_def optional_positive_id_def request_text_def
      request_task_id_def strip_by_def not_le split: option.splits)

lemma requested_uuid:
  assumes "request_ok q" and "uuid_parse task_id \<noteq> None"
  shows "\<not> bad_uuid (Some (requested_id q task_id))"
  using request_okD(11) [OF assms(1)] assms(2)
  by (auto simp: bad_uuid_def requested_id_def canonical_uuid_def split: option.splits)

lemma new_record_ok:
  assumes "request_ok q" and "uuid_parse task_id \<noteq> None" and "as_timestamp now = Inr ts"
  shows "\<exists>r. new_record q task_id now None = Inr r \<and> storable r \<and> t_task_id r = requested_id q task_id
    \<and> t_state r = STARTING \<and> t_attempt r = 1 \<and> t_revision r = 0
    \<and> t_continued_from r = None \<and> t_continued_to r = None
    \<and> t_execution_channel_id r = rq_execution_channel_id q \<and> t_trigger_event_id r = rq_trigger_event_id q
    \<and> t_owner_id r = rq_owner_id q \<and> t_guild_id r = rq_guild_id q"
proof -
  note ts = as_timestamp_text [OF assms(3)]
  note q = request_okD [OF assms(1)] requested_uuid [OF assms(1,2)]
  have none: "\<not> bad_uuid None" by (simp add: bad_uuid_def)
  show ?thesis using q none ts timestamp_text_utc [OF ts(2)]
    by (auto simp: new_record_def assms(3) make_task_record_Inr task_identity_ok_def task_progress_ok_def
        failure_fits_def FAILURE_STATES_def storable_def valid_task_iff)
qed

text \<open>
  Every accepted request can become a task: whatever request its constructor lets through, the
  first record built from it passes the stricter checks of the task record, can be stored and read back,
  and starts attempt one in the requested channel for the requested owner, under the requested identifier
  when there is one.
\<close>

theorem accepted_request_recorded:
  assumes "make_request q = Inr q'" and "uuid_parse task_id \<noteq> None" and "as_timestamp now = Inr ts"
  shows "\<exists>r. new_record q' task_id now None = Inr r \<and> storable r \<and> t_task_id r = requested_id q task_id
    \<and> t_state r = STARTING \<and> t_attempt r = 1 \<and> t_revision r = 0
    \<and> t_continued_from r = None \<and> t_continued_to r = None
    \<and> t_execution_channel_id r = rq_execution_channel_id q \<and> t_trigger_event_id r = rq_trigger_event_id q
    \<and> t_owner_id r = rq_owner_id q \<and> t_guild_id r = rq_guild_id q"
proof -
  have "q' = q" "request_ok q" using assms(1) by (auto simp: make_request_Inr)
  then show ?thesis using new_record_ok [of q task_id now ts] assms(2,3) by simp
qed

lemma remember_event_simp: "remember_event m d k v = trim_claims m (AList.delete k d @ [(k, v)])"
  by (simp add: remember_event_def move_to_end_def delete_update_same)

lemma delete_filter: "AList.delete k d = filter (\<lambda>(k', _). k \<noteq> k') d"
  by (simp add: AList.delete_eq)

lemma delete_snoc_wf: "dict_wf d \<Longrightarrow> dict_wf (AList.delete k d @ [(k, v)])"
  using distinct_delete [of d k] by (auto simp: delete_filter)

lemma remember_wf: "dict_wf d \<Longrightarrow> dict_wf (remember_event m d k v)"
  using delete_snoc_wf [of d k v] by (auto simp: remember_event_simp trim_claims_def map_tl distinct_tl)

lemma delete_shorter: "length (AList.delete k d) \<le> length d"
  by (simp add: delete_filter)

lemma remember_length: "length d \<le> m \<Longrightarrow> length (remember_event m d k v) \<le> m"
  using delete_shorter [of k d] by (auto simp: remember_event_simp trim_claims_def)

definition remember_all :: "nat \<Rightarrow> claims \<Rightarrow> (int \<times> string) list \<Rightarrow> claims" where
  "remember_all m d events = foldl (\<lambda>d (k, v). remember_event m d k v) d events"

lemma remember_all_length: "length d \<le> m \<Longrightarrow> length (remember_all m d events) \<le> m"
  by (induction events arbitrary: d) (auto simp: remember_all_def remember_length)

lemma remember_keeps:
  assumes "dict_wf (xs @ (e, t) # ys)" and "fst ` set ys \<subseteq> K" and "finite K" and "e \<notin> K"
    and "fst ` set events \<subseteq> K" and "card K < m"
  shows "map_of (remember_all m (xs @ (e, t) # ys) events) e = Some t"
  using assms(1,2,5)
proof (induction events arbitrary: xs ys)
  case Nil
  then have "e \<notin> fst ` set xs" by auto
  then show ?case by (simp add: remember_all_def map_add_Some_iff map_of_eq_None_iff)
next
  case (Cons ev events)
  obtain k v where ev: "ev = (k, v)" by (cases ev)
  have k: "k \<in> K" "k \<noteq> e" using Cons.prems(3) assms(4) ev by auto
  let ?xs = "AList.delete k xs" and ?ys = "AList.delete k ys @ [(k, v)]"
  have d: "AList.delete k (xs @ (e, t) # ys) @ [(k, v)] = ?xs @ (e, t) # ?ys"
    using k by (simp add: delete_filter)
  have wf: "dict_wf (remember_event m (xs @ (e, t) # ys) k v)" by (rule remember_wf [OF Cons.prems(1)])
  have ys: "fst ` set ?ys \<subseteq> K" using Cons.prems(2) k(1) by (auto simp: delete_filter)
  have "\<exists>zs. remember_event m (xs @ (e, t) # ys) k v = zs @ (e, t) # ?ys"
  proof (cases "m < length (?xs @ (e, t) # ?ys)")
    case True
    have "dict_wf (AList.delete k (xs @ (e, t) # ys) @ [(k, v)])"
      by (rule delete_snoc_wf [OF Cons.prems(1)])
    then have "distinct (map fst ?ys)" unfolding d by simp
    then have "length ?ys \<le> card K"
      using card_mono [OF assms(3) ys] by (metis distinct_card length_map list.set_map)
    then have "?xs \<noteq> []" using True assms(6) by auto
    then show ?thesis using True by (auto simp: remember_event_simp d trim_claims_def)
  next
    case False
    then show ?thesis by (auto simp: remember_event_simp d trim_claims_def)
  qed
  then obtain zs where zs: "remember_event m (xs @ (e, t) # ys) k v = zs @ (e, t) # ?ys" by blast
  from Cons.IH [OF wf [unfolded zs] ys] Cons.prems(3) show ?case
    by (simp add: remember_all_def ev zs)
qed

text \<open>
  The memory of handled events is bounded and never forgets too early: it holds at most its
  maximum, and an event is still known, with the task it started, until that many other events
  have been remembered after it, however often each of them came.
\<close>

theorem claims_bounded_recent:
  assumes "dict_wf d" and "length d \<le> maximum" and "e \<notin> fst ` set events"
    and "card (fst ` set events) < maximum"
  shows "length (remember_all maximum (remember_event maximum d e t) events) \<le> maximum
    \<and> existing_claim (remember_all maximum (remember_event maximum d e t) events) e = Some t"
proof
  show "length (remember_all maximum (remember_event maximum d e t) events) \<le> maximum"
    by (intro remember_all_length remember_length assms)
  have "\<exists>xs. remember_event maximum d e t = xs @ (e, t) # []"
    using assms(4) by (cases "AList.delete e d") (auto simp: remember_event_simp trim_claims_def)
  then obtain xs where xs: "remember_event maximum d e t = xs @ [(e, t)]" by auto
  show "existing_claim (remember_all maximum (remember_event maximum d e t) events) e = Some t"
    using remember_keeps [of xs e t "[]" "fst ` set events" events maximum]
      remember_wf [OF assms(1), of maximum e t] assms(3,4) by (simp add: existing_claim_def xs)
qed

theorem claims_bounded_recent_witness:
  "existing_claim (remember_all 3 (remember_event 3 [(1, ''a''), (2, ''b''), (3, ''c'')] 4 ''d'')
     [(5, ''e''), (6, ''f''), (5, ''g'')]) 4 = Some ''d''"
  using claims_bounded_recent [of "[(1, ''a''), (2, ''b''), (3, ''c'')]" 3 4 "[(5, ''e''), (6, ''f''), (5, ''g'')]" "''d''"]
  by (simp add: insert_commute card_insert_if)

definition example_request :: task_request where
  "example_request = \<lparr>rq_source_kind = SLASH, rq_guild_id = 5, rq_origin_channel_id = 6,
     rq_execution_channel_id = 70, rq_owner_id = 8, rq_trigger_event_id = 9, rq_source_message_id = None,
     rq_prompt = ''do it'', rq_source_label = ''slash'', rq_attachments = no_attachments,
     rq_origin_context = None, rq_intent = GENERAL, rq_source_reference_id = None,
     rq_repository_commit_sha = None, rq_task_id = None\<rparr>"

theorem accepted_request_recorded_witness:
  "\<exists>r. new_record example_request ''00000000000000000000000000000001''
      \<lparr>dt_local = 63919879200000000, dt_offset = Some 0\<rparr> None = Inr r \<and> storable r \<and> t_state r = STARTING"
proof -
  have 1: "make_request example_request = Inr example_request" by code_simp
  have 2: "uuid_parse ''00000000000000000000000000000001'' \<noteq> None" by code_simp
  have 3: "as_timestamp \<lparr>dt_local = 63919879200000000, dt_offset = Some 0\<rparr> = Inr ''2026-07-17T10:00:00+00:00''"
    by code_simp
  from accepted_request_recorded [OF 1 2 3] show ?thesis by blast
qed

end
