(* ===== verification/TaskExecution.thy ===== *)
theory TaskExecution
  imports TaskRequest MirrorLifecycle
begin

text \<open>
  \<open>discord_task_execution.py\<close>, \<open>agent_execution_policy.py\<close>, \<open>github_task_context.py\<close> and
  \<open>github_task_execution.py\<close>: what a run of the agent gets to see, and under which restrictions it runs.
\<close>

section \<open>Run specifications\<close>

record run_spec =
  rs_prompt :: string
  rs_source_message_id :: "int option"
  rs_attachments :: staged_attachments
  rs_origin_context :: "origin_context option"
  rs_recovering :: bool
  rs_create_card :: bool
  rs_require_existing_session :: bool

definition run_from_request :: "task_request \<Rightarrow> run_spec" where
  "run_from_request q = \<lparr>rs_prompt = rq_prompt q, rs_source_message_id = rq_source_message_id q,
     rs_attachments = rq_attachments q, rs_origin_context = rq_origin_context q, rs_recovering = False,
     rs_create_card = True, rs_require_existing_session = (rq_source_kind q = CONTINUATION)\<rparr>"

definition run_for_recovery :: "string \<Rightarrow> run_spec" where
  "run_for_recovery prompt = \<lparr>rs_prompt = prompt, rs_source_message_id = None,
     rs_attachments = no_attachments, rs_origin_context = None, rs_recovering = True,
     rs_create_card = False, rs_require_existing_session = True\<rparr>"

section \<open>Policies\<close>

datatype policy_class = POLICY_REVIEW | POLICY_SECURITY_REVIEW | POLICY_VULNERABILITY_SCAN | POLICY_IMPLEMENTATION

datatype sandbox_mode = READ_ONLY | WORKSPACE_WRITE | FULL_ACCESS

datatype approval_policy = APPROVE_NEVER | APPROVE_ON_REQUEST | APPROVE_UNTRUSTED

record execution_policy =
  xp_class :: policy_class
  xp_approval :: approval_policy
  xp_sandbox :: sandbox_mode
  xp_network :: bool
  xp_environment :: bool
  xp_dynamic_tools :: bool
  xp_version :: int

definition policy_for :: "policy_class \<Rightarrow> execution_policy" where
  "policy_for c = \<lparr>xp_class = c, xp_approval = APPROVE_NEVER,
     xp_sandbox = (if c = POLICY_IMPLEMENTATION then WORKSPACE_WRITE else READ_ONLY),
     xp_network = False, xp_environment = False, xp_dynamic_tools = False, xp_version = 1\<rparr>"

definition sandbox_policy :: "execution_policy \<Rightarrow> json result" where
  "sandbox_policy p = (case xp_sandbox p of
      READ_ONLY \<Rightarrow> Inr (JObj [(''type'', JStr ''readOnly''), (''networkAccess'', JBool (xp_network p))])
    | WORKSPACE_WRITE \<Rightarrow> Inr (JObj [(''type'', JStr ''workspaceWrite''), (''networkAccess'', JBool (xp_network p)),
        (''writableRoots'', JArr [])])
    | FULL_ACCESS \<Rightarrow> Inl (ValueError ''Restricted execution cannot use full-access sandboxing''))"

section \<open>Execution contexts\<close>

record execution_context =
  ec_channel_id :: int
  ec_trigger_event_id :: int
  ec_repository :: "string option"
  ec_commit_sha :: "string option"
  ec_policy :: "execution_policy option"
  ec_require_existing_session :: bool

definition make_context :: "execution_context \<Rightarrow> execution_context result" where
  "make_context c =
    (if ec_policy c \<noteq> None \<and> (ec_repository c = None \<or> ec_commit_sha c = None)
     then Inl (ValueError ''Restricted execution requires repository and commit context'') else Inr c)"

definition default_execution_context :: "task_record \<Rightarrow> execution_context result" where
  "default_execution_context r =
    (if t_intent r \<noteq> GENERAL \<or> t_source_reference_id r \<noteq> None \<or> t_repository_commit_sha r \<noteq> None
     then Inl AgentConfigurationError
     else make_context \<lparr>ec_channel_id = t_execution_channel_id r, ec_trigger_event_id = t_trigger_event_id r,
       ec_repository = None, ec_commit_sha = None, ec_policy = None, ec_require_existing_session = False\<rparr>)"

text \<open>\<open>AgentPolicyClass(record.intent.value)\<close>; the two enumerations have the same values but for
  \<open>GENERAL\<close>.\<close>

fun intent_policy :: "intent \<Rightarrow> policy_class option" where
  "intent_policy GENERAL = None"
| "intent_policy REVIEW = Some POLICY_REVIEW"
| "intent_policy SECURITY_REVIEW = Some POLICY_SECURITY_REVIEW"
| "intent_policy VULNERABILITY_SCAN = Some POLICY_VULNERABILITY_SCAN"
| "intent_policy IMPLEMENTATION = Some POLICY_IMPLEMENTATION"

definition validate_context :: "task_record \<Rightarrow> execution_context \<Rightarrow> unit result" where
  "validate_context r c =
    (if ec_channel_id c \<noteq> t_execution_channel_id r \<or> ec_trigger_event_id c \<noteq> t_trigger_event_id r
     then Inl AgentConfigurationError
     else if ec_commit_sha c \<noteq> t_repository_commit_sha r then Inl AgentConfigurationError
     else if t_intent r = GENERAL
     then guarded (ec_policy c = None) AgentConfigurationError
     else guarded (\<exists>p \<in> set_option (ec_policy c). intent_policy (t_intent r) = Some (xp_class p))
       AgentConfigurationError)"

text \<open>\<open>resolved\<close> is what the resolver returned for the record.\<close>

definition resolve_execution_context :: "execution_context result \<Rightarrow> task_record \<Rightarrow> bool \<Rightarrow> execution_context result" where
  "resolve_execution_context resolved r require_existing_session =
    and_then resolved (\<lambda>c.
    and_then (validate_context r c) (\<lambda>_.
    make_context (c\<lparr>ec_require_existing_session := require_existing_session\<rparr>)))"

section \<open>Repository tasks\<close>

record github_context =
  gc_mirror_id :: string
  gc_repository :: string
  gc_commit_sha :: string
  gc_base_sha :: "string option"
  gc_item_kind :: item_kind
  gc_item_number :: int
  gc_item_url :: string

text \<open>The file system and \<open>git\<close>: \<open>None\<close> for a name that is not a directory directly below the canonical
  root, and the exit code and decoded output of \<open>git rev-parse\<close> for a repository and a revision.\<close>

record checkout =
  co_directory :: "string \<Rightarrow> string option"
  co_rev_parse :: "string \<Rightarrow> string \<Rightarrow> int \<times> string"

definition resolve_commit :: "checkout \<Rightarrow> string \<Rightarrow> string \<Rightarrow> string result" where
  "resolve_commit co repository revision =
    (case co_rev_parse co repository (revision @ ''^{commit}'') of (code, out) \<Rightarrow>
      let resolved = py_strip out in
      if code \<noteq> 0 \<or> \<not> valid_sha resolved then Inl AgentConfigurationError else Inr resolved)"

text \<open>\<open>full_name.partition("/")\<close>.\<close>

fun partition_slash :: "string \<Rightarrow> string \<times> bool \<times> string" where
  "partition_slash [] = ([], False, [])"
| "partition_slash (c # cs) =
    (if c = CHR ''/'' then ([], True, cs)
     else case partition_slash cs of (owner, found, name) \<Rightarrow> (c # owner, found, name))"

definition requested_revision :: "mirror_record \<Rightarrow> string option \<Rightarrow> string result" where
  "requested_revision r pinned = (case pinned of
      Some sha \<Rightarrow> if valid_sha sha then Inr sha else Inl AgentConfigurationError
    | None \<Rightarrow>
        if m_item_kind r = PULL_REQUEST
        then (case m_head_sha r of None \<Rightarrow> Inl AgentConfigurationError | Some sha \<Rightarrow> Inr sha)
        else Inr ''HEAD'')"

definition resolve_github_task_context :: "checkout \<Rightarrow> mirror_record \<Rightarrow> string option \<Rightarrow> github_context result" where
  "resolve_github_task_context co r pinned =
    (case partition_slash (m_repository r) of (owner, found, name) \<Rightarrow>
      if \<not> found \<or> owner \<noteq> ''Tue-StudyOS'' \<or> name = [] then Inl AgentConfigurationError
      else case co_directory co name of
        None \<Rightarrow> Inl AgentConfigurationError
      | Some repository \<Rightarrow>
          and_then (requested_revision r pinned) (\<lambda>requested.
          and_then (resolve_commit co repository requested) (\<lambda>sha.
          if pinned \<noteq> None \<and> pinned \<noteq> Some sha then Inl AgentConfigurationError
          else and_then (case (pinned, m_base_sha r) of
              (None, Some base) \<Rightarrow> resolve_commit co repository base
            | _ \<Rightarrow> Inr []) (\<lambda>_.
          Inr \<lparr>gc_mirror_id = m_mirror_id r, gc_repository = m_repository r, gc_commit_sha = sha,
            gc_base_sha = m_base_sha r, gc_item_kind = m_item_kind r, gc_item_number = m_item_number r,
            gc_item_url = m_item_url r\<rparr>))))"

text \<open>\<open>GitHubTaskExecutionResolver\<close>.\<close>

definition github_execution_resolver ::
    "checkout \<Rightarrow> read_outcome \<Rightarrow> mirror_store \<Rightarrow> task_record \<Rightarrow> execution_context result" where
  "github_execution_resolver co reading st r =
    (if t_intent r = GENERAL then default_execution_context r
     else case (t_source_reference_id r, t_repository_commit_sha r, intent_policy (t_intent r)) of
       (Some mirror_id, Some sha, Some c) \<Rightarrow>
         and_then (case get_mirror reading st mirror_id of
             Inl (KeyError _) \<Rightarrow> Inl AgentConfigurationError
           | m \<Rightarrow> m) (\<lambda>mirror.
         and_then (resolve_github_task_context co mirror (Some sha)) (\<lambda>ctx.
         make_context \<lparr>ec_channel_id = t_execution_channel_id r, ec_trigger_event_id = t_trigger_event_id r,
           ec_repository = Some (gc_repository ctx), ec_commit_sha = Some (gc_commit_sha ctx),
           ec_policy = Some (policy_for c), ec_require_existing_session = False\<rparr>))
     | _ \<Rightarrow> Inl AgentConfigurationError)"

section \<open>Confinement\<close>

lemma validate_context_Inr [result_simps]:
  "validate_context r c = Inr u \<longleftrightarrow> ec_channel_id c = t_execution_channel_id r
     \<and> ec_trigger_event_id c = t_trigger_event_id r \<and> ec_commit_sha c = t_repository_commit_sha r
     \<and> map_option xp_class (ec_policy c) = intent_policy (t_intent r)"
  by (cases "t_intent r"; cases "ec_policy c") (auto simp: validate_context_def guarded_def)

lemma make_context_Inr [result_simps]:
  "make_context c = Inr c' \<longleftrightarrow> c' = c \<and> (ec_policy c \<noteq> None \<longrightarrow> ec_repository c \<noteq> None \<and> ec_commit_sha c \<noteq> None)"
  by (auto simp: make_context_def)

text \<open>
  No resolver can widen a task: whatever context it returns, the one a run gets belongs to the
  channel and event of the task, is pinned to the commit the task recorded, is unrestricted only for a
  general task, and otherwise carries a policy of the class of the task's intent, together with a
  repository.
\<close>

theorem context_matches_task:
  assumes "resolve_execution_context resolved r require = Inr c"
  shows "ec_channel_id c = t_execution_channel_id r \<and> ec_trigger_event_id c = t_trigger_event_id r
    \<and> ec_commit_sha c = t_repository_commit_sha r \<and> (ec_policy c = None \<longleftrightarrow> t_intent r = GENERAL)
    \<and> map_option xp_class (ec_policy c) = intent_policy (t_intent r)
    \<and> (t_intent r \<noteq> GENERAL \<longrightarrow> ec_repository c \<noteq> None) \<and> ec_require_existing_session c = require"
  using assms by (cases "t_intent r") (auto simp: resolve_execution_context_def and_then_eq_Inr result_simps)

lemma policy_confined:
  "xp_network (policy_for c) = False" "xp_environment (policy_for c) = False"
  "xp_dynamic_tools (policy_for c) = False" "xp_approval (policy_for c) = APPROVE_NEVER"
  "xp_sandbox (policy_for c) = (if c = POLICY_IMPLEMENTATION then WORKSPACE_WRITE else READ_ONLY)"
  "xp_class (policy_for c) = c"
  by (simp_all add: policy_for_def)

lemma partition_slash_found: "partition_slash s = (owner, True, name) \<Longrightarrow> s = owner @ CHR ''/'' # name"
  by (induction s arbitrary: owner) (auto split: if_splits prod.splits)

lemma github_context_pinned:
  assumes "resolve_github_task_context co r (Some sha) = Inr c"
  shows "gc_commit_sha c = sha \<and> gc_repository c = m_repository r
     \<and> (\<exists>name. gc_repository c = ''Tue-StudyOS/'' @ name)"
proof -
  obtain owner found name where p: "partition_slash (m_repository r) = (owner, found, name)" by (metis prod_cases3)
  have own: "found" "owner = ''Tue-StudyOS''"
    using assms p by (auto simp: resolve_github_task_context_def split: if_splits)
  have "m_repository r = ''Tue-StudyOS/'' @ name" using partition_slash_found [of "m_repository r" owner name] p own by simp
  moreover have "gc_commit_sha c = sha" "gc_repository c = m_repository r"
    using assms unfolding resolve_github_task_context_def p
    by (auto simp: and_then_eq_Inr split: if_splits option.splits)
  ultimately show ?thesis by simp
qed

text \<open>
  C24. A repository task runs confined, on the code it was requested for: the context the gateway's
  resolver builds passes the check against the record, names a \<open>Tue-StudyOS\<close> repository and exactly the
  recorded commit, and its policy has no network, no environment and no dynamic tools, never asks
  for approval, and may write only for an implementation task.
\<close>

theorem repository_task_confined:
  assumes "github_execution_resolver co reading st r = Inr c" and "t_intent r \<noteq> GENERAL"
  shows "validate_context r c = Inr () \<and> ec_commit_sha c = t_repository_commit_sha r \<and> ec_commit_sha c \<noteq> None
    \<and> (\<exists>name. ec_repository c = Some (''Tue-StudyOS/'' @ name))
    \<and> (\<exists>p. ec_policy c = Some p \<and> \<not> xp_network p \<and> \<not> xp_environment p \<and> \<not> xp_dynamic_tools p
         \<and> xp_approval p = APPROVE_NEVER
         \<and> xp_sandbox p = (if t_intent r = IMPLEMENTATION then WORKSPACE_WRITE else READ_ONLY))"
proof -
  obtain mirror_id sha k where k: "t_source_reference_id r = Some mirror_id" "t_repository_commit_sha r = Some sha"
    "intent_policy (t_intent r) = Some k"
    using assms unfolding github_execution_resolver_def by (auto split: option.splits if_splits)
  obtain mirror ctx where m: "resolve_github_task_context co mirror (Some sha) = Inr ctx"
    and c: "c = \<lparr>ec_channel_id = t_execution_channel_id r, ec_trigger_event_id = t_trigger_event_id r,
       ec_repository = Some (gc_repository ctx), ec_commit_sha = Some (gc_commit_sha ctx),
       ec_policy = Some (policy_for k), ec_require_existing_session = False\<rparr>"
    using assms k unfolding github_execution_resolver_def
    by (auto simp: and_then_eq_Inr make_context_Inr)
  have impl: "k = POLICY_IMPLEMENTATION \<longleftrightarrow> t_intent r = IMPLEMENTATION" using k(3) by (cases "t_intent r") auto
  have repo: "\<exists>name. ec_repository c = Some (''Tue-StudyOS/'' @ name)" using github_context_pinned [OF m] unfolding c by (metis execution_context.select_convs(3))
  have "validate_context r c = Inr ()" "ec_commit_sha c = t_repository_commit_sha r" "ec_commit_sha c \<noteq> None"
    using github_context_pinned [OF m] k by (simp_all add: validate_context_Inr policy_confined c)
  moreover have "ec_policy c = Some (policy_for k)" by (simp add: c)
  ultimately show ?thesis using repo impl by (simp add: policy_confined)
qed

section \<open>A pinned review\<close>

definition reviewed_task :: task_record where
  "reviewed_task = example_task\<lparr>t_intent := REVIEW,
     t_source_reference_id := Some ''00000000000000000000000000000001'',
     t_repository_commit_sha := Some ''0123456789012345678901234567890123456789''\<rparr>"

definition example_checkout :: checkout where
  "example_checkout = \<lparr>co_directory = (\<lambda>name. Some name),
     co_rev_parse = (\<lambda>repository revision. (0, ''0123456789012345678901234567890123456789''))\<rparr>"

lemma example_commit:
  "resolve_commit example_checkout ''gateway'' revision = Inr ''0123456789012345678901234567890123456789''"
  by (simp add: resolve_commit_def example_checkout_def) code_simp

definition gateway_mirror :: mirror_record where
  "gateway_mirror = example_mirror\<lparr>m_repository := ''Tue-StudyOS/gateway'',
     m_item_url := ''https://github.com/Tue-StudyOS/gateway/issues/7''\<rparr>"

lemma gateway_found:
  "get_mirror READ_OK (holding [(m_mirror_id gateway_mirror, gateway_mirror)]) ''00000000000000000000000000000001''
    = Inr gateway_mirror"
proof -
  have "valid_mirror gateway_mirror" by code_simp
  from holding_ok(3) [OF single_ok [OF this refl]] show ?thesis
    by (simp add: get_mirror_def find_mirror_def dict_lookup_def sorted_dict_def)
      (simp add: gateway_mirror_def example_mirror_def)
qed

lemma gateway_context:
  "\<exists>c. resolve_github_task_context example_checkout gateway_mirror
      (Some ''0123456789012345678901234567890123456789'') = Inr c
    \<and> gc_commit_sha c = ''0123456789012345678901234567890123456789''"
proof -
  have "partition_slash (m_repository gateway_mirror) = (''Tue-StudyOS'', True, ''gateway'')"
    by (simp add: gateway_mirror_def)
  moreover have "valid_sha ''0123456789012345678901234567890123456789''" by code_simp
  moreover have "co_directory example_checkout ''gateway'' = Some ''gateway''" by (simp add: example_checkout_def)
  ultimately show ?thesis
    by (simp add: resolve_github_task_context_def requested_revision_def example_commit)
qed

lemma reviewed_context: "\<exists>c. github_execution_resolver example_checkout READ_OK
    (holding [(m_mirror_id gateway_mirror, gateway_mirror)]) reviewed_task = Inr c"
  using gateway_found gateway_context
  by (auto simp: github_execution_resolver_def reviewed_task_def make_context_def)

theorem repository_task_confined_witness:
  "\<exists>c p. github_execution_resolver example_checkout READ_OK
      (holding [(m_mirror_id gateway_mirror, gateway_mirror)]) reviewed_task = Inr c
    \<and> ec_policy c = Some p \<and> xp_sandbox p = READ_ONLY \<and> \<not> xp_network p"
proof -
  obtain c where c: "github_execution_resolver example_checkout READ_OK
    (holding [(m_mirror_id gateway_mirror, gateway_mirror)]) reviewed_task = Inr c"
    using reviewed_context by blast
  have "t_intent reviewed_task = REVIEW" by (simp add: reviewed_task_def)
  with repository_task_confined [OF c] c show ?thesis by auto
qed

theorem context_matches_task_witness:
  "\<exists>c. resolve_execution_context (default_execution_context example_task) example_task True = Inr c
     \<and> ec_policy c = None"
proof -
  obtain c where c: "resolve_execution_context (default_execution_context example_task) example_task True = Inr c"
    by (simp add: resolve_execution_context_def default_execution_context_def make_context_def
        validate_context_def guarded_def example_task_def)
  from context_matches_task [OF c] c show ?thesis by (simp add: example_task_def)
qed

end
