(* ===== verification/TaskRuntime.thy ===== *)
theory TaskRuntime
  imports TaskExecution Effects
begin

text \<open>
  \<open>discord_task_runtime.py\<close>, \<open>discord_task_runners.py\<close>, \<open>discord_task_delivery.py\<close>,
  \<open>discord_task_runtime_failures.py\<close> and \<open>discord_task_reconciliation.py\<close>: how a task is run, its result
  delivered and its failures recorded. Every \<open>await\<close> is a point where other coroutines may act.
\<close>

section \<open>The state of the service\<close>

record prepared_reply =
  pr_message :: string
  pr_files :: "string list"
  pr_generated_file :: "string option"
  pr_lease :: "nat option"

datatype job = Run_Agent run_spec | Send_Reply prepared_reply

text \<open>The delivery cache, with its roots and its byte limit, is an argument; its state has type \<open>'c\<close>.\<close>

record 'c delivery_cache =
  dc_put :: "string \<Rightarrow> prepared_reply \<Rightarrow> 'c \<Rightarrow> unit result \<times> 'c"
  dc_consume :: "string \<Rightarrow> 'c \<Rightarrow> prepared_reply option result \<times> 'c"
  dc_restore :: "string \<Rightarrow> prepared_reply \<Rightarrow> 'c \<Rightarrow> unit result \<times> 'c"
  dc_discard :: "string \<Rightarrow> 'c \<Rightarrow> unit result \<times> 'c"

text \<open>\<open>sv_runners\<close> are the runners of \<open>_current\<close> that are not done, each with what it runs;
  \<open>sv_leases\<close> is \<open>DiscordTaskDelivery._active\<close>; \<open>sv_interrupts\<close> are the channels whose agent was
  interrupted and \<open>sv_released\<close> the staged attachments that were cleaned up, latest last.\<close>

record 'c service_state =
  sv_store :: task_store
  sv_cache :: 'c
  sv_leases :: "nat list"
  sv_interactions :: claims
  sv_triggers :: claims
  sv_runners :: "(string \<times> job) list"
  sv_runners_closed :: bool
  sv_closed :: bool
  sv_close_complete :: bool
  sv_interrupts :: "int list"
  sv_released :: "staged_attachments list"

type_synonym ('c, 'a) service = "('c service_state, 'a) prog"
type_synonym ('c, 'a) external = "('c service_state, 'a) await"

abbreviation on_store :: "(task_store \<Rightarrow> 'a store_op) \<Rightarrow> ('c, 'a) service" where
  "on_store m \<equiv> zoomed sv_store (\<lambda>st s. s\<lparr>sv_store := st\<rparr>) m"

abbreviation on_cache :: "('c \<Rightarrow> 'a result \<times> 'c) \<Rightarrow> ('c, 'a) service" where
  "on_cache m \<equiv> zoomed sv_cache (\<lambda>c s. s\<lparr>sv_cache := c\<rparr>) m"

text \<open>\<open>attachments.cleanup()\<close>, which may raise.\<close>

definition release :: "unit result \<Rightarrow> staged_attachments \<Rightarrow> ('c, unit) service" where
  "release outcome a = bind (modify (\<lambda>s. s\<lparr>sv_released := sv_released s @ [a]\<rparr>)) (\<lambda>_. from_result outcome)"

definition store_get :: "string \<Rightarrow> ('c, task_record) service" where
  "store_get task_id = reading (\<lambda>s. get_task (sv_store s) task_id)"

text \<open>\<open>persist_update\<close>: the candidate is computed before the store is entered.\<close>

definition persist_update ::
    "store_env \<Rightarrow> task_record \<Rightarrow> (task_record \<Rightarrow> task_record result) \<Rightarrow> ('c, task_record) service" where
  "persist_update env current update =
    bind (from_result (update current)) (\<lambda>candidate.
    on_store (\<lambda>st. compare_and_set env st (t_task_id current) (t_revision current) (\<lambda>_. Inr candidate)))"

section \<open>Runners\<close>

definition runners_ensure_open :: "('c, unit) service" where
  "runners_ensure_open = reading (\<lambda>s. if sv_runners_closed s then Inl DiscordTaskServiceClosed else Inr ())"

definition spawn :: "string \<Rightarrow> job \<Rightarrow> ('c, unit) service" where
  "spawn task_id job =
    bind runners_ensure_open (\<lambda>_.
    bind (reading (\<lambda>s. if task_id \<in> fst ` set (sv_runners s)
      then Inl (RuntimeError ''Discord task already has a runner'') else Inr ())) (\<lambda>_.
    modify (\<lambda>s. s\<lparr>sv_runners := sv_runners s @ [(task_id, job)]\<rparr>)))"

text \<open>\<open>wait_idle\<close>: when there is a runner, \<open>waiting\<close> is what happens until it is done; the exceptions of
  the runner are not raised here.\<close>

definition wait_idle :: "('c, unit) external \<Rightarrow> string \<Rightarrow> ('c, unit) service" where
  "wait_idle waiting task_id = (\<lambda>s.
    (if task_id \<in> fst ` set (sv_runners s)
     then bind (awaiting waiting) (\<lambda>_. runners_ensure_open) s else runners_ensure_open s))"

definition runner_done :: "string \<Rightarrow> ('c, unit) service" where
  "runner_done task_id = modify (\<lambda>s. s\<lparr>sv_runners := filter (\<lambda>(k, _). k \<noteq> task_id) (sv_runners s)\<rparr>)"

section \<open>Rendering\<close>

text \<open>Waiting for the render lock of the task, then the presentation's \<open>render_card\<close>.\<close>

record 'c rendering =
  rd_lock :: "('c, unit) external"
  rd_card :: "('c, unit) external"

definition render :: "'c rendering \<Rightarrow> task_record \<Rightarrow> ('c, unit) service" where
  "render rd r =
    bind (awaiting (rd_lock rd)) (\<lambda>_.
    suppressed (bind (store_get (t_task_id r)) (\<lambda>_. awaiting (rd_card rd))))"

section \<open>Delivery\<close>

text \<open>What closing a lease does: the exception it raises, if any, and whether the lease is closed then.\<close>

record lease_close =
  lc_result :: "unit result"
  lc_closed :: bool

definition resolve_lease :: "nat \<Rightarrow> bool \<Rightarrow> ('c, unit) service" where
  "resolve_lease lease resolved =
    modify (\<lambda>s. if resolved then s\<lparr>sv_leases := filter (\<lambda>l. l \<noteq> lease) (sv_leases s)\<rparr> else s)"

text \<open>\<open>lease.close(); ownership_resolved = lease.closed; raise e\<close> with the \<open>finally\<close> clause.\<close>

definition close_and_raise :: "lease_close \<Rightarrow> nat \<Rightarrow> exn \<Rightarrow> ('c, 'a) service" where
  "close_and_raise lc lease e = (case lc_result lc of
      Inl e' \<Rightarrow> raise e'
    | Inr _ \<Rightarrow> bind (resolve_lease lease (lc_closed lc)) (\<lambda>_. raise e))"

definition send_reply ::
    "'c delivery_cache \<Rightarrow> lease_close \<Rightarrow> ('c, int) external \<Rightarrow> task_record \<Rightarrow> prepared_reply \<Rightarrow> ('c, int) service" where
  "send_reply cache lc deliver r reply = (case pr_lease reply of
      None \<Rightarrow> raise (DiscordTaskDeliveryError True)
    | Some lease \<Rightarrow>
        bind (modify (\<lambda>s. s\<lparr>sv_leases := List.insert lease (sv_leases s)\<rparr>)) (\<lambda>_.
        bind (try_catch (awaiting deliver) (\<lambda>e.
          if e = DiscordTaskDeliveryError True then
            bind (try_catch (on_cache (dc_restore cache (t_task_id r) reply)) (\<lambda>e'. close_and_raise lc lease e')) (\<lambda>_.
            bind (resolve_lease lease True) (\<lambda>_. raise e))
          else close_and_raise lc lease e)) (\<lambda>result_id.
        bind (resolve_lease lease (lc_result lc = Inr () \<and> lc_closed lc)) (\<lambda>_. return result_id))))"

section \<open>Failures of a run\<close>

record capabilities =
  cb_steering :: bool
  cb_resumable :: bool
  cb_persisted_session :: bool
  cb_active_turn :: bool

definition no_capabilities :: capabilities where
  "no_capabilities = \<lparr>cb_steering = False, cb_resumable = False, cb_persisted_session = False,
     cb_active_turn = False\<rparr>"

text \<open>The transition of the runtime: \<open>_now()\<close> and \<open>transition\<close> inside \<open>persist_update\<close>.\<close>

definition move_task ::
    "store_env \<Rightarrow> task_record \<Rightarrow> task_state \<Rightarrow> task_failure option \<Rightarrow> ('c, task_record) service" where
  "move_task env current target failure =
    persist_update env current (\<lambda>r. and_then (as_timestamp (se_now env)) (\<lambda>ts. transition r target ts failure))"

definition failure_target :: "task_record \<Rightarrow> exn \<Rightarrow> (task_state \<times> interruption_cause option) option" where
  "failure_target r e =
    (if t_state r \<in> {RECOVERING, STARTING} then Some (FAILED, None)
     else if t_state r \<noteq> RUNNING then None
     else case e of
       AgentTurnTimedOut \<Rightarrow> Some (TIMED_OUT, Some CAUSE_TIMEOUT)
     | AgentRuntimeDisconnected \<Rightarrow> Some (INTERRUPTED, Some RUNTIME_EXIT)
     | _ \<Rightarrow> Some (FAILED, None))"

text \<open>The environment of \<open>record_agent_failure\<close>: the store calls of the stop, the failure, and the
  enrichment, the agent's answer to \<open>channel_capabilities\<close>, and the renderings.\<close>

record 'c failure_env =
  fe_stop :: store_env
  fe_fail :: store_env
  fe_enrich :: store_env
  fe_capabilities :: "('c, capabilities) external"
  fe_render :: "'c rendering"

definition finish_stopping :: "store_env \<Rightarrow> 'c rendering \<Rightarrow> task_record \<Rightarrow> ('c, unit) service" where
  "finish_stopping env rd r = bind (move_task env r STOPPED None) (\<lambda>stopped. render rd stopped)"

text \<open>The update \<open>fail\<close>.\<close>

definition fail_update :: "store_env \<Rightarrow> task_state \<Rightarrow> interruption_cause option \<Rightarrow> exn \<Rightarrow> task_record \<Rightarrow> task_record result" where
  "fail_update env target cause e r =
    and_then (case cause of None \<Rightarrow> Inr r | Some c \<Rightarrow> claim_interruption r c) (\<lambda>claimed.
    and_then (as_timestamp (se_now env)) (\<lambda>ts.
    transition claimed target ts (Some (classify_agent_failure e False False))))"

text \<open>Recording it: \<open>None\<close> when another coroutine was first, which can only have been a stop.\<close>

definition persist_failure ::
    "'c failure_env \<Rightarrow> exn \<Rightarrow> string \<Rightarrow> task_record \<Rightarrow> task_state \<Rightarrow> interruption_cause option
     \<Rightarrow> ('c, task_record option) service" where
  "persist_failure fe e task_id current target cause =
    try_catch
      (bind (persist_update (fe_fail fe) current (fail_update (fe_fail fe) target cause e)) (\<lambda>failed. return (Some failed)))
      (\<lambda>e'. case e' of
         TaskRevisionConflict _ \<Rightarrow>
           bind (store_get task_id) (\<lambda>latest.
           if t_state latest = STOPPING
           then bind (finish_stopping (fe_stop fe) (fe_render fe) latest) (\<lambda>_. return None)
           else return None)
       | _ \<Rightarrow> raise e')"

text \<open>The failure again, with what the agent knows about the session.\<close>

definition set_failure :: "store_env \<Rightarrow> task_failure \<Rightarrow> task_record \<Rightarrow> task_record result" where
  "set_failure env f r = and_then (as_timestamp (se_now env)) (\<lambda>ts.
    make_task_record (r\<lparr>t_failure := Some f, t_updated_at := ts\<rparr>))"

definition enrich_failure :: "'c failure_env \<Rightarrow> exn \<Rightarrow> string \<Rightarrow> task_record \<Rightarrow> ('c, task_record) service" where
  "enrich_failure fe e task_id failed =
    bind (try_catch (bind (awaiting (fe_capabilities fe)) (\<lambda>c. return (Some c)))
      (\<lambda>e'. if is_exception e' then return None else raise e')) (\<lambda>caps.
    case caps of
      None \<Rightarrow> return failed
    | Some c \<Rightarrow>
        bind (store_get task_id) (\<lambda>latest.
        if t_revision latest \<noteq> t_revision failed then return failed
        else persist_update (fe_enrich fe) latest
          (set_failure (fe_enrich fe) (classify_agent_failure e (cb_persisted_session c) (cb_active_turn c)))))"

definition record_agent_failure :: "'c failure_env \<Rightarrow> string \<Rightarrow> exn \<Rightarrow> ('c, unit) service" where
  "record_agent_failure fe task_id e =
    bind (store_get task_id) (\<lambda>current.
    if t_state current = STOPPING then finish_stopping (fe_stop fe) (fe_render fe) current
    else case failure_target current e of
      None \<Rightarrow> return ()
    | Some (target, cause) \<Rightarrow>
        bind (persist_failure fe e task_id current target cause) (\<lambda>outcome.
        case outcome of
          None \<Rightarrow> return ()
        | Some failed \<Rightarrow>
            bind (if cause = None then return failed else enrich_failure fe e task_id failed) (\<lambda>failed.
            render (fe_render fe) failed)))"

section \<open>A run\<close>

text \<open>The answers a run gets, in the order of the code; the renderings are numbered by the place they
  are called from.\<close>

record 'c run_env =
  rn_create_card :: "('c, int option) external"
  rn_card_store :: "nat \<Rightarrow> store_env"
  rn_start :: "('c, unit) external"
  rn_starting :: store_env
  rn_running :: store_env
  rn_resolver :: "task_record \<Rightarrow> ('c, execution_context) external"
  rn_ask :: "string \<Rightarrow> task_record \<Rightarrow> execution_context \<Rightarrow> ('c, string) external"
  rn_prepare :: "task_record \<Rightarrow> string \<Rightarrow> ('c, prepared_reply) external"
  rn_cache :: "'c delivery_cache"
  rn_delivering :: store_env
  rn_lease :: lease_close
  rn_deliver :: "('c, int) external"
  rn_completed :: store_env
  rn_delivery_failed :: store_env
  rn_stop :: store_env
  rn_failure :: "'c failure_env"
  rn_render :: "nat \<Rightarrow> 'c rendering"
  rn_cleanup :: "unit result"

text \<open>\<open>_set_message_id\<close>, which is called for the card only: at most four attempts.\<close>

fun set_card_id :: "(nat \<Rightarrow> store_env) \<Rightarrow> nat list \<Rightarrow> string \<Rightarrow> int \<Rightarrow> ('c, task_record) service" where
  "set_card_id envs [] task_id card_id = store_get task_id"
| "set_card_id envs (i # rest) task_id card_id =
    bind (store_get task_id) (\<lambda>current.
    if t_card_message_id current \<noteq> None then return current
    else try_catch (persist_update (envs i) current (\<lambda>r.
        and_then (as_timestamp (se_now (envs i))) (\<lambda>ts.
        make_task_record (r\<lparr>t_card_message_id := Some card_id, t_updated_at := ts\<rparr>))))
      (\<lambda>e. case e of TaskRevisionConflict _ \<Rightarrow> set_card_id envs rest task_id card_id | _ \<Rightarrow> raise e))"

definition create_task_card :: "'c run_env \<Rightarrow> string \<Rightarrow> ('c, unit) service" where
  "create_task_card env task_id =
    bind (store_get task_id) (\<lambda>current.
    if t_card_message_id current \<noteq> None then return ()
    else bind (try_catch (awaiting (rn_create_card env))
        (\<lambda>e. if is_exception e then return None else raise e)) (\<lambda>card.
      case card of
        None \<Rightarrow> return ()
      | Some card_id \<Rightarrow>
          bind (set_card_id (rn_card_store env) [0..<4] task_id card_id) (\<lambda>attached.
          render (rn_render env 0) attached)))"

definition delivery_failed :: "'c run_env \<Rightarrow> string \<Rightarrow> bool \<Rightarrow> ('c, unit) service" where
  "delivery_failed env task_id definitive =
    bind (store_get task_id) (\<lambda>current.
    if t_state current \<noteq> DELIVERING then return ()
    else bind (move_task (rn_delivery_failed env) current DELIVERY_FAILED
        (Some (classify_delivery_failure definitive))) (\<lambda>failed.
      render (rn_render env 4) failed))"

definition send_delivery :: "'c run_env \<Rightarrow> string \<Rightarrow> prepared_reply \<Rightarrow> ('c, unit) service" where
  "send_delivery env task_id reply =
    bind (store_get task_id) (\<lambda>r.
    bind (try_catch
      (bind (send_reply (rn_cache env) (rn_lease env) (rn_deliver env) r reply) (\<lambda>result_id. return (Some result_id)))
      (\<lambda>e. case e of
         CancelledError \<Rightarrow> raise e
       | DiscordTaskDeliveryError definitive \<Rightarrow> bind (delivery_failed env task_id definitive) (\<lambda>_. return None)
       | _ \<Rightarrow> bind (delivery_failed env task_id False) (\<lambda>_. return None))) (\<lambda>outcome.
    case outcome of
      None \<Rightarrow> return ()
    | Some result_id \<Rightarrow>
        bind (store_get task_id) (\<lambda>current.
        bind (persist_update (rn_completed env) current (\<lambda>r.
          and_then (make_task_record (r\<lparr>t_result_message_id := Some result_id\<rparr>)) (\<lambda>delivered.
          and_then (as_timestamp (se_now (rn_completed env))) (\<lambda>ts.
          transition delivered COMPLETED ts None)))) (\<lambda>completed.
        render (rn_render env 3) completed))))"

definition stop_run :: "'c run_env \<Rightarrow> task_record \<Rightarrow> ('c, unit) service" where
  "stop_run env current = finish_stopping (rn_stop env) (rn_render env 2) current"

definition prepare_delivery :: "'c run_env \<Rightarrow> string \<Rightarrow> string \<Rightarrow> ('c, unit) service" where
  "prepare_delivery env task_id reply =
    bind (store_get task_id) (\<lambda>current.
    if t_state current = STOPPING then stop_run env current
    else if t_state current \<noteq> RUNNING then return ()
    else
      bind (awaiting (rn_prepare env current reply)) (\<lambda>prepared.
      bind (on_cache (dc_put (rn_cache env) task_id prepared)) (\<lambda>_.
      bind (store_get task_id) (\<lambda>current.
      if t_state current = STOPPING then
        bind (on_cache (dc_discard (rn_cache env) task_id)) (\<lambda>_. stop_run env current)
      else
        bind (on_cache (dc_consume (rn_cache env) task_id)) (\<lambda>leased.
        case leased of
          None \<Rightarrow> raise AgentWorkspaceOrAttachmentError
        | Some lease_reply \<Rightarrow>
            bind (try_catch (move_task (rn_delivering env) current DELIVERING None) (\<lambda>e.
              bind (on_cache (dc_restore (rn_cache env) task_id lease_reply)) (\<lambda>_.
              bind (on_cache (dc_discard (rn_cache env) task_id)) (\<lambda>_. raise e)))) (\<lambda>delivering.
            send_delivery env (t_task_id delivering) lease_reply))))))"

text \<open>The part of \<open>_agent_runner\<close> that finds the record to run: \<open>None\<close> when there is nothing to do.\<close>

definition starting_task :: "'c run_env \<Rightarrow> string \<Rightarrow> run_spec \<Rightarrow> ('c, task_record option) service" where
  "starting_task env task_id spec =
    (if rs_recovering spec then
       bind (awaiting (rn_start env)) (\<lambda>_.
       bind (store_get task_id) (\<lambda>current.
       if t_state current = STOPPING then bind (stop_run env current) (\<lambda>_. return None)
       else if t_state current \<noteq> RECOVERING then return None
       else bind (move_task (rn_starting env) current STARTING None) (\<lambda>r. return (Some r))))
     else bind (store_get task_id) (\<lambda>current. return (Some current)))"

definition run_body :: "'c run_env \<Rightarrow> string \<Rightarrow> run_spec \<Rightarrow> ('c, unit) service" where
  "run_body env task_id spec =
    bind (if rs_create_card spec then create_task_card env task_id else return ()) (\<lambda>_.
    bind (starting_task env task_id spec) (\<lambda>found.
    case found of
      None \<Rightarrow> return ()
    | Some current \<Rightarrow>
        if t_state current = STOPPING then stop_run env current
        else if t_state current \<noteq> STARTING then return ()
        else
          bind (move_task (rn_running env) current RUNNING None) (\<lambda>running.
          bind (render (rn_render env 1) running) (\<lambda>_.
          bind (awaiting (rn_resolver env running)) (\<lambda>resolved.
          bind (from_result (resolve_execution_context (Inr resolved) running (rs_require_existing_session spec))) (\<lambda>execution.
          bind (awaiting (rn_ask env (rs_prompt spec) running execution)) (\<lambda>reply.
          prepare_delivery env task_id reply)))))))"

definition agent_runner :: "'c run_env \<Rightarrow> string \<Rightarrow> run_spec \<Rightarrow> ('c, unit) service" where
  "agent_runner env task_id spec =
    ensuring
      (try_catch (run_body env task_id spec) (\<lambda>e.
        if is_exception e then record_agent_failure (rn_failure env) task_id e else raise e))
      (suppressed (release (rn_cleanup env) (rs_attachments spec)))"

definition run_job :: "'c run_env \<Rightarrow> string \<Rightarrow> job \<Rightarrow> ('c, unit) service" where
  "run_job env task_id job =
    ensuring (case job of Run_Agent spec \<Rightarrow> agent_runner env task_id spec
       | Send_Reply reply \<Rightarrow> send_delivery env task_id reply)
      (runner_done task_id)"

section \<open>Start-up\<close>

record 'c restart_env =
  re_store :: store_env
  re_now :: datetime
  re_capabilities :: "string \<Rightarrow> ('c, capabilities) external"
  re_enrich :: "string \<Rightarrow> store_env"
  re_render :: "string \<Rightarrow> 'c rendering"

definition enrich_restart :: "'c restart_env \<Rightarrow> task_record \<Rightarrow> ('c, task_record) service" where
  "enrich_restart env r =
    (let k = t_task_id r in
     bind (try_catch (awaiting (re_capabilities env k))
       (\<lambda>e. if is_exception e then return no_capabilities else raise e)) (\<lambda>c.
     bind (store_get k) (\<lambda>current.
     persist_update (re_enrich env k) current (set_failure (re_enrich env k)
       (classify_agent_failure AgentRuntimeDisconnected (cb_persisted_session c) (cb_active_turn c))))))"

fun reconcile_changed :: "'c restart_env \<Rightarrow> task_record list \<Rightarrow> task_record list \<Rightarrow> ('c, task_record list) service" where
  "reconcile_changed env [] handled = return handled"
| "reconcile_changed env (r # rest) handled =
    bind (if t_state r = INTERRUPTED \<and> t_interruption_cause r = Some GATEWAY_RESTART
          then enrich_restart env r else return r) (\<lambda>r'.
    bind (render (re_render env (t_task_id r')) r') (\<lambda>_.
    reconcile_changed env rest (handled @ [r'])))"

definition reconcile_service :: "'c restart_env \<Rightarrow> ('c, task_record list) service" where
  "reconcile_service env =
    bind (on_store (\<lambda>st. TaskStore.reconcile_startup (re_store env) st (re_now env))) (\<lambda>changed.
    reconcile_changed env changed [])"

end
