(* ===== verification/TaskAccess.thy ===== *)
theory TaskAccess
  imports TaskRuntime
begin

text \<open>
  \<open>discord_task_auth.py\<close>, \<open>discord_task_access.py\<close> and \<open>discord_task_queries.py\<close>: who may do what
  with a task, how the access of a Discord member is found, and what the service tells about its tasks.
\<close>

section \<open>Authorization\<close>

record task_access =
  ac_actor_id :: int
  ac_guild_id :: int
  ac_channel_id :: int
  ac_visible_channel_ids :: "int set"
  ac_manageable_channel_ids :: "int set"

datatype task_action = VIEW | WHY_FAILED | STEER | STOP | RETRY | CONTINUE | FORGET

definition OWNER_ACTIONS :: "task_action list" where
  "OWNER_ACTIONS = [WHY_FAILED, STEER, RETRY, CONTINUE, FORGET]"

definition task_channels :: "task_record \<Rightarrow> int set" where
  "task_channels r = {t_origin_channel_id r, t_execution_channel_id r}"

definition channels_are_visible :: "task_record \<Rightarrow> task_access \<Rightarrow> bool" where
  "channels_are_visible r access \<longleftrightarrow> task_channels r \<subseteq> ac_visible_channel_ids access"

definition authorize :: "task_record \<Rightarrow> task_action \<Rightarrow> task_access \<Rightarrow> unit result" where
  "authorize r action access =
    (if t_guild_id r \<noteq> ac_guild_id access
     then Inl (DiscordTaskAuthorizationError ''task is not in this guild'')
     else if \<not> channels_are_visible r access
     then Inl (DiscordTaskAuthorizationError ''task is no longer visible'')
     else if ac_channel_id access \<notin> task_channels r
     then Inl (DiscordTaskAuthorizationError ''task cannot be controlled from this channel'')
     else if action = VIEW then Inr ()
     else if action \<in> set OWNER_ACTIONS \<and> ac_actor_id access = t_owner_id r then Inr ()
     else if action = STOP \<and> (ac_actor_id access = t_owner_id r
          \<or> t_execution_channel_id r \<in> ac_manageable_channel_ids access) then Inr ()
     else Inl (DiscordTaskAuthorizationError ''only the task owner may perform this action''))"

section \<open>The access of a member\<close>

text \<open>What Discord knows: \<open>gc_permissions\<close> is the answer of \<open>permissions_for\<close> the member, \<open>None\<close> when it
  is no permissions object; \<open>gc_private\<close> tells a private thread; \<open>gc_member\<close> is the outcome of
  \<open>fetch_member\<close> with the \<open>id\<close> of what it returns.\<close>

record permissions =
  pm_view_channel :: bool
  pm_manage_messages :: bool
  pm_manage_threads :: bool

record guild_channel =
  gc_id :: int
  gc_permissions :: "permissions option"
  gc_private :: bool
  gc_member :: "int \<Rightarrow> int option result"

datatype channel_object = No_Channel | Other_Object | Channel guild_channel

text \<open>The guild of an interaction; \<open>gd_id\<close> is its identifier and \<open>gd_usable\<close> tells whether it has both
  lookups.\<close>

record guild =
  gd_id :: "int option"
  gd_usable :: bool
  gd_get_channel :: "int \<Rightarrow> channel_object"
  gd_fetch_channel :: "int \<Rightarrow> channel_object result"

text \<open>\<open>ix_actor\<close> is \<open>None\<close> when the user has no identifier that is an integer.\<close>

record interaction =
  ix_guild_id :: "int option"
  ix_guild :: "guild option"
  ix_actor :: "int option"
  ix_channel_id :: "int option"

fun is_key_error :: "exn \<Rightarrow> bool" where
  "is_key_error (KeyError _) = True"
| "is_key_error _ = False"

definition resolve_channel :: "guild \<Rightarrow> int \<Rightarrow> guild_channel result" where
  "resolve_channel g channel_id =
    and_then (case gd_get_channel g channel_id of
        No_Channel \<Rightarrow> (case gd_fetch_channel g channel_id of
            Inl e \<Rightarrow> if is_http_exception e \<or> is_key_error e
              then Inl (DiscordTaskAuthorizationError ''task is no longer visible'') else Inl e
          | Inr c \<Rightarrow> Inr c)
      | c \<Rightarrow> Inr c) (\<lambda>c.
    case c of
      Channel ch \<Rightarrow> if gc_id ch \<noteq> channel_id
        then Inl (DiscordTaskAuthorizationError ''task is no longer visible'') else Inr ch
    | _ \<Rightarrow> Inl (DiscordTaskAuthorizationError ''task is no longer visible''))"

definition has_private_thread_access :: "guild_channel \<Rightarrow> int \<Rightarrow> int option \<Rightarrow> permissions \<Rightarrow> bool result" where
  "has_private_thread_access ch actor_id current_channel p =
    (if \<not> gc_private ch then Inr True
     else if Some (gc_id ch) = current_channel \<or> pm_manage_threads p then Inr True
     else (case gc_member ch actor_id of
         Inl e \<Rightarrow> if is_http_exception e then Inr False else Inl e
       | Inr member \<Rightarrow> Inr (member = Some actor_id)))"

text \<open>One channel of the task: whether the member sees it and, for the execution channel, manages it.\<close>

definition channel_access :: "guild \<Rightarrow> int \<Rightarrow> int option \<Rightarrow> int \<Rightarrow> int \<Rightarrow> (bool \<times> bool) result" where
  "channel_access g actor_id current_channel execution_id channel_id =
    and_then (resolve_channel g channel_id) (\<lambda>ch.
    case gc_permissions ch of
      None \<Rightarrow> Inr (False, False)
    | Some p \<Rightarrow>
        if \<not> pm_view_channel p then Inr (False, False)
        else and_then (has_private_thread_access ch actor_id current_channel p) (\<lambda>ok.
          Inr (ok, ok \<and> channel_id = execution_id \<and> pm_manage_messages p)))"

text \<open>The loop over the set of the two channels, in the order Python gives the set.\<close>

fun access_loop :: "guild \<Rightarrow> int \<Rightarrow> int option \<Rightarrow> int \<Rightarrow> int list \<Rightarrow> (int set \<times> int set) result" where
  "access_loop g actor_id current execution_id [] = Inr ({}, {})"
| "access_loop g actor_id current execution_id (c # cs) =
    and_then (channel_access g actor_id current execution_id c) (\<lambda>(sees, manages).
    and_then (access_loop g actor_id current execution_id cs) (\<lambda>(visible, manageable).
    Inr (if sees then insert c visible else visible, if manages then insert c manageable else manageable)))"

definition resolve_task_access :: "interaction \<Rightarrow> task_record \<Rightarrow> int list \<Rightarrow> task_access result" where
  "resolve_task_access ix r order =
    (case ix_guild ix of
       None \<Rightarrow> Inl (DiscordTaskAuthorizationError ''task is not in this guild'')
     | Some g \<Rightarrow>
         if ix_guild_id ix \<noteq> Some (t_guild_id r) \<or> gd_id g \<noteq> Some (t_guild_id r) \<or> \<not> gd_usable g
         then Inl (DiscordTaskAuthorizationError ''task is not in this guild'')
         else (case ix_actor ix of
           None \<Rightarrow> Inl (DiscordTaskAuthorizationError ''Discord member identity is unavailable'')
         | Some actor_id \<Rightarrow>
             if actor_id \<le> 0
             then Inl (DiscordTaskAuthorizationError ''Discord member identity is unavailable'')
             else (case ix_channel_id ix of
               None \<Rightarrow> Inl (DiscordTaskAuthorizationError ''task cannot be controlled from this channel'')
             | Some channel_id \<Rightarrow>
                 if channel_id \<notin> task_channels r
                 then Inl (DiscordTaskAuthorizationError ''task cannot be controlled from this channel'')
                 else and_then (access_loop g actor_id (Some channel_id) (t_execution_channel_id r) order)
                   (\<lambda>(visible, manageable).
                   let access = \<lparr>ac_actor_id = actor_id, ac_guild_id = t_guild_id r, ac_channel_id = channel_id,
                     ac_visible_channel_ids = visible, ac_manageable_channel_ids = manageable\<rparr>
                   in and_then (authorize r VIEW access) (\<lambda>_. Inr access)))))"

section \<open>Queries\<close>

definition status :: "string \<Rightarrow> task_access \<Rightarrow> ('c, task_record) service" where
  "status task_id access =
    bind (store_get task_id) (\<lambda>r. bind (from_result (authorize r VIEW access)) (\<lambda>_. return r))"

definition active_task :: "task_store \<Rightarrow> int \<Rightarrow> task_record option" where
  "active_task st channel_id =
    find (\<lambda>r. t_execution_channel_id r = channel_id \<and> t_state r \<in> set ACTIVE_STATES) (task_records st)"

definition visible_task :: "task_record \<Rightarrow> task_access \<Rightarrow> bool" where
  "visible_task r access \<longleftrightarrow> t_guild_id r = ac_guild_id access \<and> task_channels r \<subseteq> ac_visible_channel_ids access"

definition in_scope :: "task_record \<Rightarrow> task_access \<Rightarrow> string \<Rightarrow> int \<Rightarrow> bool" where
  "in_scope r access scope current_channel_id =
    (if scope = ''mine'' then t_owner_id r = ac_actor_id access
     else current_channel_id = ac_channel_id access \<and> t_execution_channel_id r = current_channel_id)"

definition in_state :: "task_record \<Rightarrow> string \<Rightarrow> bool" where
  "in_state r state \<longleftrightarrow> state = ''all''
     \<or> (state = ''active'' \<and> t_state r \<in> set ACTIVE_STATES)
     \<or> (state = ''terminal'' \<and> t_state r \<notin> set ACTIVE_STATES)"

text \<open>The key of a record: the instant of its creation and its identifier.\<close>

definition created_order :: "task_record \<Rightarrow> (int \<times> string) result" where
  "created_order r = (case fromisoformat (t_created_at r) of
      None \<Rightarrow> Inl (ValueError ''Invalid isoformat string'')
    | Some t \<Rightarrow> and_then (as_utc t) (\<lambda>u. Inr (instant u, t_task_id r)))"

text \<open>\<open>sorted(..., reverse=True)\<close> keeps the order of equal keys; all the keys are computed first.\<close>

definition newest_first :: "task_record list \<Rightarrow> task_record list result" where
  "newest_first rs =
    and_then (map_result created_order rs) (\<lambda>keys.
    Inr (rev (map snd (sort_key fst (rev (zip keys rs))))))"

definition list_tasks :: "task_store \<Rightarrow> task_access \<Rightarrow> string \<Rightarrow> string \<Rightarrow> int \<Rightarrow> task_record list result" where
  "list_tasks st access scope state current_channel_id =
    (if scope \<notin> {''mine'', ''channel''} \<or> state \<notin> {''all'', ''active'', ''terminal''}
     then Inl (ValueError ''task list scope or state is invalid'')
     else and_then (newest_first (filter (\<lambda>r. visible_task r access
         \<and> in_scope r access scope current_channel_id \<and> in_state r state) (task_records st))) (\<lambda>rs.
       Inr (take 10 rs)))"

definition idle_saved_session :: "capabilities \<Rightarrow> bool" where
  "idle_saved_session c \<longleftrightarrow> cb_resumable c \<and> cb_persisted_session c \<and> \<not> cb_active_turn c"

text \<open>\<open>max\<close> with a key: the first of the greatest ones.\<close>

fun latest_of :: "((int \<times> string) \<times> task_record) list \<Rightarrow> task_record option" where
  "latest_of [] = None"
| "latest_of [(k, r)] = Some r"
| "latest_of ((k, r) # (k', r') # rest) = (if k < k' then latest_of ((k', r') # rest) else latest_of ((k, r) # rest))"

definition can_continue :: "task_store \<Rightarrow> task_record \<Rightarrow> bool result" where
  "can_continue st r =
    (let candidates = filter (\<lambda>c. t_execution_channel_id c = t_execution_channel_id r) (task_records st) in
     and_then (map_result created_order candidates) (\<lambda>keys.
     Inr (case latest_of (zip keys candidates) of
        None \<Rightarrow> False
      | Some latest \<Rightarrow> t_task_id latest = t_task_id r \<and> t_state r = COMPLETED \<and> t_continued_to r = None)))"

definition validate_session_retry :: "task_record \<Rightarrow> unit result" where
  "validate_session_retry r = (case t_failure r of
      None \<Rightarrow> Inl (DiscordTaskActionUnavailable ''This task has no safe retry.'')
    | Some f \<Rightarrow>
        if f_retry_mode f \<noteq> CONTINUE_SESSION \<or> t_state r \<notin> {FAILED, TIMED_OUT, INTERRUPTED}
        then Inl (DiscordTaskActionUnavailable ''This task has no safe retry.'') else Inr ())"

definition validate_continuation :: "task_store \<Rightarrow> task_record \<Rightarrow> task_request \<Rightarrow> unit result" where
  "validate_continuation st parent q =
    (if rq_source_kind q \<noteq> CONTINUATION
     then Inl (DiscordTaskActionUnavailable ''Continue requires a continuation request.'')
     else if \<not> (rq_owner_id q = t_owner_id parent \<and> rq_guild_id q = t_guild_id parent
         \<and> rq_origin_channel_id q = t_origin_channel_id parent
         \<and> rq_execution_channel_id q = t_execution_channel_id parent)
     then Inl (DiscordTaskActionUnavailable ''Only the latest completed task in this channel can continue.'')
     else and_then (can_continue st parent) (\<lambda>ok.
       guarded ok (DiscordTaskActionUnavailable ''Only the latest completed task in this channel can continue.'')))"

text \<open>\<open>_capabilities\<close>: an agent that cannot be asked has no capabilities.\<close>

definition ask_capabilities :: "('c, capabilities) external \<Rightarrow> ('c, capabilities) service" where
  "ask_capabilities answer = try_catch (awaiting answer)
    (\<lambda>e. if is_exception e then return no_capabilities else raise e)"

definition require_idle_saved_session :: "('c, capabilities) external \<Rightarrow> ('c, unit) service" where
  "require_idle_saved_session answer =
    bind (ask_capabilities answer) (\<lambda>c.
    if \<not> idle_saved_session c
    then raise (DiscordTaskActionUnavailable ''The saved agent session is unavailable or still active.'')
    else return ())"

record control_state =
  cs_steering :: bool
  cs_resumable :: bool
  cs_continuable :: bool

definition resolve_controls :: "('c, capabilities) external \<Rightarrow> string \<Rightarrow> task_access \<Rightarrow> ('c, control_state) service" where
  "resolve_controls answer task_id access =
    bind (status task_id access) (\<lambda>_.
    bind (ask_capabilities answer) (\<lambda>c.
    bind (status task_id access) (\<lambda>r.
    bind (reading (\<lambda>s. can_continue (sv_store s) r)) (\<lambda>continuable.
    return \<lparr>cs_steering = (t_state r = RUNNING \<and> cb_steering c),
      cs_resumable = (case t_failure r of None \<Rightarrow> False
        | Some f \<Rightarrow> f_retry_mode f = CONTINUE_SESSION \<and> idle_saved_session c),
      cs_continuable = (continuable \<and> idle_saved_session c)\<rparr>))))"

end
