(* ===== verification/TaskService.thy ===== *)
theory TaskService
  imports TaskAccess
begin

text \<open>
  \<open>discord_task_actions.py\<close> and \<open>discord_task_service.py\<close>: starting, steering, stopping, retrying,
  continuing and forgetting a task, and closing the service.
\<close>

section \<open>What an action meets\<close>

record 'c action_env =
  ae_now :: datetime
  ae_task_id :: string
  ae_claim_limit :: nat
  ae_store :: store_env
  ae_cleanup :: "unit result"
  ae_capabilities :: "('c, capabilities) external"
  ae_steer :: "('c, bool) external"
  ae_interrupt :: "('c, unit) external"
  ae_idle :: "('c, unit) external"
  ae_cache :: "'c delivery_cache"
  ae_render :: "string \<Rightarrow> 'c rendering"

definition remember_interaction :: "'c action_env \<Rightarrow> int \<Rightarrow> string \<Rightarrow> ('c, unit) service" where
  "remember_interaction env i task_id =
    modify (\<lambda>s. s\<lparr>sv_interactions := remember_event (ae_claim_limit env) (sv_interactions s) i task_id\<rparr>)"

definition remember_trigger :: "'c action_env \<Rightarrow> int \<Rightarrow> string \<Rightarrow> ('c, unit) service" where
  "remember_trigger env i task_id =
    modify (\<lambda>s. s\<lparr>sv_triggers := remember_event (ae_claim_limit env) (sv_triggers s) i task_id\<rparr>)"

text \<open>A repeated interaction gets the task of the first one.\<close>

definition unless_handled ::
    "int \<Rightarrow> (task_record \<Rightarrow> 'a) \<Rightarrow> ('c, 'a) service \<Rightarrow> ('c, 'a) service" where
  "unless_handled i found m =
    bind (reading (\<lambda>s. Inr (existing_claim (sv_interactions s) i))) (\<lambda>duplicate.
    case duplicate of
      Some task_id \<Rightarrow> bind (store_get task_id) (\<lambda>r. return (found r))
    | None \<Rightarrow> m)"

text \<open>The task, if the access allows to see it and to do \<open>action\<close> with it.\<close>

definition authorized :: "string \<Rightarrow> task_action \<Rightarrow> task_access \<Rightarrow> ('c, task_record) service" where
  "authorized task_id action access =
    bind (status task_id access) (\<lambda>r. bind (from_result (authorize r action access)) (\<lambda>_. return r))"

definition interrupt :: "'c action_env \<Rightarrow> int \<Rightarrow> ('c, unit) service" where
  "interrupt env channel_id =
    bind (modify (\<lambda>s. s\<lparr>sv_interrupts := sv_interrupts s @ [channel_id]\<rparr>)) (\<lambda>_. awaiting (ae_interrupt env))"

definition render_task :: "'c action_env \<Rightarrow> task_record \<Rightarrow> ('c, unit) service" where
  "render_task env r = render (ae_render env (t_task_id r)) r"

abbreviation "NOT_STEERABLE \<equiv> DiscordTaskActionUnavailable ''This task is not steerable now.''"
abbreviation "NO_RETRY_NOW \<equiv> DiscordTaskActionUnavailable ''This task has no safe retry.''"

section \<open>Steering\<close>

definition steer_body :: "'c action_env \<Rightarrow> string \<Rightarrow> task_access \<Rightarrow> int \<Rightarrow> ('c, task_record) service" where
  "steer_body env task_id access i =
    bind (authorized task_id STEER access) (\<lambda>r.
    unless_handled i id
      (if t_state r \<noteq> RUNNING then raise (DiscordTaskActionUnavailable ''Only a running task can be steered.'')
       else
         bind (remember_interaction env i task_id) (\<lambda>_.
         bind (try_catch (awaiting (ae_capabilities env)) (\<lambda>e. if is_exception e then raise NOT_STEERABLE else raise e)) (\<lambda>c.
         bind (store_get task_id) (\<lambda>r.
         bind (from_result (authorize r STEER access)) (\<lambda>_.
         if t_state r \<noteq> RUNNING \<or> \<not> cb_steering c then raise NOT_STEERABLE
         else bind (awaiting (ae_steer env)) (\<lambda>steered.
           if \<not> steered then raise NOT_STEERABLE else store_get task_id)))))))"

definition steer :: "'c action_env \<Rightarrow> string \<Rightarrow> task_access \<Rightarrow> steer_request \<Rightarrow> int \<Rightarrow> ('c, task_record) service" where
  "steer env task_id access q i =
    ensuring (steer_body env task_id access i) (release (ae_cleanup env) (sr_attachments q))"

section \<open>Stopping\<close>

definition stop_update :: "store_env \<Rightarrow> task_record \<Rightarrow> task_record result" where
  "stop_update env r =
    and_then (claim_interruption r USER_STOP) (\<lambda>claimed.
    and_then (as_timestamp (se_now env)) (\<lambda>ts. transition claimed STOPPING ts None))"

definition stop :: "'c action_env \<Rightarrow> string \<Rightarrow> task_access \<Rightarrow> int \<Rightarrow> ('c, task_record) service" where
  "stop env task_id access i =
    bind (authorized task_id STOP access) (\<lambda>r.
    unless_handled i id
      (if t_state r = STOPPING then
         bind (remember_interaction env i task_id) (\<lambda>_.
         bind (interrupt env (t_execution_channel_id r)) (\<lambda>_. store_get task_id))
       else if t_state r \<notin> {RECOVERING, STARTING, RUNNING}
       then raise (DiscordTaskActionUnavailable ''This task can no longer be stopped.'')
       else
         bind (try_catch (persist_update (ae_store env) r (stop_update (ae_store env)))
           (\<lambda>e. case e of TaskRevisionConflict _ \<Rightarrow>
               raise (DiscordTaskActionUnavailable ''This task changed before Stop was accepted.'')
             | _ \<Rightarrow> raise e)) (\<lambda>stopping.
         bind (remember_interaction env i task_id) (\<lambda>_.
         bind (interrupt env (t_execution_channel_id stopping)) (\<lambda>_.
         bind (render_task env stopping) (\<lambda>_. store_get task_id))))))"

section \<open>Retrying\<close>

definition move_to :: "store_env \<Rightarrow> task_state \<Rightarrow> task_record \<Rightarrow> task_record result" where
  "move_to env target r = and_then (as_timestamp (se_now env)) (\<lambda>ts. transition r target ts None)"

definition retry_delivery :: "'c action_env \<Rightarrow> task_record \<Rightarrow> int \<Rightarrow> ('c, task_record) service" where
  "retry_delivery env r i =
    bind (on_cache (dc_consume (ae_cache env) (t_task_id r))) (\<lambda>reply.
    case reply of
      None \<Rightarrow>
        bind (persist_update (ae_store env) r (set_failure (ae_store env) (classify_delivery_failure False))) (\<lambda>unavailable.
        bind (remember_interaction env i (t_task_id r)) (\<lambda>_.
        bind (render_task env unavailable) (\<lambda>_. return unavailable)))
    | Some lease_reply \<Rightarrow>
        bind (on_error (persist_update (ae_store env) r (move_to (ae_store env) DELIVERING))
          (on_cache (dc_restore (ae_cache env) (t_task_id r) lease_reply))) (\<lambda>delivering.
        bind (remember_interaction env i (t_task_id r)) (\<lambda>_.
        bind (spawn (t_task_id r) (Send_Reply lease_reply)) (\<lambda>_.
        bind (render_task env delivering) (\<lambda>_. return delivering)))))"

definition GENERIC_RESUME_PROMPT :: string where
  "GENERIC_RESUME_PROMPT = ''Continue the saved task from its existing session. Review the work already present ''
     @ ''and finish the task safely without asking for the original prompt.''"

definition require_failure :: "task_record \<Rightarrow> ('c, task_failure) service" where
  "require_failure r = from_result (case t_failure r of None \<Rightarrow> Inl NO_RETRY_NOW | Some f \<Rightarrow> Inr f)"

text \<open>The last part of a retry with the agent: the checks again, the transition and the runner.\<close>

definition recover :: "'c action_env \<Rightarrow> string \<Rightarrow> task_access \<Rightarrow> int \<Rightarrow> ('c, task_record) service" where
  "recover env task_id access i =
    bind (authorized task_id RETRY access) (\<lambda>r.
    unless_handled i id
      (bind (from_result (validate_session_retry r)) (\<lambda>_.
       bind runners_ensure_open (\<lambda>_.
       bind (try_catch (persist_update (ae_store env) r (move_to (ae_store env) RECOVERING))
         (\<lambda>e. if is_value_error e \<or> (case e of TaskRevisionConflict _ \<Rightarrow> True | _ \<Rightarrow> False)
           then raise (DiscordTaskActionUnavailable ''This task cannot recover while another task is active.'')
           else raise e)) (\<lambda>recovering.
       bind (remember_interaction env i task_id) (\<lambda>_.
       bind (spawn task_id (Run_Agent (run_for_recovery GENERIC_RESUME_PROMPT))) (\<lambda>_.
       bind (render_task env recovering) (\<lambda>_. return recovering))))))))"

definition retry :: "'c action_env \<Rightarrow> string \<Rightarrow> task_access \<Rightarrow> int \<Rightarrow> ('c, task_record) service" where
  "retry env task_id access i =
    bind (authorized task_id RETRY access) (\<lambda>r.
    unless_handled i id
      (bind (require_failure r) (\<lambda>f.
       bind (if f_retry_mode f \<noteq> RETRY_DELIVERY then from_result (validate_session_retry r) else return ()) (\<lambda>_.
       bind (wait_idle (ae_idle env) task_id) (\<lambda>_.
       bind (authorized task_id RETRY access) (\<lambda>r.
       unless_handled i id
         (bind (require_failure r) (\<lambda>f.
          bind runners_ensure_open (\<lambda>_.
          if f_retry_mode f = RETRY_DELIVERY then retry_delivery env r i
          else
            bind (from_result (validate_session_retry r)) (\<lambda>_.
            bind (require_idle_saved_session (ae_capabilities env)) (\<lambda>_.
            recover env task_id access i)))))))))))"

section \<open>Continuing and forgetting\<close>

text \<open>A continuation is accepted with the two linked records, or it repeats an earlier one.\<close>

datatype continuation = Repeated task_record | Accepted task_record task_record

definition accept_continuation ::
    "'c action_env \<Rightarrow> string \<Rightarrow> task_access \<Rightarrow> task_request \<Rightarrow> int \<Rightarrow> ('c, continuation) service" where
  "accept_continuation env parent_id access q i =
    bind (authorized parent_id CONTINUE access) (\<lambda>parent.
    unless_handled i Repeated
      (bind (reading (\<lambda>s. validate_continuation (sv_store s) parent q)) (\<lambda>_.
       bind (require_idle_saved_session (ae_capabilities env)) (\<lambda>_.
       bind (authorized parent_id CONTINUE access) (\<lambda>parent.
       unless_handled i Repeated
         (bind (reading (\<lambda>s. validate_continuation (sv_store s) parent q)) (\<lambda>_.
          bind runners_ensure_open (\<lambda>_.
          bind (from_result (new_record q (ae_task_id env) (ae_now env) (Some parent))) (\<lambda>child.
          bind (on_store (\<lambda>st. link_child (ae_store env) st (t_task_id parent) (t_revision parent) child))
            (\<lambda>(linked_parent, linked_child).
          bind (remember_interaction env i (t_task_id linked_child)) (\<lambda>_.
          bind (remember_trigger env (rq_trigger_event_id q) (t_task_id linked_child)) (\<lambda>_.
          bind (spawn (t_task_id linked_child) (Run_Agent (run_from_request q))) (\<lambda>_.
          return (Accepted linked_parent linked_child))))))))))))))"

definition continue_task ::
    "'c action_env \<Rightarrow> string \<Rightarrow> task_access \<Rightarrow> task_request \<Rightarrow> int \<Rightarrow> ('c, task_record) service" where
  "continue_task env parent_id access q i =
    bind (ensuring_unless (\<lambda>c. case c of Accepted _ _ \<Rightarrow> True | Repeated _ \<Rightarrow> False)
        (accept_continuation env parent_id access q i) (release (ae_cleanup env) (rq_attachments q))) (\<lambda>c.
    case c of
      Repeated r \<Rightarrow> return r
    | Accepted parent child \<Rightarrow> bind (render_task env parent) (\<lambda>_. return child))"

fun render_all :: "'c action_env \<Rightarrow> task_record list \<Rightarrow> ('c, unit) service" where
  "render_all env [] = return ()"
| "render_all env (r # rest) = bind (render_task env r) (\<lambda>_. render_all env rest)"

definition forget :: "'c action_env \<Rightarrow> string \<Rightarrow> task_access \<Rightarrow> int \<Rightarrow> ('c, unit) service" where
  "forget env task_id access i =
    bind (reading (\<lambda>s. Inr (existing_claim (sv_interactions s) i))) (\<lambda>duplicate.
    if duplicate \<noteq> None then return ()
    else
      bind (authorized task_id FORGET access) (\<lambda>r.
      if t_state r \<in> set ACTIVE_STATES
      then raise (DiscordTaskActionUnavailable ''An active task cannot be forgotten.'')
      else
        bind (try_catch (on_store (\<lambda>st. forget_task (ae_store env) st task_id (t_revision r)))
          (\<lambda>e. if is_value_error e then raise (DiscordTaskActionUnavailable ''An active task cannot be forgotten.'')
            else raise e)) (\<lambda>neighbors.
        bind (remember_interaction env i task_id) (\<lambda>_.
        bind (on_cache (dc_discard (ae_cache env) task_id)) (\<lambda>_.
        render_all env neighbors)))))"

section \<open>The service\<close>

definition service_ensure_open :: "('c, unit) service" where
  "service_ensure_open = reading (\<lambda>s. if sv_closed s then Inl DiscordTaskServiceClosed else Inr ())"

definition by_trigger :: "task_store \<Rightarrow> int \<Rightarrow> task_record option" where
  "by_trigger st i = find (\<lambda>r. t_trigger_event_id r = i) (task_records st)"

text \<open>The part of \<open>start\<close> after the searches.\<close>

definition start_new :: "'c action_env \<Rightarrow> task_request \<Rightarrow> ('c, task_record) service" where
  "start_new env q =
    bind (on_error (from_result (new_record q (ae_task_id env) (ae_now env) None))
      (release (ae_cleanup env) (rq_attachments q))) (\<lambda>r.
    bind (try_catch (on_store (\<lambda>st. create_task (ae_store env) st r)) (\<lambda>e.
      bind (release (ae_cleanup env) (rq_attachments q)) (\<lambda>_.
      raise (if is_value_error e then DiscordTaskChannelBusy else e)))) (\<lambda>_.
    bind (remember_trigger env (rq_trigger_event_id q) (t_task_id r)) (\<lambda>_.
    bind (spawn (t_task_id r) (Run_Agent (run_from_request q))) (\<lambda>_. return r))))"

definition start :: "'c action_env \<Rightarrow> task_request \<Rightarrow> ('c, task_record) service" where
  "start env q =
    bind (on_error service_ensure_open (release (ae_cleanup env) (rq_attachments q))) (\<lambda>_.
    bind (reading (\<lambda>s. Inr (existing_claim (sv_triggers s) (rq_trigger_event_id q)))) (\<lambda>claimed.
    case claimed of
      Some task_id \<Rightarrow>
        bind (release (ae_cleanup env) (rq_attachments q)) (\<lambda>_.
        try_catch (store_get task_id) (\<lambda>e. if is_key_error e
          then raise (DiscordTaskActionUnavailable ''This Discord request was already handled.'') else raise e))
    | None \<Rightarrow>
        bind (reading (\<lambda>s. Inr (by_trigger (sv_store s) (rq_trigger_event_id q)))) (\<lambda>existing.
        case existing of
          Some r \<Rightarrow> bind (release (ae_cleanup env) (rq_attachments q)) (\<lambda>_. return r)
        | None \<Rightarrow> start_new env q)))"

text \<open>The other entries check that the service is open and do the action.\<close>

datatype command =
    Steer_Task steer_request
  | Stop_Task
  | Retry_Task
  | Continue_Task task_request
  | Forget_Task

fun perform :: "'c action_env \<Rightarrow> command \<Rightarrow> string \<Rightarrow> task_access \<Rightarrow> int \<Rightarrow> ('c, task_record option) service" where
  "perform env (Steer_Task q) task_id access i =
    bind (on_error service_ensure_open (release (ae_cleanup env) (sr_attachments q))) (\<lambda>_.
    bind (steer env task_id access q i) (\<lambda>r. return (Some r)))"
| "perform env Stop_Task task_id access i =
    bind service_ensure_open (\<lambda>_. bind (stop env task_id access i) (\<lambda>r. return (Some r)))"
| "perform env Retry_Task task_id access i =
    bind service_ensure_open (\<lambda>_. bind (retry env task_id access i) (\<lambda>r. return (Some r)))"
| "perform env (Continue_Task q) task_id access i =
    bind (on_error service_ensure_open (release (ae_cleanup env) (rq_attachments q))) (\<lambda>_.
    bind (continue_task env task_id access q i) (\<lambda>r. return (Some r)))"
| "perform env Forget_Task task_id access i =
    bind service_ensure_open (\<lambda>_. bind (forget env task_id access i) (\<lambda>_. return None))"

definition refresh_card :: "'c action_env \<Rightarrow> string \<Rightarrow> task_access \<Rightarrow> ('c, task_record) service" where
  "refresh_card env task_id access =
    bind (status task_id access) (\<lambda>r. bind (render_task env r) (\<lambda>_. return r))"

definition service_reconcile :: "'c restart_env \<Rightarrow> ('c, task_record list) service" where
  "service_reconcile env = bind service_ensure_open (\<lambda>_. reconcile_service env)"

section \<open>Closing\<close>

text \<open>\<open>ce_runners\<close> is what happens while the cancelled runners end.\<close>

record 'c close_env =
  ce_runners :: "('c, unit) external"
  ce_presentation :: "('c, unit) external"
  ce_lease :: "nat \<Rightarrow> lease_close"
  ce_cache :: "('c, unit) external"
  ce_staging :: "('c, unit) external"

definition runners_close :: "('c, unit) external \<Rightarrow> ('c, unit) service" where
  "runners_close ended =
    bind (modify (\<lambda>s. s\<lparr>sv_runners_closed := True\<rparr>)) (\<lambda>_.
    (\<lambda>s. if sv_runners s = [] then return () s else awaiting ended s))"

definition close_lease :: "(nat \<Rightarrow> lease_close) \<Rightarrow> nat \<Rightarrow> ('c, unit) service" where
  "close_lease lc l = (case lc_result (lc l) of Inl e \<Rightarrow> raise e | Inr _ \<Rightarrow> resolve_lease l (lc_closed (lc l)))"

definition delivery_close :: "(nat \<Rightarrow> lease_close) \<Rightarrow> ('c, unit) external \<Rightarrow> ('c, unit) service" where
  "delivery_close lc cache_close =
    (\<lambda>s. close_all (map (close_lease lc) (sv_leases s) @ [awaiting cache_close]) s)"

definition runtime_close :: "'c close_env \<Rightarrow> ('c, unit) service" where
  "runtime_close env = close_all [runners_close (ce_runners env), awaiting (ce_presentation env),
     delivery_close (ce_lease env) (ce_cache env)]"

definition service_close :: "'c close_env \<Rightarrow> ('c, unit) service" where
  "service_close env = (\<lambda>s.
    (if sv_close_complete s then return () s
     else bind (modify (\<lambda>s. s\<lparr>sv_closed := True\<rparr>)) (\<lambda>_.
       bind (close_all [runtime_close env, awaiting (ce_staging env)]) (\<lambda>_.
       modify (\<lambda>s. s\<lparr>sv_close_complete := True\<rparr>))) s))"

end
