(* ===== verification/TaskRuntimeProps.thy ===== *)
theory TaskRuntimeProps
  imports TaskRuntime
begin

text \<open>
  Every run settles: whatever the agent, Discord and the other coroutines do, as long as the store can be
  written a run of a task ends with the task completed, failed, stopped or interrupted, never with a
  task that still counts as active and blocks its channel.
\<close>

section \<open>Writing to a store that works\<close>

text \<open>No system call fails, and the clock gives representable, aware values.\<close>

definition quiet :: "store_env \<Rightarrow> bool" where
  "quiet env \<longleftrightarrow> se_faults env = [] \<and> (\<exists>ts. as_timestamp (se_now env) = Inr ts)
     \<and> (\<exists>u. as_utc (se_commit_now env) = Inr u \<and> dt_in_range (instant u - RETENTION_US))"

lemma quiet_commit:
  assumes "quiet env" and "tasks_ok tasks"
  shows "\<exists>st'. commit env st tasks = (Inr (), st') \<and> commit_done env st tasks st'"
proof -
  note d = tasks_okD [OF assms(2)]
  obtain u where u: "as_utc (se_commit_now env) = Inr u" "dt_in_range (instant u - RETENTION_US)" "se_faults env = []"
    using assms(1) by (auto simp: quiet_def)
  have "\<exists>t. updated_instant r = Inr t" if "map_of tasks k = Some r" for k r
    using storable_updated d(7) [OF that] by blast
  then obtain kept where "apply_retention tasks (se_commit_now env) = Inr kept"
    using retention_total [OF d(3,5,4) _ u(1,2)] by blast
  then show ?thesis using u(3)
    by (simp add: commit_def commit_done_def write_document_def confirm_document_durability_def guarded_def Let_def)
qed

lemma quiet_cas:
  assumes "store_ok st" and "map_of (ts_tasks st) k = Some cur" and "quiet env"
    and "storable cand" and "validate_update cur cand = Inr ()" and "active cand \<Longrightarrow> active cur"
  obtains st' where
    "compare_and_set env st k (t_revision cur) (\<lambda>_. Inr cand) = (Inr (cand\<lparr>t_revision := t_revision cur + 1\<rparr>), st')"
    and "store_ok st'"
    and "\<And>r. get_task st' k = Inr r \<Longrightarrow> r = cand\<lparr>t_revision := t_revision cur + 1\<rparr>"
    and "active cand \<Longrightarrow> map_of (ts_tasks st') k = Some (cand\<lparr>t_revision := t_revision cur + 1\<rparr>)"
proof -
  let ?new = "cand\<lparr>t_revision := t_revision cur + 1\<rparr>" and ?tasks = "ts_tasks st"
  have ok: "tasks_ok ?tasks" "exclusive ?tasks" using assms(1) by (simp_all add: store_ok_def)
  note d = tasks_okD [OF ok(1)]
  have rev: "0 \<le> t_revision cur" using storable_revision_nonneg d(7) [OF assms(2)] by blast
  have "k \<in> set (dict_keys ?tasks)" using map_of_key [OF assms(2)] by simp
  then have e: "expect_revision ?tasks k (t_revision cur) = Inr (k, cur)"
    using rev assms(2) by (simp add: expect_revision_def lookup_task_key_def dict_lookup_def)
  have chan: "t_execution_channel_id cand = t_execution_channel_id cur"
    using assms(5) by (simp add: validate_update_Inr immutable_fields_def)
  have free: "ensure_execution_available cand ?tasks (Some k) = Inr ()"
    unfolding ensure_available_iff [OF d(4,5)] chan
    using assms(6) ok(2) assms(2) unfolding exclusive_def by blast
  have new: "make_task_record ?new = Inr ?new"
    using storable_revision [OF assms(4), of "t_revision cur + 1"] rev
    by (simp add: make_task_record_Inr storable_def valid_task_iff)
  have u: "update_checked ?tasks k (t_revision cur) (\<lambda>_. Inr cand) = Inr (AList.update k ?new ?tasks, ?new)"
    by (simp add: update_checked_def e assms(5) free new)
  have good: "tasks_ok (AList.update k ?new ?tasks)"
    by (rule conjunct1 [OF update_checked_ok [OF ok _ u]]) (use assms(4) in simp)
  obtain st' where st': "commit env st (AList.update k ?new ?tasks) = (Inr (), st')"
    "commit_done env st (AList.update k ?new ?tasks) st'" using quiet_commit [OF assms(3) good] by blast
  have c: "compare_and_set env st k (t_revision cur) (\<lambda>_. Inr cand) = (Inr ?new, st')"
    by (simp add: compare_and_set_def u commit_then_def st')
  moreover have "store_ok st'"
    using compare_and_set_ok [OF assms(1), of "\<lambda>_. Inr cand" env k "t_revision cur"] assms(4) c
    by (simp add: update_storable_def)
  moreover have "r = ?new" if "get_task st' k = Inr r" for r
    using task_cas.cas_reads_back [OF assms(1) _ c] assms(4) that by (auto simp: update_storable_def)
  moreover have "map_of (ts_tasks st') k = Some ?new" if "active cand"
    using commit_done_map(2) [OF good st'(2), of k ?new] that by simp
  ultimately show thesis using that by blast
qed

section \<open>Interference\<close>

definition holds :: "string \<Rightarrow> (task_record \<Rightarrow> bool) \<Rightarrow> 'c service_state \<Rightarrow> bool" where
  "holds k P s \<longleftrightarrow> store_ok (sv_store s) \<and> (\<exists>r. map_of (ts_tasks (sv_store s)) k = Some r \<and> P r)"

definition settled :: "string \<Rightarrow> 'c service_state \<Rightarrow> bool" where
  "settled k s \<longleftrightarrow> store_ok (sv_store s) \<and> (\<forall>r. get_task (sv_store s) k = Inr r \<longrightarrow> \<not> active r)"

text \<open>What the other coroutines may do to a task that is being run: accept a stop. A settled task is not
  revived while its runner is at work (a retry waits for the runner).\<close>

definition stop_only :: "task_record \<Rightarrow> task_record \<Rightarrow> bool" where
  "stop_only r r' \<longleftrightarrow> r' = r \<or> (t_state r \<in> {RECOVERING, STARTING, RUNNING} \<and> t_state r' = STOPPING)"

definition harmless :: "string \<Rightarrow> ('c service_state \<Rightarrow> 'c service_state) \<Rightarrow> bool" where
  "harmless k f \<longleftrightarrow> (\<forall>s. store_ok (sv_store s) \<longrightarrow> store_ok (sv_store (f s))
     \<and> (\<forall>r. map_of (ts_tasks (sv_store s)) k = Some r \<longrightarrow> active r
          \<longrightarrow> (\<exists>r'. map_of (ts_tasks (sv_store (f s))) k = Some r' \<and> stop_only r r'))
     \<and> (settled k s \<longrightarrow> settled k (f s)))"

lemma harmless_holds:
  assumes "harmless k f" and "holds k P s" and "\<And>r. P r \<Longrightarrow> active r"
  shows "holds k (\<lambda>r. \<exists>q. P q \<and> stop_only q r) (f s)"
  using assms unfolding holds_def harmless_def by blast

lemma harmless_settled: "harmless k f \<Longrightarrow> settled k s \<Longrightarrow> settled k (f s)"
  by (auto simp: harmless_def settled_def)

section \<open>Reading and updating the task\<close>

lemma stored_get:
  assumes "store_ok st" and "map_of (ts_tasks st) k = Some r"
  shows "get_task st k = Inr r" and "t_task_id r = k" and "storable r"
proof -
  have ok: "tasks_ok (ts_tasks st)" using assms(1) by (simp add: store_ok_def)
  show "get_task st k = Inr r" using get_task_Inr [OF ok] assms(2) by blast
  show "t_task_id r = k" "storable r" using tasks_okD(6,7) [OF ok assms(2)] by auto
qed

lemma get_stored:
  assumes "store_ok st" and "get_task st k = Inr r"
  shows "map_of (ts_tasks st) (t_task_id r) = Some r \<and> canonical_hex (t_task_id r) = canonical_hex k"
proof -
  have ok: "tasks_ok (ts_tasks st)" using assms(1) by (simp add: store_ok_def)
  obtain j where j: "map_of (ts_tasks st) j = Some r" "canonical_hex k = canonical_hex j"
    using get_task_Inr [OF ok] assms(2) by blast
  then show ?thesis using tasks_okD(6) [OF ok j(1)] by simp
qed

lemma settled_spelling:
  assumes "settled j s" and "canonical_hex j = canonical_hex k"
  shows "settled k s"
proof -
  have ok: "tasks_ok (ts_tasks (sv_store s))" using assms(1) by (simp add: settled_def store_ok_def)
  have "get_task (sv_store s) j = Inr r" if "get_task (sv_store s) k = Inr r" for r
    using that assms(2) unfolding get_task_Inr [OF ok] by simp
  then show ?thesis using assms(1) by (auto simp: settled_def)
qed

lemma wp_store_get:
  assumes "holds k P s" and "\<And>r. P r \<Longrightarrow> map_of (ts_tasks (sv_store s)) k = Some r \<Longrightarrow> t_task_id r = k \<Longrightarrow> storable r \<Longrightarrow> Q r s"
  shows "wp (store_get k) Q E s"
proof -
  obtain r where r: "store_ok (sv_store s)" "map_of (ts_tasks (sv_store s)) k = Some r" "P r"
    using assms(1) by (auto simp: holds_def)
  note g = stored_get [OF r(1,2)]
  show ?thesis using assms(2) [OF r(3,2) g(2,3)] by (simp add: store_get_def wp_basic g(1))
qed

text \<open>What an update leaves.\<close>

definition updated_to :: "string \<Rightarrow> task_record \<Rightarrow> 'c service_state \<Rightarrow> 'c service_state \<Rightarrow> bool" where
  "updated_to k r s s' \<longleftrightarrow> store_ok (sv_store s') \<and> s' = s\<lparr>sv_store := sv_store s'\<rparr> \<and> t_task_id r = k
     \<and> (if active r then map_of (ts_tasks (sv_store s')) k = Some r else settled k s')"

lemma wp_persist:
  assumes "store_ok (sv_store s)" and "map_of (ts_tasks (sv_store s)) k = Some cur" and "quiet env"
    and "update cur = Inr cand" and "storable cand" and "validate_update cur cand = Inr ()"
    and "active cand \<Longrightarrow> active cur"
    and "\<And>s'. updated_to k (cand\<lparr>t_revision := t_revision cur + 1\<rparr>) s s'
        \<Longrightarrow> Q (cand\<lparr>t_revision := t_revision cur + 1\<rparr>) s'"
  shows "wp (persist_update env cur update) Q E s"
proof -
  let ?new = "cand\<lparr>t_revision := t_revision cur + 1\<rparr>"
  obtain st' where st': "compare_and_set env (sv_store s) k (t_revision cur) (\<lambda>_. Inr cand) = (Inr ?new, st')"
    "store_ok st'" "\<And>r. get_task st' k = Inr r \<Longrightarrow> r = ?new"
    "active cand \<Longrightarrow> map_of (ts_tasks st') k = Some ?new"
    using quiet_cas [OF assms(1-3,5,6,7)] by metis
  have id: "t_task_id cur = k" using stored_get [OF assms(1,2)] by simp
  have new: "t_task_id ?new = k" "active ?new = active cand"
    using assms(6) id by (simp_all add: validate_update_Inr immutable_fields_def)
  have "updated_to k ?new s (s\<lparr>sv_store := st'\<rparr>)"
  proof (cases "active cand")
    case True
    with new st'(2) st'(4) [OF True] show ?thesis by (simp add: updated_to_def)
  next
    case False
    have "\<not> active r" if "get_task st' k = Inr r" for r using st'(3) [OF that] False new(2) by simp
    then have "settled k (s\<lparr>sv_store := st'\<rparr>)" using st'(2) by (simp add: settled_def)
    with False new st'(2) show ?thesis by (simp add: updated_to_def)
  qed
  from assms(8) [OF this] show ?thesis
    by (simp add: persist_update_def wp_bind wp_basic assms(4) id) (simp add: wp_def zoomed_def st'(1))
qed

lemma moved_storable:
  assumes "storable r" and "as_timestamp now = Inr ts" and "failure_fits target (next_failure r target fo)"
    and "\<forall>f \<in> set_option fo. valid_failure f"
  shows "storable (moved r target ts fo)"
proof -
  have v: "valid_task r" using assms(1) by (simp add: storable_def)
  note ts = as_timestamp_text [OF assms(2)] timestamp_text_utc(1) [OF as_timestamp_text(2) [OF assms(2)]]
  have "task_progress_ok (moved r target ts fo)" using transition_progress [OF v] ts(1) assms(3) by blast
  moreover have "valid_failure f" if "t_failure (moved r target ts fo) = Some f" for f
    using next_failure_cases [of r target fo] that assms(4) v by (auto simp: valid_task_iff)
  ultimately show ?thesis using assms(1) ts(3)
    by (auto simp: storable_def valid_task_iff moved_def)
qed

lemma wp_move:
  assumes "store_ok (sv_store s)" and "map_of (ts_tasks (sv_store s)) k = Some cur" and "quiet env"
    and "can_transition (t_state cur) target" and "failure_fits target (next_failure cur target fo)"
    and "\<forall>f \<in> set_option fo. valid_failure f" and "target \<in> set ACTIVE_STATES \<Longrightarrow> active cur"
    and "\<And>r s'. updated_to k r s s' \<Longrightarrow> t_state r = target \<Longrightarrow> t_failure r = next_failure cur target fo
        \<Longrightarrow> t_revision r = t_revision cur + 1 \<Longrightarrow> Q r s'"
  shows "wp (move_task env cur target fo) Q E s"
proof -
  obtain ts where ts: "as_timestamp (se_now env) = Inr ts" using assms(3) by (auto simp: quiet_def)
  have st: "storable cur" using stored_get [OF assms(1,2)] by simp
  let ?cand = "moved cur target ts fo"
  have cand: "storable ?cand" by (rule moved_storable [OF st ts assms(5,6)])
  have tr: "transition cur target ts fo = Inr ?cand"
    using st cand assms(4) by (auto simp: transition_Inr storable_def valid_task_iff)
  have v: "validate_update cur ?cand = Inr ()" using assms(4) by (simp add: validate_update_Inr)
  show ?thesis unfolding move_task_def
    by (rule wp_persist [OF assms(1-3) _ cand v]) (use ts tr assms(7,8) in auto)
qed

section \<open>Stability under interference\<close>

definition stable :: "string \<Rightarrow> ('c service_state \<Rightarrow> bool) \<Rightarrow> bool" where
  "stable k I \<longleftrightarrow> (\<forall>f s. harmless k f \<longrightarrow> I s \<longrightarrow> I (f s))"

lemma stableD: "stable k I \<Longrightarrow> harmless k f \<Longrightarrow> I s \<Longrightarrow> I (f s)"
  by (simp add: stable_def)

lemma stable_settled: "stable k (settled k)"
  by (simp add: stable_def harmless_settled)

lemma stable_holds:
  assumes "\<And>r. P r \<Longrightarrow> active r" and "\<And>r r'. P r \<Longrightarrow> stop_only r r' \<Longrightarrow> P r'"
  shows "stable k (holds k P :: 'c service_state \<Rightarrow> bool)"
  unfolding stable_def
proof (intro allI impI)
  fix f :: "'c service_state \<Rightarrow> 'c service_state" and s :: "'c service_state" assume h: "harmless k f" "holds k P s"
  have "holds k (\<lambda>r. \<exists>q. P q \<and> stop_only q r) (f s)" by (rule harmless_holds [OF h assms(1)])
  then show "holds k P (f s)" using assms(2) by (auto simp: holds_def)
qed

definition in_states :: "task_state set \<Rightarrow> task_record \<Rightarrow> bool" where
  "in_states S r \<longleftrightarrow> t_state r \<in> S"

lemma stable_in_states:
  assumes "S \<subseteq> set ACTIVE_STATES" and "S \<inter> {RECOVERING, STARTING, RUNNING} \<noteq> {} \<Longrightarrow> STOPPING \<in> S"
  shows "stable k (holds k (in_states S))"
  by (rule stable_holds) (use assms in \<open>auto simp: in_states_def stop_only_def\<close>)

lemma holds_weaken: "holds k P s \<Longrightarrow> (\<And>r. P r \<Longrightarrow> Q r) \<Longrightarrow> holds k Q s"
  by (auto simp: holds_def)

lemma updated_holds: "updated_to k r s s' \<Longrightarrow> active r \<Longrightarrow> P r \<Longrightarrow> holds k P s'"
  by (auto simp: updated_to_def holds_def)

lemma updated_settled: "updated_to k r s s' \<Longrightarrow> \<not> active r \<Longrightarrow> settled k s'"
  by (simp add: updated_to_def)

text \<open>An exception other than a cancellation leaves the state in \<open>I\<close>.\<close>

definition unless_cancelled :: "('c service_state \<Rightarrow> bool) \<Rightarrow> exn \<Rightarrow> 'c service_state \<Rightarrow> bool" where
  "unless_cancelled I e s \<longleftrightarrow> e = CancelledError \<or> I s"

lemma wp_awaiting:
  assumes "stable k I" and "harmless k (snd a)" and "I s"
    and "\<And>x s'. fst a = Inr x \<Longrightarrow> I s' \<Longrightarrow> Q x s'" and "\<And>e s'. fst a = Inl e \<Longrightarrow> I s' \<Longrightarrow> E e s'"
  shows "wp (awaiting a) Q E s"
  using stableD [OF assms(1-3)] assms(4,5) by (auto simp: wp_basic split: sum.splits)

definition calm_rendering :: "string \<Rightarrow> 'c rendering \<Rightarrow> bool" where
  "calm_rendering k rd \<longleftrightarrow> harmless k (snd (rd_lock rd)) \<and> harmless k (snd (rd_card rd))"

lemma wp_render:
  assumes "stable k I" and "calm_rendering k rd" and "I s"
  shows "wp (render rd r) (\<lambda>_. I) (unless_cancelled I) s"
proof -
  have h: "harmless k (snd (rd_lock rd))" "harmless k (snd (rd_card rd))"
    using assms(2) by (simp_all add: calm_rendering_def)
  show ?thesis unfolding render_def wp_bind wp_suppressed
  proof (rule wp_awaiting [OF assms(1) h(1) assms(3)])
    fix x s' assume I: "I s'"
    have a: "wp (awaiting (rd_card rd)) (\<lambda>_. I) (\<lambda>e. if is_exception e then I else unless_cancelled I e) s'"
      by (rule wp_awaiting [OF assms(1) h(2) I]) (simp_all add: unless_cancelled_def)
    show "wp (store_get (t_task_id r)) (\<lambda>_. wp (awaiting (rd_card rd)) (\<lambda>_. I)
        (\<lambda>e. if is_exception e then I else unless_cancelled I e))
        (\<lambda>e. if is_exception e then I else unless_cancelled I e) s'"
      unfolding store_get_def wp_basic(5) using a I by (auto simp: unless_cancelled_def split: sum.split)
  qed (simp add: unless_cancelled_def)
qed

section \<open>The end of a run\<close>

abbreviation ends :: "string \<Rightarrow> ('c, unit) service \<Rightarrow> 'c service_state \<Rightarrow> bool" where
  "ends k m s \<equiv> wp m (\<lambda>_. settled k) (unless_cancelled (settled k)) s"

lemma render_ends: "calm_rendering k rd \<Longrightarrow> settled k s \<Longrightarrow> ends k (render rd r) s"
  by (rule wp_render [OF stable_settled])

lemma stop_ends:
  assumes "store_ok (sv_store s)" and "map_of (ts_tasks (sv_store s)) k = Some cur" and "quiet env"
    and "t_state cur = STOPPING" and "calm_rendering k rd"
  shows "ends k (finish_stopping env rd cur) s"
  unfolding finish_stopping_def wp_bind
proof (rule wp_move [OF assms(1-3)])
  fix r s' assume "updated_to k r s s'" "t_state r = STOPPED"
  then have "settled k s'" using updated_settled by (fastforce simp: ACTIVE_STATES_def)
  then show "ends k (render rd r) s'" by (rule render_ends [OF assms(5)])
qed (simp_all add: assms(4) can_transition_def next_failure_def failure_fits_def FAILURE_STATES_def ACTIVE_STATES_def)

definition calm_failure :: "string \<Rightarrow> 'c failure_env \<Rightarrow> bool" where
  "calm_failure k fe \<longleftrightarrow> quiet (fe_stop fe) \<and> quiet (fe_fail fe) \<and> quiet (fe_enrich fe)
     \<and> harmless k (snd (fe_capabilities fe)) \<and> calm_rendering k (fe_render fe)"

abbreviation "RAN \<equiv> {RECOVERING, STARTING, RUNNING, STOPPING}"

text \<open>The enrichment, on a settled task, may be refused but does not revive it.\<close>

lemma enrich_keeps:
  assumes "settled k s" and "quiet env" and "get_task (sv_store s) k = Inr cur" and "valid_failure f"
  shows "wp (persist_update env cur (set_failure env f)) (\<lambda>_. settled k) (\<lambda>_. settled k) s"
proof -
  have ok: "store_ok (sv_store s)" and idle: "\<not> active cur" using assms(1,3) by (auto simp: settled_def)
  let ?j = "t_task_id cur"
  have j: "map_of (ts_tasks (sv_store s)) ?j = Some cur" "canonical_hex ?j = canonical_hex k"
    using get_stored [OF ok assms(3)] by simp_all
  obtain ts where ts: "as_timestamp (se_now env) = Inr ts" using assms(2) by (auto simp: quiet_def)
  let ?cand = "cur\<lparr>t_failure := Some f, t_updated_at := ts\<rparr>"
  show ?thesis
  proof (cases "make_task_record ?cand")
    case (Inl e)
    then show ?thesis using assms(1) by (simp add: persist_update_def set_failure_def wp_bind wp_basic ts)
  next
    case (Inr c)
    then have c: "c = ?cand" "task_identity_ok ?cand" "task_progress_ok ?cand" by (auto simp: make_task_record_Inr)
    have "storable ?cand" using c assms(4) stored_get(3) [OF ok j(1)]
        timestamp_text_utc(1) [OF as_timestamp_text(2) [OF ts]] by (simp add: storable_def valid_task_iff)
    moreover have "validate_update cur ?cand = Inr ()"
      using idle by (auto simp: validate_update_Inr immutable_fields_def attempt_after_transition_def ACTIVE_STATES_def Let_def)
    moreover have "settled k s'" if "updated_to ?j (?cand\<lparr>t_revision := t_revision cur + 1\<rparr>) s s'" for s'
      by (rule settled_spelling [OF updated_settled [OF that] j(2)]) (use idle in simp)
    ultimately show ?thesis
      by (intro wp_persist [OF ok j(1) assms(2), where cand = ?cand]) (use idle Inr c(1) ts in \<open>auto simp: set_failure_def\<close>)
  qed
qed

lemma settled_get:
  assumes "settled k s" and "\<And>r. get_task (sv_store s) k = Inr r \<Longrightarrow> \<not> active r \<Longrightarrow> Q r s" and "\<And>e. E e s"
  shows "wp (store_get k) Q E s"
  unfolding store_get_def wp_basic using assms by (auto simp: settled_def split: sum.split)

lemma failure_target_cases:
  assumes "failure_target r e = Some (target, cause)"
  shows "t_state r \<in> {RECOVERING, STARTING, RUNNING}" and "can_transition (t_state r) target"
    and "target \<notin> set ACTIVE_STATES" and "target \<noteq> DELIVERY_FAILED" and "target \<notin> {COMPLETED, STOPPED}"
  using assms
  by (auto simp: failure_target_def can_transition_def ACTIVE_STATES_def split: if_splits exn.splits)

lemma failure_target_some:
  assumes "in_states RAN r" and "t_state r \<noteq> STOPPING"
  shows "\<exists>target cause. failure_target r e = Some (target, cause)"
  using assms by (cases e) (auto simp: in_states_def failure_target_def)

lemma claim_change:
  assumes "valid_task r" and "t_state r \<in> {RECOVERING, STARTING, RUNNING}"
  shows "\<exists>c. (case cause of None \<Rightarrow> Inr r | Some c \<Rightarrow> claim_interruption r c) = Inr c
    \<and> (c = r \<or> (t_interruption_cause r = None \<and> (\<exists>x. c = r\<lparr>t_interruption_cause := Some x\<rparr>)))"
proof (cases cause)
  case (Some x)
  show ?thesis using claim_interruption_Inr [OF assms(1), of x] assms(2) Some
    by (cases "t_interruption_cause r") auto
qed simp

lemma persist_failure_ends:
  assumes "calm_failure k fe" and "store_ok (sv_store s)" and "map_of (ts_tasks (sv_store s)) k = Some cur"
    and "failure_target cur e = Some (target, cause)"
    and "\<And>failed s'. settled k s' \<Longrightarrow> Q (Some failed) s'"
  shows "wp (persist_failure fe e k cur target cause) Q E s"
proof -
  note t = failure_target_cases [OF assms(4)]
  have q: "quiet (fe_fail fe)" using assms(1) by (simp add: calm_failure_def)
  obtain ts where ts: "as_timestamp (se_now (fe_fail fe)) = Inr ts" using q by (auto simp: quiet_def)
  have st: "storable cur" "valid_task cur" using stored_get [OF assms(2,3)] by (simp_all add: storable_def)
  obtain c where c: "(case cause of None \<Rightarrow> Inr cur | Some c \<Rightarrow> claim_interruption cur c) = Inr c"
    "c = cur \<or> (t_interruption_cause cur = None \<and> (\<exists>x. c = cur\<lparr>t_interruption_cause := Some x\<rparr>))"
    using claim_change [OF st(2)] t(1) by blast
  let ?f = "classify_agent_failure e False False"
  have sc: "storable c" using c(2) st(1) by (auto simp: storable_def valid_task_iff task_progress_ok_def)
  have state: "t_state c = t_state cur" "immutable_fields c = immutable_fields cur" "t_revision c = t_revision cur"
    "t_attempt c = t_attempt cur"
    using c(2) by (auto simp: immutable_fields_def)
  have fits: "failure_fits target (next_failure c target (Some ?f))"
    using t(3-5) classified_category [of e False False] classified_retry [of e False False] t(2)
    by (auto simp: next_failure_def failure_fits_def can_transition_def ACTIVE_STATES_def)
  let ?cand = "moved c target ts (Some ?f)"
  have cand: "storable ?cand" by (rule moved_storable [OF sc ts fits]) (simp add: classified_valid)
  have tr: "transition c target ts (Some ?f) = Inr ?cand"
    using sc cand t(2) state by (auto simp: transition_Inr storable_def valid_task_iff)
  have v: "validate_update cur ?cand = Inr ()"
    using c(2) t(1,2) state by (auto simp: validate_update_Inr attempt_after_transition_def)
  show ?thesis unfolding persist_failure_def wp_try_catch wp_bind wp_basic
  proof (rule wp_persist [OF assms(2,3) q _ cand v], goal_cases)
    case 1
    then show ?case using c(1) ts tr by (simp add: fail_update_def)
  next
    case 2
    then show ?case using t(3) by simp
  next
    case (3 s')
    have "settled k s'" by (rule updated_settled [OF 3]) (use t(3) in simp)
    then show ?case by (rule assms(5))
  qed
qed

lemma enrich_ends:
  assumes "calm_failure k fe" and "settled k s"
  shows "wp (enrich_failure fe e k failed) (\<lambda>_. settled k) (unless_cancelled (settled k)) s"
proof -
  have q: "quiet (fe_enrich fe)" "harmless k (snd (fe_capabilities fe))" using assms(1) by (simp_all add: calm_failure_def)
  have step: "wp (store_get k) (\<lambda>latest. wp (if t_revision latest \<noteq> t_revision failed then return failed
      else persist_update (fe_enrich fe) latest (set_failure (fe_enrich fe) f))
      (\<lambda>_. settled k) (unless_cancelled (settled k))) (unless_cancelled (settled k)) s'"
    if "settled k s'" and "valid_failure f" for s' f
    using that(1)
  proof (rule settled_get)
    fix r assume "get_task (sv_store s') k = Inr r"
    from wp_mono [OF enrich_keeps [OF that(1) q(1) this that(2)]] that(1)
    show "wp (if t_revision r \<noteq> t_revision failed then return failed
      else persist_update (fe_enrich fe) r (set_failure (fe_enrich fe) f))
      (\<lambda>_. settled k) (unless_cancelled (settled k)) s'" by (simp add: wp_basic unless_cancelled_def)
  qed (use that(1) in \<open>simp add: unless_cancelled_def\<close>)
  show ?thesis unfolding enrich_failure_def wp_bind wp_try_catch
  proof (rule wp_awaiting [OF stable_settled q(2) assms(2)], goal_cases)
    case (1 x s')
    show ?case using step [OF 1(2) classified_valid(1)] by (simp add: wp_basic wp_bind)
  qed (auto simp: wp_basic unless_cancelled_def is_exception_def)
qed

text \<open>Recording a failure ends a task that was still active, and leaves a settled one settled.\<close>

lemma failure_ends:
  assumes "calm_failure k fe" and "settled k s \<or> holds k (in_states RAN) s"
  shows "ends k (record_agent_failure fe k e) s"
proof -
  have q: "quiet (fe_stop fe)" "calm_rendering k (fe_render fe)" using assms(1) by (simp_all add: calm_failure_def)
  show ?thesis using assms(2)
  proof
    assume s: "settled k s"
    show ?thesis unfolding record_agent_failure_def wp_bind
      by (rule settled_get [OF s])
        (auto simp: ACTIVE_STATES_def failure_target_def wp_basic s unless_cancelled_def)
  next
    assume h: "holds k (in_states RAN) s"
    then have ok: "store_ok (sv_store s)" by (simp add: holds_def)
    show ?thesis unfolding record_agent_failure_def wp_bind
    proof (rule wp_store_get [OF h], goal_cases)
      case (1 cur)
      show ?case
      proof (cases "t_state cur = STOPPING")
        case True
        with stop_ends [OF ok 1(2) q(1) True q(2)] show ?thesis by simp
      next
        case False
        with 1(1) obtain target cause where t: "failure_target cur e = Some (target, cause)"
          using failure_target_some by blast
        have "wp (persist_failure fe e k cur target cause)
          (\<lambda>outcome. wp (case outcome of None \<Rightarrow> return () | Some failed \<Rightarrow>
             bind (if cause = None then return failed else enrich_failure fe e k failed) (render (fe_render fe)))
             (\<lambda>_. settled k) (unless_cancelled (settled k))) (unless_cancelled (settled k)) s"
          by (rule persist_failure_ends [OF assms(1) ok 1(2) t])
            (auto simp: wp_bind wp_basic intro!: render_ends [OF q(2)] wp_mono [OF enrich_ends [OF assms(1)]])
        with False t show ?thesis by (simp add: wp_bind)
      qed
    qed
  qed
qed

section \<open>Delivery\<close>

definition store_only :: "('c service_state \<Rightarrow> bool) \<Rightarrow> bool" where
  "store_only I \<longleftrightarrow> (\<forall>s s'. sv_store s' = sv_store s \<longrightarrow> I s \<longrightarrow> I s')"

lemma store_onlyD: "store_only I \<Longrightarrow> I s \<Longrightarrow> sv_store s' = sv_store s \<Longrightarrow> I s'"
  unfolding store_only_def by blast

lemma store_only_intros: "store_only (holds k P)" "store_only (settled k)"
  by (auto simp: store_only_def holds_def settled_def)

lemma wp_on_cache:
  assumes "store_only I" and "I s" and "\<And>x s'. I s' \<Longrightarrow> Q x s'" and "\<And>e s'. I s' \<Longrightarrow> E e s'"
  shows "wp (on_cache m) Q E s"
proof -
  have "I (s\<lparr>sv_cache := c\<rparr>)" for c using store_onlyD [OF assms(1,2)] by simp
  then show ?thesis using assms(3,4) by (auto simp: wp_def zoomed_def split: prod.split sum.split)
qed

lemma wp_resolve:
  assumes "store_only I" and "I s"
  shows "wp (resolve_lease l b) (\<lambda>_. I) E s"
proof -
  have "I (s\<lparr>sv_leases := ls\<rparr>)" for ls using store_onlyD [OF assms] by simp
  then show ?thesis using assms(2) by (simp add: resolve_lease_def wp_basic)
qed

lemma wp_close:
  assumes "store_only I" and "I s"
  shows "wp (close_and_raise lc l e) Q (\<lambda>_. I) s"
proof (cases "lc_result lc")
  case (Inr u)
  then show ?thesis using wp_resolve [OF assms] by (simp add: close_and_raise_def wp_bind wp_basic)
qed (use assms(2) in \<open>simp add: close_and_raise_def wp_basic\<close>)

lemma wp_send_reply:
  assumes "stable k I" and "store_only I" and "harmless k (snd deliver)" and "I s"
  shows "wp (send_reply cache lc deliver r reply) (\<lambda>x s'. fst deliver = Inr x \<and> I s') (\<lambda>_. I) s"
proof (cases "pr_lease reply")
  case None
  then show ?thesis using assms(4) by (simp add: send_reply_def wp_basic)
next
  case (Some lease)
  let ?after = "\<lambda>x. wp (bind (resolve_lease lease (lc_result lc = Inr () \<and> lc_closed lc)) (\<lambda>_. return x))
     (\<lambda>x s'. fst deliver = Inr x \<and> I s') (\<lambda>_. I)"
  have after: "?after x s'" if "fst deliver = Inr x" "I s'" for x s'
    unfolding wp_bind wp_basic
    by (rule wp_mono [OF wp_resolve [OF assms(2) that(2), where E = "\<lambda>_. I"]]) (use that(1) in auto)
  have restored: "wp (try_catch (on_cache (dc_restore cache (t_task_id r) reply)) (close_and_raise lc lease))
      (\<lambda>_. wp (bind (resolve_lease lease True) (\<lambda>_. raise e)) (\<lambda>x. ?after x) (\<lambda>_. I)) (\<lambda>_. I) s'" if "I s'" for s' e
    unfolding wp_try_catch
    by (rule wp_on_cache [OF assms(2) that]) (auto simp: wp_bind wp_basic intro: wp_resolve [OF assms(2)] wp_close [OF assms(2)])
  have "I (s\<lparr>sv_leases := List.insert lease (sv_leases s)\<rparr>)" using store_onlyD [OF assms(2,4)] by simp
  then show ?thesis unfolding send_reply_def Some option.case wp_bind wp_try_catch wp_basic(3)
  proof (rule wp_awaiting [OF assms(1,3)], goal_cases)
    case (1 x s')
    then show ?case using after by (simp add: wp_bind)
  next
    case (2 e s')
    then show ?case using restored [OF 2(2)] wp_close [OF assms(2) 2(2)] by (auto simp: wp_bind wp_if)
  qed
qed


lemma failure_carries:
  assumes "storable r" and "active r" and "target \<in> set ACTIVE_STATES"
  shows "failure_fits target (next_failure r target None)"
  using assms by (auto simp: storable_def valid_task_iff task_progress_ok_def next_failure_def failure_fits_def
      ACTIVE_STATES_def FAILURE_STATES_def split: option.splits if_splits)

text \<open>What an environment may do to the run of the task \<open>k\<close>; the identifiers Discord gives are positive.\<close>

definition calm_run :: "string \<Rightarrow> 'c run_env \<Rightarrow> bool" where
  "calm_run k env \<longleftrightarrow> (\<forall>i. quiet (rn_card_store env i)) \<and> quiet (rn_starting env) \<and> quiet (rn_running env)
     \<and> quiet (rn_delivering env) \<and> quiet (rn_completed env) \<and> quiet (rn_delivery_failed env) \<and> quiet (rn_stop env)
     \<and> calm_failure k (rn_failure env) \<and> (\<forall>i. calm_rendering k (rn_render env i))
     \<and> harmless k (snd (rn_create_card env)) \<and> harmless k (snd (rn_start env))
     \<and> (\<forall>r. harmless k (snd (rn_resolver env r))) \<and> (\<forall>p r c. harmless k (snd (rn_ask env p r c)))
     \<and> (\<forall>r t. harmless k (snd (rn_prepare env r t))) \<and> harmless k (snd (rn_deliver env))
     \<and> (\<forall>i. fst (rn_deliver env) = Inr i \<longrightarrow> 0 < i)"

lemma delivery_failed_ends:
  assumes "calm_run k env" and "holds k (in_states {DELIVERING}) s"
  shows "ends k (delivery_failed env k d) s"
proof -
  have q: "quiet (rn_delivery_failed env)" "calm_rendering k (rn_render env 4)" using assms(1) by (simp_all add: calm_run_def)
  have ok: "store_ok (sv_store s)" using assms(2) by (simp add: holds_def)
  show ?thesis unfolding delivery_failed_def wp_bind
  proof (rule wp_store_get [OF assms(2)], goal_cases)
    case (1 cur)
    then have d: "t_state cur = DELIVERING" by (simp add: in_states_def)
    have "wp (move_task (rn_delivery_failed env) cur DELIVERY_FAILED (Some (classify_delivery_failure d)))
      (\<lambda>failed. ends k (render (rn_render env 4) failed)) (unless_cancelled (settled k)) s"
    proof (rule wp_move [OF ok 1(2) q(1)])
      fix r s' assume "updated_to k r s s'" "t_state r = DELIVERY_FAILED"
      then have "settled k s'" using updated_settled by (fastforce simp: ACTIVE_STATES_def)
      then show "ends k (render (rn_render env 4) r) s'" by (rule render_ends [OF q(2)])
    qed (simp_all add: d can_transition_def next_failure_def failure_fits_def ACTIVE_STATES_def
        classify_delivery_failure_def failure_of_def valid_failure_def)
    then show ?case using d by (simp add: wp_bind)
  qed
qed

text \<open>A result that was sent completes the task.\<close>

lemma completion_ends:
  assumes "calm_run k env" and "holds k (in_states {DELIVERING}) s" and "0 < i"
  shows "wp (store_get k) (\<lambda>current. ends k (bind (persist_update (rn_completed env) current (\<lambda>r.
          and_then (make_task_record (r\<lparr>t_result_message_id := Some i\<rparr>)) (\<lambda>delivered.
          and_then (as_timestamp (se_now (rn_completed env))) (\<lambda>ts.
          transition delivered COMPLETED ts None)))) (\<lambda>completed. render (rn_render env 3) completed)))
      (unless_cancelled (settled k)) s"
proof (rule wp_store_get [OF assms(2)], goal_cases)
  case (1 cur)
  have q: "quiet (rn_completed env)" "calm_rendering k (rn_render env 3)" using assms(1) by (simp_all add: calm_run_def)
  have ok: "store_ok (sv_store s)" using assms(2) by (simp add: holds_def)
  have d: "t_state cur = DELIVERING" using 1(1) by (simp add: in_states_def)
  obtain ts where ts: "as_timestamp (se_now (rn_completed env)) = Inr ts" using q(1) by (auto simp: quiet_def)
  let ?sent = "cur\<lparr>t_result_message_id := Some i\<rparr>"
  let ?cand = "moved ?sent COMPLETED ts None"
  have st: "storable ?sent" using 1(4) assms(3) by (auto simp: storable_def valid_task_iff task_progress_ok_def)
  have fits: "failure_fits COMPLETED (next_failure ?sent COMPLETED None)"
    by (simp add: next_failure_def failure_fits_def FAILURE_STATES_def)
  have cand: "storable ?cand" by (rule moved_storable [OF st ts fits]) simp
  have tr: "make_task_record ?sent = Inr ?sent" "transition ?sent COMPLETED ts None = Inr ?cand"
    using st cand d by (auto simp: make_task_record_Inr transition_Inr storable_def valid_task_iff can_transition_def)
  have v: "validate_update cur ?cand = Inr ()"
    using d by (simp add: validate_update_Inr moved_def immutable_fields_def attempt_after_transition_def
        can_transition_def Let_def)
  show ?case unfolding wp_bind
  proof (rule wp_persist [OF ok 1(2) q(1) _ cand v], goal_cases)
    case 1
    then show ?case using tr ts by simp
  next
    case (3 s')
    have "settled k s'" by (rule updated_settled [OF 3]) (simp add: ACTIVE_STATES_def)
    then show ?case by (rule render_ends [OF q(2)])
  qed (simp add: ACTIVE_STATES_def)
qed

lemma send_ends:
  assumes "calm_run k env" and "holds k (in_states {DELIVERING}) s"
  shows "ends k (send_delivery env k reply) s"
proof -
  have h: "harmless k (snd (rn_deliver env))" "\<And>i. fst (rn_deliver env) = Inr i \<Longrightarrow> 0 < i"
    using assms(1) by (simp_all add: calm_run_def)
  have st: "stable k (holds k (in_states {DELIVERING}))"
    by (rule stable_in_states) (simp_all add: ACTIVE_STATES_def)
  show ?thesis unfolding send_delivery_def wp_bind
  proof (rule wp_store_get [OF assms(2)], goal_cases)
    case (1 r)
    show ?case unfolding wp_try_catch wp_bind wp_basic
    proof (rule wp_mono [OF wp_send_reply [OF st store_only_intros(1) h(1) assms(2)]], goal_cases)
      case (1 i s')
      then show ?case using completion_ends [OF assms(1) _ h(2)] by (simp add: wp_bind)
    next
      case (2 e s')
      then show ?case using delivery_failed_ends [OF assms(1) 2]
        by (auto simp: wp_bind wp_basic unless_cancelled_def split: exn.split)
    qed
  qed
qed


section \<open>A whole run\<close>

text \<open>An exception other than a cancellation leaves a task that is settled or has not been delivered.\<close>

definition undelivered :: "string \<Rightarrow> 'c service_state \<Rightarrow> bool" where
  "undelivered k s \<longleftrightarrow> settled k s \<or> holds k (in_states RAN) s"

abbreviation runs :: "string \<Rightarrow> ('c, unit) service \<Rightarrow> 'c service_state \<Rightarrow> bool" where
  "runs k m s \<equiv> wp m (\<lambda>_. settled k) (unless_cancelled (undelivered k)) s"

lemma ends_runs: "ends k m s \<Longrightarrow> runs k m s"
  by (erule wp_mono) (auto simp: unless_cancelled_def undelivered_def)

lemma holds_undelivered: "holds k (in_states S) s \<Longrightarrow> S \<subseteq> RAN \<Longrightarrow> unless_cancelled (undelivered k) e s"
  unfolding unless_cancelled_def undelivered_def by (auto simp: holds_def in_states_def)

lemma unless_undelivered:
  "unless_cancelled (holds k (in_states S)) e s \<Longrightarrow> S \<subseteq> RAN \<Longrightarrow> unless_cancelled (undelivered k) e s"
  using holds_undelivered [of k S s e] by (auto simp: unless_cancelled_def)

lemma stop_run_ends:
  assumes "calm_run k env" and "holds k P s" and "map_of (ts_tasks (sv_store s)) k = Some cur" and "t_state cur = STOPPING"
  shows "ends k (stop_run env cur) s"
  unfolding stop_run_def using assms by (intro stop_ends) (auto simp: calm_run_def holds_def)

lemma stable_RUNNING: "stable k (holds k (in_states {RUNNING, STOPPING}))"
  by (rule stable_in_states) (simp_all add: ACTIVE_STATES_def)

text \<open>An answer of the agent is delivered, or the run is stopped.\<close>

lemma lease_runs:
  assumes "calm_run k env" and "holds k (in_states {RUNNING, STOPPING}) s"
    and "map_of (ts_tasks (sv_store s)) k = Some cur" and "t_state cur = RUNNING"
  shows "runs k (bind (try_catch (move_task (rn_delivering env) cur DELIVERING None) (\<lambda>e.
              bind (on_cache (dc_restore (rn_cache env) k reply)) (\<lambda>_.
              bind (on_cache (dc_discard (rn_cache env) k)) (\<lambda>_. raise e)))) (\<lambda>delivering.
            send_delivery env (t_task_id delivering) reply)) s"
proof -
  have q: "quiet (rn_delivering env)" using assms(1) by (simp add: calm_run_def)
  have ok: "store_ok (sv_store s)" using assms(2) by (simp add: holds_def)
  show ?thesis unfolding wp_bind wp_try_catch
  proof (rule wp_move [OF ok assms(3) q])
    show "failure_fits DELIVERING (next_failure cur DELIVERING None)"
      by (rule failure_carries [OF stored_get(3) [OF ok assms(3)]]) (simp_all add: assms(4) ACTIVE_STATES_def)
    fix r s' assume u: "updated_to k r s s'" "t_state r = DELIVERING"
    have "holds k (in_states {DELIVERING}) s'"
      by (rule updated_holds [OF u(1)]) (simp_all add: u(2) in_states_def ACTIVE_STATES_def)
    from ends_runs [OF send_ends [OF assms(1) this]] u(1)
    show "runs k (send_delivery env (t_task_id r) reply) s'" by (simp add: updated_to_def)
  qed (simp_all add: assms(4) can_transition_def ACTIVE_STATES_def)
qed

lemma prepare_runs:
  assumes "calm_run k env" and "holds k (in_states {RUNNING, STOPPING}) s"
  shows "runs k (prepare_delivery env k reply) s"
proof -
  let ?I = "holds k (in_states {RUNNING, STOPPING})"
  have h: "\<And>r t. harmless k (snd (rn_prepare env r t))" using assms(1) by (simp add: calm_run_def)
  note err = holds_undelivered [where S = "{RUNNING, STOPPING}"]
  note stop = ends_runs [OF stop_run_ends [OF assms(1)]]
  let ?after = "\<lambda>prepared. bind (on_cache (dc_put (rn_cache env) k prepared)) (\<lambda>_.
      bind (store_get k) (\<lambda>current.
      if t_state current = STOPPING then
        bind (on_cache (dc_discard (rn_cache env) k)) (\<lambda>_. stop_run env current)
      else
        bind (on_cache (dc_consume (rn_cache env) k)) (\<lambda>leased.
        case leased of
          None \<Rightarrow> raise AgentWorkspaceOrAttachmentError
        | Some lease_reply \<Rightarrow>
            bind (try_catch (move_task (rn_delivering env) current DELIVERING None) (\<lambda>e.
              bind (on_cache (dc_restore (rn_cache env) k lease_reply)) (\<lambda>_.
              bind (on_cache (dc_discard (rn_cache env) k)) (\<lambda>_. raise e)))) (\<lambda>delivering.
            send_delivery env (t_task_id delivering) lease_reply))))"
  have put: "runs k (?after prepared) s'"
    if I: "?I s'" for s' prepared
    unfolding wp_bind [of "on_cache (dc_put (rn_cache env) k prepared)"] wp_bind [of "store_get k"]
  proof (rule wp_on_cache [OF store_only_intros(1) I], goal_cases)
    case (1 x s')
    show ?case
    proof (rule wp_store_get [OF 1], goal_cases)
      case (1 cur)
      let ?at = "holds k (\<lambda>r. r = cur)"
      have at: "?at s'" using \<open>?I s'\<close> 1(2) by (auto simp: holds_def)
      have rs: "?I t" if "?at t" for t using that 1(1) by (auto elim: holds_weaken)
      have found: "map_of (ts_tasks (sv_store t)) k = Some cur" if "?at t" for t using that by (auto simp: holds_def)
      show ?case
      proof (cases "t_state cur = STOPPING")
        case True
        have "wp (on_cache (dc_discard (rn_cache env) k)) (\<lambda>_. runs k (stop_run env cur))
            (unless_cancelled (undelivered k)) s'"
          by (rule wp_on_cache [OF store_only_intros(1) at]) (auto intro: err rs stop [OF _ found True])
        then show ?thesis using True by (simp add: wp_bind)
      next
        case False
        then have r: "t_state cur = RUNNING" using 1(1) by (auto simp: in_states_def)
        show ?thesis unfolding if_not_P [OF False] wp_bind [of "on_cache (dc_consume (rn_cache env) k)"]
          by (rule wp_on_cache [OF store_only_intros(1) at])
            (auto simp: wp_basic split: option.split intro: err [OF rs] lease_runs [OF assms(1) rs found r])
      qed
    qed
  qed (auto intro: err)
  show ?thesis unfolding prepare_delivery_def wp_bind
  proof (rule wp_store_get [OF assms(2)], goal_cases)
    case (1 cur)
    show ?case
    proof (cases "t_state cur = STOPPING")
      case True
      with stop [OF assms(2) 1(2) True] show ?thesis by simp
    next
      case False
      then have r: "t_state cur = RUNNING" using 1(1) by (auto simp: in_states_def)
      have "wp (awaiting (rn_prepare env cur reply)) (\<lambda>prepared. runs k (?after prepared))
          (unless_cancelled (undelivered k)) s"
        by (rule wp_awaiting [OF stable_RUNNING h assms(2)]) (auto intro: err put)
      then show ?thesis using r by (simp add: wp_bind)
    qed
  qed
qed

text \<open>Attaching the card changes no state.\<close>

lemma attach_keeps:
  assumes "\<And>i. quiet (envs i)" and "holds k (in_states S) s" and "S \<subseteq> set ACTIVE_STATES"
  shows "wp (set_card_id envs xs k m) (\<lambda>_. holds k (in_states S)) (\<lambda>_. holds k (in_states S)) s"
proof (induction xs)
  case Nil
  then show ?case using wp_store_get [OF assms(2)] assms(2) by simp
next
  case (Cons i rest)
  have ok: "store_ok (sv_store s)" using assms(2) by (simp add: holds_def)
  obtain ts where ts: "as_timestamp (se_now (envs i)) = Inr ts" using assms(1) [of i] by (auto simp: quiet_def)
  note stamped = as_timestamp_text [OF ts] timestamp_text_utc(1) [OF as_timestamp_text(2) [OF ts]]
  let ?update = "\<lambda>r. and_then (as_timestamp (se_now (envs i))) (\<lambda>ts.
        make_task_record (r\<lparr>t_card_message_id := Some m, t_updated_at := ts\<rparr>))"
  let ?J = "holds k (in_states S)"
  have persist: "wp (persist_update (envs i) cur ?update) (\<lambda>_. ?J) (\<lambda>e. wp (h e) (\<lambda>_. ?J) (\<lambda>_. ?J)) s"
    if cur: "in_states S cur" "map_of (ts_tasks (sv_store s)) k = Some cur" "storable cur"
      and h: "\<And>e. wp (h e) (\<lambda>_. ?J) (\<lambda>_. ?J) s" for cur h
  proof (cases "?update cur")
    case (Inl e)
    then show ?thesis using h [of e] by (simp add: persist_update_def wp_bind wp_basic)
  next
    case (Inr cand)
    then have c: "cand = cur\<lparr>t_card_message_id := Some m, t_updated_at := ts\<rparr>" "task_progress_ok cand" "task_identity_ok cand"
      using ts by (auto simp: make_task_record_Inr)
    have sc: "storable cand" using c cur(3) stamped(3) by (simp add: storable_def valid_task_iff)
    have v: "validate_update cur cand = Inr ()"
      using c(1) cur(1) assms(3) by (auto simp: validate_update_Inr immutable_fields_def attempt_after_transition_def
          in_states_def ACTIVE_STATES_def Let_def)
    show ?thesis
    proof (rule wp_persist [OF ok cur(2) assms(1) _ sc v], goal_cases)
      case (3 s')
      show ?case by (rule updated_holds [OF 3]) (use c(1) cur(1) assms(3) in \<open>auto simp: in_states_def\<close>)
    qed (use c(1) Inr in simp_all)
  qed
  show ?case unfolding set_card_id.simps wp_bind
  proof (rule wp_store_get [OF assms(2)], goal_cases)
    case (1 cur)
    have "wp (case e of TaskRevisionConflict _ \<Rightarrow> set_card_id envs rest k m | _ \<Rightarrow> raise e) (\<lambda>_. ?J) (\<lambda>_. ?J) s" for e
      using Cons.IH assms(2) by (simp add: wp_basic split: exn.split)
    from persist [OF 1(1,2,4) this] assms(2) show ?case by (simp add: wp_try_catch wp_basic)
  qed
qed

lemma card_keeps:
  fixes s :: "'c service_state"
  assumes "calm_run k env" and "holds k (in_states S) s" and "S \<subseteq> set ACTIVE_STATES"
    and "S \<inter> {RECOVERING, STARTING, RUNNING} \<noteq> {} \<Longrightarrow> STOPPING \<in> S"
  shows "wp (create_task_card env k) (\<lambda>_. holds k (in_states S)) (unless_cancelled (holds k (in_states S))) s"
proof -
  let ?J = "holds k (in_states S) :: 'c service_state \<Rightarrow> bool"
  let ?E = "unless_cancelled ?J"
  have e: "\<And>i. quiet (rn_card_store env i)" "\<And>i. calm_rendering k (rn_render env i)" "harmless k (snd (rn_create_card env))"
    using assms(1) by (simp_all add: calm_run_def)
  have st: "stable k ?J" by (rule stable_in_states [OF assms(3,4)])
  have rest: "wp (set_card_id (rn_card_store env) [0..<4] k m) (\<lambda>r. wp (render (rn_render env 0) r) (\<lambda>_. ?J) ?E)
      ?E s'" if "?J s'" for s' m
  proof (rule wp_mono [OF attach_keeps [OF e(1) that assms(3)]])
    fix r and t :: "'c service_state" assume "?J t"
    then show "wp (render (rn_render env 0) r) (\<lambda>_. ?J) ?E t" by (rule wp_render [OF st e(2)])
  qed (simp add: unless_cancelled_def)
  show ?thesis unfolding create_task_card_def wp_bind
  proof (rule wp_store_get [OF assms(2)], goal_cases)
    case (1 cur)
    have "wp (awaiting (rn_create_card env)) (\<lambda>card. wp (case card of None \<Rightarrow> return ()
        | Some card_id \<Rightarrow> bind (set_card_id (rn_card_store env) [0..<4] k card_id) (render (rn_render env 0)))
        (\<lambda>_. ?J) ?E) (\<lambda>e. wp (if is_exception e then return None else raise e) (\<lambda>card. wp (case card of None \<Rightarrow> return ()
        | Some card_id \<Rightarrow> bind (set_card_id (rn_card_store env) [0..<4] k card_id) (render (rn_render env 0)))
        (\<lambda>_. ?J) ?E) ?E) s"
      by (rule wp_awaiting [OF st e(3) assms(2)])
        (auto simp: wp_basic wp_bind rest unless_cancelled_def is_exception_def split: option.split)
    then show ?case using assms(2) by (simp add: wp_basic wp_bind wp_try_catch)
  qed
qed

definition ready :: "run_spec \<Rightarrow> task_state set" where
  "ready spec = {if rs_recovering spec then RECOVERING else STARTING, STOPPING}"

lemma ready_states:
  "ready spec \<subseteq> set ACTIVE_STATES" "ready spec \<inter> {RECOVERING, STARTING, RUNNING} \<noteq> {} \<Longrightarrow> STOPPING \<in> ready spec"
  "ready spec \<subseteq> RAN" "{STARTING, STOPPING} \<subseteq> RAN"
  by (simp_all add: ready_def ACTIVE_STATES_def)

lemma starting_runs:
  fixes s :: "'c service_state"
  assumes "calm_run k env" and "holds k (in_states (ready spec)) s"
    and "\<And>s'. settled k s' \<Longrightarrow> Q None s'"
    and "\<And>r s'. holds k (in_states {STARTING, STOPPING}) s' \<Longrightarrow> map_of (ts_tasks (sv_store s')) k = Some r \<Longrightarrow> Q (Some r) s'"
  shows "wp (starting_task env k spec) Q (unless_cancelled (undelivered k)) s"
proof (cases "rs_recovering spec")
  case False
  then have I: "holds k (in_states {STARTING, STOPPING}) s" using assms(2) by (simp add: ready_def)
  show ?thesis unfolding starting_task_def if_not_P [OF False] wp_bind wp_basic
    by (rule wp_store_get [OF I]) (rule assms(4) [OF I])
next
  case True
  let ?I = "holds k (in_states {RECOVERING, STOPPING}) :: 'c service_state \<Rightarrow> bool"
  have I: "?I s" using assms(2) True by (simp add: ready_def)
  have q: "quiet (rn_starting env)" "harmless k (snd (rn_start env))" using assms(1) by (simp_all add: calm_run_def)
  have st: "stable k ?I" by (rule stable_in_states) (simp_all add: ACTIVE_STATES_def)
  note err = holds_undelivered [where S = "{RECOVERING, STOPPING}"]
  show ?thesis unfolding starting_task_def if_P [OF True] wp_bind
  proof (rule wp_awaiting [OF st q(2) I], goal_cases)
    case (1 x s')
    then have ok: "store_ok (sv_store s')" by (simp add: holds_def)
    show ?case
    proof (rule wp_store_get [OF 1(2)], goal_cases)
      case (1 cur)
      show ?case
      proof (cases "t_state cur = STOPPING")
        case True
        have "wp (stop_run env cur) (\<lambda>_. Q None) (unless_cancelled (undelivered k)) s'"
          by (rule wp_mono [OF stop_run_ends [OF assms(1) \<open>?I s'\<close> 1(2) True]])
            (auto simp: assms(3) unless_cancelled_def undelivered_def)
        then show ?thesis using True by (simp add: wp_bind wp_basic)
      next
        case False
        then have r: "t_state cur = RECOVERING" using 1(1) by (simp add: in_states_def)
        have "wp (move_task (rn_starting env) cur STARTING None) (\<lambda>r. Q (Some r)) (unless_cancelled (undelivered k)) s'"
        proof (rule wp_move [OF ok 1(2) q(1)])
          show "failure_fits STARTING (next_failure cur STARTING None)"
            by (rule failure_carries [OF 1(4)]) (simp_all add: r ACTIVE_STATES_def)
          fix r t assume u: "updated_to k r s' t" "t_state r = STARTING"
          have "holds k (in_states {STARTING, STOPPING}) t"
            by (rule updated_holds [OF u(1)]) (simp_all add: u(2) in_states_def ACTIVE_STATES_def)
          moreover have "map_of (ts_tasks (sv_store t)) k = Some r"
            using u by (simp add: updated_to_def ACTIVE_STATES_def)
          ultimately show "Q (Some r) t" by (rule assms(4))
        qed (simp_all add: r can_transition_def ACTIVE_STATES_def)
        then show ?thesis using r by (simp add: wp_bind wp_basic)
      qed
    qed
  qed (auto intro: err)
qed

text \<open>The agent is asked once the task is running.\<close>

lemma asking_runs:
  fixes s :: "'c service_state"
  assumes "calm_run k env" and "holds k (in_states {RUNNING, STOPPING}) s"
  shows "runs k (bind (render (rn_render env 1) running) (\<lambda>_.
          bind (awaiting (rn_resolver env running)) (\<lambda>resolved.
          bind (from_result (resolve_execution_context (Inr resolved) running (rs_require_existing_session spec))) (\<lambda>execution.
          bind (awaiting (rn_ask env (rs_prompt spec) running execution)) (\<lambda>reply.
          prepare_delivery env k reply))))) s"
proof -
  let ?I = "holds k (in_states {RUNNING, STOPPING}) :: 'c service_state \<Rightarrow> bool"
  let ?E = "unless_cancelled (undelivered k)"
  have h: "\<And>i. calm_rendering k (rn_render env i)" "\<And>r. harmless k (snd (rn_resolver env r))"
    "\<And>p r c. harmless k (snd (rn_ask env p r c))" using assms(1) by (simp_all add: calm_run_def)
  note err = holds_undelivered [where S = "{RUNNING, STOPPING}"]
  have ask: "wp (awaiting (rn_ask env (rs_prompt spec) running execution)) (\<lambda>reply. runs k (prepare_delivery env k reply)) ?E t"
    if "?I t" for t execution
    by (rule wp_awaiting [OF stable_RUNNING h(3) that]) (auto intro: err prepare_runs [OF assms(1)])
  have resolve: "wp (awaiting (rn_resolver env running)) (\<lambda>resolved. runs k
      (bind (from_result (resolve_execution_context (Inr resolved) running (rs_require_existing_session spec))) (\<lambda>execution.
          bind (awaiting (rn_ask env (rs_prompt spec) running execution)) (\<lambda>reply.
          prepare_delivery env k reply)))) ?E t" if "?I t" for t
    by (rule wp_awaiting [OF stable_RUNNING h(2) that])
      (auto simp: wp_basic(4) wp_bind split: sum.split intro: err ask)
  show ?thesis unfolding wp_bind [of "render (rn_render env 1) running"] wp_bind [of "awaiting (rn_resolver env running)"]
    by (rule wp_mono [OF wp_render [OF stable_RUNNING h(1) assms(2)]]) (rule resolve, assumption, erule unless_undelivered, simp)
qed

lemma body_runs:
  fixes s :: "'c service_state"
  assumes "calm_run k env" and "holds k (in_states (ready spec)) s"
  shows "runs k (run_body env k spec) s"
proof -
  let ?I = "holds k (in_states (ready spec)) :: 'c service_state \<Rightarrow> bool"
  let ?E = "unless_cancelled (undelivered k)"
  let ?rest = "\<lambda>found. case found of
      None \<Rightarrow> return ()
    | Some current \<Rightarrow>
        if t_state current = STOPPING then stop_run env current
        else if t_state current \<noteq> STARTING then return ()
        else
          bind (move_task (rn_running env) current RUNNING None) (\<lambda>running.
          bind (render (rn_render env 1) running) (\<lambda>_.
          bind (awaiting (rn_resolver env running)) (\<lambda>resolved.
          bind (from_result (resolve_execution_context (Inr resolved) running (rs_require_existing_session spec))) (\<lambda>execution.
          bind (awaiting (rn_ask env (rs_prompt spec) running execution)) (\<lambda>reply.
          prepare_delivery env k reply)))))"
  have q: "quiet (rn_running env)" using assms(1) by (simp add: calm_run_def)
  have start: "wp (starting_task env k spec) (\<lambda>found. runs k (?rest found)) ?E t" if I: "?I t" for t
  proof (rule starting_runs [OF assms(1) I], goal_cases)
    case (1 t)
    then show ?case by (simp add: wp_basic)
  next
    case (2 r t)
    have ok: "store_ok (sv_store t)" using 2(1) by (simp add: holds_def)
    show ?case
    proof (cases "t_state r = STOPPING")
      case True
      with ends_runs [OF stop_run_ends [OF assms(1) 2 True]] show ?thesis by simp
    next
      case False
      then have r: "t_state r = STARTING" using 2 by (auto simp: holds_def in_states_def)
      have "wp (move_task (rn_running env) r RUNNING None) (\<lambda>running. runs k
         (bind (render (rn_render env 1) running) (\<lambda>_.
          bind (awaiting (rn_resolver env running)) (\<lambda>resolved.
          bind (from_result (resolve_execution_context (Inr resolved) running (rs_require_existing_session spec))) (\<lambda>execution.
          bind (awaiting (rn_ask env (rs_prompt spec) running execution)) (\<lambda>reply.
          prepare_delivery env k reply)))))) ?E t"
      proof (rule wp_move [OF ok 2(2) q])
        show "failure_fits RUNNING (next_failure r RUNNING None)"
          by (rule failure_carries [OF stored_get(3) [OF ok 2(2)]]) (simp_all add: r ACTIVE_STATES_def)
        fix x t' assume u: "updated_to k x t t'" "t_state x = RUNNING"
        have "holds k (in_states {RUNNING, STOPPING}) t'"
          by (rule updated_holds [OF u(1)]) (simp_all add: u(2) in_states_def ACTIVE_STATES_def)
        then show "runs k (bind (render (rn_render env 1) x) (\<lambda>_.
          bind (awaiting (rn_resolver env x)) (\<lambda>resolved.
          bind (from_result (resolve_execution_context (Inr resolved) x (rs_require_existing_session spec))) (\<lambda>execution.
          bind (awaiting (rn_ask env (rs_prompt spec) x execution)) (\<lambda>reply.
          prepare_delivery env k reply))))) t'" by (rule asking_runs [OF assms(1)])
      qed (simp_all add: r can_transition_def ACTIVE_STATES_def)
      then show ?thesis using r by (simp add: wp_bind [of "move_task (rn_running env) r RUNNING None"])
    qed
  qed
  have card: "wp (if rs_create_card spec then create_task_card env k else return ()) (\<lambda>_. ?I) ?E s"
  proof (cases "rs_create_card spec")
    case True
    then show ?thesis unfolding if_P [OF True]
      by (intro wp_mono [OF card_keeps [OF assms ready_states(1,2)]]) (auto intro: unless_undelivered [OF _ ready_states(3)])
  qed (simp add: wp_basic assms(2))
  show ?thesis unfolding run_body_def
      wp_bind [of "if rs_create_card spec then create_task_card env k else return ()"] wp_bind [of "starting_task env k spec"]
    by (rule wp_mono [OF card]) (simp_all add: start)
qed

lemma store_only_unless: "store_only (unless_cancelled (settled k) e)"
  by (auto simp: store_only_def unless_cancelled_def settled_def)

lemma wp_cleanup:
  assumes "store_only I" and "I s"
  shows "wp (suppressed (release c a)) (\<lambda>_. I) (unless_cancelled J) s"
  using store_onlyD [OF assms]
  by (auto simp: release_def wp_suppressed wp_bind wp_basic unless_cancelled_def is_exception_def split: sum.split)

lemma runner_ends:
  fixes s :: "'c service_state"
  assumes "calm_run k env" and "holds k (in_states (ready spec)) s"
  shows "ends k (agent_runner env k spec) s"
proof -
  have f: "calm_failure k (rn_failure env)" using assms(1) by (simp add: calm_run_def)
  let ?S = "settled k :: 'c service_state \<Rightarrow> bool"
  have "wp (try_catch (run_body env k spec)
      (\<lambda>e. if is_exception e then record_agent_failure (rn_failure env) k e else raise e)) (\<lambda>_. ?S) (unless_cancelled ?S) s"
    unfolding wp_try_catch
  proof (rule wp_mono [OF body_runs [OF assms]])
    fix e and t :: "'c service_state" assume "unless_cancelled (undelivered k) e t"
    then show "wp (if is_exception e then record_agent_failure (rn_failure env) k e else raise e)
        (\<lambda>_. ?S) (unless_cancelled ?S) t"
      using failure_ends [OF f, of t e]
      by (auto simp: unless_cancelled_def undelivered_def is_exception_def wp_basic)
  qed
  then show ?thesis unfolding agent_runner_def wp_ensuring
  proof (rule wp_mono)
    fix e and t :: "'c service_state" assume "unless_cancelled ?S e t"
    then show "wp (suppressed (release (rn_cleanup env) (rs_attachments spec))) (\<lambda>_. unless_cancelled ?S e)
        (unless_cancelled ?S) t"
      by (rule wp_cleanup [OF store_only_unless])
  qed (rule wp_cleanup [OF store_only_intros(2)])
qed

text \<open>
  C2. Every run settles: whatever the agent, Discord and the other coroutines do (of which only a stop may
  change the task), when the store can be written, no rendering changes the task and Discord numbers its
  messages positively, a run that is not cancelled ends with the task in a state that is not active, or
  with no record of the task, and with no runner left for it.
\<close>

theorem every_run_settles:
  assumes "calm_run k env" and "holds k (in_states (ready spec)) s"
    and "run_job env k (Run_Agent spec) s = (r, s')" and "r \<noteq> Inl CancelledError"
  shows "settled k s' \<and> k \<notin> fst ` set (sv_runners s')"
proof -
  let ?no = "\<lambda>t. k \<notin> fst ` set (sv_runners t)"
  have final: "wp (runner_done k) (\<lambda>_ t. I t \<and> ?no t) E t" if "store_only I" "I t" for I E t
    using store_onlyD [OF that] by (auto simp: runner_done_def wp_basic)
  have "wp (run_job env k (Run_Agent spec)) (\<lambda>_ t. settled k t \<and> ?no t) (\<lambda>e t. unless_cancelled (settled k) e t \<and> ?no t) s"
    unfolding run_job_def wp_ensuring job.case
    by (rule wp_mono [OF runner_ends [OF assms(1,2)]]) (rule final [OF store_only_intros(2)] final [OF store_only_unless], assumption)+
  then show ?thesis unfolding wp_outcome [where m = "run_job env k (Run_Agent spec)", OF assms(3)] using assms(4)
    by (auto simp: unless_cancelled_def split: sum.splits)
qed


definition example_failure_env :: "unit failure_env" where
  "example_failure_env = \<lparr>fe_stop = example_env, fe_fail = example_env, fe_enrich = example_env,
     fe_capabilities = (Inr \<lparr>cb_steering = False, cb_resumable = True, cb_persisted_session = True, cb_active_turn = False\<rparr>, id),
     fe_render = \<lparr>rd_lock = (Inr (), id), rd_card = (Inl DiscordForbidden, id)\<rparr>\<rparr>"

definition example_run :: "unit run_env" where
  "example_run = \<lparr>rn_create_card = (Inr None, id), rn_card_store = (\<lambda>_. example_env), rn_start = (Inr (), id),
     rn_starting = example_env, rn_running = example_env,
     rn_resolver = (\<lambda>_. (Inl AgentRuntimeDisconnected, id)), rn_ask = (\<lambda>_ _ _. (Inl AgentTurnTimedOut, id)),
     rn_prepare = (\<lambda>_ _. (Inl AgentWorkspaceOrAttachmentError, id)),
     rn_cache = \<lparr>dc_put = (\<lambda>_ _ c. (Inr (), c)), dc_consume = (\<lambda>_ c. (Inr None, c)),
       dc_restore = (\<lambda>_ _ c. (Inr (), c)), dc_discard = (\<lambda>_ c. (Inr (), c))\<rparr>,
     rn_delivering = example_env, rn_lease = \<lparr>lc_result = Inr (), lc_closed = True\<rparr>, rn_deliver = (Inr 7, id),
     rn_completed = example_env, rn_delivery_failed = example_env, rn_stop = example_env,
     rn_failure = example_failure_env,
     rn_render = (\<lambda>_. \<lparr>rd_lock = (Inr (), id), rd_card = (Inl DiscordForbidden, id)\<rparr>), rn_cleanup = Inl OSError\<rparr>"

definition example_service :: "unit service_state" where
  "example_service = \<lparr>sv_store = example_store, sv_cache = (), sv_leases = [], sv_interactions = [],
     sv_triggers = [], sv_runners = [], sv_runners_closed = False, sv_closed = False,
     sv_close_complete = False, sv_interrupts = [], sv_released = []\<rparr>"

definition example_spec :: run_spec where
  "example_spec = \<lparr>rs_prompt = ''hello'', rs_source_message_id = None, rs_attachments = no_attachments,
     rs_origin_context = None, rs_recovering = False, rs_create_card = True, rs_require_existing_session = False\<rparr>"

lemma example_run_calm: "calm_run k example_run"
proof -
  have "se_faults example_env = [] \<and> \<not> isl (as_timestamp (se_now example_env))
      \<and> (case as_utc (se_commit_now example_env) of Inl _ \<Rightarrow> False | Inr u \<Rightarrow> dt_in_range (instant u - RETENTION_US))"
    by code_simp
  then have q: "quiet example_env" by (auto simp: quiet_def isl_def split: sum.splits) (metis sumE)
  have h: "harmless k id" by (auto simp: harmless_def stop_only_def)
  show ?thesis using q h by (simp add: calm_run_def calm_failure_def calm_rendering_def example_run_def example_failure_env_def)
qed

lemma example_run_eval:
  "case run_job example_run (t_task_id example_task) (Run_Agent example_spec) example_service of (r, s) \<Rightarrow>
     r = Inr () \<and> map_option t_state (map_of (ts_tasks (sv_store s)) (t_task_id example_task)) = Some INTERRUPTED"
  by code_simp

theorem every_run_settles_witness:
  "\<exists>s. run_job example_run (t_task_id example_task) (Run_Agent example_spec) example_service = (Inr (), s)
     \<and> settled (t_task_id example_task) s
     \<and> map_option t_state (map_of (ts_tasks (sv_store s)) (t_task_id example_task)) = Some INTERRUPTED"
proof -
  obtain r s where s: "run_job example_run (t_task_id example_task) (Run_Agent example_spec) example_service = (r, s)"
    by fastforce
  with example_run_eval have e: "r = Inr ()"
    "map_option t_state (map_of (ts_tasks (sv_store s)) (t_task_id example_task)) = Some INTERRUPTED" by simp_all
  have "t_state example_task = STARTING" by (simp add: example_task_def)
  then have "holds (t_task_id example_task) (in_states (ready example_spec)) example_service"
    using example_store_ok by (simp add: holds_def example_service_def example_store_eval(2) in_states_def ready_def
      example_spec_def)
  from every_run_settles [OF example_run_calm this s] s e show ?thesis by simp
qed

end
