(* ===== verification/TaskServiceInv.thy ===== *)
theory TaskServiceInv
  imports TaskService TaskRuntimeProps
begin

text \<open>
  The invariant of the service: whatever is started, done with a task, run, reconciled or closed, in
  whatever order and with whatever failures, the store stays good and no task has two runners. Every
  operation is a program, so each gets one rule for its weakest precondition, collected in \<open>kept\<close>.
\<close>

section \<open>The invariant\<close>

definition service_ok :: "'c service_state \<Rightarrow> bool" where
  "service_ok s \<longleftrightarrow> store_ok (sv_store s) \<and> distinct (map fst (sv_runners s))"

text \<open>What the other coroutines do while one waits keeps the invariant, since they are such operations
  themselves.\<close>

definition tame :: "('c, 'a) external \<Rightarrow> bool" where
  "tame a \<longleftrightarrow> (\<forall>s. service_ok s \<longrightarrow> service_ok (snd a s))"

named_theorems kept "rules for programs that keep the invariant of the service"

lemma service_ok_fields [simp]:
  "service_ok (s\<lparr>sv_cache := c\<rparr>) = service_ok s"
  "service_ok (s\<lparr>sv_leases := ls\<rparr>) = service_ok s"
  "service_ok (s\<lparr>sv_interactions := d\<rparr>) = service_ok s"
  "service_ok (s\<lparr>sv_triggers := d\<rparr>) = service_ok s"
  "service_ok (s\<lparr>sv_interrupts := is\<rparr>) = service_ok s"
  "service_ok (s\<lparr>sv_released := rs\<rparr>) = service_ok s"
  "service_ok (s\<lparr>sv_runners_closed := b\<rparr>) = service_ok s"
  "service_ok (s\<lparr>sv_closed := b\<rparr>) = service_ok s"
  "service_ok (s\<lparr>sv_close_complete := b\<rparr>) = service_ok s"
  by (simp_all add: service_ok_def)

section \<open>The basic operations\<close>

lemma kept_await [kept]:
  assumes "service_ok s" and "tame a"
    and "\<And>x s'. service_ok s' \<Longrightarrow> Q x s'" and "\<And>e s'. service_ok s' \<Longrightarrow> E e s'"
  shows "wp (awaiting a) Q E s"
  using assms by (simp add: wp_basic tame_def split: sum.split)

lemma kept_get [kept]:
  assumes "service_ok s" and "\<And>r. storable r \<Longrightarrow> Q r s" and "\<And>e. E e s"
  shows "wp (store_get k) Q E s"
proof (cases "get_task (sv_store s) k")
  case (Inr r)
  have ok: "store_ok (sv_store s)" using assms(1) by (simp add: service_ok_def)
  have "storable r" using stored_get(3) [OF ok] get_stored [OF ok Inr] by blast
  then show ?thesis using Inr assms(2) by (simp add: store_get_def wp_basic)
qed (simp add: store_get_def wp_basic assms(3))

lemma kept_cache [kept]:
  assumes "service_ok s" and "\<And>x s'. service_ok s' \<Longrightarrow> Q x s'" and "\<And>e s'. service_ok s' \<Longrightarrow> E e s'"
  shows "wp (on_cache m) Q E s"
  using assms by (auto simp: wp_def zoomed_def split: prod.split sum.split)

lemma kept_store [kept]:
  assumes "service_ok s" and "store_ok (snd (m (sv_store s)))"
    and "\<And>x s'. fst (m (sv_store s)) = Inr x \<Longrightarrow> service_ok s' \<Longrightarrow> Q x s'" and "\<And>e s'. service_ok s' \<Longrightarrow> E e s'"
  shows "wp (on_store m) Q E s"
proof -
  have "service_ok (s\<lparr>sv_store := snd (m (sv_store s))\<rparr>)" using assms(1,2) by (simp add: service_ok_def)
  then show ?thesis using assms(3,4) by (auto simp: wp_def zoomed_def split: prod.split sum.split)
qed

lemma kept_persist:
  assumes "service_ok s" and "\<And>cand. update cur = Inr cand \<Longrightarrow> storable cand"
    and "\<And>r s'. storable r \<Longrightarrow> service_ok s' \<Longrightarrow> Q r s'" and "\<And>e s'. service_ok s' \<Longrightarrow> E e s'"
  shows "wp (persist_update env cur update) Q E s"
proof (cases "update cur")
  case (Inl e)
  then show ?thesis using assms(1,4) by (simp add: persist_update_def wp_bind wp_basic)
next
  case (Inr cand)
  have c: "storable cand" using assms(2) Inr by blast
  let ?m = "\<lambda>st. compare_and_set env st (t_task_id cur) (t_revision cur) (\<lambda>_. Inr cand)"
  have ok: "store_ok (sv_store s)" using assms(1) by (simp add: service_ok_def)
  have r: "storable r" if f: "fst (?m (sv_store s)) = Inr r" for r
  proof -
    obtain st' where ct: "commit_then env (sv_store s) (update_checked (ts_tasks (sv_store s)) (t_task_id cur)
        (t_revision cur) (\<lambda>_. Inr cand)) = (Inr r, st')"
      using f unfolding compare_and_set_def by (metis prod.collapse)
    obtain tasks where "update_checked (ts_tasks (sv_store s)) (t_task_id cur) (t_revision cur) (\<lambda>_. Inr cand) = Inr (tasks, r)"
      using commit_then_outcome [OF ct] by blast
    then have "\<exists>n. r = cand\<lparr>t_revision := n\<rparr> \<and> task_progress_ok r"
      by (auto simp: update_checked_def and_then_eq_Inr make_task_record_Inr split: prod.splits)
    then show ?thesis using c by (auto simp: storable_def valid_task_iff)
  qed
  have "store_ok (snd (?m (sv_store s)))"
    by (rule compare_and_set_ok [OF ok]) (simp add: update_storable_def c)
  then show ?thesis unfolding persist_update_def wp_bind wp_basic Inr sum.case
    using assms(1,3,4) r by (auto intro!: kept_store)
qed

lemma transition_storable:
  assumes "storable r" and "as_timestamp now = Inr ts" and "transition r target ts fo = Inr r'"
    and "\<forall>f \<in> set_option fo. valid_failure f"
  shows "storable r'"
proof -
  have t: "r' = moved r target ts fo" "task_progress_ok r'" using assms(3) by (simp_all add: transition_Inr)
  then have "failure_fits target (next_failure r target fo)" by (simp add: task_progress_ok_def)
  with moved_storable [OF assms(1,2) _ assms(4)] t(1) show ?thesis by simp
qed

lemma kept_move [kept]:
  assumes "service_ok s" and "storable cur" and "\<forall>f \<in> set_option fo. valid_failure f"
    and "\<And>r s'. storable r \<Longrightarrow> service_ok s' \<Longrightarrow> Q r s'" and "\<And>e s'. service_ok s' \<Longrightarrow> E e s'"
  shows "wp (move_task env cur target fo) Q E s"
  unfolding move_task_def
  by (rule kept_persist [OF assms(1) _ assms(4,5)])
    (auto simp: and_then_eq_Inr intro: transition_storable [OF assms(2) _ _ assms(3)])

lemma kept_release [kept]:
  assumes "service_ok s" and "\<And>s'. service_ok s' \<Longrightarrow> Q () s'" and "\<And>e s'. service_ok s' \<Longrightarrow> E e s'"
  shows "wp (release c a) Q E s"
  using assms by (simp add: release_def wp_bind wp_basic split: sum.split)

lemma kept_spawn [kept]:
  assumes "service_ok s" and "\<And>s'. service_ok s' \<Longrightarrow> Q () s'" and "\<And>e. E e s"
  shows "wp (spawn k job) Q E s"
proof -
  have "service_ok (s\<lparr>sv_runners := sv_runners s @ [(k, job)]\<rparr>)" if "k \<notin> fst ` set (sv_runners s)"
    using assms(1) that by (auto simp: service_ok_def)
  then show ?thesis using assms(2,3) by (simp add: spawn_def runners_ensure_open_def wp_bind wp_basic)
qed

lemma kept_open [kept]:
  assumes "service_ok s" and "Q () s" and "\<And>e. E e s"
  shows "wp runners_ensure_open Q E s" and "wp service_ensure_open Q E s"
  using assms by (simp_all add: runners_ensure_open_def service_ensure_open_def wp_basic)

lemma kept_runner_done [kept]:
  assumes "service_ok s" and "\<And>s'. service_ok s' \<Longrightarrow> Q () s'"
  shows "wp (runner_done k) Q E s"
proof -
  have "service_ok (s\<lparr>sv_runners := filter (\<lambda>(j, _). j \<noteq> k) (sv_runners s)\<rparr>)"
    using assms(1) by (auto simp: service_ok_def intro: distinct_map_filter)
  then show ?thesis using assms(2) by (simp add: runner_done_def wp_basic)
qed

lemma kept_resolve [kept]:
  assumes "service_ok s" and "\<And>s'. service_ok s' \<Longrightarrow> Q () s'"
  shows "wp (resolve_lease l b) Q E s"
  using assms by (simp add: resolve_lease_def wp_basic)

lemma kept_close_raise [kept]:
  assumes "service_ok s" and "\<And>e s'. service_ok s' \<Longrightarrow> E e s'"
  shows "wp (close_and_raise lc l e) Q E s"
  using assms by (auto simp: close_and_raise_def wp_bind wp_basic intro!: kept_resolve split: sum.split)

section \<open>Runs\<close>

definition tame_rendering :: "'c rendering \<Rightarrow> bool" where
  "tame_rendering rd \<longleftrightarrow> tame (rd_lock rd) \<and> tame (rd_card rd)"

definition tame_failure :: "'c failure_env \<Rightarrow> bool" where
  "tame_failure fe \<longleftrightarrow> tame (fe_capabilities fe) \<and> tame_rendering (fe_render fe)"

definition tame_run :: "'c run_env \<Rightarrow> bool" where
  "tame_run env \<longleftrightarrow> tame (rn_create_card env) \<and> tame (rn_start env) \<and> (\<forall>r. tame (rn_resolver env r))
     \<and> (\<forall>p r c. tame (rn_ask env p r c)) \<and> (\<forall>r t. tame (rn_prepare env r t)) \<and> tame (rn_deliver env)
     \<and> tame_failure (rn_failure env) \<and> (\<forall>i. tame_rendering (rn_render env i))"

lemma tameD:
  "tame_rendering rd \<Longrightarrow> tame (rd_lock rd)" "tame_rendering rd \<Longrightarrow> tame (rd_card rd)"
  "tame_failure fe \<Longrightarrow> tame (fe_capabilities fe)" "tame_failure fe \<Longrightarrow> tame_rendering (fe_render fe)"
  "tame_run env \<Longrightarrow> tame (rn_create_card env)" "tame_run env \<Longrightarrow> tame (rn_start env)"
  "tame_run env \<Longrightarrow> tame (rn_resolver env r)" "tame_run env \<Longrightarrow> tame (rn_ask env p r c)"
  "tame_run env \<Longrightarrow> tame (rn_prepare env r t)" "tame_run env \<Longrightarrow> tame (rn_deliver env)"
  "tame_run env \<Longrightarrow> tame_failure (rn_failure env)" "tame_run env \<Longrightarrow> tame_rendering (rn_render env i)"
  by (simp_all add: tame_rendering_def tame_failure_def tame_run_def)

lemmas wp_simps = wp_bind wp_try_catch wp_ensuring wp_ensuring_unless wp_suppressed wp_if wp_basic(1-5)

lemma kept_render [kept]:
  assumes "service_ok s" and "tame_rendering rd"
    and "\<And>s'. service_ok s' \<Longrightarrow> Q () s'" and "\<And>e s'. service_ok s' \<Longrightarrow> E e s'"
  shows "wp (render rd r) Q E s"
  unfolding render_def using assms by (auto simp: wp_simps intro!: kept tameD(1,2))

lemma kept_send_reply [kept]:
  assumes "service_ok s" and "tame deliver"
    and "\<And>x s'. service_ok s' \<Longrightarrow> Q x s'" and "\<And>e s'. service_ok s' \<Longrightarrow> E e s'"
  shows "wp (send_reply cache lc deliver r reply) Q E s"
  unfolding send_reply_def using assms by (auto simp: wp_simps split: option.split intro!: kept)

lemma kept_finish [kept]:
  assumes "service_ok s" and "storable r" and "tame_rendering rd"
    and "\<And>s'. service_ok s' \<Longrightarrow> Q () s'" and "\<And>e s'. service_ok s' \<Longrightarrow> E e s'"
  shows "wp (finish_stopping env rd r) Q E s"
  unfolding finish_stopping_def using assms by (auto simp: wp_simps intro!: kept)

lemma set_failure_storable:
  assumes "storable r" and "valid_failure f" and "set_failure env f r = Inr r'"
  shows "storable r'"
proof -
  obtain ts where ts: "as_timestamp (se_now env) = Inr ts" "r' = r\<lparr>t_failure := Some f, t_updated_at := ts\<rparr>"
    "task_progress_ok r'" using assms(3) by (auto simp: set_failure_def and_then_eq_Inr make_task_record_Inr)
  then show ?thesis using assms(1,2) timestamp_text_utc(1) [OF as_timestamp_text(2) [OF ts(1)]]
    by (simp add: storable_def valid_task_iff)
qed

lemma kept_set_failure [kept]:
  assumes "service_ok s" and "storable cur" and "valid_failure f"
    and "\<And>r s'. storable r \<Longrightarrow> service_ok s' \<Longrightarrow> Q r s'" and "\<And>e s'. service_ok s' \<Longrightarrow> E e s'"
  shows "wp (persist_update env cur (set_failure env' f)) Q E s"
  by (rule kept_persist [OF assms(1) _ assms(4,5)]) (rule set_failure_storable [OF assms(2,3)])

lemma claim_storable:
  "storable r \<Longrightarrow> claim_interruption r c = Inr r' \<Longrightarrow> storable r'"
  using claim_interruption_Inr [of r c] by (auto simp: storable_def valid_task_iff task_progress_ok_def split: if_splits)

lemma kept_fail [kept]:
  assumes "service_ok s" and "storable cur"
    and "\<And>r s'. storable r \<Longrightarrow> service_ok s' \<Longrightarrow> Q r s'" and "\<And>e s'. service_ok s' \<Longrightarrow> E e s'"
  shows "wp (persist_update env cur (fail_update env' target cause e)) Q E s"
proof (rule kept_persist [OF assms(1) _ assms(3,4)])
  fix cand assume "fail_update env' target cause e cur = Inr cand"
  then obtain c ts where c: "(case cause of None \<Rightarrow> Inr cur | Some c \<Rightarrow> claim_interruption cur c) = Inr c"
    "as_timestamp (se_now env') = Inr ts" "transition c target ts (Some (classify_agent_failure e False False)) = Inr cand"
    by (auto simp: fail_update_def and_then_eq_Inr)
  have "storable c" using c(1) assms(2) claim_storable [OF assms(2)] by (auto split: option.splits)
  then show "storable cand" by (rule transition_storable [OF _ c(2,3)]) (simp add: classified_valid)
qed

lemma kept_persist_failure [kept]:
  assumes "service_ok s" and "storable cur" and "tame_failure fe"
    and "\<And>r s'. pred_option storable r \<Longrightarrow> service_ok s' \<Longrightarrow> Q r s'" and "\<And>e s'. service_ok s' \<Longrightarrow> E e s'"
  shows "wp (persist_failure fe e k cur target cause) Q E s"
  unfolding persist_failure_def using assms
  by (auto simp: wp_simps split: exn.split intro!: kept tameD(4))

lemma kept_enrich [kept]:
  assumes "service_ok s" and "storable failed" and "tame_failure fe"
    and "\<And>r s'. storable r \<Longrightarrow> service_ok s' \<Longrightarrow> Q r s'" and "\<And>e s'. service_ok s' \<Longrightarrow> E e s'"
  shows "wp (enrich_failure fe e k failed) Q E s"
  unfolding enrich_failure_def using assms
  by (auto simp: wp_simps classified_valid split: option.split intro!: kept tameD(3))

lemma kept_record_failure [kept]:
  assumes "service_ok s" and "tame_failure fe"
    and "\<And>s'. service_ok s' \<Longrightarrow> Q () s'" and "\<And>e s'. service_ok s' \<Longrightarrow> E e s'"
  shows "wp (record_agent_failure fe k e) Q E s"
  unfolding record_agent_failure_def using assms
  by (auto simp: wp_simps split: option.split prod.split intro!: kept tameD(4))

lemma kept_set_card [kept]:
  assumes "service_ok s"
    and "\<And>r s'. storable r \<Longrightarrow> service_ok s' \<Longrightarrow> Q r s'" and "\<And>e s'. service_ok s' \<Longrightarrow> E e s'"
  shows "wp (set_card_id envs xs k m) Q E s"
  using assms(1)
proof (induction xs arbitrary: s)
  case Nil
  then show ?case using assms(2,3) by (auto intro!: kept_get)
next
  case (Cons i xs)
  have card: "storable cand" if st: "storable cur" and mk: "and_then (as_timestamp (se_now (envs i))) (\<lambda>ts.
      make_task_record (cur\<lparr>t_card_message_id := Some m, t_updated_at := ts\<rparr>)) = Inr cand" for cur cand
  proof -
    obtain ts where ts: "as_timestamp (se_now (envs i)) = Inr ts" "task_progress_ok cand"
      "cand = cur\<lparr>t_card_message_id := Some m, t_updated_at := ts\<rparr>"
      using mk by (auto simp: and_then_eq_Inr make_task_record_Inr)
    then show ?thesis using st timestamp_text_utc(1) [OF as_timestamp_text(2) [OF ts(1)]]
      by (simp add: storable_def valid_task_iff)
  qed
  show ?case unfolding set_card_id.simps wp_bind
  proof (rule kept_get [OF Cons.prems])
    fix cur :: task_record assume cur: "storable cur"
    show "wp (if t_card_message_id cur \<noteq> None then return cur
       else try_catch (persist_update (envs i) cur (\<lambda>r. and_then (as_timestamp (se_now (envs i))) (\<lambda>ts.
         make_task_record (r\<lparr>t_card_message_id := Some m, t_updated_at := ts\<rparr>))))
       (\<lambda>e. case e of TaskRevisionConflict _ \<Rightarrow> set_card_id envs xs k m | _ \<Rightarrow> raise e)) Q E s"
      using Cons cur assms(2,3) card [OF cur]
      by (auto simp: wp_simps split: exn.split intro!: kept_persist)
  qed (use Cons.prems assms(3) in simp)
qed

lemma kept_create_card [kept]:
  assumes "service_ok s" and "tame_run env"
    and "\<And>s'. service_ok s' \<Longrightarrow> Q () s'" and "\<And>e s'. service_ok s' \<Longrightarrow> E e s'"
  shows "wp (create_task_card env k) Q E s"
  unfolding create_task_card_def using assms
  by (auto simp: wp_simps split: option.split intro!: kept tameD(5,12))

lemma delivery_failure_valid: "\<forall>f \<in> set_option (Some (classify_delivery_failure d)). valid_failure f"
  by (simp add: classified_valid)

lemma kept_delivery_failed [kept]:
  assumes "service_ok s" and "tame_run env"
    and "\<And>s'. service_ok s' \<Longrightarrow> Q () s'" and "\<And>e s'. service_ok s' \<Longrightarrow> E e s'"
  shows "wp (delivery_failed env k d) Q E s"
  unfolding delivery_failed_def using assms
  by (auto simp: wp_simps classified_valid intro!: kept tameD(12))

lemma kept_completed [kept]:
  assumes "service_ok s" and "storable cur"
    and "\<And>r s'. storable r \<Longrightarrow> service_ok s' \<Longrightarrow> Q r s'" and "\<And>e s'. service_ok s' \<Longrightarrow> E e s'"
  shows "wp (persist_update env cur (\<lambda>r.
          and_then (make_task_record (r\<lparr>t_result_message_id := Some i\<rparr>)) (\<lambda>delivered.
          and_then (as_timestamp (se_now env')) (\<lambda>ts.
          transition delivered COMPLETED ts None)))) Q E s"
proof (rule kept_persist [OF assms(1) _ assms(3,4)])
  fix cand assume "and_then (make_task_record (cur\<lparr>t_result_message_id := Some i\<rparr>)) (\<lambda>delivered.
          and_then (as_timestamp (se_now env')) (\<lambda>ts. transition delivered COMPLETED ts None)) = Inr cand"
  then obtain ts where c: "task_progress_ok (cur\<lparr>t_result_message_id := Some i\<rparr>)" "as_timestamp (se_now env') = Inr ts"
    "transition (cur\<lparr>t_result_message_id := Some i\<rparr>) COMPLETED ts None = Inr cand"
    by (auto simp: and_then_eq_Inr make_task_record_Inr)
  have "storable (cur\<lparr>t_result_message_id := Some i\<rparr>)" using c(1) assms(2) by (simp add: storable_def valid_task_iff)
  then show "storable cand" by (rule transition_storable [OF _ c(2,3)]) simp
qed

lemma kept_send [kept]:
  assumes "service_ok s" and "tame_run env"
    and "\<And>s'. service_ok s' \<Longrightarrow> Q () s'" and "\<And>e s'. service_ok s' \<Longrightarrow> E e s'"
  shows "wp (send_delivery env k reply) Q E s"
  unfolding send_delivery_def using assms
  by (auto simp: wp_simps split: option.split exn.split intro!: kept tameD(10,12))

lemma kept_stop_run [kept]:
  assumes "service_ok s" and "storable r" and "tame_run env"
    and "\<And>s'. service_ok s' \<Longrightarrow> Q () s'" and "\<And>e s'. service_ok s' \<Longrightarrow> E e s'"
  shows "wp (stop_run env r) Q E s"
  unfolding stop_run_def using assms by (auto intro!: kept tameD(12))

lemma kept_prepare [kept]:
  assumes "service_ok s" and "tame_run env"
    and "\<And>s'. service_ok s' \<Longrightarrow> Q () s'" and "\<And>e s'. service_ok s' \<Longrightarrow> E e s'"
  shows "wp (prepare_delivery env k reply) Q E s"
  unfolding prepare_delivery_def using assms
  by (auto simp: wp_simps split: option.split intro!: kept tameD(9))

lemma kept_starting [kept]:
  assumes "service_ok s" and "tame_run env"
    and "\<And>r s'. pred_option storable r \<Longrightarrow> service_ok s' \<Longrightarrow> Q r s'" and "\<And>e s'. service_ok s' \<Longrightarrow> E e s'"
  shows "wp (starting_task env k spec) Q E s"
  unfolding starting_task_def using assms by (auto simp: wp_simps intro!: kept tameD(6))

lemma kept_body [kept]:
  assumes "service_ok s" and "tame_run env"
    and "\<And>s'. service_ok s' \<Longrightarrow> Q () s'" and "\<And>e s'. service_ok s' \<Longrightarrow> E e s'"
  shows "wp (run_body env k spec) Q E s"
  unfolding run_body_def using assms
  by (auto simp: wp_simps split: option.split sum.split intro!: kept tameD(7,8,12))

lemma kept_run [kept]:
  assumes "service_ok s" and "tame_run env"
    and "\<And>s'. service_ok s' \<Longrightarrow> Q () s'" and "\<And>e s'. service_ok s' \<Longrightarrow> E e s'"
  shows "wp (run_job env k job) Q E s"
  unfolding run_job_def agent_runner_def using assms
  by (auto simp: wp_simps split: job.split intro!: kept tameD(11))

section \<open>Start-up\<close>

definition tame_restart :: "'c restart_env \<Rightarrow> bool" where
  "tame_restart env \<longleftrightarrow> (\<forall>k. tame (re_capabilities env k) \<and> tame_rendering (re_render env k))"

lemma kept_enrich_restart [kept]:
  assumes "service_ok s" and "tame_restart env"
    and "\<And>r s'. storable r \<Longrightarrow> service_ok s' \<Longrightarrow> Q r s'" and "\<And>e s'. service_ok s' \<Longrightarrow> E e s'"
  shows "wp (enrich_restart env r) Q E s"
  unfolding enrich_restart_def using assms
  by (auto simp: Let_def wp_simps tame_restart_def classified_valid intro!: kept)

lemma kept_reconcile_changed [kept]:
  assumes "service_ok s" and "tame_restart env"
    and "\<And>r s'. service_ok s' \<Longrightarrow> Q r s'" and "\<And>e s'. service_ok s' \<Longrightarrow> E e s'"
  shows "wp (reconcile_changed env rs handled) Q E s"
  using assms(1)
proof (induction rs arbitrary: s handled)
  case (Cons r rs)
  then show ?case using assms(2-4) by (auto simp: wp_simps tame_restart_def intro!: kept)
qed (use assms in \<open>simp add: wp_basic\<close>)

lemma kept_reconcile [kept]:
  assumes "service_ok s" and "tame_restart env"
    and "\<And>r s'. service_ok s' \<Longrightarrow> Q r s'" and "\<And>e s'. service_ok s' \<Longrightarrow> E e s'"
  shows "wp (service_reconcile env) Q E s"
  unfolding service_reconcile_def reconcile_service_def using assms
  by (auto simp: wp_simps service_ok_def [of s] intro!: kept reconcile_startup_ok)

section \<open>Actions\<close>

definition tame_action :: "'c action_env \<Rightarrow> bool" where
  "tame_action env \<longleftrightarrow> tame (ae_capabilities env) \<and> tame (ae_steer env) \<and> tame (ae_interrupt env)
     \<and> tame (ae_idle env) \<and> (\<forall>k. tame_rendering (ae_render env k))"

lemma tame_actionD:
  "tame_action env \<Longrightarrow> tame (ae_capabilities env)" "tame_action env \<Longrightarrow> tame (ae_steer env)"
  "tame_action env \<Longrightarrow> tame (ae_interrupt env)" "tame_action env \<Longrightarrow> tame (ae_idle env)"
  "tame_action env \<Longrightarrow> tame_rendering (ae_render env k)"
  by (simp_all add: tame_action_def)

lemma kept_remember [kept]:
  assumes "service_ok s" and "\<And>s'. service_ok s' \<Longrightarrow> Q () s'"
  shows "wp (remember_interaction env i k) Q E s" and "wp (remember_trigger env i k) Q E s"
  using assms by (simp_all add: remember_interaction_def remember_trigger_def wp_basic)

lemma kept_status [kept]:
  assumes "service_ok s" and "\<And>r. storable r \<Longrightarrow> Q r s" and "\<And>e. E e s"
  shows "wp (status k access) Q E s"
  unfolding status_def using assms by (auto simp: wp_simps split: sum.split intro!: kept)

lemma kept_authorized [kept]:
  assumes "service_ok s" and "\<And>r. storable r \<Longrightarrow> Q r s" and "\<And>e. E e s"
  shows "wp (authorized k action access) Q E s"
  unfolding authorized_def using assms by (auto simp: wp_simps split: sum.split intro!: kept)

lemma kept_unless_handled [kept]:
  assumes "service_ok s" and "\<And>r. storable r \<Longrightarrow> Q (found r) s" and "\<And>e. E e s" and "wp m Q E s"
  shows "wp (unless_handled i found m) Q E s"
  unfolding unless_handled_def using assms by (auto simp: wp_simps split: option.split intro!: kept)

lemma kept_interrupt [kept]:
  assumes "service_ok s" and "tame_action env"
    and "\<And>s'. service_ok s' \<Longrightarrow> Q () s'" and "\<And>e s'. service_ok s' \<Longrightarrow> E e s'"
  shows "wp (interrupt env c) Q E s"
  unfolding interrupt_def using assms by (auto simp: wp_simps intro!: kept_await tame_actionD)

lemma kept_render_task [kept]:
  assumes "service_ok s" and "tame_action env"
    and "\<And>s'. service_ok s' \<Longrightarrow> Q () s'" and "\<And>e s'. service_ok s' \<Longrightarrow> E e s'"
  shows "wp (render_task env r) Q E s"
  unfolding render_task_def using assms by (auto intro!: kept_render tame_actionD)

lemma kept_idle [kept]:
  assumes "service_ok s" and "tame_action env"
    and "\<And>s'. service_ok s' \<Longrightarrow> Q () s'" and "\<And>e s'. service_ok s' \<Longrightarrow> E e s'"
  shows "wp (wait_idle (ae_idle env) k) Q E s"
proof -
  have "wp (bind (awaiting (ae_idle env)) (\<lambda>_. runners_ensure_open)) Q E s" "wp runners_ensure_open Q E s"
    using assms by (auto simp: wp_simps intro!: kept tame_actionD)
  then show ?thesis by (simp add: wait_idle_def wp_def)
qed

lemma kept_ask [kept]:
  assumes "service_ok s" and "tame answer"
    and "\<And>c s'. service_ok s' \<Longrightarrow> Q c s'" and "\<And>e s'. service_ok s' \<Longrightarrow> E e s'"
  shows "wp (ask_capabilities answer) Q E s"
  unfolding ask_capabilities_def using assms by (auto simp: wp_simps intro!: kept_await)

lemma kept_idle_session [kept]:
  assumes "service_ok s" and "tame answer"
    and "\<And>s'. service_ok s' \<Longrightarrow> Q () s'" and "\<And>e s'. service_ok s' \<Longrightarrow> E e s'"
  shows "wp (require_idle_saved_session answer) Q E s"
  unfolding require_idle_saved_session_def using assms by (auto simp: wp_simps intro!: kept_ask)

lemma kept_steer [kept]:
  assumes "service_ok s" and "tame_action env"
    and "\<And>r s'. service_ok s' \<Longrightarrow> Q r s'" and "\<And>e s'. service_ok s' \<Longrightarrow> E e s'"
  shows "wp (steer env k access q i) Q E s"
  unfolding steer_def steer_body_def using assms
  by (auto simp: wp_simps split: sum.split intro!: kept tame_actionD)

lemma kept_stopping [kept]:
  assumes "service_ok s" and "storable cur"
    and "\<And>r s'. storable r \<Longrightarrow> service_ok s' \<Longrightarrow> Q r s'" and "\<And>e s'. service_ok s' \<Longrightarrow> E e s'"
  shows "wp (persist_update env cur (stop_update env')) Q E s"
  by (rule kept_persist [OF assms(1) _ assms(3,4)])
    (auto simp: stop_update_def and_then_eq_Inr intro: transition_storable [OF claim_storable [OF assms(2)]])

lemma kept_moving [kept]:
  assumes "service_ok s" and "storable cur"
    and "\<And>r s'. storable r \<Longrightarrow> service_ok s' \<Longrightarrow> Q r s'" and "\<And>e s'. service_ok s' \<Longrightarrow> E e s'"
  shows "wp (persist_update env cur (move_to env' target)) Q E s"
  by (rule kept_persist [OF assms(1) _ assms(3,4)])
    (auto simp: move_to_def and_then_eq_Inr intro: transition_storable [OF assms(2)])

lemma kept_stop [kept]:
  assumes "service_ok s" and "tame_action env"
    and "\<And>r s'. service_ok s' \<Longrightarrow> Q r s'" and "\<And>e s'. service_ok s' \<Longrightarrow> E e s'"
  shows "wp (stop env k access i) Q E s"
  unfolding stop_def using assms by (auto simp: wp_simps split: exn.split intro!: kept)

lemma kept_retry_delivery [kept]:
  assumes "service_ok s" and "storable r" and "tame_action env"
    and "\<And>r s'. service_ok s' \<Longrightarrow> Q r s'" and "\<And>e s'. service_ok s' \<Longrightarrow> E e s'"
  shows "wp (retry_delivery env r i) Q E s"
  unfolding retry_delivery_def using assms
  by (auto simp: wp_simps classified_valid split: option.split intro!: kept)

lemma kept_recover [kept]:
  assumes "service_ok s" and "tame_action env"
    and "\<And>r s'. service_ok s' \<Longrightarrow> Q r s'" and "\<And>e s'. service_ok s' \<Longrightarrow> E e s'"
  shows "wp (recover env k access i) Q E s"
  unfolding recover_def using assms by (auto simp: wp_simps split: sum.split intro!: kept)

lemma kept_retry [kept]:
  assumes "service_ok s" and "tame_action env"
    and "\<And>r s'. service_ok s' \<Longrightarrow> Q r s'" and "\<And>e s'. service_ok s' \<Longrightarrow> E e s'"
  shows "wp (retry env k access i) Q E s"
  unfolding retry_def require_failure_def using assms
  by (auto simp: wp_simps split: sum.split intro!: kept tame_actionD)

lemma new_record_storable:
  assumes "new_record q k now parent = Inr r"
  shows "storable r" and "t_continued_to r = None" and "t_trigger_event_id r = rq_trigger_event_id q"
    and "t_state r = STARTING" and "t_execution_channel_id r = rq_execution_channel_id q"
proof -
  obtain ts where ts: "as_timestamp now = Inr ts" using assms by (auto simp: new_record_def and_then_eq_Inr)
  note t = timestamp_text_utc [OF as_timestamp_text(2) [OF ts]]
  have r: "make_task_record r = Inr r" "t_failure r = None" "t_created_at r = ts" "t_updated_at r = ts"
    and f: "t_continued_to r = None" "t_trigger_event_id r = rq_trigger_event_id q" "t_state r = STARTING"
      "t_execution_channel_id r = rq_execution_channel_id q"
    using assms ts by (auto simp: new_record_def make_task_record_Inr split: option.splits)
  then show "storable r" using t by (auto simp: storable_def valid_task_iff make_task_record_Inr)
  show "t_continued_to r = None" "t_trigger_event_id r = rq_trigger_event_id q" "t_state r = STARTING"
    "t_execution_channel_id r = rq_execution_channel_id q" using f by auto
qed

lemma kept_accept [kept]:
  assumes "service_ok s" and "tame_action env"
    and "\<And>r s'. service_ok s' \<Longrightarrow> Q r s'" and "\<And>e s'. service_ok s' \<Longrightarrow> E e s'"
  shows "wp (accept_continuation env k access q i) Q E s"
proof -
  have link: "store_ok (snd (link_child (ae_store env) (sv_store s) p n child))"
    if "service_ok s" "new_record q (ae_task_id env) (ae_now env) (Some parent) = Inr child" for s :: "'a service_state" and p n child parent
    using that new_record_storable(1,2) by (auto simp: service_ok_def intro!: link_child_ok)
  show ?thesis unfolding accept_continuation_def using assms link
    by (auto simp: wp_simps split: sum.split prod.split intro!: kept tame_actionD)
qed

lemma kept_continue [kept]:
  assumes "service_ok s" and "tame_action env"
    and "\<And>r s'. service_ok s' \<Longrightarrow> Q r s'" and "\<And>e s'. service_ok s' \<Longrightarrow> E e s'"
  shows "wp (continue_task env k access q i) Q E s"
  unfolding continue_task_def using assms by (auto simp: wp_simps split: continuation.split intro!: kept)

lemma kept_render_all [kept]:
  assumes "service_ok s" and "tame_action env"
    and "\<And>s'. service_ok s' \<Longrightarrow> Q () s'" and "\<And>e s'. service_ok s' \<Longrightarrow> E e s'"
  shows "wp (render_all env rs) Q E s"
  using assms(1)
proof (induction rs arbitrary: s)
  case (Cons r rs)
  then show ?case using assms(2-4) by (auto simp: wp_simps intro!: kept_render_task)
qed (use assms in \<open>simp add: wp_basic\<close>)

lemma kept_forget [kept]:
  assumes "service_ok s" and "tame_action env"
    and "\<And>s'. service_ok s' \<Longrightarrow> Q () s'" and "\<And>e s'. service_ok s' \<Longrightarrow> E e s'"
  shows "wp (forget env k access i) Q E s"
proof -
  have gone: "store_ok (snd (forget_task (ae_store env) (sv_store s) k n))" for n
    using assms(1) by (auto simp: service_ok_def intro!: forget_ok)
  show ?thesis unfolding forget_def using assms gone by (auto simp: wp_simps intro!: kept)
qed

lemma kept_start [kept]:
  assumes "service_ok s"
    and "\<And>r s'. service_ok s' \<Longrightarrow> Q r s'" and "\<And>e s'. service_ok s' \<Longrightarrow> E e s'"
  shows "wp (start env q) Q E s"
proof -
  have create: "store_ok (snd (create_task (ae_store env) (sv_store s) r))"
    if "service_ok s" "new_record q (ae_task_id env) (ae_now env) None = Inr r" for s :: "'a service_state" and r
    using that new_record_storable(1) by (auto simp: service_ok_def intro!: create_ok)
  show ?thesis unfolding start_def start_new_def using assms create
    by (auto simp: wp_simps split: sum.split option.split intro!: kept)
qed

lemma kept_perform [kept]:
  assumes "service_ok s" and "tame_action env"
    and "\<And>r s'. service_ok s' \<Longrightarrow> Q r s'" and "\<And>e s'. service_ok s' \<Longrightarrow> E e s'"
  shows "wp (perform env c k access i) Q E s"
  using assms by (cases c) (auto simp: wp_simps intro!: kept)

section \<open>Closing\<close>

definition tame_close :: "'c close_env \<Rightarrow> bool" where
  "tame_close env \<longleftrightarrow> tame (ce_runners env) \<and> tame (ce_presentation env) \<and> tame (ce_cache env) \<and> tame (ce_staging env)"

definition keeps :: "('c, unit) service \<Rightarrow> bool" where
  "keeps m \<longleftrightarrow> (\<forall>s. service_ok s \<longrightarrow> wp m (\<lambda>_. service_ok) (\<lambda>_. service_ok) s)"

lemma keepsD:
  assumes "keeps m" and "service_ok s" and "\<And>s'. service_ok s' \<Longrightarrow> Q () s'" and "\<And>e s'. service_ok s' \<Longrightarrow> E e s'"
  shows "wp m Q E s"
proof -
  have "wp m (\<lambda>_. service_ok) (\<lambda>_. service_ok) s" using assms(1,2) by (simp add: keeps_def)
  then show ?thesis by (rule wp_mono) (use assms(3,4) in auto)
qed

lemma keeps_close_loop: "(\<And>m. m \<in> set ms \<Longrightarrow> keeps m) \<Longrightarrow> keeps (close_loop first ms)"
proof (induction first ms rule: close_loop.induct)
  case (1 first)
  then show ?case by (simp add: keeps_def wp_basic split: option.split)
next
  case (2 first m ms)
  have m: "keeps m" using 2(2) by simp
  have rest: "keeps (close_loop x ms)" for x using 2(1) [of x] 2(2) by simp
  show ?case unfolding keeps_def close_loop.simps wp_simps
    by (auto intro!: keepsD [OF m] keepsD [OF rest])
qed

lemma keeps_close: "tame_close env \<Longrightarrow> keeps (service_close env)"
proof -
  assume t: "tame_close env"
  have runners: "keeps (runners_close (ce_runners env))" unfolding keeps_def
  proof (intro allI impI)
    fix s :: "'a service_state" assume "service_ok s"
    then have ok: "service_ok (s\<lparr>sv_runners_closed := True\<rparr>)" by simp
    have "wp (awaiting (ce_runners env)) (\<lambda>_. service_ok) (\<lambda>_. service_ok) (s\<lparr>sv_runners_closed := True\<rparr>)"
      using t ok by (auto simp: tame_close_def intro!: kept_await)
    then show "wp (runners_close (ce_runners env)) (\<lambda>_. service_ok) (\<lambda>_. service_ok) s" using ok
      by (simp add: runners_close_def wp_bind wp_basic(3)) (simp add: wp_def return_def)
  qed
  have await: "keeps (awaiting a)" if "tame a" for a :: "('a, unit) external"
    unfolding keeps_def using that by (auto intro!: kept_await)
  have lease: "keeps (close_lease lc l)" for lc l
    unfolding keeps_def close_lease_def by (auto simp: wp_basic split: sum.split intro!: kept_resolve)
  have delivery: "keeps (delivery_close lc a)" if "tame a" for lc and a :: "('a, unit) external"
    unfolding keeps_def
  proof (intro allI impI)
    fix s :: "'a service_state" assume "service_ok s"
    moreover have "keeps (close_all (map (close_lease lc) (sv_leases s) @ [awaiting a]))"
      unfolding close_all_def by (rule keeps_close_loop) (use lease await [OF that] in auto)
    ultimately show "wp (delivery_close lc a) (\<lambda>_. service_ok) (\<lambda>_. service_ok) s"
      by (simp add: delivery_close_def keeps_def wp_def)
  qed
  have runtime: "keeps (runtime_close env)" unfolding runtime_close_def close_all_def
    by (rule keeps_close_loop) (use t runners await [of "ce_presentation env"] delivery [of "ce_cache env" "ce_lease env"] in
      \<open>auto simp: tame_close_def\<close>)
  have all: "keeps (close_all [runtime_close env, awaiting (ce_staging env)])" unfolding close_all_def
    by (rule keeps_close_loop) (use t runtime await [of "ce_staging env"] in \<open>auto simp: tame_close_def\<close>)
  show ?thesis unfolding keeps_def
  proof (intro allI impI)
    fix s :: "'a service_state" assume s: "service_ok s"
    have "wp (bind (modify (\<lambda>s. s\<lparr>sv_closed := True\<rparr>)) (\<lambda>_.
       bind (close_all [runtime_close env, awaiting (ce_staging env)]) (\<lambda>_.
       modify (\<lambda>s. s\<lparr>sv_close_complete := True\<rparr>)))) (\<lambda>_. service_ok) (\<lambda>_. service_ok) s"
      using s by (auto simp: wp_simps intro!: keepsD [OF all])
    then show "wp (service_close env) (\<lambda>_. service_ok) (\<lambda>_. service_ok) s"
      using s by (simp add: service_close_def wp_def return_def)
  qed
qed

section \<open>Every reachable state\<close>

inductive service_step :: "'c service_state \<Rightarrow> 'c service_state \<Rightarrow> bool" where
  starting: "service_step s (snd (start env q s))"
| performing: "tame_action env \<Longrightarrow> service_step s (snd (perform env c k access i s))"
| refreshing: "tame_action env \<Longrightarrow> service_step s (snd (refresh_card env k access s))"
| running: "tame_run env \<Longrightarrow> service_step s (snd (run_job env k job s))"
| reconciling: "tame_restart env \<Longrightarrow> service_step s (snd (service_reconcile env s))"
| closing: "tame_close env \<Longrightarrow> service_step s (snd (service_close env s))"

inductive_cases service_stepE: "service_step s s'"

lemma kept_refresh:
  assumes "service_ok s" and "tame_action env"
  shows "wp (refresh_card env k access) (\<lambda>_. service_ok) (\<lambda>_. service_ok) s"
  unfolding refresh_card_def using assms by (auto simp: wp_simps intro!: kept)

interpretation service_system: invariant_system service_step service_ok
proof
  fix s s' :: "'c service_state" assume "service_step s s'" and ok: "service_ok s"
  then show "service_ok s'"
  proof (cases rule: service_step.cases)
    case (starting env q)
    have "wp (start env q) (\<lambda>_. service_ok) (\<lambda>_. service_ok) s" by (rule kept_start [OF ok])
    then show ?thesis using starting by (simp add: wp_state)
  next
    case (performing env c k access i)
    have "wp (perform env c k access i) (\<lambda>_. service_ok) (\<lambda>_. service_ok) s"
      by (rule kept_perform [OF ok performing(2)])
    then show ?thesis using performing by (simp add: wp_state)
  next
    case (refreshing env k access)
    from kept_refresh [OF ok refreshing(2), of k access] show ?thesis using refreshing by (simp add: wp_state)
  next
    case (running env k job)
    have "wp (run_job env k job) (\<lambda>_. service_ok) (\<lambda>_. service_ok) s" by (rule kept_run [OF ok running(2)])
    then show ?thesis using running by (simp add: wp_state)
  next
    case (reconciling env)
    have "wp (service_reconcile env) (\<lambda>_. service_ok) (\<lambda>_. service_ok) s"
      by (rule kept_reconcile [OF ok reconciling(2)])
    then show ?thesis using reconciling by (simp add: wp_state)
  next
    case (closing env)
    have "wp (service_close env) (\<lambda>_. service_ok) (\<lambda>_. service_ok) s"
      by (rule keepsD [OF keeps_close [OF closing(2)] ok])
    then show ?thesis using closing by (simp add: wp_state)
  qed
qed

text \<open>
  C3. In every state the service reaches from a good store without runners, by starting, steering, stopping,
  retrying, continuing, forgetting, running, reconciling and closing in any order, with any failures of
  the agent, of Discord and of the disk and with any of these operations in between at every await, the tasks
  are valid, no channel has two active tasks, the file holds exactly the tasks in memory, and no task has
  two runners.
\<close>

theorem service_invariant:
  assumes "service_step\<^sup>*\<^sup>* s s'" and "store_ok (sv_store s)" and "sv_runners s = []"
  shows "tasks_ok (ts_tasks (sv_store s')) \<and> exclusive (ts_tasks (sv_store s')) \<and> synced (sv_store s')
    \<and> distinct (map fst (sv_runners s'))"
  using service_system.reachable_inv [OF assms(1)] assms(2,3) by (simp add: service_ok_def store_ok_def)

end
