(* ===== verification/TaskServiceProps.thy ===== *)
theory TaskServiceProps
  imports TaskServiceInv
begin

text \<open>
  What the service promises: who may act on a task, that a refused action has no effect, that a request is
  started once, what a listing contains, and a failure of the disk after which a task has no runner.
\<close>

section \<open>Access\<close>

text \<open>A member sees a channel when its permissions and, for a private thread, its membership say so.\<close>

definition sees :: "guild \<Rightarrow> int \<Rightarrow> int option \<Rightarrow> int \<Rightarrow> bool" where
  "sees g actor_id current c \<longleftrightarrow> (\<exists>ch p. resolve_channel g c = Inr ch \<and> gc_permissions ch = Some p
     \<and> pm_view_channel p \<and> (gc_private ch \<longrightarrow> current = Some c \<or> pm_manage_threads p
         \<or> gc_member ch actor_id = Inr (Some actor_id)))"

definition moderates :: "guild \<Rightarrow> int \<Rightarrow> bool" where
  "moderates g c \<longleftrightarrow> (\<exists>ch p. resolve_channel g c = Inr ch \<and> gc_permissions ch = Some p \<and> pm_manage_messages p)"

lemma resolve_channel_id: "resolve_channel g c = Inr ch \<Longrightarrow> gc_id ch = c"
  unfolding resolve_channel_def and_then_eq_Inr
proof (elim exE conjE)
  fix x assume "(case x of Channel ch \<Rightarrow> if gc_id ch \<noteq> c
      then Inl (DiscordTaskAuthorizationError ''task is no longer visible'') else Inr ch
    | _ \<Rightarrow> Inl (DiscordTaskAuthorizationError ''task is no longer visible'')) = Inr ch"
  then show ?thesis by (cases x) (auto split: if_splits)
qed

lemma channel_access_Inr:
  assumes "channel_access g actor_id current exec c = Inr (v, m)"
  shows "v \<longleftrightarrow> sees g actor_id current c" and "m \<longleftrightarrow> sees g actor_id current c \<and> c = exec \<and> moderates g c"
proof -
  obtain ch where ch: "resolve_channel g c = Inr ch" using assms by (auto simp: channel_access_def and_then_eq_Inr)
  show "v \<longleftrightarrow> sees g actor_id current c" "m \<longleftrightarrow> sees g actor_id current c \<and> c = exec \<and> moderates g c"
    using assms resolve_channel_id [OF ch]
    by (auto simp: channel_access_def ch sees_def moderates_def has_private_thread_access_def and_then_eq_Inr
        split: option.splits if_splits sum.splits)
qed

lemma access_loop_Inr:
  "access_loop g actor_id current exec cs = Inr (v, m) \<Longrightarrow>
     v = {c \<in> set cs. sees g actor_id current c}
     \<and> m = {c \<in> set cs. sees g actor_id current c \<and> c = exec \<and> moderates g c}"
proof (induction cs arbitrary: v m)
  case (Cons c cs)
  obtain cv cm v' m' where l: "channel_access g actor_id current exec c = Inr (cv, cm)"
    "access_loop g actor_id current exec cs = Inr (v', m')"
    "v = (if cv then insert c v' else v')" "m = (if cm then insert c m' else m')"
    using Cons.prems by (auto simp: and_then_eq_Inr)
  from Cons.IH [OF l(2)] channel_access_Inr [OF l(1)] l(3,4) show ?case by auto
qed simp

text \<open>
  C11. What a member may do with a task: access is given only to a member of the task's guild who acts from
  one of its channels and sees both, where a private thread is seen from inside, with the right to manage
  threads, or as its member; and with that access everyone may view the task, the owner may do everything,
  and besides the owner only who manages the messages of the execution channel may stop it.
\<close>

theorem member_rights:
  assumes "resolve_task_access ix r order = Inr access" and "set order = task_channels r"
  shows "\<exists>g actor_id. ix_guild ix = Some g \<and> gd_id g = Some (t_guild_id r) \<and> ix_actor ix = Some actor_id \<and> 0 < actor_id
    \<and> (\<exists>c \<in> task_channels r. ix_channel_id ix = Some c)
    \<and> (\<forall>c \<in> task_channels r. sees g actor_id (ix_channel_id ix) c)
    \<and> (authorize r action access = Inr () \<longleftrightarrow>
        action = VIEW \<or> actor_id = t_owner_id r \<or> (action = STOP \<and> moderates g (t_execution_channel_id r)))"
proof -
  obtain g actor_id channel_id v m where a: "ix_guild ix = Some g" "gd_id g = Some (t_guild_id r)"
    "ix_actor ix = Some actor_id" "0 < actor_id" "ix_channel_id ix = Some channel_id" "channel_id \<in> task_channels r"
    "access_loop g actor_id (Some channel_id) (t_execution_channel_id r) order = Inr (v, m)"
    "access = \<lparr>ac_actor_id = actor_id, ac_guild_id = t_guild_id r, ac_channel_id = channel_id,
       ac_visible_channel_ids = v, ac_manageable_channel_ids = m\<rparr>" "authorize r VIEW access = Inr ()"
    using assms(1) by (auto simp: resolve_task_access_def Let_def and_then_eq_Inr split: option.splits if_splits)
  note l = access_loop_Inr [OF a(7)]
  have "task_channels r \<subseteq> v" using a(8,9) by (auto simp: authorize_def channels_are_visible_def split: if_splits)
  then have s: "\<forall>c \<in> task_channels r. sees g actor_id (Some channel_id) c" using l by auto
  have m: "t_execution_channel_id r \<in> m \<longleftrightarrow> moderates g (t_execution_channel_id r)"
    using l s assms(2) by (auto simp: task_channels_def)
  have "authorize r action access = Inr () \<longleftrightarrow>
      action = VIEW \<or> actor_id = t_owner_id r \<or> (action = STOP \<and> moderates g (t_execution_channel_id r))"
    using a(6,8) \<open>task_channels r \<subseteq> v\<close> m
    by (cases action) (auto simp: authorize_def channels_are_visible_def OWNER_ACTIONS_def)
  with a s show ?thesis by auto
qed

section \<open>Refused actions\<close>

fun action_of :: "command \<Rightarrow> task_action" where
  "action_of (Steer_Task _) = STEER"
| "action_of Stop_Task = STOP"
| "action_of Retry_Task = RETRY"
| "action_of (Continue_Task _) = CONTINUE"
| "action_of Forget_Task = FORGET"

lemma bind_Inl: "m s = (Inl e, s') \<Longrightarrow> bind m f s = (Inl e, s')"
  by (simp add: bind_def)

lemma bind_reading: "bind (reading g) f s = (case g s of Inl e \<Rightarrow> (Inl e, s) | Inr x \<Rightarrow> f x s)"
  by (simp add: bind_def reading_def split: sum.split)

lemma authorized_refused:
  assumes "get_task (sv_store s) k = Inr r" and "authorize r action access \<noteq> Inr ()"
  shows "\<exists>e. authorized k action access s = (Inl e, s)"
  using assms
  by (cases "authorize r VIEW access"; cases "authorize r action access")
    (auto simp: authorized_def status_def store_get_def bind_def reading_def from_result_def return_def)

lemma ensuring_release:
  assumes "m s = (Inl e, s)"
  shows "\<exists>e. ensuring m (release c a) s = (Inl e, s\<lparr>sv_released := sv_released s @ [a]\<rparr>)"
  using assms by (cases c) (simp_all add: ensuring_def release_def bind_def modify_def from_result_def)

lemma ensuring_unless_release:
  assumes "m s = (Inl e, s)"
  shows "\<exists>e. ensuring_unless p m (release c a) s = (Inl e, s\<lparr>sv_released := sv_released s @ [a]\<rparr>)"
  using assms by (cases c) (simp_all add: ensuring_unless_def release_def bind_def modify_def from_result_def)

lemma bind_refused:
  assumes "get_task (sv_store s) k = Inr r" and "authorize r action access \<noteq> Inr ()"
  shows "\<exists>e. bind (authorized k action access) f s = (Inl e, s)"
  using authorized_refused [OF assms] by (auto dest: bind_Inl)

lemma service_open: "service_ensure_open s = (Inr (), s) \<or> service_ensure_open s = (Inl DiscordTaskServiceClosed, s)"
  by (simp add: service_ensure_open_def reading_def)

lemma on_error_open:
  "on_error service_ensure_open (release c a) s = (Inr (), s)
   \<or> (\<exists>e. on_error service_ensure_open (release c a) s = (Inl e, s\<lparr>sv_released := sv_released s @ [a]\<rparr>))"
  by (cases c) (simp_all add: try_catch_def service_ensure_open_def reading_def release_def bind_def modify_def
      from_result_def raise_def)

lemma refused_entry:
  assumes "\<exists>e. m s = (Inl e, s)"
  shows "\<exists>e. bind service_ensure_open (\<lambda>_. bind m (\<lambda>r. return (h r))) s = (Inl e, s)"
  using service_open [of s] assms by (auto simp: bind_def)

lemma refused_entry_releasing:
  assumes "\<exists>e. m s = (Inl e, s\<lparr>sv_released := sv_released s @ [a]\<rparr>)"
  shows "\<exists>e. bind (on_error service_ensure_open (release c a)) (\<lambda>_. bind m (\<lambda>r. return (h r))) s
    = (Inl e, s\<lparr>sv_released := sv_released s @ [a]\<rparr>)"
proof -
  obtain e where e: "m s = (Inl e, s\<lparr>sv_released := sv_released s @ [a]\<rparr>)" using assms by blast
  consider "on_error service_ensure_open (release c a) s = (Inr (), s)"
    | e where "on_error service_ensure_open (release c a) s = (Inl e, s\<lparr>sv_released := sv_released s @ [a]\<rparr>)"
    using on_error_open by blast
  then show ?thesis
  proof cases
    case 1
    then show ?thesis using e by (simp add: bind_def)
  next
    case (2 e)
    then show ?thesis by (simp add: bind_def)
  qed
qed

text \<open>
  C10. A refused action has no effect: when the task as it is stored does not authorize the action, steering,
  stopping, retrying, continuing and forgetting raise (a repeated interaction to forget does nothing) and
  change neither the tasks nor the claims, the runners, the cache or the agent; only the staged attachments of
  the request are cleaned up.
\<close>

theorem refused_action_no_effect:
  assumes "get_task (sv_store s) k = Inr r" and "authorize r (action_of c) access \<noteq> Inr ()"
    and "perform env c k access i s = (res, s')"
  shows "s' = s\<lparr>sv_released := sv_released s'\<rparr>
    \<and> ((\<exists>e. res = Inl e) \<or> (c = Forget_Task \<and> existing_claim (sv_interactions s) i \<noteq> None))"
proof -
  note ref = bind_refused [OF assms(1)]
  show ?thesis
  proof (cases c)
    case (Steer_Task q)
    obtain e where "steer_body env k access i s = (Inl e, s)"
      using ref [of STEER access] assms(2) Steer_Task by (auto simp: steer_body_def)
    then have "\<exists>e. steer env k access q i s = (Inl e, s\<lparr>sv_released := sv_released s @ [sr_attachments q]\<rparr>)"
      unfolding steer_def by (rule ensuring_release [where s = s])
    from refused_entry_releasing [where m = "steer env k access q i" and s = s, OF this, of "ae_cleanup env" Some]
    show ?thesis using assms(3) Steer_Task by auto
  next
    case Stop_Task
    have "\<exists>e. stop env k access i s = (Inl e, s)"
      using ref [of STOP access] assms(2) Stop_Task by (simp add: stop_def)
    from refused_entry [where m = "stop env k access i" and s = s, OF this, of Some] show ?thesis using assms(3) Stop_Task by auto
  next
    case Retry_Task
    have "\<exists>e. retry env k access i s = (Inl e, s)"
      using ref [of RETRY access] assms(2) Retry_Task by (simp add: retry_def)
    from refused_entry [where m = "retry env k access i" and s = s, OF this, of Some] show ?thesis using assms(3) Retry_Task by auto
  next
    case (Continue_Task q)
    obtain e where "accept_continuation env k access q i s = (Inl e, s)"
      using ref [of CONTINUE access] assms(2) Continue_Task by (auto simp: accept_continuation_def)
    from ensuring_unless_release [where m = "accept_continuation env k access q i" and s = s
        and p = "\<lambda>c. case c of Accepted _ _ \<Rightarrow> True | Repeated _ \<Rightarrow> False" and c = "ae_cleanup env"
        and a = "rq_attachments q", OF this]
    have "\<exists>e. continue_task env k access q i s = (Inl e, s\<lparr>sv_released := sv_released s @ [rq_attachments q]\<rparr>)"
      unfolding continue_task_def by (auto simp: bind_def)
    from refused_entry_releasing [where m = "continue_task env k access q i" and s = s, OF this, of "ae_cleanup env" Some]
    show ?thesis
      using assms(3) Continue_Task by auto
  next
    case Forget_Task
    show ?thesis
    proof (cases "existing_claim (sv_interactions s) i")
      case None
      have "\<exists>e. forget env k access i s = (Inl e, s)"
        using ref [of FORGET access] assms(2) Forget_Task None by (simp add: forget_def bind_reading)
      from refused_entry [where m = "forget env k access i" and s = s, OF this, of "\<lambda>_. None :: task_record option"] show ?thesis using assms(3) Forget_Task by auto
    next
      case (Some d)
      then have "forget env k access i s = (Inr (), s)" by (simp add: forget_def bind_def reading_def return_def)
      then show ?thesis using assms(3) Forget_Task Some service_open [of s] by (auto simp: bind_def return_def)
    qed
  qed
qed

section \<open>Requests\<close>

text \<open>A Discord event the service knows: it is among the last ones, or a task in the store has it.\<close>

definition handled_event :: "int \<Rightarrow> 'c service_state \<Rightarrow> bool" where
  "handled_event i s \<longleftrightarrow> existing_claim (sv_triggers s) i \<noteq> None \<or> by_trigger (sv_store s) i \<noteq> None"

lemma remembered:
  assumes "0 < m"
  shows "existing_claim (remember_event m d e t) e = Some t"
proof -
  have "e \<notin> fst ` set (AList.delete e d)" by (auto simp: delete_filter)
  moreover have "e \<notin> fst ` set (tl (AList.delete e d))" using calculation by (cases "AList.delete e d") auto
  ultimately show ?thesis using assms
    by (cases "AList.delete e d") (auto simp: existing_claim_def remember_event_simp trim_claims_def map_add_Some_iff
      map_add_dom_app_simps map_of_eq_None_iff)
qed

lemma wp_result: "wp m Q E s \<Longrightarrow> m s = (Inr x, s') \<Longrightarrow> Q x s'"
  by (simp add: wp_def)

text \<open>A request for a known event starts nothing.\<close>

lemma known_event_absorbed:
  assumes "handled_event (rq_trigger_event_id q) s" and "start env q s = (res, s')"
  shows "s' = s\<lparr>sv_released := sv_released s @ [rq_attachments q]\<rparr>"
proof -
  let ?at = "\<lambda>t. t = s\<lparr>sv_released := sv_released s @ [rq_attachments q]\<rparr>"
  have rel: "wp (release (ae_cleanup env) (rq_attachments q)) Q E s"
    if "\<And>t. ?at t \<Longrightarrow> Q () t" "\<And>e t. ?at t \<Longrightarrow> E e t" for Q E
    using that by (simp add: release_def wp_bind wp_basic split: sum.split)
  have "wp (start env q) (\<lambda>_. ?at) (\<lambda>_. ?at) s"
    using assms(1) unfolding start_def wp_simps service_ensure_open_def
    by (auto simp: wp_simps handled_event_def store_get_def split: option.split sum.split intro!: rel)
  then show ?thesis by (simp add: wp_state assms(2))
qed

lemma started_event_handled:
  assumes "start env q s = (Inr r, s')" and "0 < ae_claim_limit env"
  shows "handled_event (rq_trigger_event_id q) s'"
proof (cases "handled_event (rq_trigger_event_id q) s")
  case True
  from known_event_absorbed [OF True assms(1)] True show ?thesis by (simp add: handled_event_def)
next
  case False
  let ?i = "rq_trigger_event_id q"
  have rem: "existing_claim (remember_event (ae_claim_limit env) d ?i t) ?i = Some t" for d t
    by (rule remembered [OF assms(2)])
  have "wp (start_new env q) (\<lambda>_. handled_event ?i) (\<lambda>_ _. True) s"
    unfolding start_new_def wp_simps
    by (auto simp: wp_def zoomed_def remember_trigger_def modify_def spawn_def runners_ensure_open_def bind_def
        reading_def return_def handled_event_def rem release_def from_result_def raise_def split: sum.split prod.split)
  then have "wp (start env q) (\<lambda>_. handled_event ?i) (\<lambda>_ _. True) s"
    using False unfolding start_def wp_simps service_ensure_open_def
    by (auto simp: wp_simps handled_event_def release_def split: sum.split)
  from wp_result [OF this assms(1)] show ?thesis .
qed

text \<open>
  C18. A request is started at most once: after a request was accepted its Discord event is known to the
  service, and in any state in which an event is known a request for it creates no task, starts no runner
  and leaves the claims and the cache alone; only its staged attachments are cleaned up.
\<close>

theorem request_started_once:
  assumes "start env q s = (Inr r, s1)" and "0 < ae_claim_limit env"
    and "handled_event (rq_trigger_event_id q') s2" and "start env' q' s2 = (res, s3)"
  shows "handled_event (rq_trigger_event_id q) s1 \<and> s3 = s2\<lparr>sv_released := sv_released s2 @ [rq_attachments q']\<rparr>"
  using started_event_handled [OF assms(1,2)] known_event_absorbed [OF assms(3,4)] by simp

section \<open>Listings\<close>

definition created_key :: "task_record \<Rightarrow> int \<times> string" where
  "created_key r = (case created_order r of Inr k \<Rightarrow> k | Inl _ \<Rightarrow> (0, []))"

lemma created_order_key:
  assumes "storable r"
  shows "created_order r = Inr (created_key r)"
proof -
  obtain t u where "fromisoformat (t_created_at r) = Some t" "as_utc t = Inr u"
    using assms by (auto simp: storable_def utc_text_def isl_def split: option.splits sum.splits) (metis sum.exhaust)
  then show ?thesis by (simp add: created_key_def created_order_def)
qed

lemma newest_first_sorts:
  assumes "\<And>r. r \<in> set rs \<Longrightarrow> storable r"
  shows "\<exists>ys. newest_first rs = Inr ys \<and> mset ys = mset rs \<and> sorted_wrt (\<lambda>a b. created_key b \<le> created_key a) ys"
proof -
  let ?pairs = "zip (map created_key rs) rs"
  let ?zs = "sort_key fst (rev ?pairs)"
  have keys: "map_result created_order rs = Inr (map created_key rs)"
    using map_result_inverse [of rs created_order "\<lambda>r. r" created_key] assms created_order_key by simp
  have pairs: "?pairs = map (\<lambda>r. (created_key r, r)) rs" by (induction rs) auto
  have "\<forall>z \<in> set ?zs. fst z = created_key (snd z)" by (auto simp: pairs)
  then have fst_zs: "map fst ?zs = map created_key (map snd ?zs)" by (simp add: map_eq_conv)
  have "sorted (map fst ?zs)" by simp
  then have "sorted (map created_key (map snd ?zs))" unfolding fst_zs .
  then have "sorted_wrt (\<lambda>a b. created_key b \<le> created_key a) (rev (map snd ?zs))"
    by (simp add: sorted_wrt_rev sorted_wrt_map sorted_map)
  moreover have "mset (rev (map snd ?zs)) = mset rs"
    by (simp add: pairs multiset.map_comp comp_def)
  ultimately show ?thesis by (simp add: newest_first_def keys)
qed

definition matching :: "task_store \<Rightarrow> task_access \<Rightarrow> string \<Rightarrow> string \<Rightarrow> int \<Rightarrow> task_record list" where
  "matching st access scope state current = filter (\<lambda>r. visible_task r access
     \<and> in_scope r access scope current \<and> in_state r state) (task_records st)"

text \<open>
  What a listing contains: for a valid scope and state a good store lists the ten newest of the tasks the
  member sees, in the guild, the scope and the state asked for, newest first, or all of them when there are no
  more than ten; no task outside is newer than one that is listed.
\<close>

theorem listing_exact:
  assumes "store_ok st" and "scope \<in> {''mine'', ''channel''}" and "state \<in> {''all'', ''active'', ''terminal''}"
    and "M = matching st access scope state current"
  shows "\<exists>rs. list_tasks st access scope state current = Inr rs \<and> length rs = min 10 (length M)
    \<and> mset rs \<subseteq># mset M \<and> sorted_wrt (\<lambda>a b. created_key b \<le> created_key a) rs
    \<and> (\<forall>r \<in> set M. r \<notin> set rs \<longrightarrow> (\<forall>l \<in> set rs. created_key r \<le> created_key l))"
proof -
  have "storable r" if "r \<in> set M" for r
  proof -
    have "r \<in> set (dict_values (ts_tasks st))" using that by (auto simp: assms(4) matching_def task_records_def)
    moreover have "dict_wf (ts_tasks st)" using assms(1) tasks_okD(4) by (auto simp: store_ok_def)
    ultimately obtain k where "map_of (ts_tasks st) k = Some r" using dict_values_iff [of "ts_tasks st" r] by auto
    then show ?thesis using stored_get(3) [OF assms(1)] by blast
  qed
  from newest_first_sorts [of M, OF this] obtain ys where ys: "newest_first M = Inr ys" "mset ys = mset M"
    "sorted_wrt (\<lambda>a b. created_key b \<le> created_key a) ys" by blast
  have l: "list_tasks st access scope state current = Inr (take 10 ys)"
    using assms(2,3) ys(1) by (auto simp: list_tasks_def assms(4) matching_def)
  obtain xs zs where split: "ys = xs @ zs" "xs = take 10 ys" "zs = drop 10 ys" by simp
  have sub: "mset xs \<subseteq># mset M" unfolding ys(2) [symmetric] split(1) by simp
  have len: "length xs = min 10 (length M)" using ys(2) split(2) by (simp add: min.commute flip: mset_eq_length [OF ys(2)])
  have sorted_parts: "sorted_wrt (\<lambda>a b. created_key b \<le> created_key a) xs"
    "\<forall>l \<in> set xs. \<forall>r \<in> set zs. created_key r \<le> created_key l"
    using ys(3) unfolding split(1) sorted_wrt_append by blast+
  have "set M = set xs \<union> set zs" using mset_eq_setD [OF ys(2)] split(1) by simp
  then have "\<forall>r \<in> set M. r \<notin> set xs \<longrightarrow> (\<forall>l \<in> set xs. created_key r \<le> created_key l)"
    using sorted_parts(2) by blast
  with l sub len sorted_parts(1) show ?thesis unfolding split(2) [symmetric] by blast
qed

section \<open>A task without a runner\<close>

text \<open>The file is replaced, but the directory cannot be synced, twice.\<close>

definition unsynced :: "store_env \<Rightarrow> store_env" where
  "unsynced env = env\<lparr>se_faults := [SYNC_DIRECTORY], se_confirm_faults := [SYNC_DIRECTORY]\<rparr>"

lemma unsynced_create:
  assumes "create_task (env\<lparr>se_faults := []\<rparr>) st r = (Inr (), st1)"
  obtains st' where "create_task (unsynced env) st r = (Inl TaskStoreDurabilityError, st')"
    and "ts_tasks st' = ts_tasks st1"
proof -
  obtain tasks kept where "create_checked (ts_tasks st) r = Inr (tasks, ())"
    "apply_retention tasks (se_commit_now env) = Inr kept" "ts_tasks st1 = kept"
    using assms by (auto simp: create_task_def commit_then_def commit_def write_document_def Let_def
        confirm_document_durability_def guarded_def split: sum.splits prod.splits)
  then show ?thesis using that
    by (simp add: create_task_def commit_then_def commit_def unsynced_def write_document_def Let_def
        confirm_document_durability_def guarded_def)
qed

text \<open>
  C38. A task can be left without a runner: when a new request would be accepted but its directory cannot be
  synced after the file was written, \<open>start\<close> raises although the task is recorded as starting; it has no
  runner, its event is not remembered, it counts as active, and a repetition of the request right after it is answered
  as if it ran, again without starting a runner.
\<close>

theorem unsynced_start_strands_task:
  assumes "\<not> sv_closed s" and "\<not> handled_event (rq_trigger_event_id q) s" and "store_ok (sv_store s)"
    and "new_record q (ae_task_id env) (ae_now env) None = Inr r" and "ae_cleanup env = Inr ()"
    and "create_task (e\<lparr>se_faults := []\<rparr>) (sv_store s) r = (Inr (), st1)" and "ae_store env = unsynced e"
    and "start env q s = (res, s')"
  shows "res = Inl TaskStoreDurabilityError \<and> map_of (ts_tasks (sv_store s')) (t_task_id r) = Some r \<and> active r
    \<and> sv_runners s' = sv_runners s \<and> sv_triggers s' = sv_triggers s
    \<and> (\<exists>r' s2. start env q s' = (Inr r', s2) \<and> sv_runners s2 = sv_runners s)"
proof -
  note new = new_record_storable [OF assms(4)]
  have act: "active r" using new(4) by (simp add: ACTIVE_STATES_def)
  obtain st' where st': "create_task (unsynced e) (sv_store s) r = (Inl TaskStoreDurabilityError, st')"
    "ts_tasks st' = ts_tasks st1" using unsynced_create [OF assms(6)] by blast
  have ok: "tasks_ok (ts_tasks (sv_store s))" "exclusive (ts_tasks (sv_store s))"
    using assms(3) by (simp_all add: store_ok_def)
  obtain tasks where c: "create_checked (ts_tasks (sv_store s)) r = Inr (tasks, ())"
    "commit_done (e\<lparr>se_faults := []\<rparr>) (sv_store s) tasks st1"
    using commit_then_outcome [OF assms(6) [unfolded create_task_def]] by auto
  note cr = create_checked_ok [OF ok new(1) c(1)]
  have m: "map_of (ts_tasks st') (t_task_id r) = Some r"
    using commit_done_map(2) [OF _ c(2) _ act] cr(1,2) st'(2) by simp
  from map_of_SomeD [OF m] have "r \<in> set (task_records st')" by (force simp: task_records_def)
  then obtain r' where r': "by_trigger st' (rq_trigger_event_id q) = Some r'"
    using new(3) by (cases "by_trigger st' (rq_trigger_event_id q)") (auto simp: by_trigger_def find_None_iff)
  have start: "start env q s = (Inl TaskStoreDurabilityError,
      s\<lparr>sv_store := st', sv_released := sv_released s @ [rq_attachments q]\<rparr>)"
    using assms(1,2,4,5,7) st'(1)
    by (simp add: start_def start_new_def service_ensure_open_def handled_event_def bind_def try_catch_def reading_def
        from_result_def zoomed_def release_def modify_def raise_def)
  then have s': "res = Inl TaskStoreDurabilityError"
    "s' = s\<lparr>sv_store := st', sv_released := sv_released s @ [rq_attachments q]\<rparr>" using assms(8) by simp_all
  have "start env q s' = (Inr r', s'\<lparr>sv_released := sv_released s' @ [rq_attachments q]\<rparr>)"
    using assms(1,2,5) r' unfolding s'(2)
    by (simp add: start_def service_ensure_open_def handled_event_def bind_def try_catch_def reading_def
        release_def modify_def from_result_def return_def)
  with s' m act show ?thesis by simp
qed

section \<open>Examples\<close>

definition example_action :: "unit action_env" where
  "example_action = \<lparr>ae_now = example_now, ae_task_id = ''00000000000000000000000000000002'', ae_claim_limit = 2048,
     ae_store = example_env, ae_cleanup = Inr (), ae_capabilities = (Inr no_capabilities, id), ae_steer = (Inr True, id),
     ae_interrupt = (Inr (), id), ae_idle = (Inr (), id), ae_cache = rn_cache example_run,
     ae_render = (\<lambda>_. \<lparr>rd_lock = (Inr (), id), rd_card = (Inl DiscordForbidden, id)\<rparr>)\<rparr>"

definition idle_service :: "unit service_state" where
  "idle_service = example_service\<lparr>sv_store := empty_store\<rparr>"

lemma example_tame: "tame_action example_action"
  by (simp add: tame_action_def tame_rendering_def tame_def example_action_def)

lemma example_start_eval:
  "case start example_action example_request idle_service of (r, s) \<Rightarrow>
     \<not> isl r \<and> map fst (sv_runners s) = [''00000000000000000000000000000002'']
     \<and> existing_claim (sv_triggers s) 9 = Some ''00000000000000000000000000000002''"
  by code_simp

lemma idle_service_parts: "sv_store idle_service = empty_store" "sv_runners idle_service = []"
  "\<not> sv_closed idle_service" "sv_triggers idle_service = []"
  by (simp_all add: idle_service_def example_service_def)

lemma example_started:
  obtains r s where "start example_action example_request idle_service = (Inr r, s)"
    and "map fst (sv_runners s) = [''00000000000000000000000000000002'']" and "handled_event 9 s"
proof -
  obtain res s where s: "start example_action example_request idle_service = (res, s)" by fastforce
  have e: "\<not> isl res \<and> map fst (sv_runners s) = [''00000000000000000000000000000002'']
     \<and> existing_claim (sv_triggers s) 9 = Some ''00000000000000000000000000000002''"
    using example_start_eval unfolding s by simp
  then obtain r where "res = Inr r" by (cases res) auto
  with s e that [of r s] show thesis by (simp add: handled_event_def)
qed

theorem service_invariant_witness:
  "\<exists>s. service_step\<^sup>*\<^sup>* idle_service s \<and> map fst (sv_runners s) = [''00000000000000000000000000000002'']
     \<and> synced (sv_store s)"
proof -
  obtain r s where s: "start example_action example_request idle_service = (Inr r, s)"
    "map fst (sv_runners s) = [''00000000000000000000000000000002'']" by (rule example_started)
  have "service_step idle_service (snd (start example_action example_request idle_service))" by (rule service_step.starting)
  then have step: "service_step\<^sup>*\<^sup>* idle_service s" unfolding s(1) by simp
  have "store_ok (sv_store idle_service)" "sv_runners idle_service = []" using empty_store_ok by (simp_all add: idle_service_parts)
  from service_invariant [OF step this] have "synced (sv_store s)" by simp
  with step s(2) show ?thesis by (intro exI [of _ s] conjI)
qed

theorem request_started_once_witness:
  "\<exists>r s s'. start example_action example_request idle_service = (Inr r, s) \<and> length (sv_runners s) = 1
     \<and> snd (start example_action example_request s) = s' \<and> sv_runners s' = sv_runners s"
proof -
  obtain r s where s: "start example_action example_request idle_service = (Inr r, s)"
    "map fst (sv_runners s) = [''00000000000000000000000000000002'']" "handled_event 9 s" by (rule example_started)
  obtain res' s' where s': "start example_action example_request s = (res', s')" by fastforce
  have pos: "0 < ae_claim_limit example_action" by (simp add: example_action_def)
  have t: "handled_event (rq_trigger_event_id example_request) s" using s(3) by (simp add: example_request_def)
  have "length (sv_runners s) = 1" using s(2) by (metis length_map list.size(3,4) One_nat_def add.commute plus_1_eq_Suc)
  moreover have "sv_runners s' = sv_runners s" using request_started_once [OF s(1) pos t s'] by simp
  ultimately show ?thesis using s(1) s' by simp
qed

definition example_access :: task_access where
  "example_access = \<lparr>ac_actor_id = 8, ac_guild_id = 5, ac_channel_id = 12, ac_visible_channel_ids = {11, 12},
     ac_manageable_channel_ids = {}\<rparr>"

theorem refused_action_no_effect_witness:
  "\<exists>e s. perform example_action Stop_Task (t_task_id example_task) example_access 3 example_service = (Inl e, s)
     \<and> sv_store s = example_store \<and> sv_interrupts s = []"
proof -
  obtain res s where s: "perform example_action Stop_Task (t_task_id example_task) example_access 3 example_service = (res, s)"
    by fastforce
  have g: "get_task (sv_store example_service) (t_task_id example_task) = Inr example_task"
    using stored_get(1) [OF example_store_ok, of "t_task_id example_task" example_task]
    by (simp add: example_service_def example_store_eval(2))
  have a: "authorize example_task (action_of Stop_Task) example_access \<noteq> Inr ()"
    by (simp add: authorize_def example_access_def example_task_def channels_are_visible_def task_channels_def OWNER_ACTIONS_def)
  note w = refused_action_no_effect [OF g a s]
  have "sv_store s = sv_store (example_service\<lparr>sv_released := sv_released s\<rparr>)"
    by (rule arg_cong [OF conjunct1 [OF w], of sv_store])
  moreover have "sv_interrupts s = sv_interrupts (example_service\<lparr>sv_released := sv_released s\<rparr>)"
    by (rule arg_cong [OF conjunct1 [OF w], of sv_interrupts])
  ultimately have "sv_store s = example_store" "sv_interrupts s = []" by (simp_all add: example_service_def)
  moreover obtain e where "res = Inl e" using w by auto
  ultimately show ?thesis using s by blast
qed

definition example_guild :: guild where
  "example_guild = \<lparr>gd_id = Some 5, gd_usable = True, gd_get_channel = (\<lambda>_. No_Channel),
     gd_fetch_channel = (\<lambda>c. Inr (Channel \<lparr>gc_id = c, gc_permissions = Some \<lparr>pm_view_channel = True,
       pm_manage_messages = True, pm_manage_threads = False\<rparr>, gc_private = (c = 11),
       gc_member = (\<lambda>m. Inr (Some m))\<rparr>))\<rparr>"

definition example_interaction :: interaction where
  "example_interaction = \<lparr>ix_guild_id = Some 5, ix_guild = Some example_guild, ix_actor = Some 8, ix_channel_id = Some 12\<rparr>"

theorem member_rights_witness:
  "\<exists>access. resolve_task_access example_interaction example_task [12, 11] = Inr access
     \<and> authorize example_task STOP access = Inr () \<and> authorize example_task RETRY access \<noteq> Inr ()"
proof -
  let ?a = "\<lparr>ac_actor_id = 8, ac_guild_id = 5, ac_channel_id = 12, ac_visible_channel_ids = {12, 11},
     ac_manageable_channel_ids = {12}\<rparr>"
  have r: "resolve_task_access example_interaction example_task [12, 11] = Inr ?a"
    by (simp add: resolve_task_access_def example_interaction_def example_guild_def example_task_def task_channels_def
        channel_access_def resolve_channel_def has_private_thread_access_def authorize_def channels_are_visible_def
        OWNER_ACTIONS_def)
  have o: "set [12, 11] = task_channels example_task" by (auto simp: task_channels_def example_task_def)
  have m: "moderates example_guild 12" by (simp add: moderates_def resolve_channel_def example_guild_def)
  have f: "ix_guild example_interaction = Some example_guild" "ix_actor example_interaction = Some 8"
    "t_owner_id example_task = 7" "t_execution_channel_id example_task = 12"
    by (simp_all add: example_interaction_def example_task_def)
  have "authorize example_task STOP ?a = Inr ()" "authorize example_task RETRY ?a \<noteq> Inr ()"
    using member_rights [OF r o, of STOP] member_rights [OF r o, of RETRY] m f by auto
  then show ?thesis using r by blast
qed

theorem listing_exact_witness:
  "\<exists>rs. list_tasks example_store (example_access\<lparr>ac_actor_id := 7\<rparr>) ''mine'' ''active'' 12 = Inr rs \<and> length rs = 1"
proof -
  let ?a = "example_access\<lparr>ac_actor_id := 7\<rparr>"
  have m: "[example_task] = matching example_store ?a ''mine'' ''active'' 12"
    by (simp add: matching_def task_records_def example_store_eval(2) visible_task_def in_scope_def in_state_def
        example_access_def example_task_def task_channels_def ACTIVE_STATES_def)
  from listing_exact [OF example_store_ok _ _ m] show ?thesis by auto
qed

theorem unsynced_start_strands_task_witness:
  "\<exists>r s. start (example_action\<lparr>ae_store := unsynced example_env\<rparr>) example_request idle_service
       = (Inl TaskStoreDurabilityError, s)
     \<and> map_of (ts_tasks (sv_store s)) (t_task_id r) = Some r \<and> active r \<and> sv_runners s = []"
proof -
  let ?env = "example_action\<lparr>ae_store := unsynced example_env\<rparr>"
  obtain res s where s: "start ?env example_request idle_service = (res, s)" by fastforce
  have "case new_record example_request (ae_task_id ?env) (ae_now ?env) None of Inl _ \<Rightarrow> False
    | Inr r \<Rightarrow> fst (create_task (example_env\<lparr>se_faults := []\<rparr>) (sv_store idle_service) r) = Inr ()"
    by code_simp
  then obtain r st1 where r: "new_record example_request (ae_task_id ?env) (ae_now ?env) None = Inr r"
    "create_task (example_env\<lparr>se_faults := []\<rparr>) (sv_store idle_service) r = (Inr (), st1)"
    by (auto split: sum.splits) (metis prod.collapse)
  have "\<not> handled_event (rq_trigger_event_id example_request) idle_service"
    by (simp add: handled_event_def idle_service_parts existing_claim_def by_trigger_def task_records_def empty_store_def)
  from unsynced_start_strands_task [OF idle_service_parts(3) this _ r(1) _ r(2) _ s] empty_store_ok
  show ?thesis using s by (simp add: idle_service_parts example_action_def) blast
qed

end
