(* ===== verification/MirrorStarterProps.thy ===== *)
theory MirrorStarterProps
  imports MirrorStarter MirrorActionProps TaskServiceProps
begin

text \<open>
  What the two stores promise each other: a task exists if and only if the item it was started for says
  so, after a start that succeeded or failed, and again after a restart.
\<close>

section \<open>Undisturbed operations of the action store\<close>

definition items_good :: "mirror_store \<Rightarrow> bool" where
  "items_good st \<longleftrightarrow> mirror_ok st \<and> \<not> ms_callback st"

lemma item_id:
  assumes "items_good st" and "mirror_map st k = Some r"
  shows "m_mirror_id r = k"
  using assms map_okD(1) [of "mirror_map st" k r]
  by (auto simp: items_good_def mirror_ok_def mirror_map_def records_ok_def)

lemma calm_attempt:
  assumes good: "items_good st" and calm: "calm a" and m: "mirror_map st k = Some r"
    and f: "f r = Inr c" "constructed c" "immutable_part r = immutable_part c" "keeps_claims f"
  shows "\<exists>ts st'. attempt_cas a st k (m_revision r) f = (Inr (stamped r c ts), st') \<and> items_good st'
    \<and> mirror_map st' = (mirror_map st)(k \<mapsto> stamped r c ts)"
proof -
  have g: "mirror_ok st" "\<not> ms_callback st" using good by (simp_all add: items_good_def)
  have u: "undisturbed a" using calm by (simp add: calm_def)
  from calm_cas [where f = f, OF g calm m f(1-3)]
  obtain ts st' where c: "attempt_cas a st k (m_revision r) f = (Inr (stamped r c ts), st')" by blast
  have "mirror_compare_and_set (at_env a) st k (m_revision r) (\<lambda>r s. (f r, st\<lparr>ms_callback := True\<rparr>))
      = (Inr (stamped r c ts), st')"
    using c u cas_only_calls [of "\<lambda>r s. (f r, at_during a s)" st "\<lambda>r s. (f r, st\<lparr>ms_callback := True\<rparr>)"]
    by (simp add: attempt_cas_def undisturbed_def)
  from cas_linear [OF g(1) rtranclp.rtrancl_refl this]
  have l: "mirror_cas (at_env a\<lparr>me_read := me_reread (at_env a)\<rparr>) st k (m_revision r) f = (Inr (stamped r c ts), st')"
    by auto
  from mirror_cas_Inr [OF g(1) f(4) l]
  have "mirror_map st' = (mirror_map st)(k \<mapsto> stamped r c ts)" by blast
  moreover have "items_good st'"
    using attempt_cas_linear [OF g undisturbed_honest [OF u] f(4) c] by (simp add: items_good_def)
  ultimately show ?thesis using c by blast
qed

lemma calm_loop:
  assumes "items_good st" and "calm (attempts 0)" and "mirror_map st k = Some r"
    and "decide (attempts 0) r = Update f"
    and "f r = Inr c" and "constructed c" and "immutable_part r = immutable_part c" and "keeps_claims f"
  shows "\<exists>ts st'. cas_loop attempts [0..<CAS_ATTEMPTS] st k decide finished = (Inr (finished (stamped r c ts)), st')
    \<and> items_good st' \<and> mirror_map st' = (mirror_map st)(k \<mapsto> stamped r c ts)"
proof -
  have "get_mirror (at_get (attempts 0)) st k = Inr r"
    using get_mirror_Inr [of st k r] assms(1-3) by (simp add: calm_def items_good_def)
  then show ?thesis using calm_attempt [OF assms(1-3,5-8)] assms(4) by (auto simp: upt_conv_Cons)
qed

text \<open>A pending action whose interaction is not also handled.\<close>

definition claims_apart :: "mirror_record \<Rightarrow> bool" where
  "claims_apart r \<longleftrightarrow> (\<forall>p \<in> set_option (m_pending_action r). p_interaction_id p \<notin> h_interaction_id ` set (m_handled_claims r))"

lemma completed_constructed:
  fixes b :: bool
  assumes "valid_mirror r" and "m_pending_action r = Some p" and "claims_apart r"
  defines "c \<equiv> r\<lparr>m_pending_action := None, m_active_task_id := (if b then Some (p_task_id p) else None),
      m_handled_claims := m_handled_claims r
        @ [\<lparr>h_interaction_id = p_interaction_id p, h_action = p_action p, h_task_id = p_task_id p, h_succeeded = b\<rparr>]\<rparr>"
  shows "complete_action (p_task_id p) b r = Inr c" and "constructed c" and "immutable_part r = immutable_part c"
proof -
  let ?h = "\<lparr>h_interaction_id = p_interaction_id p, h_action = p_action p, h_task_id = p_task_id p, h_succeeded = b\<rparr>"
  have "no_failure (pending_checks p)" using assms(1,2) by (simp add: valid_mirror_iff claims_ok_def)
  then have h: "no_failure (claim_checks ?h)" "no_failure (opaque_task_id (p_task_id p) ''task_id'')"
    by (simp_all add: pending_checks_def claim_checks_def)
  then have o': "no_failure (opaque_task_id (p_task_id p) ''active_task_id'')" by (simp add: opaque_task_id_def)
  have "identity_ok c = identity_ok r" "shown_item_ok c = shown_item_ok r" "card_checks c = card_checks r"
    "delivery_checks c = delivery_checks r"
    by (simp_all add: c_def identity_ok_def shown_item_ok_def card_checks_def delivery_checks_def)
  moreover have "no_failure (action_checks r) \<Longrightarrow> no_failure (action_checks c)"
    using assms(2,3) o' by (auto simp: c_def action_checks_def claims_apart_def)
  ultimately have m: "identity_ok c" "shown_item_ok c" "progress_ok c"
    using assms(1) by (auto simp: valid_mirror_iff progress_ok_def c_def)
  then show con: "constructed c" using assms(1) h(1)
    by (auto simp: constructed_def mirror_checks_ok valid_mirror_iff claims_ok_def c_def)
  then show "complete_action (p_task_id p) b r = Inr c"
    using assms(2) h(1) by (simp add: complete_action_Inr constructed_def) (simp add: c_def)
  show "immutable_part r = immutable_part c" by (simp add: c_def immutable_part_def)
qed

lemma calm_finish:
  assumes good: "items_good st" and calm: "calm (attempts 0)" and m: "mirror_map st k = Some r"
    and p: "m_pending_action r = Some p" "p_task_id p = t" "claims_apart r"
  shows "\<exists>x st'. finish attempts st k t b = (Inr x, st') \<and> items_good st' \<and> mirror_map st' = (mirror_map st)(k \<mapsto> x)
    \<and> m_pending_action x = None \<and> m_active_task_id x = (if b then Some t else None) \<and> claims_apart x
    \<and> m_mirror_id x = k"
proof -
  have v: "valid_mirror r" using good map_valid [OF _ m] by (simp add: items_good_def)
  have k: "m_mirror_id r = k" by (rule item_id [OF good m])
  note c = completed_constructed [OF v p(1,3), of b, unfolded p(2)]
  have d: "pending_decision t None (complete_action t b) (attempts 0) r = Update (complete_action t b)"
    using p(1,2) by (simp add: pending_decision_def matching_pending_def)
  from calm_loop [where finished = id and f = "complete_action t b" and decide = "pending_decision t None (complete_action t b)" and attempts = attempts,
      OF good calm m d c complete_keeps]
  show ?thesis using k unfolding finish_def update_pending_def by (auto simp: stamped_def claims_apart_def)
qed

lemma calm_clear:
  assumes good: "items_good st" and calm: "calm (attempts 0)" and m: "mirror_map st k = Some r"
  shows "\<exists>x st'. clear_active attempts st k t = (Inr x, st') \<and> items_good st' \<and> mirror_map st' = (mirror_map st)(k \<mapsto> x)
    \<and> m_pending_action x = m_pending_action r \<and> m_mirror_id x = k \<and> (claims_apart r \<longrightarrow> claims_apart x)
    \<and> m_active_task_id x = (if m_active_task_id r = Some t then None else m_active_task_id r)"
proof -
  have v: "valid_mirror r" using good map_valid [OF _ m] by (simp add: items_good_def)
  have k: "m_mirror_id r = k" by (rule item_id [OF good m])
  have g: "get_mirror (at_get (attempts 0)) st k = Inr r"
    using get_mirror_Inr [of st k r] good calm m by (simp add: calm_def items_good_def)
  show ?thesis
  proof (cases "m_active_task_id r = Some t")
    case False
    then have "clear_active attempts st k t = (Inr r, st)"
      using g by (simp add: clear_active_def upt_conv_Cons active_decision_def)
    then show ?thesis using good m k False by (intro exI [of _ r] exI [of _ st]) (simp add: fun_upd_idem)
  next
    case True
    let ?c = "r\<lparr>m_active_task_id := None\<rparr>" and ?f = "\<lambda>r. make_mirror (r\<lparr>m_active_task_id := None\<rparr>)"
    have "identity_ok ?c = identity_ok r" "shown_item_ok ?c = shown_item_ok r" "card_checks ?c = card_checks r"
      "delivery_checks ?c = delivery_checks r"
      by (simp_all add: identity_ok_def shown_item_ok_def card_checks_def delivery_checks_def)
    moreover have "no_failure (action_checks r) \<Longrightarrow> no_failure (action_checks ?c)" by (simp add: action_checks_def)
    ultimately have con: "constructed ?c"
      using v by (auto simp: constructed_def mirror_checks_ok valid_mirror_iff progress_ok_def claims_ok_def)
    then have f: "?f r = Inr ?c" by (simp add: make_mirror_Inr constructed_def)
    have d: "active_decision t (attempts 0) r = Update ?f" using True by (simp add: active_decision_def)
    have keeps: "keeps_claims ?f" by (rule keeps_make) (simp add: claims_fit_def)
    from calm_loop [where finished = id and f = ?f and decide = "active_decision t" and attempts = attempts,
        OF good calm m d f con _ keeps]
    show ?thesis using True k unfolding clear_active_def
      by (auto simp: immutable_part_def stamped_def claims_apart_def dest!: set_mp [OF set_last_n])
  qed
qed

section \<open>After a restart\<close>

text \<open>The task an item refers to, and the task that is active for it after a restart.\<close>

definition task_of :: "'c service_state \<Rightarrow> string option \<Rightarrow> task_record option" where
  "task_of sv task_id = (case task_id of None \<Rightarrow> None
     | Some k \<Rightarrow> (case get_task (sv_store sv) k of Inl _ \<Rightarrow> None | Inr r \<Rightarrow> Some r))"

definition owned_task :: "'c service_state \<Rightarrow> mirror_record \<Rightarrow> string option" where
  "owned_task sv r = (case m_pending_action r of None \<Rightarrow> m_active_task_id r
     | Some p \<Rightarrow> if task_of sv (Some (p_task_id p)) = None then None else Some (p_task_id p))"

definition settled_item :: "'c service_state \<Rightarrow> mirror_record \<Rightarrow> mirror_record \<Rightarrow> bool" where
  "settled_item sv r r' \<longleftrightarrow> m_pending_action r' = None
     \<and> m_active_task_id r' = (if is_active (task_of sv (owned_task sv r)) then owned_task sv r else None)"

lemma known_task_total:
  assumes "store_ok (sv_store sv)"
  shows "known_task sv task_id = Inr (task_of sv task_id)"
proof (cases task_id)
  case (Some k)
  have ids: "ids_ok (ts_tasks (sv_store sv))" using assms tasks_okD(2) by (auto simp: store_ok_def)
  have "is_key_error e" if e: "get_task (sv_store sv) k = Inl e" for e
  proof (cases "lookup_task_key (ts_tasks (sv_store sv)) k")
    case (Inl e')
    have "canonical_hex k \<noteq> None \<Longrightarrow> e' = KeyError k"
      using Inl scan_keys_spec(2) [OF ids_okD(1) [OF ids]]
      by (auto simp: lookup_task_key_cases stored_ids_def split: if_splits)
    moreover have "canonical_hex k = None \<Longrightarrow> e' = KeyError k"
      using Inl by (auto simp: lookup_task_key_cases split: if_splits)
    ultimately have "e' = KeyError k" by blast
    then have "e = KeyError k" using e Inl by (simp add: get_task_def)
    then show ?thesis by simp
  next
    case (Inr j)
    then show ?thesis using e by (auto simp: get_task_def dict_lookup_def split: option.splits)
  qed
  then show ?thesis by (auto simp: known_task_def task_of_def Some split: sum.splits)
qed (simp add: known_task_def task_of_def)

text \<open>What a reconciliation meets: no other writer, a readable file and a working clock.\<close>

definition calm_env :: "'c starter_env \<Rightarrow> bool" where
  "calm_env env \<longleftrightarrow> sn_read env = READ_OK \<and> (\<forall>c. calm (sn_attempts env c 0))"

lemma settle_step:
  assumes "items_good (sx_mirrors s)" and "store_ok (sv_store (sx_service s))" and "calm_env env"
    and "mirror_map (sx_mirrors s) k = Some r" and "claims_apart r"
  shows "\<exists>x st'. reconcile_mirror env k s = (Inr (), s\<lparr>sx_mirrors := st'\<rparr>) \<and> items_good st'
    \<and> mirror_map st' = (mirror_map (sx_mirrors s))(k \<mapsto> x) \<and> claims_apart x \<and> settled_item (sx_service s) r x"
proof -
  let ?sv = "sx_service s"
  note kt = known_task_total [OF assms(2)]
  have calm: "calm (sn_attempts env c 0)" "sn_read env = READ_OK" for c using assms(3) by (simp_all add: calm_env_def)
  have k: "m_mirror_id r = k" by (rule item_id [OF assms(1,4)])
  have g: "item_get env k s = (Inr r, s)"
    using get_mirror_Inr [of "sx_mirrors s" k r] assms(1,4) calm(2) by (simp add: item_get_def reading_def items_good_def)
  obtain x1 st1 where s1: "items_good st1" "mirror_map st1 = (mirror_map (sx_mirrors s))(k \<mapsto> x1)" "claims_apart x1"
      "m_pending_action x1 = None" "m_active_task_id x1 = owned_task ?sv r" "m_mirror_id x1 = k"
    and e1: "(case m_pending_action r of
        None \<Rightarrow> return r
      | Some p \<Rightarrow>
          bind (starter_task (Some (p_task_id p))) (\<lambda>t.
          on_items (\<lambda>st. finish (sn_attempts env FINISHING) st (m_mirror_id r) (p_task_id p) (t \<noteq> None)))) s
      = (Inr x1, s\<lparr>sx_mirrors := st1\<rparr>)"
  proof (cases "m_pending_action r")
    case None
    show thesis by (rule that [of "sx_mirrors s" r])
        (use assms(1,4,5) None k in \<open>simp_all add: fun_upd_idem owned_task_def return_def\<close>)
  next
    case (Some p)
    from calm_finish [where attempts = "sn_attempts env FINISHING" and t = "p_task_id p", OF assms(1) calm(1) assms(4) Some refl assms(5), where b = "task_of ?sv (Some (p_task_id p)) \<noteq> None"]
    obtain x st' where f: "finish (sn_attempts env FINISHING) (sx_mirrors s) k (p_task_id p) (task_of ?sv (Some (p_task_id p)) \<noteq> None)
        = (Inr x, st')" and x: "items_good st'" "mirror_map st' = (mirror_map (sx_mirrors s))(k \<mapsto> x)" "claims_apart x"
      "m_pending_action x = None" "m_mirror_id x = k"
      "m_active_task_id x = (if task_of ?sv (Some (p_task_id p)) \<noteq> None then Some (p_task_id p) else None)" by blast
    show thesis
      by (rule that [of st' x]) (use x f k Some kt in \<open>simp_all add: owned_task_def bind_def starter_task_def reading_def zoomed_def\<close>)
  qed
  let ?t = "owned_task ?sv r"
  have m1: "mirror_map st1 k = Some x1" using s1(2) by simp
  have t: "starter_task ?t (s\<lparr>sx_mirrors := st1\<rparr>) = (Inr (task_of ?sv ?t), s\<lparr>sx_mirrors := st1\<rparr>)"
    using kt by (simp add: starter_task_def reading_def)
  have "\<exists>x st'. (case ?t of None \<Rightarrow> return ()
      | Some task_id \<Rightarrow> if is_active (task_of ?sv ?t) then return ()
          else bind (on_items (\<lambda>st. clear_active (sn_attempts env CLEARING) st (m_mirror_id x1) task_id)) (\<lambda>_. return ()))
        (s\<lparr>sx_mirrors := st1\<rparr>) = (Inr (), s\<lparr>sx_mirrors := st'\<rparr>) \<and> items_good st'
     \<and> mirror_map st' = (mirror_map (sx_mirrors s))(k \<mapsto> x) \<and> claims_apart x \<and> settled_item ?sv r x"
  proof (cases ?t)
    case None
    then show ?thesis using s1 by (intro exI [of _ x1] exI [of _ st1]) (simp add: return_def settled_item_def)
  next
    case (Some task_id)
    show ?thesis
    proof (cases "is_active (task_of ?sv ?t)")
      case True
      then show ?thesis using s1 Some by (intro exI [of _ x1] exI [of _ st1]) (simp add: return_def settled_item_def)
    next
      case False
      from calm_clear [where attempts = "sn_attempts env CLEARING" and t = task_id, OF s1(1) calm(1) m1]
      obtain x st' where "clear_active (sn_attempts env CLEARING) st1 k task_id = (Inr x, st')" "items_good st'"
        "mirror_map st' = (mirror_map st1)(k \<mapsto> x)" "m_pending_action x = m_pending_action x1" "claims_apart x"
        "m_active_task_id x = (if m_active_task_id x1 = Some task_id then None else m_active_task_id x1)"
        using s1(3) by blast
      then show ?thesis using s1 Some False
        by (intro exI [of _ x] exI [of _ st']) (simp add: return_def bind_def zoomed_def settled_item_def)
    qed
  qed
  then show ?thesis using g e1 t s1(5) k unfolding reconcile_mirror_def by (simp add: bind_def)
qed


lemma settle_loop:
  assumes "items_good (sx_mirrors s)" and "store_ok (sv_store (sx_service s))" and "\<And>k. calm_env (env k)"
    and "\<And>k r. mirror_map (sx_mirrors s) k = Some r \<Longrightarrow> claims_apart r"
    and "\<And>r. r \<in> set rs \<Longrightarrow> mirror_map (sx_mirrors s) (m_mirror_id r) \<noteq> None" and "distinct (map m_mirror_id rs)"
  shows "\<exists>st'. reconcile_mirrors env rs s = (Inr (), s\<lparr>sx_mirrors := st'\<rparr>)
    \<and> (\<forall>k. k \<notin> m_mirror_id ` set rs \<longrightarrow> mirror_map st' k = mirror_map (sx_mirrors s) k)
    \<and> (\<forall>k \<in> m_mirror_id ` set rs. rel_option (settled_item (sx_service s)) (mirror_map (sx_mirrors s) k) (mirror_map st' k))"
  using assms
proof (induction rs arbitrary: s)
  case Nil
  then show ?case by (intro exI [of _ "sx_mirrors s"]) (simp add: return_def)
next
  case (Cons snapshot rest)
  let ?k = "m_mirror_id snapshot"
  obtain r where r: "mirror_map (sx_mirrors s) ?k = Some r" using Cons.prems(5) [of snapshot] by auto
  from settle_step [OF Cons.prems(1,2,3) r Cons.prems(4) [OF r], of ?k]
  obtain x st1 where e: "reconcile_mirror (env ?k) ?k s = (Inr (), s\<lparr>sx_mirrors := st1\<rparr>)" and g: "items_good st1"
    and m: "mirror_map st1 = (mirror_map (sx_mirrors s))(?k \<mapsto> x)" and x: "claims_apart x" "settled_item (sx_service s) r x" by blast
  have "\<exists>st'. reconcile_mirrors env rest (s\<lparr>sx_mirrors := st1\<rparr>) = (Inr (), (s\<lparr>sx_mirrors := st1\<rparr>)\<lparr>sx_mirrors := st'\<rparr>)
    \<and> (\<forall>k. k \<notin> m_mirror_id ` set rest \<longrightarrow> mirror_map st' k = mirror_map (sx_mirrors (s\<lparr>sx_mirrors := st1\<rparr>)) k)
    \<and> (\<forall>k \<in> m_mirror_id ` set rest. rel_option (settled_item (sx_service (s\<lparr>sx_mirrors := st1\<rparr>)))
        (mirror_map (sx_mirrors (s\<lparr>sx_mirrors := st1\<rparr>)) k) (mirror_map st' k))"
    by (rule Cons.IH) (use g Cons.prems(2-6) x(1) m in \<open>auto split: if_splits\<close>)
  then obtain st' where st': "reconcile_mirrors env rest (s\<lparr>sx_mirrors := st1\<rparr>) = (Inr (), s\<lparr>sx_mirrors := st'\<rparr>)"
    "\<And>k. k \<notin> m_mirror_id ` set rest \<Longrightarrow> mirror_map st' k = mirror_map st1 k"
    "\<And>k. k \<in> m_mirror_id ` set rest \<Longrightarrow> rel_option (settled_item (sx_service s)) (mirror_map st1 k) (mirror_map st' k)" by auto
  have fresh: "?k \<notin> m_mirror_id ` set rest" using Cons.prems(6) by auto
  show ?case
  proof (intro exI [of _ st'] conjI allI impI ballI)
    show "reconcile_mirrors env (snapshot # rest) s = (Inr (), s\<lparr>sx_mirrors := st'\<rparr>)" using e st'(1) by (simp add: bind_def)
    show "mirror_map st' k = mirror_map (sx_mirrors s) k" if "k \<notin> m_mirror_id ` set (snapshot # rest)" for k
      using st'(2) [of k] that m by simp
    show "rel_option (settled_item (sx_service s)) (mirror_map (sx_mirrors s) k) (mirror_map st' k)"
      if "k \<in> m_mirror_id ` set (snapshot # rest)" for k
    proof (cases "k = ?k")
      case True
      then show ?thesis using st'(2) [OF fresh] r x(2) m by simp
    next
      case False
      then show ?thesis using st'(3) [of k] that m by simp
    qed
  qed
qed

lemma restart_settles:
  assumes "items_good (sx_mirrors s)" and "store_ok (sv_store (sx_service s))" and "\<forall>k. calm_env (env k)"
    and "\<forall>k r. mirror_map (sx_mirrors s) k = Some r \<longrightarrow> claims_apart r"
    and "starter_reconcile READ_OK env s = (out, s')"
  shows "out = Inr () \<and> sx_service s' = sx_service s
    \<and> (\<forall>k. rel_option (settled_item (sx_service s)) (mirror_map (sx_mirrors s) k) (mirror_map (sx_mirrors s') k))"
proof -
  have ok: "mirror_ok (sx_mirrors s)" using assms(1) by (simp add: items_good_def)
  obtain records where l: "canonical_records READ_OK (sx_mirrors s) = Inr records" using canonical_total [OF ok] by blast
  have w: "dict_wf records" and m: "map_ok (map_of records)"
    using canonical_ok [OF ok l] by (simp_all add: records_ok_def)
  note map = canonical_map [OF l]
  have id: "m_mirror_id r = k" if "(k, r) \<in> set records" for k r
    using map_okD(1) [OF m] that w by (simp add: dict_mem_iff)
  have keys: "map m_mirror_id (dict_values records) = map fst records"
    using id by (auto simp: case_prod_beta)
  have stored: "mirror_map (sx_mirrors s) (m_mirror_id r) \<noteq> None" if "r \<in> set (dict_values records)" for r
    using that id w unfolding map by (metis dict_values_iff map_okD(1) [OF m] option.distinct(1))
  have d: "distinct (map m_mirror_id (dict_values records))" unfolding keys using w .
  have "\<exists>st'. reconcile_mirrors env (dict_values records) s = (Inr (), s\<lparr>sx_mirrors := st'\<rparr>)
    \<and> (\<forall>k. k \<notin> m_mirror_id ` set (dict_values records) \<longrightarrow> mirror_map st' k = mirror_map (sx_mirrors s) k)
    \<and> (\<forall>k \<in> m_mirror_id ` set (dict_values records).
        rel_option (settled_item (sx_service s)) (mirror_map (sx_mirrors s) k) (mirror_map st' k))"
    by (rule settle_loop [OF assms(1,2) _ _ stored d]) (use assms(3,4) in blast)+
  then obtain st' where st': "reconcile_mirrors env (dict_values records) s = (Inr (), s\<lparr>sx_mirrors := st'\<rparr>)"
    "\<And>k. k \<notin> m_mirror_id ` set (dict_values records) \<Longrightarrow> mirror_map st' k = mirror_map (sx_mirrors s) k"
    "\<And>k. k \<in> m_mirror_id ` set (dict_values records) \<Longrightarrow>
       rel_option (settled_item (sx_service s)) (mirror_map (sx_mirrors s) k) (mirror_map st' k)" by blast
  have e: "out = Inr ()" "s' = s\<lparr>sx_mirrors := st'\<rparr>"
    using assms(5) st'(1) by (simp_all add: starter_reconcile_def bind_def reading_def mirror_records_def l)
  have "m_mirror_id ` set (dict_values records) = fst ` set records" using keys by (metis list.set_map)
  then have "mirror_map (sx_mirrors s) k = None" if "k \<notin> m_mirror_id ` set (dict_values records)" for k
    using that by (simp add: map map_of_eq_None_iff)
  then have "rel_option (settled_item (sx_service s)) (mirror_map (sx_mirrors s) k) (mirror_map st' k)" for k
    using st'(2,3) [of k] by (cases "k \<in> m_mirror_id ` set (dict_values records)") simp_all
  then show ?thesis using e by simp
qed

section \<open>A start\<close>

text \<open>The other coroutines may do to a reserved item what they like, its reservation and its handled
  claims excepted.\<close>

definition both_ok :: "'c starter_state \<Rightarrow> bool" where
  "both_ok s \<longleftrightarrow> items_good (sx_mirrors s) \<and> service_ok (sx_service s)"

definition reserves :: "string \<Rightarrow> pending_action \<Rightarrow> 'c starter_state \<Rightarrow> bool" where
  "reserves k p s \<longleftrightarrow> (\<exists>r. mirror_map (sx_mirrors s) k = Some r \<and> m_pending_action r = Some p \<and> claims_apart r)"

definition settles :: "string \<Rightarrow> string option \<Rightarrow> 'c starter_state \<Rightarrow> bool" where
  "settles k t s \<longleftrightarrow> (\<exists>r. mirror_map (sx_mirrors s) k = Some r \<and> m_pending_action r = None \<and> m_active_task_id r = t)"

definition cooperative :: "'c starter_env \<Rightarrow> bool" where
  "cooperative env \<longleftrightarrow> (\<forall>w s. both_ok s \<longrightarrow> both_ok (sn_between env w s)
     \<and> (\<forall>k p. reserves k p s \<longrightarrow> reserves k p (sn_between env w s)))"

lemma calm_refused:
  assumes "items_good st" and "calm a" and "mirror_map st k = Some r" and "f r = Inl e"
  shows "attempt_cas a st k (m_revision r) f = (Inl e, st)"
proof -
  have ok: "mirror_ok st" "\<not> ms_callback st" using assms(1) by (simp_all add: items_good_def)
  obtain records where l: "canonical_records READ_OK st = Inr records" using canonical_total [OF ok(1)] by blast
  have "expect_mirror records k (m_revision r) = Inr r"
    using assms(3) canonical_map [OF l] by (simp add: expect_mirror_Inr)
  moreover have "me_read (at_env a) = READ_OK" "at_between a st = st"
    "at_during a (st\<lparr>ms_callback := True\<rparr>) = st\<lparr>ms_callback := True\<rparr>"
    using assms(2) by (simp_all add: calm_def undisturbed_def)
  moreover have "0 \<le> m_revision r"
    using map_valid [OF ok(1) assms(3)] by (simp add: valid_mirror_iff progress_ok_def)
  ultimately show ?thesis using assms(4) ok(2) l
    by (simp add: attempt_cas_def mirror_compare_and_set_def reject_callback_mutation_def guarded_def)
qed

lemma attach_kept:
  assumes "both_ok s" and "reserves k p s" and "calm (attempts 0)"
    and "\<And>x s'. both_ok s' \<Longrightarrow> reserves k p s' \<Longrightarrow> m_mirror_id x = k \<Longrightarrow> Q x s'"
    and "\<And>e s'. both_ok s' \<Longrightarrow> reserves k p s' \<Longrightarrow> E e s'"
  shows "wp (on_items (\<lambda>st. attach_thread attempts st k (p_task_id p) c)) Q E s"
proof -
  let ?st = "sx_mirrors s" and ?f = "\<lambda>r. make_mirror (r\<lparr>m_thread_id := Some c\<rparr>)"
  obtain r where r: "mirror_map ?st k = Some r" "m_pending_action r = Some p" "claims_apart r"
    using assms(2) by (auto simp: reserves_def)
  have good: "items_good ?st" using assms(1) by (simp add: both_ok_def)
  have id: "m_mirror_id r = k" by (rule item_id [OF good r(1)])
  have g: "get_mirror (at_get (attempts 0)) ?st k = Inr r"
    using get_mirror_Inr [of ?st k r] good assms(3) r(1) by (simp add: calm_def items_good_def)
  have same: "E e (s\<lparr>sx_mirrors := ?st\<rparr>)" for e using assms(1,2,5) by simp
  show ?thesis
  proof (cases "c \<le> 0 \<or> (\<exists>e. pending_decision (p_task_id p) (Some c) ?f (attempts 0) r = Raise e)")
    case True
    then have "\<exists>e. attach_thread attempts ?st k (p_task_id p) c = (Inl e, ?st)"
      using g by (cases "c \<le> 0") (auto simp: attach_thread_def update_pending_def upt_conv_Cons)
    then show ?thesis using same by (auto simp: wp_def zoomed_def)
  next
    case False
    then have d: "pending_decision (p_task_id p) (Some c) ?f (attempts 0) r = Update ?f"
      using r(2) by (auto simp: pending_decision_def matching_pending_def split: if_splits)
    show ?thesis
    proof (cases "?f r")
      case (Inl e)
      from calm_refused [where f = ?f, OF good assms(3) r(1) Inl] plain_make [OF Inl]
      have "attach_thread attempts ?st k (p_task_id p) c = (Inl e, ?st)"
        using g d False by (cases e) (simp_all add: attach_thread_def update_pending_def upt_conv_Cons)
      then show ?thesis using same by (simp add: wp_def zoomed_def)
    next
      case (Inr y)
      then have y: "y = r\<lparr>m_thread_id := Some c\<rparr>" "no_failure (mirror_checks y)" by (auto simp: make_mirror_Inr)
      have "claims_ok r" using map_valid [OF _ r(1)] good by (simp add: items_good_def valid_mirror_def)
      then have con: "constructed y" using y by (simp add: constructed_def claims_ok_def)
      have keeps: "keeps_claims ?f" by (rule keeps_make) (simp add: claims_fit_def)
      have im: "immutable_part r = immutable_part y" by (simp add: y(1) immutable_part_def)
      from calm_loop [where finished = id and f = ?f and attempts = attempts
          and decide = "pending_decision (p_task_id p) (Some c) ?f", OF good assms(3) r(1) d Inr con im keeps]
      obtain ts st' where l: "attach_thread attempts ?st k (p_task_id p) c = (Inr (stamped r y ts), st')"
        and st': "items_good st'" "mirror_map st' = (mirror_map ?st)(k \<mapsto> stamped r y ts)"
        using False by (auto simp: attach_thread_def update_pending_def)
      have "reserves k p (s\<lparr>sx_mirrors := st'\<rparr>)"
        using r(2,3) st'(2) by (auto simp: reserves_def y(1) stamped_def claims_apart_def dest!: set_mp [OF set_last_n])
      moreover have "both_ok (s\<lparr>sx_mirrors := st'\<rparr>)" using assms(1) st'(1) by (simp add: both_ok_def)
      moreover have "m_mirror_id (stamped r y ts) = k" by (simp add: y(1) stamped_def id)
      ultimately show ?thesis using assms(4) l by (simp add: wp_def zoomed_def)
    qed
  qed
qed

lemma finish_settles:
  assumes "both_ok s" and "reserves k p s" and "calm (attempts 0)"
    and "\<And>x s'. both_ok s' \<Longrightarrow> settles k (if b then Some (p_task_id p) else None) s'
      \<Longrightarrow> sx_service s' = sx_service s \<Longrightarrow> Q x s'"
  shows "wp (on_items (\<lambda>st. finish attempts st k (p_task_id p) b)) Q E s"
proof -
  obtain r where r: "mirror_map (sx_mirrors s) k = Some r" "m_pending_action r = Some p" "claims_apart r"
    using assms(2) by (auto simp: reserves_def)
  have good: "items_good (sx_mirrors s)" using assms(1) by (simp add: both_ok_def)
  from calm_finish [where attempts = attempts and t = "p_task_id p" and b = b, OF good assms(3) r(1,2) refl r(3)]
  obtain x st' where f: "finish attempts (sx_mirrors s) k (p_task_id p) b = (Inr x, st')"
    and st': "items_good st'" "mirror_map st' = (mirror_map (sx_mirrors s))(k \<mapsto> x)" "m_pending_action x = None"
      "m_active_task_id x = (if b then Some (p_task_id p) else None)" by blast
  have "both_ok (s\<lparr>sx_mirrors := st'\<rparr>)" using assms(1) st'(1) by (simp add: both_ok_def)
  moreover have "settles k (if b then Some (p_task_id p) else None) (s\<lparr>sx_mirrors := st'\<rparr>)"
    using st' by (auto simp: settles_def)
  ultimately show ?thesis using f assms(4) by (simp add: wp_def zoomed_def)
qed

text \<open>Until its task is started a launch only reserves; afterwards it settles.\<close>

lemma cooperative_kept:
  assumes "cooperative env" and "both_ok s" and "reserves k p s"
  shows "both_ok (sn_between env w s)" and "reserves k p (sn_between env w s)"
  using assms unfolding cooperative_def by blast+

lemma await_reserved:
  assumes "cooperative env" and "both_ok s" and "reserves k p s"
    and "\<And>x s'. both_ok s' \<Longrightarrow> reserves k p s' \<Longrightarrow> Q x s'" and "\<And>e s'. both_ok s' \<Longrightarrow> reserves k p s' \<Longrightarrow> E e s'"
  shows "wp (awaiting (v, sn_between env w)) Q E s" and "wp (modify (sn_between env w)) R E' s = R () (sn_between env w s)"
  using cooperative_kept [OF assms(1-3)] assms(4,5) by (simp_all add: wp_basic split: sum.split)

lemma service_start_reserved:
  assumes "both_ok s" and "reserves k p s"
    and "\<And>x s'. both_ok s' \<Longrightarrow> reserves k p s' \<Longrightarrow> Q x s'" and "\<And>e s'. both_ok s' \<Longrightarrow> reserves k p s' \<Longrightarrow> E e s'"
  shows "wp (on_service (start env q)) Q E s"
  using kept_start [where env = env and q = q and s = "sx_service s" and Q = "\<lambda>_. service_ok" and E = "\<lambda>_. service_ok"]
    assms by (auto simp: wp_def zoomed_def both_ok_def reserves_def split: prod.splits sum.splits)

lemma launch_settles:
  assumes "both_ok s" and "reserves k p s" and "m_mirror_id r = k" and "calm_env env" and "cooperative env"
  shows "wp (launch env action r card_msg g actor trigger instruction (p_task_id p))
    (\<lambda>_ s'. both_ok s' \<and> settles k (Some (p_task_id p)) s') (\<lambda>_ s'. both_ok s' \<and> reserves k p s') s"
proof -
  have calm: "calm (sn_attempts env c 0)" for c using assms(4) by (simp add: calm_env_def)
  show ?thesis
    unfolding launch_def using assms(1-3)
    by (auto simp: wp_simps split: sum.split
        intro!: attach_kept calm await_reserved(1) [OF assms(5)] service_start_reserved finish_settles
        cooperative_kept [OF assms(5)])
qed

lemma failed_start_settles:
  assumes "both_ok s" and "reserves k p s" and "calm_env env"
  shows "wp (settle_failed_start env k (p_task_id p))
    (\<lambda>_ s'. settles k (if task_of (sx_service s') (Some (p_task_id p)) = None then None else Some (p_task_id p)) s') E s"
proof -
  have calm: "calm (sn_attempts env c 0)" for c using assms(3) by (simp add: calm_env_def)
  have "store_ok (sv_store (sx_service s))" using assms(1) by (simp add: both_ok_def service_ok_def)
  note kt = known_task_total [OF this]
  show ?thesis unfolding settle_failed_start_def starter_task_def using assms(1,2)
    by (auto simp: wp_simps kt intro!: finish_settles calm)
qed

text \<open>An item nobody has reserved, for an interaction it has not handled.\<close>

definition free_for :: "int \<Rightarrow> mirror_record \<Rightarrow> bool" where
  "free_for interaction r \<longleftrightarrow> m_state r \<in> {OPEN, DRAFT} \<and> m_pending_action r = None \<and> m_active_task_id r = None
     \<and> interaction \<notin> h_interaction_id ` set (m_handled_claims r) \<and> 0 < interaction \<and> interaction < 2 ^ 64"

lemma reserve_reserves:
  assumes "both_ok s" and "calm (attempts 0)" and "mirror_map (sx_mirrors s) k = Some r" and "free_for interaction r"
    and "canonical_uuid t"
  shows "\<exists>v s' p. on_items (\<lambda>st. reserve attempts st k interaction action t) s = (Inr v, s') \<and> rv_accepted v
    \<and> m_mirror_id (rv_record v) = k \<and> both_ok s' \<and> p_task_id p = t \<and> reserves k p s'"
proof -
  have good: "items_good (sx_mirrors s)" using assms(1) by (simp add: both_ok_def)
  then have ok: "mirror_ok (sx_mirrors s)" by (simp add: items_good_def)
  have fr: "m_state r \<in> {OPEN, DRAFT}" "m_pending_action r = None" "m_active_task_id r = None"
    "interaction \<notin> h_interaction_id ` set (m_handled_claims r)" "0 < interaction" "interaction < 2 ^ 64"
    using assms(4) by (auto simp: free_for_def)
  obtain p where p: "p_interaction_id p = interaction" "p_task_id p = t"
    "reserve_decision interaction action t (attempts 0) r = Update (\<lambda>r. make_mirror (r\<lparr>m_pending_action := Some p\<rparr>))"
    "constructed (r\<lparr>m_pending_action := Some p\<rparr>)"
    "make_mirror (r\<lparr>m_pending_action := Some p\<rparr>) = Inr (r\<lparr>m_pending_action := Some p\<rparr>)" "no_failure (pending_checks p)"
    by (rule free_decision [OF ok assms(2,3) fr(1-4) assms(5) fr(5,6)])
  let ?f = "\<lambda>r. make_mirror (r\<lparr>m_pending_action := Some p\<rparr>)" and ?c = "r\<lparr>m_pending_action := Some p\<rparr>"
  let ?done = "\<lambda>r. \<lparr>rv_record = r, rv_task_id = t, rv_accepted = True, rv_succeeded = None\<rparr>"
  have keeps: "keeps_claims ?f" by (rule keeps_make) (use p(6) in \<open>simp add: claims_fit_def\<close>)
  have im: "immutable_part r = immutable_part ?c" by (simp add: immutable_part_def)
  from calm_loop [where finished = ?done and f = ?f and attempts = attempts and decide = "reserve_decision interaction action t",
      OF good assms(2,3) p(3,5,4) im keeps]
  obtain ts st' where l: "reserve attempts (sx_mirrors s) k interaction action t = (Inr (?done (stamped r ?c ts)), st')"
    and st': "items_good st'" "mirror_map st' = (mirror_map (sx_mirrors s))(k \<mapsto> stamped r ?c ts)"
    using assms(5) by (auto simp: reserve_def canonical_task_id_def guarded_def)
  have "reserves k p (s\<lparr>sx_mirrors := st'\<rparr>)" using st'(2) fr(4) p(1)
    by (auto simp: reserves_def stamped_def claims_apart_def dest!: set_mp [OF set_last_n])
  moreover have "both_ok (s\<lparr>sx_mirrors := st'\<rparr>)" using assms(1) st'(1) by (simp add: both_ok_def)
  moreover have "m_mirror_id (stamped r ?c ts) = k" by (simp add: stamped_def item_id [OF good assms(3)])
  ultimately show ?thesis using l p(2)
    by (intro exI [of _ "?done (stamped r ?c ts)"] exI [of _ "s\<lparr>sx_mirrors := st'\<rparr>"] exI [of _ p])
       (simp add: zoomed_def)
qed

lemma start_settles_item:
  assumes "both_ok s" and "calm_env env" and "cooperative env" and "mirror_map (sx_mirrors s) k = Some r"
    and "free_for trigger r" and "0 \<le> sn_uuid env" and "sn_uuid env < 2 ^ 128"
    and "starter_start env action r card_msg g actor trigger instruction s = (out, s')"
  shows "case mirror_map (sx_mirrors s') k of None \<Rightarrow> False | Some r' \<Rightarrow> m_pending_action r' = None
    \<and> m_active_task_id r' = (if isl out \<and> task_of (sx_service s') (Some (uuid_str (sn_uuid env))) = None then None
        else Some (uuid_str (sn_uuid env)))"
proof -
  let ?t = "uuid_str (sn_uuid env)"
  have calm: "calm (sn_attempts env c 0)" for c using assms(2) by (simp add: calm_env_def)
  have u: "canonical_uuid ?t" using uuid_parse_str assms(6,7) by (simp add: canonical_uuid_def)
  have k: "m_mirror_id r = k" using item_id [OF _ assms(4)] assms(1) by (simp add: both_ok_def)
  obtain v s1 p where v: "on_items (\<lambda>st. reserve (sn_attempts env RESERVING) st k trigger action ?t) s = (Inr v, s1)"
    "rv_accepted v" "m_mirror_id (rv_record v) = k" "both_ok s1" "p_task_id p = ?t" "reserves k p s1"
    using reserve_reserves [where attempts = "sn_attempts env RESERVING", OF assms(1) calm assms(4,5) u] by blast
  have none: "m_active_task_id r = None" using assms(5) by (simp add: free_for_def)
  then have a: "active_task r s = (Inr None, s)" "clear_stale_active env r s = (Inr r, s)"
    by (simp_all add: active_task_def starter_task_def known_task_def bind_def reading_def return_def is_active_def
        clear_stale_active_def)
  let ?launch = "launch env action (rv_record v) card_msg g actor trigger instruction ?t"
  let ?run = "on_error ?launch (settle_failed_start env k ?t)"
  have w: "wp ?run (\<lambda>_. settles k (Some ?t))
     (\<lambda>_ s'. settles k (if task_of (sx_service s') (Some ?t) = None then None else Some ?t) s') s1"
    unfolding wp_try_catch wp_bind wp_basic
    by (rule wp_mono [OF launch_settles [OF v(4,6,3) assms(2,3), of action card_msg g actor trigger instruction, unfolded v(5)]])
       (use failed_start_settles [OF _ _ assms(2), of _ k p, unfolded v(5)] in blast)+
  have "bind ?run (\<lambda>thread. return (task_response (''Started `'' @ action_text action @ ''`'') ?t (Some (ch_id thread)))) s1
      = (out, s')"
    using assms(8) a v(1-3) k by (simp add: starter_start_def Let_def bind_def try_catch_def return_def)
  with w show ?thesis
    by (auto simp: bind_def return_def wp_def settles_def split: prod.splits sum.splits)
qed

section \<open>What is promised\<close>

text \<open>
  C6. After a restart nothing is left reserved. Provided that the store of the items works meanwhile (its file can be
  read and written, the clock works, and the first compare-and-set of each operation meets no other
  writer) and that no item lists the interaction it is reserved for among those it has handled, the method
  \<open>reconcile_startup\<close> ends without an exception, leaves the tasks alone and, for every item, removes the pending action;
  the item keeps an active task exactly when the task it was reserved for, or was running, exists and is
  still active.
\<close>

theorem restart_settles_items:
  assumes "items_good (sx_mirrors s)" and "store_ok (sv_store (sx_service s))" and "\<forall>k. calm_env (env k)"
    and "\<forall>k r. mirror_map (sx_mirrors s) k = Some r \<longrightarrow> claims_apart r"
    and "starter_reconcile READ_OK env s = (out, s')"
  shows "out = Inr () \<and> sx_service s' = sx_service s
    \<and> (\<forall>k. rel_option (settled_item (sx_service s)) (mirror_map (sx_mirrors s) k) (mirror_map (sx_mirrors s') k))"
  using restart_settles [OF assms] .

text \<open>
  C5. The two stores agree after a start of a free item during which the store of the items works: its file can be read
  and written, the clock works, and the first compare-and-set of each operation on the item meets no other
  writer. Whatever Discord, the checkout, the prompt and the task service answer, and whatever other coroutines do
  between the operations while they keep the invariants of both stores and leave reservations in place: no action
  stays pending, and the item is bound to the new task exactly when the start succeeded, or failed after
  the task had been created.
\<close>

theorem start_settles_reservation:
  assumes "both_ok s" and "calm_env env" and "cooperative env" and "mirror_map (sx_mirrors s) k = Some r"
    and "free_for trigger r" and "0 \<le> sn_uuid env" and "sn_uuid env < 2 ^ 128"
    and "starter_start env action r card_msg g actor trigger instruction s = (out, s')"
  shows "case mirror_map (sx_mirrors s') k of None \<Rightarrow> False | Some r' \<Rightarrow> m_pending_action r' = None
    \<and> m_active_task_id r' = (if isl out \<and> task_of (sx_service s') (Some (uuid_str (sn_uuid env))) = None then None
        else Some (uuid_str (sn_uuid env)))"
  using start_settles_item [OF assms] .

text \<open>
  C39. A mention that is no reply is captured by an item without a card:
  \<open>_record_for_message\<close> compares the missing reference with the missing card and takes the item, so the member is told that
  the item has no card and the message is never handled as a normal request.
\<close>

theorem plain_mention_captured:
  assumes "cg_guild message = Some g" and "cg_reference message = None"
    and "mirror_records (sn_read env) (sx_mirrors s) = Inr records"
    and "filter (\<lambda>r. m_guild_id r = g_id g \<and> m_channel_id r = cg_channel_id message \<and> m_card_message_id r = None) records = [r]"
  shows "start_from_message env bot_id message prompt s
    = (Inr (Some (Says ''This GitHub item has no current Discord card.'')), sn_between env AT_CARD s)"
proof -
  have f: "referenced_records records g message = [r]" using assms(2,4) by (simp add: referenced_records_def)
  have "r \<in> set [r]" by simp
  then have "m_card_message_id r = None" unfolding assms(4) [symmetric] by simp
  then have "fetch_card_message (sn_client env) r g
      = Inl (GitHubMirrorDiscordError ''This GitHub item has no current Discord card.'')" by (simp add: fetch_card_message_def)
  moreover have "record_for_message bot_id records message = Inr (Some r)"
    by (simp add: record_for_message_def assms(1) f)
  ultimately show ?thesis
    by (simp add: start_from_message_def try_catch_def bind_def reading_def assms(1,3) awaiting_def return_def
        safe_reply_def public_error_def is_runtime_error_def is_exception_def)
qed

section \<open>An item in use\<close>

definition example_starter_env :: "unit starter_env" where
  "example_starter_env = \<lparr>sn_uuid = 2, sn_defer = Inr (), sn_client = example_client,
     sn_attributes = (\<lambda>c. \<lparr>ca_id = Some (ch_id c), ca_name = None, ca_class = ''Thread'', ca_is_thread = True,
       ca_parent_id = ch_parent_id c, ca_category_id = None\<rparr>),
     sn_checkout = example_checkout, sn_read = READ_OK, sn_attempts = (\<lambda>_ _. example_attempt),
     sn_service = example_action, sn_between = (\<lambda>_. id)\<rparr>"

lemma example_starter_calm: "calm_env example_starter_env" "cooperative example_starter_env"
  using example_calm(1) by (simp_all add: calm_env_def cooperative_def example_starter_env_def)

definition item_and_service :: "mirror_store \<Rightarrow> unit starter_state" where
  "item_and_service st = \<lparr>sx_mirrors = st, sx_service = idle_service\<rparr>"

lemma item_and_service_ok: "items_good st \<Longrightarrow> both_ok (item_and_service st)"
  using empty_store_ok by (simp add: both_ok_def item_and_service_def service_ok_def idle_service_parts)

lemma first_items_good: "items_good first_store"
  using first_store_ok first_flag by (simp add: items_good_def)

text \<open>A start that finds another card: the reservation is given back.\<close>

theorem start_settles_reservation_witness:
  "\<exists>out s' r'. starter_start example_starter_env M_REVIEW first_mirror example_card MirrorDiscord.example_guild (Some 8) 9 None
       (item_and_service first_store) = (out, s')
     \<and> mirror_map (sx_mirrors s') (m_mirror_id first_mirror) = Some r' \<and> m_pending_action r' = None"
proof -
  let ?s = "item_and_service first_store"
  obtain out s' where e: "starter_start example_starter_env M_REVIEW first_mirror example_card MirrorDiscord.example_guild
      (Some 8) 9 None ?s = (out, s')" by fastforce
  have m: "mirror_map (sx_mirrors ?s) (m_mirror_id first_mirror) = Some first_mirror"
    using first_lookup by (simp add: item_and_service_def)
  have f: "free_for 9 first_mirror" using first_free by (auto simp: free_for_def)
  have u: "0 \<le> sn_uuid example_starter_env" "sn_uuid example_starter_env < 2 ^ 128" by (simp_all add: example_starter_env_def)
  from start_settles_reservation [OF item_and_service_ok [OF first_items_good] example_starter_calm m f u e] e
  show ?thesis by (auto split: option.splits)
qed

text \<open>The task the item was reserved for was never created.\<close>

theorem restart_settles_items_witness:
  "\<exists>s' r'. starter_reconcile READ_OK (\<lambda>_. example_starter_env) (item_and_service reserved_store) = (Inr (), s')
     \<and> mirror_map (sx_mirrors s') (m_mirror_id first_mirror) = Some r'
     \<and> m_pending_action r' = None \<and> m_active_task_id r' = None"
proof -
  let ?s = "item_and_service reserved_store" and ?k = "m_mirror_id first_mirror"
  obtain out s' where e: "starter_reconcile READ_OK (\<lambda>_. example_starter_env) ?s = (out, s')" by fastforce
  have v: "valid_mirror reserved_mirror" by code_simp
  have "m_mirror_id reserved_mirror = ?k" by (simp add: reserved_mirror_def)
  note ok = single_ok [OF v this]
  have good: "items_good reserved_store" using holding_ok(1) [OF ok] first_flag by (simp add: items_good_def)
  have m: "mirror_map (sx_mirrors ?s) = [?k \<mapsto> reserved_mirror]" using holding_ok(2) [OF ok] by (simp add: item_and_service_def)
  have a: "\<forall>k r. mirror_map (sx_mirrors ?s) k = Some r \<longrightarrow> claims_apart r"
    unfolding m by (simp add: claims_apart_def reserved_mirror_def first_free(4))
  have g: "items_good (sx_mirrors ?s)" "store_ok (sv_store (sx_service ?s))"
    using item_and_service_ok [OF good] by (simp_all add: both_ok_def service_ok_def)
  have c: "\<forall>k::string. calm_env example_starter_env" using example_starter_calm(1) by blast
  have t: "is_active (task_of (sx_service ?s) (Some example_task_id)) = False"
    "task_of (sx_service ?s) (Some example_task_id) = None"
    by code_simp+
  from restart_settles_items [OF g c a e] have r: "out = Inr ()"
    "rel_option (settled_item (sx_service ?s)) (mirror_map (sx_mirrors ?s) ?k) (mirror_map (sx_mirrors s') ?k)" by blast+
  from r(2) obtain r' where "mirror_map (sx_mirrors s') ?k = Some r'" "settled_item (sx_service ?s) reserved_mirror r'"
    by (auto simp: m option_rel_Some1)
  then show ?thesis using e r(1) t by (auto simp: settled_item_def owned_task_def reserved_mirror_def is_active_def)
qed

definition example_mention :: chat_message where
  "example_mention = \<lparr>cg_id = 11, cg_guild = Some MirrorDiscord.example_guild, cg_channel_id = 6, cg_reference = None,
     cg_mentions = [9], cg_author = Some 8\<rparr>"

theorem plain_mention_captured_witness:
  "fst (start_from_message example_starter_env (Some 9) example_mention ''hello'' (item_and_service first_store))
     = Inr (Some (Says ''This GitHub item has no current Discord card.''))"
proof -
  let ?s = "item_and_service first_store"
  have r: "mirror_records (sn_read example_starter_env) (sx_mirrors ?s) = Inr [first_mirror]"
    using holding_ok(3) [OF first_records_ok]
    by (simp add: mirror_records_def example_starter_env_def item_and_service_def sorted_dict_def)
  have f: "filter (\<lambda>r. m_guild_id r = g_id MirrorDiscord.example_guild \<and> m_channel_id r = cg_channel_id example_mention
      \<and> m_card_message_id r = None) [first_mirror] = [first_mirror]"
    by (simp add: first_mirror_def first_record_def MirrorDiscord.example_guild_def example_mention_def)
  have m: "cg_guild example_mention = Some MirrorDiscord.example_guild" "cg_reference example_mention = None"
    by (simp_all add: example_mention_def)
  from plain_mention_captured [OF m r f] show ?thesis by simp
qed

end
