(* ===== verification/DeliveryCache.thy ===== *)
theory DeliveryCache
  imports TaskRuntime
begin

text \<open>
  \<open>discord_delivery_cache.py\<close>, \<open>discord_delivery_resources.py\<close>, \<open>discord_delivery_entries.py\<close> and
  \<open>discord_generated_registry.py\<close>: who owns a reply, its open files and the file the gateway generated for it,
  from the moment the agent has answered until Discord has taken it. Each region under a lock is one step;
  what other threads do between two of them is part of the environment, as is what the file system answers.
\<close>

section \<open>Replies and their files\<close>

type_synonym path_reservation = "int \<times> int \<times> string"
type_synonym file_reservation = "int \<times> int"

text \<open>A generated file in its quarantine. \<open>ow_id\<close> identifies the object.\<close>

record ownership =
  ow_id :: nat
  ow_path :: path_reservation
  ow_file :: file_reservation
  ow_quarantine :: string

record pinned_file =
  pf_source :: string
  pf_name :: string
  pf_size :: int

record lease =
  ls_files :: "pinned_file list"
  ls_streams_closed :: bool
  ls_released :: bool
  ls_cache_owned :: bool

record cached_reply =
  ce_reply :: prepared_reply
  ce_index :: "nat option"
  ce_generated :: "ownership option"
  ce_lease :: "nat option"
  ce_roots :: "string list option"
  ce_max_bytes :: "int option"

record transferred_reply =
  tr_task_id :: string
  tr_entry :: cached_reply
  tr_reply :: prepared_reply
  tr_roots :: "string list"
  tr_max_bytes :: int

text \<open>The cache with its registry of generated files (\<open>cc_paths\<close>, \<open>cc_files\<close>, \<open>cc_pending\<close>). A lease is
  known by its identity; \<open>cc_leases\<close> holds the leases that were ever made, \<open>cc_cleaned\<close> the generated files
  that were removed.\<close>

record delivery =
  cc_entries :: "(string, cached_reply) pydict"
  cc_processing :: "string list"
  cc_transferred :: "(nat, transferred_reply) pydict"
  cc_paths :: "path_reservation list"
  cc_files :: "file_reservation list"
  cc_pending :: "(nat, ownership) pydict"
  cc_closed :: bool
  cc_leases :: "(nat, lease) pydict"
  cc_cleaned :: "nat list"

definition empty_delivery :: delivery where
  "empty_delivery = \<lparr>cc_entries = [], cc_processing = [], cc_transferred = [], cc_paths = [], cc_files = [],
     cc_pending = [], cc_closed = False, cc_leases = [], cc_cleaned = []\<rparr>"

abbreviation MAX_DISCORD_ATTACHMENTS :: nat where "MAX_DISCORD_ATTACHMENTS \<equiv> 10"

section \<open>Generated files\<close>

text \<open>What \<open>quarantine\<close> does: the file is owned, it failed and left something to clean up, or it failed.\<close>

datatype quarantine = Quarantined nat string | Cleanup_Pending nat string exn | Quarantine_Failed exn

record put_env =
  pe_same :: "nat list"
  pe_candidate :: "(path_reservation \<times> file_reservation) result"
  pe_quarantine :: quarantine

definition ownership_error :: "exn \<Rightarrow> exn" where
  "ownership_error e = (case e of
      DeliveryFileError m \<Rightarrow> DiscordDeliveryCacheError m
    | _ \<Rightarrow> if is_exception e
        then DiscordDeliveryCacheError ''Generated Discord reply ownership could not be established safely'' else e)"

definition quarantine_error :: "exn \<Rightarrow> exn" where
  "quarantine_error e = (case e of DiscordDeliveryCacheError _ \<Rightarrow> e | _ \<Rightarrow> ownership_error e)"

definition reserve_ownership :: "ownership \<Rightarrow> delivery \<Rightarrow> delivery" where
  "reserve_ownership g s = s\<lparr>cc_paths := List.insert (ow_path g) (cc_paths s),
     cc_files := List.insert (ow_file g) (cc_files s)\<rparr>"

definition release_ownership :: "ownership \<Rightarrow> delivery \<Rightarrow> delivery" where
  "release_ownership g s = s\<lparr>cc_paths := removeAll (ow_path g) (cc_paths s),
     cc_files := removeAll (ow_file g) (cc_files s)\<rparr>"

definition register_pending :: "ownership \<Rightarrow> delivery \<Rightarrow> delivery" where
  "register_pending g s = (reserve_ownership g s)\<lparr>cc_pending := AList.update (ow_id g) g (cc_pending s)\<rparr>"

definition acquire :: "put_env \<Rightarrow> (delivery, ownership) prog" where
  "acquire env =
    (case pe_candidate env of
       Inl e \<Rightarrow> raise (ownership_error e)
     | Inr (path, file) \<Rightarrow>
         bind (reading (\<lambda>s. guarded (path \<notin> set (cc_paths s) \<and> file \<notin> set (cc_files s))
           (DiscordDeliveryCacheError ''Generated Discord reply file is already owned''))) (\<lambda>_.
         case pe_quarantine env of
           Quarantined i q \<Rightarrow>
             let g = \<lparr>ow_id = i, ow_path = path, ow_file = file, ow_quarantine = q\<rparr>
             in bind (modify (reserve_ownership g)) (\<lambda>_. return g)
         | Cleanup_Pending i q original \<Rightarrow>
             bind (modify (register_pending \<lparr>ow_id = i, ow_path = path, ow_file = file, ow_quarantine = q\<rparr>)) (\<lambda>_.
             raise (if is_exception original
               then DiscordDeliveryCacheError ''Generated Discord reply cleanup is pending'' else original))
         | Quarantine_Failed e \<Rightarrow> raise (quarantine_error e)))"

text \<open>\<open>GeneratedFileOwnership.cleanup\<close>; \<open>outcome\<close> is what removing the file and its directory does.\<close>

definition cleanup_generated :: "unit result \<Rightarrow> ownership \<Rightarrow> (delivery, unit) prog" where
  "cleanup_generated outcome g =
    bind (reading (\<lambda>s. Inr (ow_id g \<in> set (cc_cleaned s)))) (\<lambda>already.
    if already then return ()
    else bind (from_result outcome) (\<lambda>_. modify (\<lambda>s. s\<lparr>cc_cleaned := ow_id g # cc_cleaned s\<rparr>)))"

section \<open>Caching a reply\<close>

definition cache_put_checks :: "string \<Rightarrow> prepared_reply \<Rightarrow> delivery \<Rightarrow> (bool \<times> exn) list" where
  "cache_put_checks task_id reply s =
    [(cc_closed s, DiscordDeliveryCacheError ''Discord delivery cache is closed''),
     (task_id \<in> set (dict_keys (cc_entries s)), DiscordDeliveryCacheError ''Discord task reply is already cached''),
     (list_ex (\<lambda>t. tr_task_id t = task_id) (dict_values (cc_transferred s)),
       DiscordDeliveryCacheError ''Discord task reply is already in flight''),
     (task_id = [], DiscordDeliveryCacheError ''Discord delivery cache task ID is invalid''),
     (MAX_DISCORD_ATTACHMENTS < length (pr_files reply),
       DiscordDeliveryCacheError ''Discord delivery replies accept at most 10 files''),
     (pr_lease reply \<noteq> None, DiscordDeliveryCacheError ''Discord delivery reply already has an active lease'')]"

text \<open>\<open>same\<close> are the positions at which \<open>reply.files\<close> holds the very object \<open>reply.generated_file\<close>.\<close>

definition generated_index :: "nat list \<Rightarrow> prepared_reply \<Rightarrow> nat option result" where
  "generated_index same reply =
    (case pr_generated_file reply of
       None \<Rightarrow> Inr None
     | Some _ \<Rightarrow> (case same of
           [i] \<Rightarrow> Inr (Some i)
         | _ \<Rightarrow> Inl (DiscordDeliveryCacheError
             ''Generated Discord reply must be the same reply-file object exactly once'')))"

definition cache_put :: "put_env \<Rightarrow> string \<Rightarrow> prepared_reply \<Rightarrow> (delivery, unit) prog" where
  "cache_put env task_id reply =
    bind (reading (\<lambda>s. raise_first (cache_put_checks task_id reply s))) (\<lambda>_.
    bind (from_result (generated_index (pe_same env) reply)) (\<lambda>index.
    bind (case index of None \<Rightarrow> return None | Some _ \<Rightarrow> bind (acquire env) (\<lambda>g. return (Some g))) (\<lambda>generated.
    modify (\<lambda>s. s\<lparr>cc_entries := AList.update task_id
      \<lparr>ce_reply = reply, ce_index = index, ce_generated = generated, ce_lease = None, ce_roots = None,
       ce_max_bytes = None\<rparr> (cc_entries s)\<rparr>))))"

section \<open>Claims\<close>

definition claim_entry :: "bool \<Rightarrow> string \<Rightarrow> (delivery, cached_reply option) prog" where
  "claim_entry allow_closed task_id =
    (\<lambda>s. if (cc_closed s \<and> \<not> allow_closed) \<or> task_id \<in> set (cc_processing s) then (Inr None, s)
      else (case map_of (cc_entries s) task_id of
          None \<Rightarrow> (Inr None, s)
        | Some e \<Rightarrow> (Inr (Some e), s\<lparr>cc_processing := task_id # cc_processing s\<rparr>)))"

definition unclaim :: "string \<Rightarrow> (delivery, unit) prog" where
  "unclaim task_id = modify (\<lambda>s. s\<lparr>cc_processing := removeAll task_id (cc_processing s)\<rparr>)"

definition remove_claimed :: "string \<Rightarrow> cached_reply \<Rightarrow> bool \<Rightarrow> delivery \<Rightarrow> delivery" where
  "remove_claimed task_id entry release_reservation s =
    (let s1 = (if map_of (cc_entries s) task_id = Some entry
         then s\<lparr>cc_entries := AList.delete task_id (cc_entries s)\<rparr> else s);
       s2 = s1\<lparr>cc_processing := removeAll task_id (cc_processing s1)\<rparr>
     in (case ce_generated entry of
        None \<Rightarrow> s2
      | Some g \<Rightarrow> if release_reservation then release_ownership g s2 else s2))"

section \<open>Leases\<close>

text \<open>What closing a lease meets: the outcome of closing each stream, that of removing the generated
  file, and what other threads do meanwhile, at two points, to everything but this lease.\<close>

record close_env =
  xe_streams :: "unit result list"
  xe_cleanup :: "unit result"
  xe_before :: "nat \<Rightarrow> delivery \<Rightarrow> delivery"
  xe_after :: "nat \<Rightarrow> delivery \<Rightarrow> delivery"

fun first_error :: "unit result list \<Rightarrow> exn option" where
  "first_error [] = None"
| "first_error (Inl e # rest) = Some e"
| "first_error (Inr _ # rest) = first_error rest"

definition lease_at :: "delivery \<Rightarrow> nat \<Rightarrow> lease" where
  "lease_at s l = (case map_of (cc_leases s) l of Some x \<Rightarrow> x
     | None \<Rightarrow> \<lparr>ls_files = [], ls_streams_closed = True, ls_released = True, ls_cache_owned = False\<rparr>)"

definition set_lease :: "nat \<Rightarrow> (lease \<Rightarrow> lease) \<Rightarrow> delivery \<Rightarrow> delivery" where
  "set_lease l f s = s\<lparr>cc_leases := AList.update l (f (lease_at s l)) (cc_leases s)\<rparr>"

definition unsafe_cleanup :: exn where
  "unsafe_cleanup = DiscordDeliveryCacheError ''Discord delivery files could not be cleaned up safely''"

definition release_transferred :: "close_env \<Rightarrow> nat \<Rightarrow> (delivery, unit) prog" where
  "release_transferred env l =
    bind (reading (\<lambda>s. case map_of (cc_transferred s) l of
        None \<Rightarrow> Inl (DiscordDeliveryCacheError ''Discord delivery lease ownership was lost'')
      | Some t \<Rightarrow> Inr t)) (\<lambda>t.
    bind (modify (xe_before env l)) (\<lambda>_.
    bind (case ce_generated (tr_entry t) of
        None \<Rightarrow> return ()
      | Some g \<Rightarrow> try_catch (cleanup_generated (xe_cleanup env) g)
          (\<lambda>e. if is_exception e then raise unsafe_cleanup else raise e)) (\<lambda>_.
    bind (modify (xe_after env l)) (\<lambda>_.
    modify (\<lambda>s. if map_of (cc_transferred s) l = Some t
      then (let s1 = s\<lparr>cc_transferred := AList.delete l (cc_transferred s)\<rparr>
            in (case ce_generated (tr_entry t) of None \<Rightarrow> s1 | Some g \<Rightarrow> release_ownership g s1))
      else s)))))"

text \<open>\<open>_close_locked\<close>: the streams and the release are tried independently, the first error is raised.\<close>

definition close_streams :: "close_env \<Rightarrow> nat \<Rightarrow> (delivery, exn option) prog" where
  "close_streams env l =
    bind (reading (\<lambda>s. Inr (lease_at s l))) (\<lambda>x.
    if ls_streams_closed x then return None
    else (case first_error (take (length (ls_files x)) (xe_streams env)) of
        None \<Rightarrow> bind (modify (set_lease l (\<lambda>x. x\<lparr>ls_streams_closed := True\<rparr>))) (\<lambda>_. return None)
      | Some e \<Rightarrow> return (Some e)))"

definition release_lease :: "close_env \<Rightarrow> nat \<Rightarrow> exn option \<Rightarrow> (delivery, exn option) prog" where
  "release_lease env l first =
    bind (reading (\<lambda>s. Inr (ls_released (lease_at s l)))) (\<lambda>already.
    if already then return first
    else try_catch
      (bind (release_transferred env l) (\<lambda>_.
       bind (modify (set_lease l (\<lambda>x. x\<lparr>ls_released := True\<rparr>))) (\<lambda>_. return first)))
      (\<lambda>e. return (case first of None \<Rightarrow> Some e | Some f \<Rightarrow> Some f)))"

definition close_locked :: "close_env \<Rightarrow> nat \<Rightarrow> (delivery, unit) prog" where
  "close_locked env l =
    bind (close_streams env l) (\<lambda>first.
    bind (release_lease env l first) (\<lambda>first.
    case first of None \<Rightarrow> return () | Some e \<Rightarrow> raise e))"

definition lease_close_call :: "close_env \<Rightarrow> nat \<Rightarrow> (delivery, unit) prog" where
  "lease_close_call env l =
    bind (reading (\<lambda>s. guarded (\<not> ls_cache_owned (lease_at s l))
      (DiscordDeliveryLeaseError ''Discord delivery cache owns this lease''))) (\<lambda>_. close_locked env l)"

definition close_from_cache :: "close_env \<Rightarrow> nat \<Rightarrow> (delivery, unit) prog" where
  "close_from_cache env l =
    bind (reading (\<lambda>s. guarded (ls_cache_owned (lease_at s l))
      (DiscordDeliveryLeaseError ''Discord delivery lease is not owned by the cache''))) (\<lambda>_.
    bind (close_locked env l) (\<lambda>_. modify (set_lease l (\<lambda>x. x\<lparr>ls_cache_owned := False\<rparr>))))"

definition lease_closed :: "nat \<Rightarrow> delivery \<Rightarrow> bool" where
  "lease_closed l s \<longleftrightarrow> ls_streams_closed (lease_at s l) \<and> ls_released (lease_at s l)"

text \<open>\<open>seek\<close> is the outcome of rewinding the streams.\<close>

definition reclaim_for_cache :: "unit result \<Rightarrow> nat \<Rightarrow> (delivery, unit) prog \<Rightarrow> (delivery, unit) prog" where
  "reclaim_for_cache seek l restore =
    bind (reading (\<lambda>s. and_then (guarded (\<not> ls_cache_owned (lease_at s l))
        (DiscordDeliveryLeaseError ''Discord delivery lease is already cache-owned'')) (\<lambda>_.
      guarded (\<not> ls_streams_closed (lease_at s l) \<and> \<not> ls_released (lease_at s l))
        (DiscordDeliveryLeaseError ''Discord delivery lease is no longer active'')))) (\<lambda>_.
    bind (from_result seek) (\<lambda>_.
    bind restore (\<lambda>_. modify (set_lease l (\<lambda>x. x\<lparr>ls_cache_owned := True\<rparr>)))))"

definition activate_for_delivery :: "nat \<Rightarrow> (delivery \<Rightarrow> delivery) \<Rightarrow> (delivery, unit) prog" where
  "activate_for_delivery l transfer =
    bind (reading (\<lambda>s. guarded (ls_cache_owned (lease_at s l) \<and> \<not> ls_streams_closed (lease_at s l)
        \<and> \<not> ls_released (lease_at s l))
      (DiscordDeliveryLeaseError ''Discord delivery lease is not ready for retry''))) (\<lambda>_.
    bind (modify transfer) (\<lambda>_. modify (set_lease l (\<lambda>x. x\<lparr>ls_cache_owned := False\<rparr>))))"

section \<open>Consuming a reply\<close>

text \<open>What \<open>consume\<close> meets: \<open>absolute_path\<close> on a root, whether the directory of the generated file is
  under an allowed root, the snapshot of the file at a position, the closing of the entry, the outcome of closing
  snapshots again, and the other threads after the claim.\<close>

record consume_env =
  ne_absolute :: "string \<Rightarrow> string result"
  ne_parent_allowed :: "ownership \<Rightarrow> bool"
  ne_snapshot :: "nat \<Rightarrow> pinned_file result"
  ne_close :: close_env
  ne_streams :: "unit result list"
  ne_claimed :: "delivery \<Rightarrow> delivery"
  ne_cleaned :: "delivery \<Rightarrow> delivery"

definition bad_policy :: exn where
  "bad_policy = DeliveryFileError ''Discord delivery roots or size limit are invalid''"

fun absolute_roots :: "(string \<Rightarrow> string result) \<Rightarrow> string list \<Rightarrow> string list result" where
  "absolute_roots f [] = Inr []"
| "absolute_roots f (r # rs) = and_then (f r) (\<lambda>p. and_then (absolute_roots f rs) (\<lambda>ps. Inr (p # ps)))"

definition validated_delivery_policy :: "(string \<Rightarrow> string result) \<Rightarrow> string list \<Rightarrow> int \<Rightarrow> string list result" where
  "validated_delivery_policy f roots max_bytes =
    (if roots = [] \<or> max_bytes < 0 then Inl bad_policy
     else (case absolute_roots f roots of
         Inr ps \<Rightarrow> Inr ps
       | Inl e \<Rightarrow> if e = OSError \<or> e = TypeError \<or> is_value_error e then Inl bad_policy else Inl e))"

definition validate_restored_policy ::
    "(ownership \<Rightarrow> bool) \<Rightarrow> delivery \<Rightarrow> cached_reply \<Rightarrow> string list \<Rightarrow> int \<Rightarrow> unit result" where
  "validate_restored_policy parent_allowed s entry roots max_bytes =
    and_then (guarded (ce_roots entry = Some roots \<and> ce_max_bytes entry = Some max_bytes)
      (DeliveryFileError ''Discord retry delivery policy changed'')) (\<lambda>_.
    and_then (guarded (case ce_lease entry of None \<Rightarrow> False
        | Some l \<Rightarrow> list_all (\<lambda>f. pf_size f \<le> max_bytes) (ls_files (lease_at s l)))
      (DeliveryFileError ''Discord retry delivery resources are invalid'')) (\<lambda>_.
    guarded (case ce_generated entry of None \<Rightarrow> True | Some g \<Rightarrow> parent_allowed g)
      (DeliveryFileError ''Generated Discord reply is outside allowed roots'')))"

definition snapshot_file :: "consume_env \<Rightarrow> cached_reply \<Rightarrow> nat \<Rightarrow> (string \<times> pinned_file) result" where
  "snapshot_file env entry i =
    (if Some i = ce_index entry then
       (case ce_generated entry of
          None \<Rightarrow> Inl (DeliveryFileError ''Generated Discord reply is outside allowed roots'')
        | Some g \<Rightarrow>
            if \<not> ne_parent_allowed env g
            then Inl (DeliveryFileError ''Generated Discord reply is outside allowed roots'')
            else and_then (ne_snapshot env i) (\<lambda>f. Inr (ow_quarantine g, f)))
     else and_then (ne_snapshot env i) (\<lambda>f. Inr (pf_source f, f)))"

text \<open>The loop of \<open>snapshot_entry\<close>: an exception closes what was opened, and the first exception of that closing
  replaces it.\<close>

fun snapshot_files ::
    "consume_env \<Rightarrow> cached_reply \<Rightarrow> nat \<Rightarrow> string list \<Rightarrow> string list \<Rightarrow> pinned_file list
     \<Rightarrow> (string list \<times> pinned_file list) result" where
  "snapshot_files env entry i [] paths fs = Inr (paths, fs)"
| "snapshot_files env entry i (p # ps) paths fs =
    (case snapshot_file env entry i of
       Inr (path, f) \<Rightarrow> snapshot_files env entry (Suc i) ps (paths @ [path]) (fs @ [f])
     | Inl e \<Rightarrow> (case first_error (take (length fs) (ne_streams env)) of None \<Rightarrow> Inl e | Some e' \<Rightarrow> Inl e'))"

definition snapshot_entry :: "consume_env \<Rightarrow> cached_reply \<Rightarrow> (string list \<times> pinned_file list) result" where
  "snapshot_entry env entry = snapshot_files env entry 0 (pr_files (ce_reply entry)) [] []"

definition cleanup_entry :: "close_env \<Rightarrow> cached_reply \<Rightarrow> (delivery, unit) prog" where
  "cleanup_entry env entry = (case ce_lease entry of
      Some l \<Rightarrow> close_from_cache env l
    | None \<Rightarrow> (case ce_generated entry of None \<Rightarrow> return () | Some g \<Rightarrow> cleanup_generated (xe_cleanup env) g))"

text \<open>The reply is active again, or its files were opened for the first time.\<close>

datatype opened_entry = Again | Opened "string list" "pinned_file list" "string list"

definition open_entry :: "consume_env \<Rightarrow> string \<Rightarrow> cached_reply \<Rightarrow> string list \<Rightarrow> int \<Rightarrow> (delivery, opened_entry) prog" where
  "open_entry env task_id entry roots max_bytes =
    bind (from_result (validated_delivery_policy (ne_absolute env) roots max_bytes)) (\<lambda>normalized.
    case ce_lease entry of
      Some l \<Rightarrow>
        bind (reading (\<lambda>s. validate_restored_policy (ne_parent_allowed env) s entry normalized max_bytes)) (\<lambda>_.
        bind (activate_for_delivery l (remove_claimed task_id entry False)) (\<lambda>_. return Again))
    | None \<Rightarrow> bind (from_result (snapshot_entry env entry)) (\<lambda>(paths, fs). return (Opened paths fs normalized)))"

text \<open>The discarding of a claimed entry: \<open>discard\<close>, and the entry whose files cannot be delivered.\<close>

definition discard_claimed :: "close_env \<Rightarrow> (delivery \<Rightarrow> delivery) \<Rightarrow> string \<Rightarrow> cached_reply \<Rightarrow> (delivery, unit) prog" where
  "discard_claimed env cleaned task_id entry =
    bind (try_catch (cleanup_entry env entry) (\<lambda>e.
      bind (unclaim task_id) (\<lambda>_. raise (if is_exception e then unsafe_cleanup else e)))) (\<lambda>_.
    bind (modify cleaned) (\<lambda>_.
    modify (remove_claimed task_id entry True)))"

definition new_id :: "nat list \<Rightarrow> nat" where
  "new_id ks = foldr (\<lambda>k n. max (Suc k) n) ks 0"

definition transfer_claimed ::
    "string \<Rightarrow> cached_reply \<Rightarrow> string list \<Rightarrow> pinned_file list \<Rightarrow> string list \<Rightarrow> int \<Rightarrow> (delivery, prepared_reply) prog" where
  "transfer_claimed task_id entry paths fs normalized max_bytes =
    bind (reading (\<lambda>s. and_then (guarded (map_of (cc_entries s) task_id = Some entry)
        (DiscordDeliveryCacheError ''Discord delivery cache claim was lost'')) (\<lambda>_.
        Inr (new_id (dict_keys (cc_leases s)))))) (\<lambda>l.
    let reply = \<lparr>pr_message = pr_message (ce_reply entry), pr_files = paths,
        pr_generated_file = map_option (\<lambda>i. paths ! i) (ce_index entry), pr_lease = Some l\<rparr>
    in bind (modify (\<lambda>s. s\<lparr>
        cc_leases := AList.update l \<lparr>ls_files = fs, ls_streams_closed = False, ls_released = False,
          ls_cache_owned = False\<rparr> (cc_leases s),
        cc_transferred := AList.update l \<lparr>tr_task_id = task_id, tr_entry = entry, tr_reply = reply,
          tr_roots = normalized, tr_max_bytes = max_bytes\<rparr> (cc_transferred s),
        cc_entries := AList.delete task_id (cc_entries s),
        cc_processing := removeAll task_id (cc_processing s)\<rparr>)) (\<lambda>_. return reply))"

definition consume ::
    "consume_env \<Rightarrow> string \<Rightarrow> string list \<Rightarrow> int \<Rightarrow> (delivery, prepared_reply option) prog" where
  "consume env task_id roots max_bytes =
    bind (claim_entry False task_id) (\<lambda>claimed.
    case claimed of
      None \<Rightarrow> return None
    | Some entry \<Rightarrow>
        bind (modify (ne_claimed env)) (\<lambda>_.
        bind (try_catch
          (bind (open_entry env task_id entry roots max_bytes) (\<lambda>x. return (Some x)))
          (\<lambda>e. case e of
             DeliveryFileError _ \<Rightarrow>
               bind (discard_claimed (ne_close env) (ne_cleaned env) task_id entry) (\<lambda>_. return None)
           | _ \<Rightarrow> bind (unclaim task_id) (\<lambda>_. raise (if is_exception e
               then DiscordDeliveryCacheError ''Discord delivery files could not be prepared safely'' else e))))
          (\<lambda>opened.
        case opened of
          None \<Rightarrow> return None
        | Some Again \<Rightarrow> return (Some (ce_reply entry))
        | Some (Opened paths fs normalized) \<Rightarrow>
            bind (on_error (transfer_claimed task_id entry paths fs normalized max_bytes) (unclaim task_id)) (\<lambda>reply.
            return (Some reply)))))"

section \<open>Returning a reply\<close>

text \<open>The source compares the reply by identity; here its lease, which no other reply has, identifies it.\<close>

definition restore_transferred :: "string \<Rightarrow> prepared_reply \<Rightarrow> nat \<Rightarrow> (delivery, unit) prog" where
  "restore_transferred task_id reply l =
    bind (reading (\<lambda>s. case map_of (cc_transferred s) l of
        None \<Rightarrow> Inl (DiscordDeliveryCacheError ''Discord delivery lease does not belong to this cache'')
      | Some t \<Rightarrow> and_then (raise_first
          [(task_id \<noteq> tr_task_id t, DiscordDeliveryCacheError ''Discord delivery lease belongs to its original task''),
           (tr_reply t \<noteq> reply, DiscordDeliveryCacheError ''Discord cache restore requires the exact in-flight reply''),
           (cc_closed s, DiscordDeliveryCacheError ''Discord delivery cache is closed''),
           (task_id \<in> set (dict_keys (cc_entries s)) \<or> task_id \<in> set (cc_processing s),
             DiscordDeliveryCacheError ''Discord task reply is already cached'')]) (\<lambda>_. Inr t))) (\<lambda>t.
    modify (\<lambda>s. s\<lparr>cc_entries := AList.update task_id ((tr_entry t)\<lparr>ce_reply := reply, ce_lease := Some l,
      ce_roots := Some (tr_roots t), ce_max_bytes := Some (tr_max_bytes t)\<rparr>) (cc_entries s)\<rparr>))"

definition restore :: "unit result \<Rightarrow> string \<Rightarrow> prepared_reply \<Rightarrow> (delivery, unit) prog" where
  "restore seek task_id reply =
    (case pr_lease reply of
       None \<Rightarrow> raise (DiscordDeliveryCacheError ''Discord delivery reply has no active lease'')
     | Some l \<Rightarrow> try_catch (reclaim_for_cache seek l (restore_transferred task_id reply l))
         (\<lambda>e. case e of
            DiscordDeliveryCacheError _ \<Rightarrow> raise e
          | DiscordDeliveryLeaseError _ \<Rightarrow> raise e
          | _ \<Rightarrow> raise (if is_exception e
              then DiscordDeliveryCacheError ''Discord delivery reply could not be restored safely'' else e)))"

definition discard :: "close_env \<Rightarrow> (delivery \<Rightarrow> delivery) \<Rightarrow> string \<Rightarrow> (delivery, unit) prog" where
  "discard env cleaned task_id =
    bind (claim_entry False task_id) (\<lambda>claimed.
    case claimed of None \<Rightarrow> return () | Some entry \<Rightarrow> discard_claimed env cleaned task_id entry)"

section \<open>Closing the cache\<close>

text \<open>\<open>xs_wait\<close> is what the other threads do until nothing is processed.\<close>

record shutdown_env =
  xs_wait :: "delivery \<Rightarrow> delivery"
  xs_close :: "string \<Rightarrow> close_env"
  xs_cleaned :: "string \<Rightarrow> delivery \<Rightarrow> delivery"
  xs_cleanup :: "nat \<Rightarrow> unit result"

definition or_first :: "exn option \<Rightarrow> exn \<Rightarrow> exn option" where
  "or_first first e = (case first of None \<Rightarrow> Some e | Some f \<Rightarrow> Some f)"

fun close_entries :: "shutdown_env \<Rightarrow> string list \<Rightarrow> exn option \<Rightarrow> (delivery, exn option) prog" where
  "close_entries env [] first = return first"
| "close_entries env (t # ts) first =
    bind (claim_entry True t) (\<lambda>claimed.
    bind (case claimed of
        None \<Rightarrow> return first
      | Some entry \<Rightarrow>
          bind (try_catch (bind (cleanup_entry (xs_close env t) entry) (\<lambda>_. return None))
            (\<lambda>e. bind (unclaim t) (\<lambda>_. return (Some e)))) (\<lambda>failed.
          case failed of
            Some e \<Rightarrow> return (or_first first e)
          | None \<Rightarrow> bind (modify (xs_cleaned env t)) (\<lambda>_.
              bind (modify (remove_claimed t entry True)) (\<lambda>_. return first)))) (\<lambda>first.
    close_entries env ts first))"

text \<open>\<open>drain_pending\<close>.\<close>

fun drain_loop :: "(nat \<Rightarrow> unit result) \<Rightarrow> ownership list \<Rightarrow> exn option \<Rightarrow> (delivery, exn option) prog" where
  "drain_loop outcome [] first = return first"
| "drain_loop outcome (g # gs) first =
    bind (try_catch
      (bind (cleanup_generated (outcome (ow_id g)) g) (\<lambda>_.
       bind (modify (\<lambda>s. if map_of (cc_pending s) (ow_id g) = Some g
         then release_ownership g (s\<lparr>cc_pending := AList.delete (ow_id g) (cc_pending s)\<rparr>) else s)) (\<lambda>_.
       return first)))
      (\<lambda>e. return (or_first first e))) (\<lambda>first.
    drain_loop outcome gs first)"

definition drain_pending :: "(nat \<Rightarrow> unit result) \<Rightarrow> (delivery, exn option) prog" where
  "drain_pending outcome = bind (reading (\<lambda>s. Inr (dict_values (cc_pending s)))) (\<lambda>gs. drain_loop outcome gs None)"

definition shutdown_error :: "exn \<Rightarrow> exn" where
  "shutdown_error e = (case e of DiscordDeliveryCacheError _ \<Rightarrow> e | _ \<Rightarrow> if is_exception e then unsafe_cleanup else e)"

definition cache_close :: "shutdown_env \<Rightarrow> (delivery, unit) prog" where
  "cache_close env =
    bind (modify (\<lambda>s. s\<lparr>cc_closed := True\<rparr>)) (\<lambda>_.
    bind (modify (\<lambda>s. if cc_processing s = [] then s else xs_wait env s)) (\<lambda>_.
    bind (reading (\<lambda>s. Inr (dict_keys (cc_entries s)))) (\<lambda>task_ids.
    bind (close_entries env task_ids None) (\<lambda>first.
    bind (drain_pending (xs_cleanup env)) (\<lambda>pending.
    case (case first of None \<Rightarrow> pending | Some e \<Rightarrow> Some e) of
      None \<Rightarrow> return ()
    | Some e \<Rightarrow> raise (shutdown_error e))))))"

section \<open>The cache of the runtime\<close>

record cache_env =
  ve_put :: put_env
  ve_consume :: consume_env
  ve_roots :: "string list"
  ve_max_bytes :: int
  ve_seek :: "unit result"
  ve_close :: close_env
  ve_cleaned :: "delivery \<Rightarrow> delivery"

definition cache_operations :: "cache_env \<Rightarrow> delivery delivery_cache" where
  "cache_operations env =
    \<lparr>dc_put = cache_put (ve_put env),
     dc_consume = (\<lambda>task_id. consume (ve_consume env) task_id (ve_roots env) (ve_max_bytes env)),
     dc_restore = restore (ve_seek env),
     dc_discard = discard (ve_close env) (ve_cleaned env)\<rparr>"

end
