(* ===== verification/DeliveryCacheProps.thy ===== *)
theory DeliveryCacheProps
  imports DeliveryCache TaskRuntimeProps
begin

text \<open>
  A generated file has one owner: a cached reply, a lease in flight, or a cleanup that is still pending; the
  registry holds exactly the reservations of the files that have an owner. A reply that was handed out is neither
  cached nor handed out again until it is restored, and a cache that was closed without an exception holds
  nothing.
\<close>

section \<open>Owners\<close>

datatype owner = Cached string | In_Flight nat | Left_Over nat

definition owns :: "delivery \<Rightarrow> owner \<Rightarrow> ownership option" where
  "owns s w = (case w of
      Cached t \<Rightarrow> (case map_of (cc_entries s) t of None \<Rightarrow> None
        | Some e \<Rightarrow> if ce_lease e = None then ce_generated e else None)
    | In_Flight l \<Rightarrow> (case map_of (cc_transferred s) l of None \<Rightarrow> None | Some x \<Rightarrow> ce_generated (tr_entry x))
    | Left_Over i \<Rightarrow> map_of (cc_pending s) i)"

definition reserved :: "ownership \<Rightarrow> delivery \<Rightarrow> bool" where
  "reserved g s \<longleftrightarrow> ow_path g \<in> set (cc_paths s) \<or> ow_file g \<in> set (cc_files s)"

text \<open>Owned files differ in path and inode, and the reservations are those of the owned files.\<close>

definition registered :: "(owner \<Rightarrow> ownership option) \<Rightarrow> path_reservation set \<Rightarrow> file_reservation set \<Rightarrow> bool" where
  "registered f ps fs \<longleftrightarrow> (\<forall>p. p \<in> ps \<longleftrightarrow> (\<exists>w g. f w = Some g \<and> ow_path g = p))
     \<and> (\<forall>q. q \<in> fs \<longleftrightarrow> (\<exists>w g. f w = Some g \<and> ow_file g = q))
     \<and> (\<forall>w w' g g'. f w = Some g \<and> f w' = Some g' \<and> (ow_path g = ow_path g' \<or> ow_file g = ow_file g') \<longrightarrow> w = w')"

lemma registeredD:
  assumes "registered f ps fs"
  shows "p \<in> ps \<longleftrightarrow> (\<exists>w g. f w = Some g \<and> ow_path g = p)" and "q \<in> fs \<longleftrightarrow> (\<exists>w g. f w = Some g \<and> ow_file g = q)"
    and "f w = Some g \<Longrightarrow> f w' = Some g' \<Longrightarrow> ow_path g = ow_path g' \<or> ow_file g = ow_file g' \<Longrightarrow> w = w'"
  using assms unfolding registered_def by blast+

lemma registeredI:
  assumes "\<And>p. p \<in> ps \<longleftrightarrow> (\<exists>w g. f w = Some g \<and> ow_path g = p)" and "\<And>q. q \<in> fs \<longleftrightarrow> (\<exists>w g. f w = Some g \<and> ow_file g = q)"
    and "\<And>w w' g g'. f w = Some g \<Longrightarrow> f w' = Some g' \<Longrightarrow> ow_path g = ow_path g' \<or> ow_file g = ow_file g' \<Longrightarrow> w = w'"
  shows "registered f ps fs"
  unfolding registered_def using assms by blast

lemma registered_add:
  assumes "registered f ps fs" and "ow_path g \<notin> ps" and "ow_file g \<notin> fs" and "f w = None"
  shows "registered (f(w := Some g)) (insert (ow_path g) ps) (insert (ow_file g) fs)"
proof -
  note d = registeredD [OF assms(1)]
  have n: "ow_path g \<noteq> ow_path g' \<and> ow_file g \<noteq> ow_file g'" if "f v = Some g'" for v g' using d(1,2) that assms(2,3) by metis
  show ?thesis
  proof (rule registeredI)
    fix p q
    show "p \<in> insert (ow_path g) ps \<longleftrightarrow> (\<exists>v x. (f(w := Some g)) v = Some x \<and> ow_path x = p)"
      using d(1) [of p] assms(4) by (cases "p = ow_path g") (auto intro: exI [of _ w], (metis option.distinct(1))+)
    show "q \<in> insert (ow_file g) fs \<longleftrightarrow> (\<exists>v x. (f(w := Some g)) v = Some x \<and> ow_file x = q)"
      using d(2) [of q] assms(4) by (cases "q = ow_file g") (auto intro: exI [of _ w], (metis option.distinct(1))+)
  next
    fix v v' x x'
    assume a: "(f(w := Some g)) v = Some x" "(f(w := Some g)) v' = Some x'" "ow_path x = ow_path x' \<or> ow_file x = ow_file x'"
    then show "v = v'" using n [of v x] n [of v' x'] d(3) [of v x v' x'] by (auto split: if_splits)
  qed
qed

lemma registered_remove:
  assumes "registered f ps fs" and "f w = Some g"
  shows "registered (f(w := None)) (ps - {ow_path g}) (fs - {ow_file g})"
proof -
  note d = registeredD [OF assms(1)]
  have n: "ow_path x \<noteq> ow_path g \<and> ow_file x \<noteq> ow_file g" if "f v = Some x" "v \<noteq> w" for v x
    using d(3) [OF that(1) assms(2)] that(2) by blast
  show ?thesis
  proof (rule registeredI)
    fix p q
    show "p \<in> ps - {ow_path g} \<longleftrightarrow> (\<exists>v x. (f(w := None)) v = Some x \<and> ow_path x = p)"
      using d(1) [of p] n assms(2) by (auto split: if_splits) (metis option.inject)
    show "q \<in> fs - {ow_file g} \<longleftrightarrow> (\<exists>v x. (f(w := None)) v = Some x \<and> ow_file x = q)"
      using d(2) [of q] n assms(2) by (auto split: if_splits) (metis option.inject)
  next
    fix v v' x x'
    assume "(f(w := None)) v = Some x" "(f(w := None)) v' = Some x'" "ow_path x = ow_path x' \<or> ow_file x = ow_file x'"
    then show "v = v'" using d(3) [of v x v' x'] by (auto split: if_splits)
  qed
qed

text \<open>A file that changes hands.\<close>

lemma registered_move:
  assumes "registered f ps fs" and "f v = None" and "v \<noteq> w"
  shows "registered (f(w := None, v := f w)) ps fs"
proof -
  note d = registeredD [OF assms(1)]
  let ?h = "f(w := None, v := f w)"
  have e: "(\<exists>u x. ?h u = Some x \<and> P x) \<longleftrightarrow> (\<exists>u x. f u = Some x \<and> P x)" for P
  proof
    assume "\<exists>u x. ?h u = Some x \<and> P x"
    then show "\<exists>u x. f u = Some x \<and> P x" by (metis fun_upd_apply option.distinct(1))
  next
    assume "\<exists>u x. f u = Some x \<and> P x"
    then obtain u x where "f u = Some x" "P x" by blast
    then show "\<exists>u x. ?h u = Some x \<and> P x" using assms(2,3)
      by (intro exI [of _ "if u = w then v else u"] exI [of _ x]) auto
  qed
  show ?thesis
  proof (rule registeredI)
    show "p \<in> ps \<longleftrightarrow> (\<exists>u x. ?h u = Some x \<and> ow_path x = p)" for p using d(1) e by simp
    show "q \<in> fs \<longleftrightarrow> (\<exists>u x. ?h u = Some x \<and> ow_file x = q)" for q using d(2) e by simp
  next
    fix u u' x x'
    assume a: "?h u = Some x" "?h u' = Some x'" "ow_path x = ow_path x' \<or> ow_file x = ow_file x'"
    let ?r = "\<lambda>u. if u = v then w else u"
    have "f (?r u) = Some x" "f (?r u') = Some x'" "u \<noteq> w" "u' \<noteq> w" using a(1,2) assms(2,3) by (auto split: if_splits)
    with d(3) a(3) have "?r u = ?r u'" by blast
    then show "u = u'" using \<open>u \<noteq> w\<close> \<open>u' \<noteq> w\<close> by (auto split: if_splits)
  qed
qed

section \<open>The invariant\<close>

text \<open>A cached reply with a lease: the lease belongs to the cache and its transfer is on record.\<close>

definition leased :: "delivery \<Rightarrow> string \<Rightarrow> cached_reply \<Rightarrow> nat \<Rightarrow> bool" where
  "leased s t e l \<longleftrightarrow> (\<exists>x tr. map_of (cc_leases s) l = Some x \<and> ls_cache_owned x \<and> \<not> ls_released x
     \<and> map_of (cc_transferred s) l = Some tr \<and> tr_task_id tr = t \<and> tr_reply tr = ce_reply e
     \<and> ce_generated (tr_entry tr) = ce_generated e)"

text \<open>A transfer: its lease is not released, and either cached again or out, with no cached reply of its task.\<close>

definition transfer_ok :: "delivery \<Rightarrow> nat \<Rightarrow> transferred_reply \<Rightarrow> bool" where
  "transfer_ok s l tr \<longleftrightarrow> pr_lease (tr_reply tr) = Some l
     \<and> (case (map_of (cc_leases s) l, map_of (cc_entries s) (tr_task_id tr)) of
          (None, _) \<Rightarrow> False
        | (Some x, None) \<Rightarrow> \<not> ls_released x \<and> \<not> ls_cache_owned x
        | (Some x, Some e) \<Rightarrow> \<not> ls_released x \<and> ls_cache_owned x \<and> ce_lease e = Some l)"

definition cache_ok :: "delivery \<Rightarrow> bool" where
  "cache_ok s \<longleftrightarrow> dict_wf (cc_entries s) \<and> dict_wf (cc_transferred s) \<and> dict_wf (cc_pending s)
     \<and> (\<forall>t \<in> set (cc_processing s). map_of (cc_entries s) t \<noteq> None)
     \<and> (\<forall>t e l. t \<notin> set (cc_processing s) \<and> map_of (cc_entries s) t = Some e \<and> ce_lease e = Some l \<longrightarrow> leased s t e l)
     \<and> (\<forall>l tr. map_of (cc_transferred s) l = Some tr \<longrightarrow> transfer_ok s l tr)
     \<and> (\<forall>l l' tr tr'. map_of (cc_transferred s) l = Some tr \<and> map_of (cc_transferred s) l' = Some tr'
          \<and> tr_task_id tr = tr_task_id tr' \<longrightarrow> l = l')
     \<and> registered (owns s) (set (cc_paths s)) (set (cc_files s))
     \<and> (\<forall>i g. map_of (cc_pending s) i = Some g \<longrightarrow> ow_id g = i)"

text \<open>A thread that has claimed a reply.\<close>

definition has_claim :: "string \<Rightarrow> cached_reply \<Rightarrow> delivery \<Rightarrow> bool" where
  "has_claim t e s \<longleftrightarrow> t \<in> set (cc_processing s) \<and> map_of (cc_entries s) t = Some e
     \<and> (\<forall>l. ce_lease e = Some l \<longrightarrow> leased s t e l)"

text \<open>What other threads may do at any time: they keep the invariant, leave what is claimed alone, reserve
  nothing, and add nothing to a closed cache.\<close>

definition claims_kept :: "delivery \<Rightarrow> delivery \<Rightarrow> bool" where
  "claims_kept s s' \<longleftrightarrow> (\<forall>t e. t \<in> set (cc_processing s) \<and> map_of (cc_entries s) t = Some e \<longrightarrow>
     t \<in> set (cc_processing s') \<and> map_of (cc_entries s') t = Some e
     \<and> (\<forall>l. ce_lease e = Some l \<longrightarrow> map_of (cc_leases s') l = map_of (cc_leases s) l
          \<and> map_of (cc_transferred s') l = map_of (cc_transferred s) l))"

definition shrinks :: "delivery \<Rightarrow> delivery \<Rightarrow> bool" where
  "shrinks s s' \<longleftrightarrow> set (cc_paths s') \<subseteq> set (cc_paths s) \<and> set (cc_files s') \<subseteq> set (cc_files s)
     \<and> (cc_closed s \<longrightarrow> cc_closed s' \<and> fst ` set (cc_entries s') \<subseteq> fst ` set (cc_entries s)
          \<and> fst ` set (cc_pending s') \<subseteq> fst ` set (cc_pending s)
          \<and> set (cc_processing s') \<subseteq> set (cc_processing s))"

definition polite :: "(delivery \<Rightarrow> delivery) \<Rightarrow> bool" where
  "polite f \<longleftrightarrow> (\<forall>s. cache_ok s \<longrightarrow> cache_ok (f s) \<and> claims_kept s (f s) \<and> shrinks s (f s))"

definition tame_close :: "close_env \<Rightarrow> bool" where
  "tame_close env \<longleftrightarrow> (\<forall>l. polite (xe_before env l) \<and> polite (xe_after env l)
     \<and> (\<forall>s. map_of (cc_leases (xe_before env l s)) l = map_of (cc_leases s) l
          \<and> map_of (cc_transferred (xe_before env l s)) l = map_of (cc_transferred s) l
          \<and> map_of (cc_leases (xe_after env l s)) l = map_of (cc_leases s) l
          \<and> map_of (cc_transferred (xe_after env l s)) l = map_of (cc_transferred s) l))"

definition streams_close :: "close_env \<Rightarrow> bool" where
  "streams_close env \<longleftrightarrow> list_all (\<lambda>r. r = Inr ()) (xe_streams env)"

lemma polite_claim:
  assumes "polite f" and "cache_ok s" and "has_claim t e s"
  shows "cache_ok (f s)" and "has_claim t e (f s)" and "shrinks s (f s)"
proof -
  have p: "cache_ok (f s)" "claims_kept s (f s)" "shrinks s (f s)" using assms(1,2) by (auto simp: polite_def)
  then show "cache_ok (f s)" "shrinks s (f s)" by simp_all
  have "t \<in> set (cc_processing s)" "map_of (cc_entries s) t = Some e" using assms(3) by (simp_all add: has_claim_def)
  with p(2) have k: "t \<in> set (cc_processing (f s))" "map_of (cc_entries (f s)) t = Some e"
    "\<And>l. ce_lease e = Some l \<Longrightarrow> map_of (cc_leases (f s)) l = map_of (cc_leases s) l
       \<and> map_of (cc_transferred (f s)) l = map_of (cc_transferred s) l"
    by (auto simp: claims_kept_def)
  then show "has_claim t e (f s)" using assms(3) by (auto simp: has_claim_def leased_def)
qed

lemma first_error_None: "streams_close env \<Longrightarrow> first_error (take n (xe_streams env)) = None"
proof -
  have "list_all (\<lambda>r. r = Inr ()) xs \<Longrightarrow> first_error (take n xs) = None" for n xs
    by (induction xs arbitrary: n) (auto simp: take_Cons split: nat.splits)
  then show "streams_close env \<Longrightarrow> first_error (take n (xe_streams env)) = None" by (simp add: streams_close_def)
qed

section \<open>Claims\<close>

lemma cache_okD:
  assumes "cache_ok s"
  shows "dict_wf (cc_entries s)" "dict_wf (cc_transferred s)" "dict_wf (cc_pending s)"
    and "t \<in> set (cc_processing s) \<Longrightarrow> map_of (cc_entries s) t \<noteq> None"
    and "t \<notin> set (cc_processing s) \<Longrightarrow> map_of (cc_entries s) t = Some e \<Longrightarrow> ce_lease e = Some l \<Longrightarrow> leased s t e l"
    and "map_of (cc_transferred s) l = Some tr \<Longrightarrow> transfer_ok s l tr"
    and "map_of (cc_transferred s) l = Some tr \<Longrightarrow> map_of (cc_transferred s) l' = Some tr'
      \<Longrightarrow> tr_task_id tr = tr_task_id tr' \<Longrightarrow> l = l'"
    and "registered (owns s) (set (cc_paths s)) (set (cc_files s))"
    and "map_of (cc_pending s) i = Some g \<Longrightarrow> ow_id g = i"
  using assms unfolding cache_ok_def by blast+

text \<open>Fields the relations do not read.\<close>

lemma owns_fields [simp]:
  "owns (s\<lparr>cc_processing := ts\<rparr>) = owns s" "owns (s\<lparr>cc_paths := ps\<rparr>) = owns s" "owns (s\<lparr>cc_files := fs\<rparr>) = owns s"
  "owns (s\<lparr>cc_closed := b\<rparr>) = owns s" "owns (s\<lparr>cc_leases := ls\<rparr>) = owns s" "owns (s\<lparr>cc_cleaned := cs\<rparr>) = owns s"
  by (auto simp: owns_def fun_eq_iff split: owner.split)

lemma leased_fields [simp]:
  "leased (s\<lparr>cc_processing := ts\<rparr>) = leased s" "leased (s\<lparr>cc_paths := ps\<rparr>) = leased s" "leased (s\<lparr>cc_files := fs\<rparr>) = leased s"
  "leased (s\<lparr>cc_closed := b\<rparr>) = leased s" "leased (s\<lparr>cc_cleaned := cs\<rparr>) = leased s" "leased (s\<lparr>cc_entries := es\<rparr>) = leased s"
  "leased (s\<lparr>cc_pending := gs\<rparr>) = leased s"
  by (simp_all add: leased_def fun_eq_iff)

lemma transfer_fields [simp]:
  "transfer_ok (s\<lparr>cc_processing := ts\<rparr>) = transfer_ok s" "transfer_ok (s\<lparr>cc_paths := ps\<rparr>) = transfer_ok s"
  "transfer_ok (s\<lparr>cc_files := fs\<rparr>) = transfer_ok s" "transfer_ok (s\<lparr>cc_closed := b\<rparr>) = transfer_ok s"
  "transfer_ok (s\<lparr>cc_cleaned := cs\<rparr>) = transfer_ok s" "transfer_ok (s\<lparr>cc_transferred := xs\<rparr>) = transfer_ok s"
  "transfer_ok (s\<lparr>cc_pending := gs\<rparr>) = transfer_ok s"
  by (simp_all add: transfer_ok_def fun_eq_iff)

lemma cache_okI:
  assumes "dict_wf (cc_entries s)" "dict_wf (cc_transferred s)" "dict_wf (cc_pending s)"
    and "\<And>t. t \<in> set (cc_processing s) \<Longrightarrow> map_of (cc_entries s) t \<noteq> None"
    and "\<And>t e l. t \<notin> set (cc_processing s) \<Longrightarrow> map_of (cc_entries s) t = Some e \<Longrightarrow> ce_lease e = Some l \<Longrightarrow> leased s t e l"
    and "\<And>l tr. map_of (cc_transferred s) l = Some tr \<Longrightarrow> transfer_ok s l tr"
    and "\<And>l l' tr tr'. map_of (cc_transferred s) l = Some tr \<Longrightarrow> map_of (cc_transferred s) l' = Some tr'
      \<Longrightarrow> tr_task_id tr = tr_task_id tr' \<Longrightarrow> l = l'"
    and "registered (owns s) (set (cc_paths s)) (set (cc_files s))"
    and "\<And>i g. map_of (cc_pending s) i = Some g \<Longrightarrow> ow_id g = i"
  shows "cache_ok s"
  unfolding cache_ok_def using assms by blast

lemma cache_ok_processing:
  assumes "cache_ok s" and "\<And>t. t \<in> set ts \<Longrightarrow> map_of (cc_entries s) t \<noteq> None"
    and "\<And>t e l. t \<notin> set ts \<Longrightarrow> map_of (cc_entries s) t = Some e \<Longrightarrow> ce_lease e = Some l \<Longrightarrow> leased s t e l"
  shows "cache_ok (s\<lparr>cc_processing := ts\<rparr>)"
  by (rule cache_okI) (use cache_okD(1-3,6-9) [OF assms(1)] assms(2,3) in auto)

lemma cache_ok_other [simp]:
  "cache_ok (s\<lparr>cc_closed := b\<rparr>) = cache_ok s" "cache_ok (s\<lparr>cc_cleaned := cs\<rparr>) = cache_ok s"
  by (simp_all add: cache_ok_def)

lemma claim_kept:
  assumes "cache_ok s" and "(c \<longrightarrow> t \<in> set (cc_processing s) \<or> map_of (cc_entries s) t = None) \<Longrightarrow> Q None s"
    and "\<And>e s'. cache_ok s' \<Longrightarrow> has_claim t e s' \<Longrightarrow> cc_closed s' = cc_closed s \<Longrightarrow>
      s' = s\<lparr>cc_processing := t # cc_processing s\<rparr> \<Longrightarrow> Q (Some e) s'"
  shows "wp (claim_entry c t) Q E s"
proof (cases "(cc_closed s \<and> \<not> c) \<or> t \<in> set (cc_processing s) \<or> map_of (cc_entries s) t = None")
  case True
  then show ?thesis using assms(2) by (auto simp: claim_entry_def wp_def split: option.splits)
next
  case False
  then obtain e where e: "map_of (cc_entries s) t = Some e" by auto
  let ?s = "s\<lparr>cc_processing := t # cc_processing s\<rparr>"
  have "cache_ok ?s" by (rule cache_ok_processing [OF assms(1)]) (use e cache_okD(4,5) [OF assms(1)] in auto)
  moreover have "has_claim t e ?s" using e False cache_okD(5) [OF assms(1), of t e] by (auto simp: has_claim_def leased_def)
  ultimately show ?thesis using assms(2) assms(3) [of ?s e] False e by (auto simp: claim_entry_def wp_def)
qed

lemma unclaim_kept:
  assumes "cache_ok s" and "has_claim t e s" and "\<And>s'. cache_ok s' \<Longrightarrow> s' = s\<lparr>cc_processing := removeAll t (cc_processing s)\<rparr> \<Longrightarrow> Q () s'"
  shows "wp (unclaim t) Q E s"
proof -
  have "cache_ok (s\<lparr>cc_processing := removeAll t (cc_processing s)\<rparr>)"
    by (rule cache_ok_processing [OF assms(1)])
       (use assms(2) cache_okD(4,5) [OF assms(1)] in \<open>auto simp: has_claim_def\<close>)
  then show ?thesis using assms(3) by (simp add: unclaim_def wp_basic)
qed

section \<open>Changing hands\<close>

lemma owns_delete_entry:
  "owns (s\<lparr>cc_entries := AList.delete t (cc_entries s)\<rparr>) = (owns s)(Cached t := None)"
  by (rule ext) (simp add: owns_def split: owner.split)

lemma owns_delete_transfer:
  "owns (s\<lparr>cc_transferred := AList.delete l (cc_transferred s)\<rparr>) = (owns s)(In_Flight l := None)"
  by (rule ext) (simp add: owns_def split: owner.split)

lemma registered_forget:
  assumes "registered f ps fs" and "f w = go"
  shows "registered (f(w := None)) (case go of None \<Rightarrow> ps | Some g \<Rightarrow> ps - {ow_path g}) (case go of None \<Rightarrow> fs | Some g \<Rightarrow> fs - {ow_file g})"
proof (cases go)
  case None
  then have "f(w := None) = f" using assms(2) by auto
  then show ?thesis using assms(1) None by simp
next
  case (Some g)
  then show ?thesis using registered_remove [OF assms(1), of w g] assms(2) by simp
qed

lemma removeAll_set [simp]: "set (removeAll x xs) = set xs - {x}"
  by auto

text \<open>An entry that never had a lease goes with its reservation.\<close>

lemma no_other_transfer:
  assumes "cache_ok s" and "map_of (cc_entries s) t = Some e" and "map_of (cc_transferred s) l = Some tr" and "tr_task_id tr = t"
  shows "ce_lease e = Some l"
proof -
  have "transfer_ok s l tr" by (rule cache_okD(6) [OF assms(1,3)])
  then show ?thesis using assms(2,4) by (auto simp: transfer_ok_def split: option.splits)
qed

lemma remove_unleased:
  assumes "cache_ok s" and "has_claim t e s" and "ce_lease e = None"
  shows "cache_ok (remove_claimed t e True s)"
proof -
  have m: "map_of (cc_entries s) t = Some e" using assms(2) by (simp add: has_claim_def)
  let ?s = "remove_claimed t e True s"
  have f: "cc_entries ?s = AList.delete t (cc_entries s)" "cc_processing ?s = removeAll t (cc_processing s)"
    "cc_transferred ?s = cc_transferred s" "cc_pending ?s = cc_pending s" "cc_leases ?s = cc_leases s"
    using m by (simp_all add: remove_claimed_def release_ownership_def Let_def split: option.split)
  have o: "owns ?s = (owns s)(Cached t := None)"
    by (rule ext) (simp add: owns_def f split: owner.split)
  have g: "owns s (Cached t) = ce_generated e" using m assms(3) by (simp add: owns_def)
  have r: "registered (owns ?s) (set (cc_paths ?s)) (set (cc_files ?s))"
    using registered_forget [OF cache_okD(8) [OF assms(1)] g] unfolding o
    by (simp add: remove_claimed_def release_ownership_def m Let_def split: option.splits)
  show ?thesis
  proof (rule cache_okI)
    show "map_of (cc_entries ?s) t' \<noteq> None" if "t' \<in> set (cc_processing ?s)" for t'
      using that cache_okD(4) [OF assms(1), of t'] by (simp add: f)
    show "leased ?s t' e' l" if "t' \<notin> set (cc_processing ?s)" "map_of (cc_entries ?s) t' = Some e'" "ce_lease e' = Some l" for t' e' l
      using cache_okD(5) [OF assms(1), of t' e' l] that by (simp add: f leased_def split: if_splits)
    show "transfer_ok ?s l tr" if "map_of (cc_transferred ?s) l = Some tr" for l tr
    proof -
      have l: "map_of (cc_transferred s) l = Some tr" using that by (simp add: f)
      have "tr_task_id tr \<noteq> t" using no_other_transfer [OF assms(1) m l] assms(3) by auto
      then show ?thesis using cache_okD(6) [OF assms(1) l] by (simp add: transfer_ok_def f)
    qed
  qed (use cache_okD(1-3,7,9) [OF assms(1)] r in \<open>auto simp: f\<close>)
qed

text \<open>An entry whose lease was released: nothing is reserved for it any more.\<close>

lemma remove_released:
  assumes "cache_ok s" and "t \<in> set (cc_processing s)" and "map_of (cc_entries s) t = Some e" and "ce_lease e = Some l"
    and "map_of (cc_transferred s) l = None" and "\<And>g. ce_generated e = Some g \<Longrightarrow> \<not> reserved g s"
  shows "cache_ok (remove_claimed t e True s)"
proof -
  let ?s = "remove_claimed t e True s"
  have f: "cc_entries ?s = AList.delete t (cc_entries s)" "cc_processing ?s = removeAll t (cc_processing s)"
    "cc_transferred ?s = cc_transferred s" "cc_pending ?s = cc_pending s" "cc_leases ?s = cc_leases s"
    using assms(3) by (simp_all add: remove_claimed_def release_ownership_def Let_def split: option.split)
  have "set (cc_paths ?s) = set (cc_paths s)" "set (cc_files ?s) = set (cc_files s)"
    using assms(6) by (auto simp: remove_claimed_def release_ownership_def reserved_def Let_def split: option.split)
  moreover have "owns ?s = owns s"
    using assms(3,4) by (intro ext) (simp add: owns_def f split: owner.split)
  ultimately have r: "registered (owns ?s) (set (cc_paths ?s)) (set (cc_files ?s))" using cache_okD(8) [OF assms(1)] by simp
  show ?thesis
  proof (rule cache_okI)
    show "map_of (cc_entries ?s) t' \<noteq> None" if "t' \<in> set (cc_processing ?s)" for t'
      using that cache_okD(4) [OF assms(1), of t'] by (simp add: f)
    show "leased ?s t' e' l'" if "t' \<notin> set (cc_processing ?s)" "map_of (cc_entries ?s) t' = Some e'" "ce_lease e' = Some l'" for t' e' l'
      using cache_okD(5) [OF assms(1), of t' e' l'] that by (simp add: f leased_def split: if_splits)
    show "transfer_ok ?s l' tr" if "map_of (cc_transferred ?s) l' = Some tr" for l' tr
    proof -
      have l: "map_of (cc_transferred s) l' = Some tr" using that by (simp add: f)
      have "tr_task_id tr \<noteq> t" using no_other_transfer [OF assms(1,3) l] assms(4,5) l by auto
      then show ?thesis using cache_okD(6) [OF assms(1) l] by (simp add: transfer_ok_def f)
    qed
  qed (use cache_okD(1-3,7,9) [OF assms(1)] r in \<open>auto simp: f\<close>)
qed

text \<open>A reply that is out: its lease is active and the caller's.\<close>

definition delivering :: "string \<Rightarrow> prepared_reply \<Rightarrow> delivery \<Rightarrow> bool" where
  "delivering t reply s \<longleftrightarrow> map_of (cc_entries s) t = None
     \<and> (\<exists>l x tr. pr_lease reply = Some l \<and> map_of (cc_leases s) l = Some x \<and> \<not> ls_cache_owned x \<and> \<not> ls_released x
          \<and> \<not> ls_streams_closed x \<and> map_of (cc_transferred s) l = Some tr \<and> tr_task_id tr = t \<and> tr_reply tr = reply)"

lemma activate_again:
  assumes "cache_ok s" and "has_claim t e s" and "ce_lease e = Some l" and "\<not> ls_streams_closed (lease_at s l)"
  defines "s' \<equiv> set_lease l (\<lambda>x. x\<lparr>ls_cache_owned := False\<rparr>) (remove_claimed t e False s)"
  shows "cache_ok s'" and "delivering t (ce_reply e) s'"
proof -
  have m: "map_of (cc_entries s) t = Some e" and lsd: "leased s t e l" using assms(2,3) by (simp_all add: has_claim_def)
  obtain x tr where x: "map_of (cc_leases s) l = Some x" "ls_cache_owned x" "\<not> ls_released x"
    and tr: "map_of (cc_transferred s) l = Some tr" "tr_task_id tr = t" "tr_reply tr = ce_reply e"
    using lsd by (auto simp: leased_def)
  have f: "cc_entries s' = AList.delete t (cc_entries s)" "cc_processing s' = removeAll t (cc_processing s)"
    "cc_transferred s' = cc_transferred s" "cc_pending s' = cc_pending s" "cc_paths s' = cc_paths s" "cc_files s' = cc_files s"
    "map_of (cc_leases s') = (map_of (cc_leases s))(l \<mapsto> x\<lparr>ls_cache_owned := False\<rparr>)"
    using m x(1) by (simp_all add: s'_def remove_claimed_def set_lease_def lease_at_def Let_def split: option.split)
  have o: "owns s' = owns s" using m assms(3) by (intro ext) (simp add: owns_def f split: owner.split)
  have t: "transfer_ok s l tr" by (rule cache_okD(6) [OF assms(1) tr(1)])
  show "cache_ok s'"
  proof (rule cache_okI)
    show "map_of (cc_entries s') t' \<noteq> None" if "t' \<in> set (cc_processing s')" for t'
      using that cache_okD(4) [OF assms(1), of t'] by (simp add: f)
    show "leased s' t' e' l'" if "t' \<notin> set (cc_processing s')" "map_of (cc_entries s') t' = Some e'" "ce_lease e' = Some l'" for t' e' l'
    proof -
      have a: "t' \<noteq> t" "leased s t' e' l'" using cache_okD(5) [OF assms(1), of t' e' l'] that by (auto simp: f split: if_splits)
      then have "l' \<noteq> l" using tr by (auto simp: leased_def)
      then show ?thesis using a(2) by (simp add: leased_def f)
    qed
    show "transfer_ok s' l' tr'" if "map_of (cc_transferred s') l' = Some tr'" for l' tr'
    proof (cases "l' = l")
      case True
      then show ?thesis using that tr t x by (simp add: transfer_ok_def f)
    next
      case False
      have l: "map_of (cc_transferred s) l' = Some tr'" using that by (simp add: f)
      have "tr_task_id tr' \<noteq> t" using cache_okD(7) [OF assms(1) l tr(1)] tr(2) False by auto
      then show ?thesis using cache_okD(6) [OF assms(1) l] False by (simp add: transfer_ok_def f)
    qed
  qed (use cache_okD(1-3,7,8,9) [OF assms(1)] in \<open>auto simp: f o\<close>)
  have "\<not> ls_streams_closed x" using assms(4) x(1) by (simp add: lease_at_def)
  moreover have "pr_lease (ce_reply e) = Some l" using t tr(3) by (simp add: transfer_ok_def)
  ultimately show "delivering t (ce_reply e) s'" using x tr by (auto simp: delivering_def f)
qed

section \<open>Closing a lease\<close>

text \<open>Who closes it: the thread that has claimed the reply, or the caller it was handed out to.\<close>

type_synonym closer = "(string \<times> cached_reply) option"

definition closing :: "closer \<Rightarrow> nat \<Rightarrow> delivery \<Rightarrow> bool" where
  "closing c l s \<longleftrightarrow> (case c of
      Some (t, e) \<Rightarrow> has_claim t e s \<and> ce_lease e = Some l
    | None \<Rightarrow> \<not> ls_cache_owned (lease_at s l))"

definition entered :: "closer \<Rightarrow> nat \<Rightarrow> delivery \<Rightarrow> bool" where
  "entered c l s \<longleftrightarrow> (case c of
      Some (t, e) \<Rightarrow> t \<in> set (cc_processing s) \<and> map_of (cc_entries s) t = Some e \<and> ce_lease e = Some l
        \<and> (\<forall>g. ce_generated e = Some g \<longrightarrow> \<not> reserved g s)
    | None \<Rightarrow> \<not> ls_cache_owned (lease_at s l))"

definition unheld :: "nat \<Rightarrow> delivery \<Rightarrow> bool" where
  "unheld l s \<longleftrightarrow> (\<forall>t e. t \<notin> set (cc_processing s) \<and> map_of (cc_entries s) t = Some e \<longrightarrow> ce_lease e \<noteq> Some l)"

lemma lease_at_leased: "leased s t e l \<Longrightarrow> ls_cache_owned (lease_at s l) \<and> \<not> ls_released (lease_at s l)"
  by (auto simp: leased_def lease_at_def)

lemma closing_unheld:
  assumes "cache_ok s" and "closing c l s"
  shows "unheld l s"
  unfolding unheld_def
proof (intro allI impI notI, elim conjE)
  fix t e assume a: "t \<notin> set (cc_processing s)" "map_of (cc_entries s) t = Some e" "ce_lease e = Some l"
  have l: "leased s t e l" by (rule cache_okD(5) [OF assms(1) a])
  show False
  proof (cases c)
    case None
    then show ?thesis using lease_at_leased [OF l] assms(2) by (simp add: closing_def)
  next
    case (Some p)
    then obtain t' e' where "has_claim t' e' s" "ce_lease e' = Some l" using assms(2) by (auto simp: closing_def)
    then show ?thesis using l a(1) by (auto simp: has_claim_def leased_def)
  qed
qed

lemma set_lease_lookup [simp]:
  "map_of (cc_leases (set_lease l f s)) = (map_of (cc_leases s))(l \<mapsto> f (lease_at s l))"
  "cc_entries (set_lease l f s) = cc_entries s" "cc_processing (set_lease l f s) = cc_processing s"
  "cc_transferred (set_lease l f s) = cc_transferred s" "cc_pending (set_lease l f s) = cc_pending s"
  "cc_paths (set_lease l f s) = cc_paths s" "cc_files (set_lease l f s) = cc_files s"
  "cc_closed (set_lease l f s) = cc_closed s" "owns (set_lease l f s) = owns s"
  "lease_at (set_lease l f s) l = f (lease_at s l)"
  by (simp_all add: set_lease_def lease_at_def)

text \<open>A change of a lease that nobody but the closer has, once it is released, and one of its streams.\<close>

lemma set_lease_gone:
  assumes "cache_ok s" and "unheld l s" and "map_of (cc_transferred s) l = None"
  shows "cache_ok (set_lease l f s)"
proof (rule cache_okI)
  show "leased (set_lease l f s) t e l'" if "t \<notin> set (cc_processing (set_lease l f s))"
    "map_of (cc_entries (set_lease l f s)) t = Some e" "ce_lease e = Some l'" for t e l'
    using cache_okD(5) [OF assms(1), of t e l'] that assms(2) by (auto simp: leased_def unheld_def)
  show "transfer_ok (set_lease l f s) l' tr" if "map_of (cc_transferred (set_lease l f s)) l' = Some tr" for l' tr
    using cache_okD(6) [OF assms(1), of l' tr] that assms(3) by (auto simp: transfer_ok_def)
qed (use cache_okD(1-4,7,8,9) [OF assms(1)] in auto)

lemma set_streams:
  assumes "cache_ok s"
  shows "cache_ok (set_lease l (\<lambda>x. x\<lparr>ls_streams_closed := True\<rparr>) s)"
    and "has_claim t e (set_lease l (\<lambda>x. x\<lparr>ls_streams_closed := True\<rparr>) s) = has_claim t e s"
proof -
  let ?s = "set_lease l (\<lambda>x. x\<lparr>ls_streams_closed := True\<rparr>) s"
  have d: "leased ?s t e l' = leased s t e l'" if "map_of (cc_leases s) l \<noteq> None \<or> l' \<noteq> l" for t e l'
    using that by (auto simp: leased_def lease_at_def)
  have n: "\<not> leased s t e l'" if "map_of (cc_leases s) l = None" "l' = l" for t e l' using that by (simp add: leased_def)
  have n': "\<not> leased ?s t e l'" if "map_of (cc_leases s) l = None" "l' = l" for t e l'
    using that by (simp add: leased_def lease_at_def)
  have e: "leased ?s t e l' = leased s t e l'" for t e l' using d n n' by metis
  show "cache_ok ?s"
  proof (rule cache_okI)
    show "leased ?s t e l'" if "t \<notin> set (cc_processing ?s)" "map_of (cc_entries ?s) t = Some e" "ce_lease e = Some l'" for t e l'
      using cache_okD(5) [OF assms, of t e l'] that e by simp
    show "transfer_ok ?s l' tr" if "map_of (cc_transferred ?s) l' = Some tr" for l' tr
      using cache_okD(6) [OF assms, of l' tr] that
      by (auto simp: transfer_ok_def lease_at_def split: option.splits)
  qed (use cache_okD(1-4,7,8,9) [OF assms] in auto)
  show "has_claim t e ?s = has_claim t e s" by (simp add: has_claim_def e)
qed

definition popped :: "nat \<Rightarrow> transferred_reply \<Rightarrow> delivery \<Rightarrow> delivery" where
  "popped l tr s = (let s1 = s\<lparr>cc_transferred := AList.delete l (cc_transferred s)\<rparr>
     in (case ce_generated (tr_entry tr) of None \<Rightarrow> s1 | Some g \<Rightarrow> release_ownership g s1))"

lemma popped_fields [simp]:
  "cc_transferred (popped l tr s) = AList.delete l (cc_transferred s)" "cc_entries (popped l tr s) = cc_entries s"
  "cc_processing (popped l tr s) = cc_processing s" "cc_leases (popped l tr s) = cc_leases s"
  "cc_pending (popped l tr s) = cc_pending s" "cc_closed (popped l tr s) = cc_closed s"
  "lease_at (popped l tr s) = lease_at s"
  by (simp_all add: popped_def release_ownership_def Let_def lease_at_def fun_eq_iff split: option.split)

lemma popped_ok:
  assumes "cache_ok s" and "unheld l s" and "map_of (cc_transferred s) l = Some tr"
  shows "cache_ok (popped l tr s)" and "shrinks s (popped l tr s)"
    and "ce_generated (tr_entry tr) = Some g \<Longrightarrow> \<not> reserved g (popped l tr s)"
proof -
  let ?s = "popped l tr s"
  have o: "owns ?s = (owns s)(In_Flight l := None)"
    by (rule ext) (simp add: owns_def split: owner.split)
  have g: "owns s (In_Flight l) = ce_generated (tr_entry tr)" using assms(3) by (simp add: owns_def)
  have r: "registered (owns ?s) (set (cc_paths ?s)) (set (cc_files ?s))"
    using registered_forget [OF cache_okD(8) [OF assms(1)] g] unfolding o
    by (simp add: popped_def release_ownership_def Let_def split: option.splits)
  show "cache_ok ?s"
  proof (rule cache_okI)
    show "leased ?s t e l'" if "t \<notin> set (cc_processing ?s)" "map_of (cc_entries ?s) t = Some e" "ce_lease e = Some l'" for t e l'
      using cache_okD(5) [OF assms(1), of t e l'] that assms(2) by (auto simp: leased_def unheld_def)
    show "transfer_ok ?s l' tr'" if "map_of (cc_transferred ?s) l' = Some tr'" for l' tr'
      using cache_okD(6) [OF assms(1), of l' tr'] that by (simp add: transfer_ok_def split: if_splits)
    show "l1 = l2" if "map_of (cc_transferred ?s) l1 = Some t1" "map_of (cc_transferred ?s) l2 = Some t2"
      "tr_task_id t1 = tr_task_id t2" for l1 l2 t1 t2
      using cache_okD(7) [OF assms(1), of l1 t1 l2 t2] that by (simp split: if_splits)
  qed (use cache_okD(1-4,9) [OF assms(1)] r in auto)
  show "shrinks s ?s"
    by (auto simp: shrinks_def) (auto simp: popped_def release_ownership_def Let_def split: option.splits)
  show "\<not> reserved g ?s" if "ce_generated (tr_entry tr) = Some g"
    using that by (auto simp: reserved_def popped_def release_ownership_def Let_def)
qed

lemma shrinks_trans: "shrinks s s1 \<Longrightarrow> shrinks s1 s2 \<Longrightarrow> shrinks s s2"
  unfolding shrinks_def by (intro conjI impI; elim conjE) (simp_all add: subset_iff)

lemma shrinks_refl [simp]:
  "shrinks s s" "shrinks s (s\<lparr>cc_cleaned := c\<rparr>)" "shrinks s (set_lease l f s)"
  by (auto simp: shrinks_def)

lemma closing_polite:
  assumes "polite f" and "map_of (cc_leases (f s)) l = map_of (cc_leases s) l" and "cache_ok s" and "closing c l s"
  shows "cache_ok (f s)" and "closing c l (f s)" and "shrinks s (f s)"
  using assms polite_claim [OF assms(1,3)]
  by (auto simp: polite_def closing_def lease_at_def split: option.splits)

lemma cleaned_fields [simp]:
  "has_claim t e (s\<lparr>cc_cleaned := c\<rparr>) = has_claim t e s" "closing d l (s\<lparr>cc_cleaned := c\<rparr>) = closing d l s"
  by (auto simp: has_claim_def closing_def lease_at_def split: option.splits)

text \<open>The removal of a generated file changes nothing the invariant speaks of.\<close>

lemma cleanup_kept:
  assumes "Q () s" and "\<And>c. Q () (s\<lparr>cc_cleaned := c\<rparr>)" and "\<And>e. E e s"
  shows "wp (cleanup_generated out g) Q E s"
  using assms by (auto simp: cleanup_generated_def wp_bind wp_basic split: sum.split)

text \<open>Releasing the transfer of a lease.\<close>

lemma release_transferred_kept:
  assumes "cache_ok s" and "closing c l s" and "tame_close env"
    and "\<And>s'. cache_ok s' \<Longrightarrow> map_of (cc_transferred s') l = None \<Longrightarrow> entered c l s' \<Longrightarrow> unheld l s'
      \<Longrightarrow> map_of (cc_leases s') l = map_of (cc_leases s) l \<Longrightarrow> shrinks s s' \<Longrightarrow> Q () s'"
    and "\<And>e s'. cache_ok s' \<Longrightarrow> closing c l s' \<Longrightarrow> map_of (cc_leases s') l = map_of (cc_leases s) l \<Longrightarrow> shrinks s s' \<Longrightarrow> E e s'"
  shows "wp (release_transferred env l) Q E s"
proof (cases "map_of (cc_transferred s) l")
  case None
  then show ?thesis using assms(5) [OF assms(1,2)] by (simp add: release_transferred_def wp_bind wp_basic)
next
  case (Some tr)
  define s1 where "s1 = xe_before env l s"
  have p: "polite (xe_before env l)" "polite (xe_after env l)" using assms(3) by (simp_all add: tame_close_def)
  have k: "map_of (cc_leases (xe_before env l s)) l = map_of (cc_leases s) l" "map_of (cc_transferred (xe_before env l s)) l = map_of (cc_transferred s) l"
    "map_of (cc_leases (xe_after env l s)) l = map_of (cc_leases s) l" "map_of (cc_transferred (xe_after env l s)) l = map_of (cc_transferred s) l" for s
    using assms(3) by (simp_all add: tame_close_def)
  have s1: "cache_ok s1" "closing c l s1" "shrinks s s1" unfolding s1_def by (rule closing_polite [OF p(1) k(1) assms(1,2)])+
  have end': "Q () (popped l tr (xe_after env l s2))" if "cache_ok s2" "closing c l s2" "shrinks s s2"
    "map_of (cc_leases s2) l = map_of (cc_leases s) l" "map_of (cc_transferred s2) l = Some tr" for s2
  proof -
    define s3 where "s3 = xe_after env l s2"
    have s3: "cache_ok s3" "closing c l s3" "shrinks s2 s3" unfolding s3_def by (rule closing_polite [OF p(2) k(3) that(1,2)])+
    have t: "map_of (cc_transferred s3) l = Some tr" using that(5) k(4) by (simp add: s3_def)
    note u = closing_unheld [OF s3(1,2)]
    note po = popped_ok [OF s3(1) u t]
    show ?thesis unfolding s3_def [symmetric]
    proof (rule assms(4))
      show "entered c l (popped l tr s3)"
      proof (cases c)
        case None
        then show ?thesis using s3(2) by (simp add: entered_def closing_def)
      next
        case (Some q)
        obtain t' e' where q: "q = (t', e')" by fastforce
        then have h: "has_claim t' e' s3" "ce_lease e' = Some l" using s3(2) Some by (simp_all add: closing_def)
        then have "ce_generated (tr_entry tr) = ce_generated e'" using t by (auto simp: has_claim_def leased_def)
        then show ?thesis using h po(3) q Some by (simp add: entered_def has_claim_def)
      qed
      show "unheld l (popped l tr s3)" using u by (simp add: unheld_def)
      show "map_of (cc_leases (popped l tr s3)) l = map_of (cc_leases s) l" using that(4) k(3) by (simp add: s3_def)
      show "shrinks s (popped l tr s3)" using shrinks_trans [OF that(3) shrinks_trans [OF s3(3) po(2)]] .
    qed (use po(1) in simp_all)
  qed
  have t1: "map_of (cc_transferred s1) l = Some tr" "map_of (cc_leases s1) l = map_of (cc_leases s) l"
    using Some k(1,2) by (simp_all add: s1_def)
  have "wp (case ce_generated (tr_entry tr) of
        None \<Rightarrow> return ()
      | Some g \<Rightarrow> try_catch (cleanup_generated (xe_cleanup env) g)
          (\<lambda>e. if is_exception e then raise unsafe_cleanup else raise e))
      (\<lambda>_ s2. Q () (popped l tr (xe_after env l s2)) \<and> map_of (cc_transferred s2) l = Some tr) E s1"
    using end' [OF s1 t1(2,1)] end' [of "s1\<lparr>cc_cleaned := cs\<rparr>" for cs] s1 t1 shrinks_trans [OF s1(3) shrinks_refl(2)]
      assms(5) [OF s1(1,2) t1(2) s1(3)]
    by (cases "ce_generated (tr_entry tr)") (auto simp: wp intro!: cleanup_kept end')
  then show ?thesis
    using Some unfolding release_transferred_def wp_bind wp_basic s1_def [symmetric]
    by (auto simp: s1_def [symmetric] wp popped_def k(4) elim!: wp_mono)
qed

text \<open>\<open>_close_locked\<close>: with streams that close, an error leaves everything to the closer.\<close>

lemma released_transfer:
  assumes "cache_ok s" and "ls_released (lease_at s l)"
  shows "map_of (cc_transferred s) l = None"
proof (rule ccontr)
  assume "map_of (cc_transferred s) l \<noteq> None"
  then obtain tr where "map_of (cc_transferred s) l = Some tr" by blast
  from cache_okD(6) [OF assms(1) this] assms(2) show False by (auto simp: transfer_ok_def lease_at_def split: option.splits)
qed

lemma set_streams_closing:
  assumes "cache_ok s"
  shows "closing c l (set_lease l (\<lambda>x. x\<lparr>ls_streams_closed := True\<rparr>) s) = closing c l s"
  using set_streams(2) [OF assms] by (auto simp: closing_def split: option.split)

lemma entered_lease: "entered c l s \<Longrightarrow> ls_cache_owned (f (lease_at s l)) = ls_cache_owned (lease_at s l) \<Longrightarrow> entered c l (set_lease l f s)"
  by (auto simp: entered_def reserved_def split: option.splits)

lemma close_locked_kept:
  assumes "cache_ok s" and "closing c l s" and "tame_close env" and "c = None \<or> streams_close env"
    and "\<And>s'. cache_ok s' \<Longrightarrow> map_of (cc_transferred s') l = None \<Longrightarrow> entered c l s' \<Longrightarrow> unheld l s'
      \<Longrightarrow> shrinks s s' \<Longrightarrow> Q () s'"
    and "\<And>e s'. cache_ok s' \<Longrightarrow> (\<And>p. c = Some p \<Longrightarrow> closing c l s') \<Longrightarrow> shrinks s s' \<Longrightarrow> E e s'"
  shows "wp (close_locked env l) Q E s"
proof -
  have streams: "wp (close_streams env l) (\<lambda>first s1. cache_ok s1 \<and> closing c l s1 \<and> shrinks s s1 \<and> (c = None \<or> first = None)) E s"
    using assms(1,2) first_error_None [of env] assms(4) set_streams(1) [OF assms(1)] set_streams_closing [OF assms(1)]
    by (auto simp: close_streams_def wp split: option.split)
  have release: "wp (release_lease env l first) (\<lambda>first' s2. cache_ok s2 \<and> shrinks s s2
        \<and> (if first' = None then map_of (cc_transferred s2) l = None \<and> entered c l s2 \<and> unheld l s2
           else c = None \<or> closing c l s2)) E s1"
    if s1: "cache_ok s1" "closing c l s1" "shrinks s s1" "c = None \<or> first = None" for first s1
  proof (cases "ls_released (lease_at s1 l)")
    case True
    have "c = None" using s1(2) True by (auto simp: closing_def has_claim_def dest: lease_at_leased split: option.splits)
    then have "entered c l s1" using s1(2) by (simp add: entered_def closing_def)
    then show ?thesis using True s1 released_transfer [OF s1(1) True] closing_unheld [OF s1(1,2)] \<open>c = None\<close>
      by (simp add: release_lease_def wp)
  next
    case False
    have "wp (release_transferred env l) (\<lambda>_ s'. cache_ok s' \<and> shrinks s1 s' \<and> map_of (cc_transferred s') l = None
        \<and> entered c l s' \<and> unheld l s') (\<lambda>_ s'. cache_ok s' \<and> closing c l s' \<and> shrinks s1 s') s1"
      by (rule release_transferred_kept [OF s1(1,2) assms(3)]) simp_all
    then show ?thesis using False s1(3,4)
      unfolding release_lease_def
      by (auto simp: wp entered_lease set_lease_gone unheld_def split: option.splits elim!: wp_mono
          intro: shrinks_trans [OF s1(3)] shrinks_trans [OF shrinks_trans [OF s1(3)] shrinks_refl(3)])
  qed
  show ?thesis unfolding close_locked_def wp_bind
    by (rule wp_mono [OF streams], rule wp_mono [OF release])
       (use assms(5,6) in \<open>auto simp: wp split: option.split if_splits\<close>)
qed

section \<open>Discarding\<close>

text \<open>A claimed reply whose files are gone.\<close>

definition removable :: "string \<Rightarrow> cached_reply \<Rightarrow> delivery \<Rightarrow> bool" where
  "removable t e s \<longleftrightarrow> t \<in> set (cc_processing s) \<and> map_of (cc_entries s) t = Some e
     \<and> (\<forall>l. ce_lease e = Some l \<longrightarrow> map_of (cc_transferred s) l = None \<and> (\<forall>g. ce_generated e = Some g \<longrightarrow> \<not> reserved g s))"

lemma removable_removed:
  assumes "cache_ok s" and "removable t e s"
  shows "cache_ok (remove_claimed t e True s)"
proof (cases "ce_lease e")
  case None
  then have "has_claim t e s" using assms(2) by (simp add: has_claim_def removable_def)
  then show ?thesis using remove_unleased assms(1) None by blast
next
  case (Some l)
  show ?thesis by (rule remove_released [OF assms(1), of t e l]) (use assms(2) Some in \<open>auto simp: removable_def\<close>)
qed

lemma removable_polite:
  assumes "polite f" and "cache_ok s" and "removable t e s"
  shows "cache_ok (f s)" and "removable t e (f s)" and "shrinks s (f s)"
proof -
  have p: "cache_ok (f s)" "claims_kept s (f s)" "shrinks s (f s)" using assms(1,2) by (auto simp: polite_def)
  then show "cache_ok (f s)" "shrinks s (f s)" by simp_all
  have m: "t \<in> set (cc_processing s)" "map_of (cc_entries s) t = Some e" using assms(3) by (simp_all add: removable_def)
  with p(2) have k: "t \<in> set (cc_processing (f s))" "map_of (cc_entries (f s)) t = Some e"
    "\<And>l. ce_lease e = Some l \<Longrightarrow> map_of (cc_transferred (f s)) l = map_of (cc_transferred s) l"
    by (auto simp: claims_kept_def)
  have "\<not> reserved g (f s)" if "\<not> reserved g s" for g using that p(3) by (auto simp: reserved_def shrinks_def)
  then show "removable t e (f s)" using k assms(3) by (auto simp: removable_def)
qed

lemma cleanup_entry_kept:
  assumes "cache_ok s" and "has_claim t e s" and "tame_close env" and "streams_close env"
    and "\<And>s'. cache_ok s' \<Longrightarrow> removable t e s' \<Longrightarrow> shrinks s s' \<Longrightarrow> Q () s'"
    and "\<And>x s'. cache_ok s' \<Longrightarrow> has_claim t e s' \<Longrightarrow> shrinks s s' \<Longrightarrow> E x s'"
  shows "wp (cleanup_entry env e) Q E s"
proof (cases "ce_lease e")
  case None
  then have r: "removable t e s" using assms(2) by (simp add: removable_def has_claim_def)
  then have r': "removable t e (s\<lparr>cc_cleaned := c\<rparr>)" for c by (simp add: removable_def reserved_def)
  show ?thesis unfolding cleanup_entry_def None using assms r r'
    by (auto simp: wp split: option.split intro!: cleanup_kept)
next
  case (Some l)
  have c: "closing (Some (t, e)) l s" using assms(2) Some by (simp add: closing_def)
  then have o: "ls_cache_owned (lease_at s l)" using assms(2) Some lease_at_leased by (auto simp: has_claim_def)
  have "wp (close_locked env l) (\<lambda>_ s'. cache_ok s' \<and> removable t e s' \<and> unheld l s' \<and> shrinks s s'
      \<and> map_of (cc_transferred s') l = None) E s"
    by (rule close_locked_kept [OF assms(1) c assms(3)])
       (use assms(4,6) Some in \<open>auto simp: entered_def removable_def closing_def\<close>)
  moreover have "Q () (set_lease l f s')" if "cache_ok s'" "removable t e s'" "unheld l s'" "shrinks s s'"
    "map_of (cc_transferred s') l = None" for f s'
    by (rule assms(5)) (use that set_lease_gone [OF that(1,3,5)] shrinks_trans [OF that(4) shrinks_refl(3)] in
      \<open>auto simp: removable_def reserved_def\<close>)
  ultimately show ?thesis unfolding cleanup_entry_def Some close_from_cache_def
    using o by (auto simp: wp guarded_def elim!: wp_mono)
qed

lemma discard_claimed_kept:
  assumes "cache_ok s" and "has_claim t e s" and "tame_close env" and "streams_close env" and "polite cleaned"
    and "\<And>s'. cache_ok s' \<Longrightarrow> map_of (cc_entries s') t = None \<Longrightarrow> Q () s'" and "\<And>x s'. cache_ok s' \<Longrightarrow> E x s'"
  shows "wp (discard_claimed env cleaned t e) Q E s"
proof -
  have "wp (cleanup_entry env e) (\<lambda>_ s'. cache_ok s' \<and> removable t e s') (\<lambda>_ s'. cache_ok s' \<and> has_claim t e s') s"
    by (rule cleanup_entry_kept [OF assms(1-4)]) simp_all
  moreover have "Q () (remove_claimed t e True (cleaned s'))" if "cache_ok s'" "removable t e s'" for s'
  proof (rule assms(6))
    note r = removable_polite [OF assms(5) that]
    show "cache_ok (remove_claimed t e True (cleaned s'))" by (rule removable_removed [OF r(1,2)])
    show "map_of (cc_entries (remove_claimed t e True (cleaned s'))) t = None"
      using r(2) by (simp add: removable_def remove_claimed_def release_ownership_def Let_def split: option.split)
  qed
  ultimately show ?thesis unfolding discard_claimed_def
    by (auto simp: wp elim!: wp_mono intro!: unclaim_kept assms(7))
qed

text \<open>The operations of the cache keep the invariant.\<close>

definition tame_consume :: "consume_env \<Rightarrow> bool" where
  "tame_consume env \<longleftrightarrow> tame_close (ne_close env) \<and> streams_close (ne_close env) \<and> polite (ne_claimed env) \<and> polite (ne_cleaned env)"

lemma discard_kept:
  assumes "cache_ok s" and "tame_close env" and "streams_close env" and "polite cleaned"
  shows "wp (discard env cleaned t) (\<lambda>_. cache_ok) (\<lambda>_. cache_ok) s"
  unfolding discard_def using assms
  by (auto simp: wp intro!: claim_kept discard_claimed_kept)

lemma lease_close_kept:
  assumes "cache_ok s" and "tame_close env"
  shows "wp (lease_close_call env l) (\<lambda>_. cache_ok) (\<lambda>_. cache_ok) s"
  unfolding lease_close_call_def using assms
  by (auto simp: wp guarded_def closing_def intro!: close_locked_kept [where c = None])

section \<open>Caching, consuming, restoring\<close>

lemma new_id_greater: "k \<in> set ks \<Longrightarrow> k < new_id ks"
  by (induction ks) (auto simp: new_id_def)

lemma transfer_new:
  fixes fs :: "pinned_file list" and roots :: "string list" and n :: int
  assumes "cache_ok s" and "has_claim t e s" and "ce_lease e = None"
  defines "l \<equiv> new_id (dict_keys (cc_leases s))"
  assumes "pr_lease reply = Some l"
  defines "s' \<equiv> s\<lparr>cc_leases := AList.update l \<lparr>ls_files = fs, ls_streams_closed = False, ls_released = False,
          ls_cache_owned = False\<rparr> (cc_leases s),
        cc_transferred := AList.update l \<lparr>tr_task_id = t, tr_entry = e, tr_reply = reply, tr_roots = roots,
          tr_max_bytes = n\<rparr> (cc_transferred s),
        cc_entries := AList.delete t (cc_entries s), cc_processing := removeAll t (cc_processing s)\<rparr>"
  shows "cache_ok s'" and "delivering t reply s'"
proof -
  have m: "map_of (cc_entries s) t = Some e" using assms(2) by (simp add: has_claim_def)
  have fresh: "map_of (cc_leases s) l = None"
    using new_id_greater [of l "dict_keys (cc_leases s)"] by (auto simp: l_def map_of_eq_None_iff)
  have none: "map_of (cc_transferred s) l = None"
  proof (rule ccontr)
    assume "map_of (cc_transferred s) l \<noteq> None"
    then obtain tr where "map_of (cc_transferred s) l = Some tr" by blast
    from cache_okD(6) [OF assms(1) this] fresh show False by (simp add: transfer_ok_def)
  qed
  have other: "tr_task_id tr \<noteq> t" if "map_of (cc_transferred s) l' = Some tr" for l' tr
    using no_other_transfer [OF assms(1) m that] assms(3) by auto
  have "owns s' = (owns s)(Cached t := None, In_Flight l := owns s (Cached t))"
    using m assms(3) by (intro ext) (simp add: s'_def owns_def split: owner.split)
  moreover have "owns s (In_Flight l) = None" using none by (simp add: owns_def)
  ultimately have r: "registered (owns s') (set (cc_paths s')) (set (cc_files s'))"
    using registered_move [OF cache_okD(8) [OF assms(1)]] by (simp add: s'_def)
  show "cache_ok s'"
  proof (rule cache_okI)
    show "map_of (cc_entries s') t' \<noteq> None" if "t' \<in> set (cc_processing s')" for t'
      using that cache_okD(4) [OF assms(1), of t'] by (simp add: s'_def)
    show "leased s' t' e' l'" if "t' \<notin> set (cc_processing s')" "map_of (cc_entries s') t' = Some e'" "ce_lease e' = Some l'" for t' e' l'
    proof -
      have a: "leased s t' e' l'" using cache_okD(5) [OF assms(1), of t' e' l'] that by (simp add: s'_def split: if_splits)
      then have "l' \<noteq> l" using none by (auto simp: leased_def)
      then show ?thesis using a by (simp add: leased_def s'_def)
    qed
    show "transfer_ok s' l' tr" if "map_of (cc_transferred s') l' = Some tr" for l' tr
    proof (cases "l' = l")
      case True
      then show ?thesis using that assms(5) by (auto simp: transfer_ok_def s'_def)
    next
      case False
      then have "map_of (cc_transferred s) l' = Some tr" using that by (simp add: s'_def)
      then show ?thesis using cache_okD(6) [OF assms(1)] other False by (simp add: transfer_ok_def s'_def)
    qed
    show "l1 = l2" if "map_of (cc_transferred s') l1 = Some t1" "map_of (cc_transferred s') l2 = Some t2"
      "tr_task_id t1 = tr_task_id t2" for l1 l2 t1 t2
      using that other [of l1 t1] other [of l2 t2] cache_okD(7) [OF assms(1), of l1 t1 l2 t2] by (auto simp: s'_def split: if_splits)
  qed (use cache_okD(1-3,9) [OF assms(1)] r in \<open>auto simp: s'_def\<close>)
  show "delivering t reply s'" using assms(5) by (simp add: delivering_def s'_def)
qed

lemma open_entry_kept:
  assumes "cache_ok s" and "has_claim t e s"
    and "\<And>s'. cache_ok s' \<Longrightarrow> delivering t (ce_reply e) s' \<Longrightarrow> Q Again s'"
    and "\<And>ps fs ns. ce_lease e = None \<Longrightarrow> Q (Opened ps fs ns) s" and "\<And>x. E x s"
  shows "wp (open_entry env t e roots n) Q E s"
proof (cases "ce_lease e")
  case None
  then show ?thesis using assms by (auto simp: open_entry_def wp split: sum.split)
next
  case (Some l)
  then show ?thesis using assms activate_again [OF assms(1,2) Some]
    by (auto simp: open_entry_def activate_for_delivery_def wp guarded_def split: sum.split)
qed

lemma consume_kept:
  assumes "cache_ok s" and "tame_consume env"
  shows "wp (consume env t roots n) (\<lambda>reply s'. cache_ok s' \<and> (\<forall>q. reply = Some q \<longrightarrow> delivering t q s')) (\<lambda>_. cache_ok) s"
proof -
  have p: "tame_close (ne_close env)" "streams_close (ne_close env)" "polite (ne_claimed env)" "polite (ne_cleaned env)"
    using assms(2) by (simp_all add: tame_consume_def)
  have transfer: "wp (on_error (transfer_claimed t e paths fs ns n) (unclaim t))
      (\<lambda>q s'. cache_ok s' \<and> delivering t q s') (\<lambda>_. cache_ok) s'"
    if "cache_ok s'" "has_claim t e s'" "ce_lease e = None" for e paths fs ns s'
  proof -
    have "map_of (cc_entries s') t = Some e" using that(2) by (simp add: has_claim_def)
    then show ?thesis using transfer_new [OF that] by (simp add: transfer_claimed_def wp guarded_def Let_def)
  qed
  have opened: "wp (try_catch
          (bind (open_entry env t e roots n) (\<lambda>x. return (Some x)))
          (\<lambda>x. case x of
             DeliveryFileError _ \<Rightarrow>
               bind (discard_claimed (ne_close env) (ne_cleaned env) t e) (\<lambda>_. return None)
           | _ \<Rightarrow> bind (unclaim t) (\<lambda>_. raise (if is_exception x
               then DiscordDeliveryCacheError ''Discord delivery files could not be prepared safely'' else x))))
      (\<lambda>o' s'. cache_ok s' \<and> (o' = Some Again \<longrightarrow> delivering t (ce_reply e) s')
         \<and> (\<forall>ps fs ns. o' = Some (Opened ps fs ns) \<longrightarrow> has_claim t e s' \<and> ce_lease e = None)) (\<lambda>_. cache_ok) s'"
    if "cache_ok s'" "has_claim t e s'" for e s'
  proof -
    have u: "wp (bind (unclaim t) (\<lambda>_. raise x)) Q (\<lambda>_. cache_ok) s'" for x Q
      unfolding wp by (rule unclaim_kept [OF that]) simp
    have d: "wp (bind (discard_claimed (ne_close env) (ne_cleaned env) t e) (\<lambda>_. return None))
      (\<lambda>o' s'. cache_ok s' \<and> (o' = Some Again \<longrightarrow> delivering t (ce_reply e) s')
         \<and> (\<forall>ps fs ns. o' = Some (Opened ps fs ns) \<longrightarrow> has_claim t e s' \<and> ce_lease e = None)) (\<lambda>_. cache_ok) s'"
      unfolding wp by (rule discard_claimed_kept [OF that p(1,2,4)]) simp_all
    show ?thesis unfolding wp_try_catch wp_bind wp_basic
      by (rule open_entry_kept [OF that]) (use that u d in \<open>auto simp: wp_bind wp_basic split: exn.split\<close>)
  qed
  show ?thesis unfolding consume_def wp_bind
  proof (rule claim_kept [OF assms(1)])
    show "wp (case None of None \<Rightarrow> return None | Some entry \<Rightarrow> m entry)
       (\<lambda>reply s'. cache_ok s' \<and> (\<forall>q. reply = Some q \<longrightarrow> delivering t q s')) (\<lambda>_. cache_ok) s" for m
      using assms(1) by (simp add: wp)
  next
    fix e s' assume s': "cache_ok s'" "has_claim t e s'"
    note c = polite_claim [OF p(3) s']
    show "wp (case Some e of None \<Rightarrow> return None | Some entry \<Rightarrow>
        bind (modify (ne_claimed env)) (\<lambda>_.
        bind (try_catch
          (bind (open_entry env t entry roots n) (\<lambda>x. return (Some x)))
          (\<lambda>e. case e of
             DeliveryFileError _ \<Rightarrow>
               bind (discard_claimed (ne_close env) (ne_cleaned env) t entry) (\<lambda>_. return None)
           | _ \<Rightarrow> bind (unclaim t) (\<lambda>_. raise (if is_exception e
               then DiscordDeliveryCacheError ''Discord delivery files could not be prepared safely'' else e))))
          (\<lambda>opened.
        case opened of
          None \<Rightarrow> return None
        | Some Again \<Rightarrow> return (Some (ce_reply entry))
        | Some (Opened paths fs normalized) \<Rightarrow>
            bind (on_error (transfer_claimed t entry paths fs normalized n) (unclaim t)) (\<lambda>reply.
            return (Some reply)))))
      (\<lambda>reply s'. cache_ok s' \<and> (\<forall>q. reply = Some q \<longrightarrow> delivering t q s')) (\<lambda>_. cache_ok) s'"
      unfolding option.case wp_bind wp_basic(3)
      by (rule wp_mono [OF opened [OF c(1,2)]])
         (auto simp: wp_bind wp_basic split: option.split opened_entry.split intro!: wp_mono [OF transfer])
  qed
qed

text \<open>Putting a reply in; the identity of a file that is left over is a new one.\<close>

lemma reserve_fields [simp]:
  "cc_entries (reserve_ownership g s) = cc_entries s" "cc_processing (reserve_ownership g s) = cc_processing s"
  "cc_transferred (reserve_ownership g s) = cc_transferred s" "cc_pending (reserve_ownership g s) = cc_pending s"
  "cc_leases (reserve_ownership g s) = cc_leases s" "owns (reserve_ownership g s) = owns s"
  "set (cc_paths (reserve_ownership g s)) = insert (ow_path g) (set (cc_paths s))"
  "set (cc_files (reserve_ownership g s)) = insert (ow_file g) (set (cc_files s))"
  "leased (reserve_ownership g s) = leased s" "transfer_ok (reserve_ownership g s) = transfer_ok s"
  by (simp_all add: reserve_ownership_def)

definition fresh_put :: "put_env \<Rightarrow> delivery \<Rightarrow> bool" where
  "fresh_put env s \<longleftrightarrow> (case pe_quarantine env of Cleanup_Pending i _ _ \<Rightarrow> map_of (cc_pending s) i = None | _ \<Rightarrow> True)"

lemma register_pending_ok:
  assumes "cache_ok s" and "\<not> reserved g s" and "map_of (cc_pending s) (ow_id g) = None"
  shows "cache_ok (register_pending g s)"
proof -
  let ?s = "register_pending g s"
  have f: "cc_entries ?s = cc_entries s" "cc_processing ?s = cc_processing s" "cc_transferred ?s = cc_transferred s"
    "leased ?s = leased s" "transfer_ok ?s = transfer_ok s" by (simp_all add: register_pending_def)
  have "owns ?s = (owns s)(Left_Over (ow_id g) := Some g)"
    by (rule ext) (simp add: register_pending_def owns_def split: owner.split)
  moreover have "owns s (Left_Over (ow_id g)) = None" using assms(3) by (simp add: owns_def)
  ultimately have r: "registered (owns ?s) (set (cc_paths ?s)) (set (cc_files ?s))"
    using registered_add [OF cache_okD(8) [OF assms(1)]] assms(2) by (simp add: register_pending_def reserved_def)
  show ?thesis
    by (rule cache_okI) (use cache_okD(1-7,9) [OF assms(1)] r in \<open>auto simp: f register_pending_def split: if_splits\<close>)
qed

lemma acquire_kept:
  assumes "cache_ok s" and "fresh_put env s"
    and "\<And>g. \<not> reserved g s \<Longrightarrow> Q g (reserve_ownership g s)" and "\<And>x s'. cache_ok s' \<Longrightarrow> E x s'"
  shows "wp (acquire env) Q E s"
proof (cases "pe_candidate env")
  case (Inl e)
  then show ?thesis using assms(1,4) by (simp add: acquire_def wp)
next
  case (Inr c)
  obtain path node where c: "c = (path, node)" by (cases c)
  show ?thesis
  proof (cases "path \<notin> set (cc_paths s) \<and> node \<notin> set (cc_files s)")
    case False
    then show ?thesis using assms(1,4) Inr c by (auto simp: acquire_def wp guarded_def)
  next
    case True
    have r: "\<not> reserved \<lparr>ow_id = i, ow_path = path, ow_file = node, ow_quarantine = q\<rparr> s" for i q
      using True by (simp add: reserved_def)
    show ?thesis
    proof (cases "pe_quarantine env")
      case (Cleanup_Pending i q e)
      then have "map_of (cc_pending s) i = None" using assms(2) by (simp add: fresh_put_def)
      with register_pending_ok [OF assms(1) r, of i q]
      have "cache_ok (register_pending \<lparr>ow_id = i, ow_path = path, ow_file = node, ow_quarantine = q\<rparr> s)" by simp
      then show ?thesis using assms(4) Inr c True Cleanup_Pending by (simp add: acquire_def wp guarded_def)
    qed (use assms(1,3,4) Inr c True r in \<open>simp_all add: acquire_def wp guarded_def Let_def\<close>)
  qed
qed

lemma put_entry_ok:
  assumes "cache_ok s" and "map_of (cc_entries s) t = None"
    and "\<And>l tr. map_of (cc_transferred s) l = Some tr \<Longrightarrow> tr_task_id tr \<noteq> t"
    and "\<And>g. go = Some g \<Longrightarrow> \<not> reserved g s" and "ce_lease e = None" and "ce_generated e = go"
  defines "s1 \<equiv> (case go of None \<Rightarrow> s | Some g \<Rightarrow> reserve_ownership g s)"
  shows "cache_ok (s1\<lparr>cc_entries := AList.update t e (cc_entries s1)\<rparr>)"
proof -
  let ?s = "s1\<lparr>cc_entries := AList.update t e (cc_entries s1)\<rparr>"
  have f: "cc_entries s1 = cc_entries s" "cc_processing s1 = cc_processing s" "cc_transferred s1 = cc_transferred s"
    "cc_pending s1 = cc_pending s" "cc_leases s1 = cc_leases s" "leased s1 = leased s" "transfer_ok s1 = transfer_ok s"
    by (simp_all add: s1_def split: option.split)
  have p: "t \<notin> set (cc_processing s)" using cache_okD(4) [OF assms(1), of t] assms(2) by blast
  have o: "owns ?s = (owns s)(Cached t := go)" using assms(5,6)
    by (intro ext) (simp add: owns_def f split: owner.split)
  have n: "owns s (Cached t) = None" using assms(2) by (simp add: owns_def)
  then have same: "(owns s)(Cached t := None) = owns s" by (simp add: fun_upd_idem)
  have r: "registered (owns ?s) (set (cc_paths ?s)) (set (cc_files ?s))"
    using registered_add [OF cache_okD(8) [OF assms(1)] _ _ n] assms(4) cache_okD(8) [OF assms(1)] same
    unfolding o by (auto simp: s1_def reserved_def split: option.split)
  show ?thesis
  proof (rule cache_okI)
    show "leased ?s t' e' l'" if "t' \<notin> set (cc_processing ?s)" "map_of (cc_entries ?s) t' = Some e'" "ce_lease e' = Some l'" for t' e' l'
      using cache_okD(5) [OF assms(1), of t' e' l'] that assms(5) by (auto simp: f split: if_splits)
    show "transfer_ok ?s l' tr" if "map_of (cc_transferred ?s) l' = Some tr" for l' tr
      using cache_okD(6) [OF assms(1), of l' tr] that assms(3) [of l' tr] by (simp add: transfer_ok_def f)
    show "ow_id g = i" if "map_of (cc_pending ?s) i = Some g" for i g
      using cache_okD(9) [OF assms(1), of i g] that by (simp add: f)
  qed (use cache_okD(1-4,7) [OF assms(1)] r p in \<open>auto simp: f\<close>)
qed

lemma no_transfer_of:
  assumes "dict_wf (cc_transferred s)" and "\<not> list_ex (\<lambda>x. tr_task_id x = t) (dict_values (cc_transferred s))"
    and "map_of (cc_transferred s) l = Some tr"
  shows "tr_task_id tr \<noteq> t"
  using assms dict_values_iff [OF assms(1), of tr] by (auto simp: list_ex_iff)

lemma put_kept:
  assumes "cache_ok s" and "fresh_put env s"
  shows "wp (cache_put env t reply) (\<lambda>_. cache_ok) (\<lambda>_. cache_ok) s"
proof (cases "raise_first (cache_put_checks t reply s)")
  case (Inl e)
  then show ?thesis using assms(1) by (simp add: cache_put_def wp)
next
  case (Inr u)
  then have c: "map_of (cc_entries s) t = None" "\<not> list_ex (\<lambda>x. tr_task_id x = t) (dict_values (cc_transferred s))"
    by (auto simp: cache_put_checks_def result_simps map_of_eq_None_iff)
  note put = put_entry_ok [OF assms(1) c(1) no_transfer_of [OF cache_okD(2) [OF assms(1)] c(2)]]
  show ?thesis unfolding cache_put_def using assms Inr put [where go = None] put [where go = "Some g" for g]
    by (auto simp: wp split: sum.split option.split intro!: acquire_kept)
qed

end
