(* ===== verification/DeliverySystem.thy ===== *)
theory DeliverySystem
  imports DeliveryCacheProps
begin

text \<open>
  The return of a reply to the cache, the closing of the cache, and the cache as a state machine whose steps are
  whole operations.
\<close>

section \<open>Restoring a reply\<close>

definition restored :: "nat \<Rightarrow> transferred_reply \<Rightarrow> string \<Rightarrow> prepared_reply \<Rightarrow> delivery \<Rightarrow> delivery" where
  "restored l tr t reply s = set_lease l (\<lambda>x. x\<lparr>ls_cache_owned := True\<rparr>)
     (s\<lparr>cc_entries := AList.update t ((tr_entry tr)\<lparr>ce_reply := reply, ce_lease := Some l, ce_roots := Some (tr_roots tr),
        ce_max_bytes := Some (tr_max_bytes tr)\<rparr>) (cc_entries s)\<rparr>)"

definition restorable :: "nat \<Rightarrow> transferred_reply \<Rightarrow> string \<Rightarrow> prepared_reply \<Rightarrow> delivery \<Rightarrow> bool" where
  "restorable l tr t reply s \<longleftrightarrow> pr_lease reply = Some l \<and> map_of (cc_transferred s) l = Some tr \<and> tr_task_id tr = t
     \<and> tr_reply tr = reply \<and> \<not> cc_closed s \<and> map_of (cc_entries s) t = None \<and> t \<notin> set (cc_processing s)
     \<and> \<not> ls_cache_owned (lease_at s l) \<and> \<not> ls_streams_closed (lease_at s l) \<and> \<not> ls_released (lease_at s l)"

text \<open>A refused restore changes nothing.\<close>

lemma restore_outcome:
  "wp (restore seek t reply) (\<lambda>_ s'. \<exists>l tr. restorable l tr t reply s \<and> s' = restored l tr t reply s) (\<lambda>_ s'. s' = s) s"
proof (cases "pr_lease reply")
  case None
  then show ?thesis by (simp add: restore_def wp)
next
  case (Some l)
  have e: "set_lease l f (s\<lparr>cc_entries := es\<rparr>) = (set_lease l f s)\<lparr>cc_entries := es\<rparr>" for f es
    by (simp add: set_lease_def lease_at_def)
  have "wp (reclaim_for_cache seek l (restore_transferred t reply l))
      (\<lambda>_ s'. \<exists>l tr. restorable l tr t reply s \<and> s' = restored l tr t reply s) (\<lambda>_ s'. s' = s) s"
    using Some by (auto simp: reclaim_for_cache_def restore_transferred_def wp guarded_def restorable_def restored_def
        result_simps map_of_eq_None_iff split: sum.split option.split)
  then show ?thesis unfolding restore_def Some option.case wp_try_catch
    by (rule wp_mono) (auto simp: wp split: exn.split)
qed

lemma restored_ok:
  assumes "cache_ok s" and "restorable l tr t reply s"
  shows "cache_ok (restored l tr t reply s)"
proof -
  let ?s = "restored l tr t reply s"
  have a: "map_of (cc_transferred s) l = Some tr" "tr_task_id tr = t" "tr_reply tr = reply" "map_of (cc_entries s) t = None"
    "t \<notin> set (cc_processing s)" "pr_lease reply = Some l"
    using assms(2) by (simp_all add: restorable_def)
  obtain x where x: "map_of (cc_leases s) l = Some x" "\<not> ls_released x"
    using cache_okD(6) [OF assms(1) a(1)] by (auto simp: transfer_ok_def split: option.splits)
  have f: "map_of (cc_entries ?s) t' = (if t' = t then Some ((tr_entry tr)\<lparr>ce_reply := reply, ce_lease := Some l,
      ce_roots := Some (tr_roots tr), ce_max_bytes := Some (tr_max_bytes tr)\<rparr>) else map_of (cc_entries s) t')"
    "cc_processing ?s = cc_processing s" "cc_transferred ?s = cc_transferred s" "cc_pending ?s = cc_pending s"
    "cc_paths ?s = cc_paths s" "cc_files ?s = cc_files s" "dict_wf (cc_entries s) \<Longrightarrow> dict_wf (cc_entries ?s)"
    "map_of (cc_leases ?s) = (map_of (cc_leases s))(l \<mapsto> x\<lparr>ls_cache_owned := True\<rparr>)" for t'
    using x by (simp_all add: restored_def lease_at_def)
  have o: "owns ?s = owns s" using a(4) by (intro ext) (simp add: owns_def f split: owner.split)
  show ?thesis
  proof (rule cache_okI)
    show "map_of (cc_entries ?s) t' \<noteq> None" if "t' \<in> set (cc_processing ?s)" for t'
      using that cache_okD(4) [OF assms(1), of t'] by (simp add: f)
    show "leased ?s t' e' l'" if "t' \<notin> set (cc_processing ?s)" "map_of (cc_entries ?s) t' = Some e'" "ce_lease e' = Some l'" for t' e' l'
    proof (cases "t' = t")
      case True
      then show ?thesis using that a x by (auto simp: leased_def f)
    next
      case False
      then have "leased s t' e' l'" using cache_okD(5) [OF assms(1), of t' e' l'] that by (simp add: f)
      then show ?thesis using x by (auto simp: leased_def f)
    qed
    show "transfer_ok ?s l' tr'" if "map_of (cc_transferred ?s) l' = Some tr'" for l' tr'
    proof (cases "l' = l")
      case True
      then have "tr' = tr" using that a(1) by (simp add: f)
      with True show ?thesis using a x by (simp add: transfer_ok_def f)
    next
      case False
      have l: "map_of (cc_transferred s) l' = Some tr'" using that by (simp add: f)
      then have "tr_task_id tr' \<noteq> t" using cache_okD(7) [OF assms(1) l a(1)] a(2) False by auto
      then show ?thesis using cache_okD(6) [OF assms(1) l] False by (simp add: transfer_ok_def f)
    qed
  qed (use cache_okD(1-3,7,8,9) [OF assms(1)] in \<open>auto simp: f(2-7) o\<close>)
qed

lemma restore_kept:
  assumes "cache_ok s"
  shows "wp (restore seek t reply) (\<lambda>_. cache_ok) (\<lambda>_. cache_ok) s"
  by (rule wp_mono [OF restore_outcome]) (use assms restored_ok in blast)+

section \<open>Closing the cache\<close>

text \<open>The wait ends when nothing is processed.\<close>

definition tame_shutdown :: "shutdown_env \<Rightarrow> bool" where
  "tame_shutdown env \<longleftrightarrow> (\<forall>s. cache_ok s \<longrightarrow> cache_ok (xs_wait env s) \<and> cc_processing (xs_wait env s) = []
       \<and> (cc_closed s \<longrightarrow> cc_closed (xs_wait env s)))
     \<and> (\<forall>t. tame_close (xs_close env t) \<and> streams_close (xs_close env t) \<and> polite (xs_cleaned env t))"

definition draining :: "exn option \<Rightarrow> string list \<Rightarrow> delivery \<Rightarrow> bool" where
  "draining first ts s \<longleftrightarrow> cache_ok s \<and> cc_closed s \<and> cc_processing s = []
     \<and> (first = None \<longrightarrow> fst ` set (cc_entries s) \<subseteq> set ts)"

lemma remove_claimed_fields:
  assumes "map_of (cc_entries s) t = Some e"
  shows "cc_entries (remove_claimed t e b s) = AList.delete t (cc_entries s)"
    and "cc_processing (remove_claimed t e b s) = removeAll t (cc_processing s)"
    and "cc_closed (remove_claimed t e b s) = cc_closed s"
  using assms by (simp_all add: remove_claimed_def release_ownership_def Let_def split: option.split)

lemma keys_delete: "fst ` set (AList.delete k d) = fst ` set d - {k}"
  by (metis delete_keys removeAll_set set_map)

lemma removeAll_Nil: "set xs \<subseteq> {x} \<Longrightarrow> removeAll x xs = []"
  by (induction xs) auto

lemma close_entries_drained:
  assumes "draining first ts s" and "tame_shutdown env"
  shows "wp (close_entries env ts first) (\<lambda>first' s'. draining first' [] s') (\<lambda>_ _. False) s"
  using assms(1)
proof (induction ts arbitrary: first s)
  case Nil
  then show ?case by (simp add: wp)
next
  case (Cons t ts)
  let ?Q = "\<lambda>first' s'. wp (close_entries env ts first') (\<lambda>first' s'. draining first' [] s') (\<lambda>_ _. False) s'"
  have env: "tame_close (xs_close env t)" "streams_close (xs_close env t)" "polite (xs_cleaned env t)"
    using assms(2) by (simp_all add: tame_shutdown_def)
  have s: "cache_ok s" "cc_closed s" "cc_processing s = []" "first = None \<longrightarrow> fst ` set (cc_entries s) \<subseteq> insert t (set ts)"
    using Cons.prems by (simp_all add: draining_def)
  have none: "?Q first s" if "map_of (cc_entries s) t = None"
    by (rule Cons.IH) (use that s in \<open>auto simp: draining_def map_of_eq_None_iff\<close>)
  have some: "wp (bind (try_catch (bind (cleanup_entry (xs_close env t) e) (\<lambda>_. return None))
            (\<lambda>e. bind (unclaim t) (\<lambda>_. return (Some e)))) (\<lambda>failed.
          case failed of
            Some e \<Rightarrow> return (or_first first e)
          | None \<Rightarrow> bind (modify (xs_cleaned env t)) (\<lambda>_.
              bind (modify (remove_claimed t e True)) (\<lambda>_. return first)))) ?Q (\<lambda>_ _. False) s'"
    if s': "s' = s\<lparr>cc_processing := t # cc_processing s\<rparr>" "cache_ok s'" "has_claim t e s'" for e s'
  proof -
    have close: "wp (cleanup_entry (xs_close env t) e) (\<lambda>_ s1. cache_ok s1 \<and> removable t e s1 \<and> shrinks s' s1)
        (\<lambda>_ s1. cache_ok s1 \<and> has_claim t e s1 \<and> shrinks s' s1) s'"
      by (rule cleanup_entry_kept [OF s'(2,3) env(1,2)]) simp_all
    have failed: "?Q (or_first first x) (s1\<lparr>cc_processing := removeAll t (cc_processing s1)\<rparr>)"
      if "cache_ok s1" "has_claim t e s1" "shrinks s' s1" for x s1
    proof (rule Cons.IH)
      have "cache_ok (s1\<lparr>cc_processing := removeAll t (cc_processing s1)\<rparr>)"
        using unclaim_kept [OF that(1,2), of "\<lambda>_. cache_ok"] by (simp add: unclaim_def wp)
      moreover have "removeAll t (cc_processing s1) = []"
        by (rule removeAll_Nil) (use that(3) s' s in \<open>auto simp: shrinks_def\<close>)
      ultimately show "draining (or_first first x) ts (s1\<lparr>cc_processing := removeAll t (cc_processing s1)\<rparr>)"
        using that(3) s'(1) s by (simp add: draining_def shrinks_def or_first_def split: option.split)
    qed
    have closed: "?Q first (remove_claimed t e True (xs_cleaned env t s1))"
      if "cache_ok s1" "removable t e s1" "shrinks s' s1" for s1
    proof (rule Cons.IH)
      note r = removable_polite [OF env(3) that(1,2)]
      have m: "map_of (cc_entries (xs_cleaned env t s1)) t = Some e" using r(2) by (simp add: removable_def)
      have k: "shrinks s' (xs_cleaned env t s1)" by (rule shrinks_trans [OF that(3) r(3)])
      have "removeAll t (cc_processing (xs_cleaned env t s1)) = []"
        by (rule removeAll_Nil) (use k s' s in \<open>auto simp: shrinks_def\<close>)
      moreover have "fst ` set (cc_entries (xs_cleaned env t s1)) \<subseteq> fst ` set (cc_entries s)"
        using k s'(1) s(2) by (simp add: shrinks_def)
      then have "first = None \<longrightarrow> fst ` set (AList.delete t (cc_entries (xs_cleaned env t s1))) \<subseteq> set ts"
        using s(4) unfolding keys_delete by blast
      ultimately show "draining first ts (remove_claimed t e True (xs_cleaned env t s1))"
        using removable_removed [OF r(1,2)] k s'(1) s by (simp add: draining_def remove_claimed_fields [OF m] shrinks_def)
    qed
    show ?thesis unfolding wp_bind wp_try_catch
      by (rule wp_mono [OF close]) (use failed closed in \<open>auto simp: wp unclaim_def\<close>)
  qed
  show ?case unfolding close_entries.simps wp_bind
  proof (rule claim_kept [OF s(1)])
    assume "True \<longrightarrow> t \<in> set (cc_processing s) \<or> map_of (cc_entries s) t = None"
    then show "wp (case None of None \<Rightarrow> return first | Some entry \<Rightarrow> m entry) ?Q (\<lambda>_ _. False) s" for m
      using none s(3) by (simp add: wp)
  next
    fix e s' assume a: "cache_ok s'" "has_claim t e s'" "s' = s\<lparr>cc_processing := t # cc_processing s\<rparr>"
    show "wp (case Some e of None \<Rightarrow> return first
      | Some entry \<Rightarrow>
          bind (try_catch (bind (cleanup_entry (xs_close env t) entry) (\<lambda>_. return None))
            (\<lambda>e. bind (unclaim t) (\<lambda>_. return (Some e)))) (\<lambda>failed.
          case failed of
            Some e \<Rightarrow> return (or_first first e)
          | None \<Rightarrow> bind (modify (xs_cleaned env t)) (\<lambda>_.
              bind (modify (remove_claimed t entry True)) (\<lambda>_. return first)))) ?Q (\<lambda>_ _. False) s'"
      unfolding option.case by (rule some [OF a(3,1,2)])
  qed
qed

text \<open>The files that are left over.\<close>

definition dropped :: "ownership \<Rightarrow> delivery \<Rightarrow> delivery" where
  "dropped g s = release_ownership g (s\<lparr>cc_pending := AList.delete (ow_id g) (cc_pending s)\<rparr>)"

lemma dropped_ok:
  assumes "cache_ok s" and "map_of (cc_pending s) (ow_id g) = Some g"
  shows "cache_ok (dropped g s)"
proof -
  let ?s = "dropped g s"
  have f: "cc_entries ?s = cc_entries s" "cc_processing ?s = cc_processing s" "cc_transferred ?s = cc_transferred s"
    "leased ?s = leased s" "transfer_ok ?s = transfer_ok s" "cc_pending ?s = AList.delete (ow_id g) (cc_pending s)"
    by (simp_all add: dropped_def release_ownership_def)
  have o: "owns ?s = (owns s)(Left_Over (ow_id g) := None)"
    by (rule ext) (simp add: f owns_def split: owner.split)
  have "owns s (Left_Over (ow_id g)) = Some g" using assms(2) by (simp add: owns_def)
  from registered_remove [OF cache_okD(8) [OF assms(1)] this]
  have r: "registered (owns ?s) (set (cc_paths ?s)) (set (cc_files ?s))"
    unfolding o by (simp add: dropped_def release_ownership_def)
  show ?thesis
    by (rule cache_okI) (use cache_okD(1-7,9) [OF assms(1)] r in \<open>auto simp: f split: if_splits\<close>)
qed

definition emptying :: "exn option \<Rightarrow> ownership list \<Rightarrow> delivery \<Rightarrow> bool" where
  "emptying first gs s \<longleftrightarrow> cache_ok s \<and> cc_closed s \<and> cc_processing s = []
     \<and> (first = None \<longrightarrow> (\<forall>i g. map_of (cc_pending s) i = Some g \<longrightarrow> g \<in> set gs))"

lemma drained:
  assumes "emptying first gs s"
  shows "wp (drain_loop out gs first) (\<lambda>first' s'. emptying first' [] s' \<and> cc_entries s' = cc_entries s
      \<and> (first' = None \<longrightarrow> first = None)) (\<lambda>_ _. False) s"
  using assms
proof (induction gs arbitrary: first s)
  case Nil
  then show ?case by (simp add: wp)
next
  case (Cons g gs)
  let ?Q = "\<lambda>first' s'. wp (drain_loop out gs first') (\<lambda>f s''. emptying f [] s'' \<and> cc_entries s'' = cc_entries s
      \<and> (f = None \<longrightarrow> first = None)) (\<lambda>_ _. False) s'"
  have next': "?Q f s'" if "emptying f gs s'" "cc_entries s' = cc_entries s" "f = None \<longrightarrow> first = None" for f s'
    by (rule wp_mono [OF Cons.IH [OF that(1)]]) (use that(2,3) in auto)
  have s: "cache_ok s" "cc_closed s" "cc_processing s = []" using Cons.prems by (simp_all add: emptying_def)
  have failed: "?Q (or_first first x) s" for x
    by (rule next') (use s in \<open>auto simp: emptying_def or_first_def split: option.split\<close>)
  have removed: "?Q first (if map_of (cc_pending s1) (ow_id g) = Some g
      then release_ownership g (s1\<lparr>cc_pending := AList.delete (ow_id g) (cc_pending s1)\<rparr>) else s1)"
    if s1: "s1 = s \<or> s1 = s\<lparr>cc_cleaned := c\<rparr>" for s1 c
  proof (rule next')
    have p: "cc_pending s1 = cc_pending s" "cc_entries s1 = cc_entries s" "cc_closed s1" "cc_processing s1 = []" "cache_ok s1"
      using s1 s by auto
    have d: "cc_entries (dropped g s1) = cc_entries s" "cc_closed (dropped g s1)" "cc_processing (dropped g s1) = []"
      "cc_pending (dropped g s1) = AList.delete (ow_id g) (cc_pending s)"
      using p by (simp_all add: dropped_def release_ownership_def)
    have i: "i = ow_id g" if "map_of (cc_pending s) i = Some g" for i using cache_okD(9) [OF s(1) that] by simp
    show "emptying first gs (if map_of (cc_pending s1) (ow_id g) = Some g
      then release_ownership g (s1\<lparr>cc_pending := AList.delete (ow_id g) (cc_pending s1)\<rparr>) else s1)"
      unfolding dropped_def [symmetric]
    proof (split if_split, intro conjI impI)
      assume m: "map_of (cc_pending s1) (ow_id g) = Some g"
      show "emptying first gs (dropped g s1)"
        using Cons.prems d i dropped_ok [OF p(5) m] by (auto simp: emptying_def split: if_splits)
    next
      assume "map_of (cc_pending s1) (ow_id g) \<noteq> Some g"
      then show "emptying first gs s1" using Cons.prems p i by (auto simp: emptying_def)
    qed
    show "cc_entries (if map_of (cc_pending s1) (ow_id g) = Some g
      then release_ownership g (s1\<lparr>cc_pending := AList.delete (ow_id g) (cc_pending s1)\<rparr>) else s1) = cc_entries s"
      using d(1) p(2) by (simp add: dropped_def)
  qed simp
  have "wp (cleanup_generated (out (ow_id g)) g) (\<lambda>_ s1. \<exists>c. s1 = s \<or> s1 = s\<lparr>cc_cleaned := c\<rparr>) (\<lambda>_ s1. s1 = s) s"
    by (rule cleanup_kept) auto
  then show ?case unfolding drain_loop.simps wp_bind wp_try_catch wp_basic
    by (rule wp_mono) (elim exE, erule removed, simp only: failed)
qed

lemma close_kept:
  assumes "cache_ok s" and "tame_shutdown env"
  shows "wp (cache_close env) (\<lambda>_ s'. cache_ok s' \<and> cc_closed s' \<and> cc_processing s' = [] \<and> cc_entries s' = [] \<and> cc_pending s' = [])
     (\<lambda>_. cache_ok) s"
proof -
  let ?s = "s\<lparr>cc_closed := True\<rparr>"
  define w where "w = (if cc_processing s = [] then ?s else xs_wait env ?s)"
  have "cache_ok ?s" using assms(1) by simp
  then have w: "cache_ok w" "cc_closed w" "cc_processing w = []" using assms(2) by (auto simp: w_def tame_shutdown_def)
  then have d: "draining None (dict_keys (cc_entries w)) w" by (simp add: draining_def)
  have pending: "wp (drain_pending (xs_cleanup env)) (\<lambda>f s'. emptying f [] s' \<and> cc_entries s' = cc_entries s1) (\<lambda>_ _. False) s1"
    if "draining first [] s1" for first s1
  proof -
    have s1: "cache_ok s1" "cc_closed s1" "cc_processing s1 = []" using that by (simp_all add: draining_def)
    then have "emptying None (dict_values (cc_pending s1)) s1"
      using dict_values_iff [OF cache_okD(3) [OF s1(1)]] by (auto simp: emptying_def)
    from drained [OF this] show ?thesis unfolding drain_pending_def by (auto simp: wp elim!: wp_mono)
  qed
  have end': "wp (case (case first of None \<Rightarrow> f | Some e \<Rightarrow> Some e) of None \<Rightarrow> return ()
    | Some e \<Rightarrow> raise (shutdown_error e))
      (\<lambda>_ s'. cache_ok s' \<and> cc_closed s' \<and> cc_processing s' = [] \<and> cc_entries s' = [] \<and> cc_pending s' = []) (\<lambda>_. cache_ok) s2"
    if "draining first [] s1" "emptying f [] s2" "cc_entries s2 = cc_entries s1" for first f s1 s2
  proof -
    have "map_of (cc_pending s2) = Map.empty" if "f = None"
      using that \<open>emptying f [] s2\<close> by (auto simp: emptying_def fun_eq_iff)
    then have "cc_pending s2 = []" if "f = None" using that by simp
    then show ?thesis using that by (auto simp: wp draining_def emptying_def split: option.split)
  qed
  show ?thesis unfolding cache_close_def wp_bind wp_basic
    using d w(1) by (simp add: w_def [symmetric])
       (rule wp_mono [OF close_entries_drained [OF d assms(2)]], rule wp_mono [OF pending], assumption, rule end', simp_all)
qed

section \<open>Steps of the cache\<close>

inductive cache_step :: "delivery \<Rightarrow> delivery \<Rightarrow> bool" where
  putting: "fresh_put env s \<Longrightarrow> cache_step s (snd (cache_put env t reply s))"
| consuming: "tame_consume env \<Longrightarrow> cache_step s (snd (consume env t roots n s))"
| restoring: "cache_step s (snd (restore seek t reply s))"
| discarding: "tame_close env \<Longrightarrow> streams_close env \<Longrightarrow> polite cleaned \<Longrightarrow> cache_step s (snd (discard env cleaned t s))"
| releasing: "tame_close env \<Longrightarrow> cache_step s (snd (lease_close_call env l s))"
| closing_down: "tame_shutdown env \<Longrightarrow> cache_step s (snd (cache_close env s))"

interpretation cache_system: invariant_system cache_step cache_ok
proof unfold_locales
  fix s s' assume "cache_step s s'" and k: "cache_ok s"
  then show "cache_ok s'"
  proof cases
    case (putting env t reply)
    then show ?thesis using put_kept [OF k] by (simp add: wp_state)
  next
    case (consuming env t roots n)
    have "wp (consume env t roots n) (\<lambda>_. cache_ok) (\<lambda>_. cache_ok) s"
      by (rule wp_mono [OF consume_kept [OF k consuming(2)]]) simp_all
    then show ?thesis using consuming by (simp add: wp_state)
  next
    case (restoring seek t reply)
    then show ?thesis using restore_kept [OF k] by (simp add: wp_state)
  next
    case (discarding env cleaned t)
    then show ?thesis using discard_kept [OF k] by (simp add: wp_state)
  next
    case (releasing env l)
    then show ?thesis using lease_close_kept [OF k] by (simp add: wp_state)
  next
    case (closing_down env)
    have "wp (cache_close env) (\<lambda>_. cache_ok) (\<lambda>_. cache_ok) s"
      by (rule wp_mono [OF close_kept [OF k closing_down(2)]]) simp_all
    then show ?thesis using closing_down by (simp add: wp_state)
  qed
qed

lemma empty_delivery_ok: "cache_ok empty_delivery"
  by (auto simp: cache_ok_def empty_delivery_def registered_def owns_def split: owner.splits)

section \<open>The properties\<close>

lemma cache_okE:
  assumes "cache_ok s"
  shows "cc_entries s = [] \<Longrightarrow> cc_pending s = [] \<Longrightarrow> ow \<in> set (cc_paths s)
      \<Longrightarrow> \<exists>l tr g. map_of (cc_transferred s) l = Some tr \<and> ce_generated (tr_entry tr) = Some g \<and> ow_path g = ow"
    and "map_of (cc_entries s) t = Some e \<Longrightarrow> ce_lease e = None \<Longrightarrow> ce_generated e = Some g
      \<Longrightarrow> ow_path g \<in> set (cc_paths s) \<and> ow_file g \<in> set (cc_files s)"
    and "map_of (cc_transferred s) l = Some tr \<Longrightarrow> ce_generated (tr_entry tr) = Some g
      \<Longrightarrow> ow_path g \<in> set (cc_paths s) \<and> ow_file g \<in> set (cc_files s)"
proof -
  note d = registeredD [OF cache_okD(8) [OF assms]]
  show "\<exists>l tr g. map_of (cc_transferred s) l = Some tr \<and> ce_generated (tr_entry tr) = Some g \<and> ow_path g = ow"
    if o: "cc_entries s = []" "cc_pending s = []" "ow \<in> set (cc_paths s)"
  proof -
    obtain w g where w: "owns s w = Some g" "ow_path g = ow" using d(1) o(3) by blast
    then show ?thesis using o(1,2) by (cases w) (auto simp: owns_def split: option.splits)
  qed
  show "ow_path g \<in> set (cc_paths s) \<and> ow_file g \<in> set (cc_files s)"
    if "map_of (cc_entries s) t = Some e" "ce_lease e = None" "ce_generated e = Some g"
  proof -
    have "owns s (Cached t) = Some g" using that by (simp add: owns_def)
    then show ?thesis using d(1,2) by blast
  qed
  show "ow_path g \<in> set (cc_paths s) \<and> ow_file g \<in> set (cc_files s)"
    if "map_of (cc_transferred s) l = Some tr" "ce_generated (tr_entry tr) = Some g"
  proof -
    have "owns s (In_Flight l) = Some g" using that by (simp add: owns_def)
    then show ?thesis using d(1,2) by blast
  qed
qed

text \<open>While a reply is out, its task has nothing to hand out and nothing can be put in its place.\<close>

lemma delivering_consume:
  assumes "delivering t reply s"
  shows "consume env t roots n s = (Inr None, s)"
proof -
  have "map_of (cc_entries s) t = None" using assms by (simp add: delivering_def)
  then show ?thesis by (simp add: consume_def claim_entry_def bind_def return_def)
qed

lemma delivering_put:
  assumes "delivering t reply s" and "dict_wf (cc_transferred s)"
  shows "\<exists>x. cache_put env t r s = (Inl x, s)"
proof -
  obtain l tr where "map_of (cc_transferred s) l = Some tr" "tr_task_id tr = t" using assms(1) by (auto simp: delivering_def)
  then have "list_ex (\<lambda>x. tr_task_id x = t) (dict_values (cc_transferred s))"
    using dict_values_iff [OF assms(2), of tr] by (auto simp: list_ex_iff)
  then obtain x where "raise_first (cache_put_checks t r s) = Inl x"
    by (cases "raise_first (cache_put_checks t r s)") (auto simp: cache_put_checks_def result_simps)
  then show ?thesis by (auto simp: cache_put_def bind_def reading_def)
qed

text \<open>Nobody else runs.\<close>

lemma polite_idle [simp]: "polite (\<lambda>s. s)" "polite id"
  by (simp_all add: polite_def claims_kept_def shrinks_def)

definition calm_close :: close_env where
  "calm_close = \<lparr>xe_streams = [Inr ()], xe_cleanup = Inr (), xe_before = (\<lambda>_ s. s), xe_after = (\<lambda>_ s. s)\<rparr>"

lemma calm_close_tame [simp]: "tame_close calm_close" "streams_close calm_close"
  by (simp_all add: tame_close_def streams_close_def calm_close_def)

definition calm_consume :: consume_env where
  "calm_consume = \<lparr>ne_absolute = Inr, ne_parent_allowed = (\<lambda>_. True),
     ne_snapshot = (\<lambda>i. Inr \<lparr>pf_source = ''/w/plot.png'', pf_name = ''plot.png'', pf_size = 12\<rparr>), ne_close = calm_close,
     ne_streams = [], ne_claimed = (\<lambda>s. s), ne_cleaned = (\<lambda>s. s)\<rparr>"

lemma calm_consume_tame [simp]: "tame_consume calm_consume"
  by (simp add: tame_consume_def) (simp add: calm_consume_def)

definition calm_shutdown :: shutdown_env where
  "calm_shutdown = \<lparr>xs_wait = (\<lambda>_. empty_delivery\<lparr>cc_closed := True\<rparr>), xs_close = (\<lambda>_. calm_close), xs_cleaned = (\<lambda>_ s. s),
     xs_cleanup = (\<lambda>_. Inr ())\<rparr>"

lemma calm_shutdown_tame [simp]: "tame_shutdown calm_shutdown"
  by (simp add: tame_shutdown_def calm_shutdown_def empty_delivery_ok) (simp add: empty_delivery_def)

definition plot_file :: ownership where
  "plot_file = \<lparr>ow_id = 7, ow_path = (1, 20, ''plot.png''), ow_file = (1, 33), ow_quarantine = ''/w/.q/plot.png''\<rparr>"

definition plot_env :: put_env where
  "plot_env = \<lparr>pe_same = [0], pe_candidate = Inr (ow_path plot_file, ow_file plot_file),
     pe_quarantine = Quarantined (ow_id plot_file) (ow_quarantine plot_file)\<rparr>"

definition plot_reply :: prepared_reply where
  "plot_reply = \<lparr>pr_message = ''done'', pr_files = [''/w/plot.png''], pr_generated_file = Some ''/w/plot.png'', pr_lease = None\<rparr>"

text \<open>A reply with one generated file, cached and handed out.\<close>

definition plot_cached :: delivery where
  "plot_cached = snd (cache_put plot_env ''a'' plot_reply empty_delivery)"

definition plot_leased :: prepared_reply where
  "plot_leased = \<lparr>pr_message = ''done'', pr_files = [''/w/.q/plot.png''], pr_generated_file = Some ''/w/.q/plot.png'', pr_lease = Some 0\<rparr>"

definition plot_out :: delivery where
  "plot_out = snd (consume calm_consume ''a'' [''/w''] 100 plot_cached)"

lemma plot_consumed: "consume calm_consume ''a'' [''/w''] 100 plot_cached = (Inr (Some plot_leased), plot_out)"
  by code_simp

lemma plot_cached_ok: "cache_ok plot_cached"
proof -
  have "fresh_put plot_env empty_delivery" by (simp add: fresh_put_def plot_env_def)
  then show ?thesis using put_kept [OF empty_delivery_ok, of plot_env "''a''" plot_reply] by (simp add: plot_cached_def wp_state)
qed

lemma plot_out_steps: "cache_step\<^sup>*\<^sup>* empty_delivery plot_cached" "cache_step\<^sup>*\<^sup>* empty_delivery plot_out"
proof -
  have "fresh_put plot_env empty_delivery" by (simp add: fresh_put_def plot_env_def)
  then have put: "cache_step empty_delivery plot_cached" unfolding plot_cached_def by (rule putting)
  then show "cache_step\<^sup>*\<^sup>* empty_delivery plot_cached" by simp
  have "cache_step plot_cached plot_out" unfolding plot_out_def by (rule consuming) simp
  with put show "cache_step\<^sup>*\<^sup>* empty_delivery plot_out" by simp
qed

lemma reached_ok: "cache_step\<^sup>*\<^sup>* empty_delivery s \<Longrightarrow> cache_ok s"
  using cache_system.reachable_inv empty_delivery_ok by blast

text \<open>
  C40. In every state the delivery cache reaches from the empty one by caching, handing out, restoring, discarding
  and releasing replies and by closing, in any order, the registry reserves exactly the paths and inodes of the
  generated files that have an owner (a cached reply without a lease, a lease, or a failed quarantine), no file has
  two owners, and every lease on record is unreleased and either out or cached again for its task. Every call of the
  file system may fail, except that the streams of a lease the cache discards close (\<open>streams_close\<close>; a counterexample
  for a stream that does not stands at the end of this theory). Between the locked regions of an operation
  other threads may do what keeps the invariant, the claimed entries and their leases, and reserves no further
  file (\<open>polite\<close>); a quarantine that is left over is a new object (\<open>fresh_put\<close>), and the wait of close ends with
  nothing in processing.
\<close>

theorem cache_invariant:
  assumes "cache_step\<^sup>*\<^sup>* empty_delivery s"
  shows "(\<forall>p. p \<in> set (cc_paths s) \<longleftrightarrow> (\<exists>w g. owns s w = Some g \<and> ow_path g = p))
    \<and> (\<forall>q. q \<in> set (cc_files s) \<longleftrightarrow> (\<exists>w g. owns s w = Some g \<and> ow_file g = q))
    \<and> (\<forall>w w' g g'. owns s w = Some g \<and> owns s w' = Some g' \<and> w \<noteq> w' \<longrightarrow> ow_path g \<noteq> ow_path g' \<and> ow_file g \<noteq> ow_file g')
    \<and> (\<forall>l tr. map_of (cc_transferred s) l = Some tr \<longrightarrow> transfer_ok s l tr)"
  using registeredD [OF cache_okD(8) [OF reached_ok [OF assms]]] cache_okD(6) [OF reached_ok [OF assms]] by blast

theorem cache_invariant_witness:
  "cache_step\<^sup>*\<^sup>* empty_delivery plot_out \<and> transfer_ok plot_out 0 (the (map_of (cc_transferred plot_out) 0))
     \<and> cc_files plot_out = [(1, 33)]"
proof -
  obtain tr where "map_of (cc_transferred plot_out) 0 = Some tr"
    by (rule that [of "the (map_of (cc_transferred plot_out) 0)"]) code_simp
  moreover have "cc_files plot_out = [(1, 33)]" by code_simp
  ultimately show ?thesis using cache_invariant [OF plot_out_steps(2)] plot_out_steps(2) by simp
qed

text \<open>
  A reply is handed out to one caller. When consume returns a reply, its lease is open, unreleased and the
  caller's, the cache has nothing for the task any more, another consume of the task returns nothing, and a new
  reply of the task is refused. The other threads are polite and the streams of a lease close, as above.
\<close>

theorem handed_out_once:
  assumes "cache_step\<^sup>*\<^sup>* empty_delivery s" and "tame_consume env" and "consume env t roots n s = (Inr (Some reply), s')"
  shows "delivering t reply s' \<and> consume env' t roots' n' s' = (Inr None, s') \<and> (\<exists>x. cache_put put t r s' = (Inl x, s'))"
proof -
  have "cache_ok s'" "delivering t reply s'"
    using consume_kept [OF reached_ok [OF assms(1)] assms(2), of t roots n] assms(3) by (simp_all add: wp_def)
  then show ?thesis using delivering_consume delivering_put cache_okD(2) by blast
qed

theorem handed_out_once_witness:
  "consume calm_consume ''a'' [''/w''] 100 plot_cached = (Inr (Some plot_leased), plot_out)
     \<and> consume calm_consume ''a'' [''/w''] 100 plot_out = (Inr None, plot_out) \<and> delivering ''a'' plot_leased plot_out"
  using plot_consumed handed_out_once [OF plot_out_steps(1) calm_consume_tame plot_consumed] by simp

text \<open>
  Closing the cache drains it. When close returns without an exception, the cache is closed and holds no
  reply and no failed quarantine, the only paths left reserved are those of replies that are out, and nothing can be
  cached or handed out any more. The environment is the one of the invariant above.
\<close>

theorem close_drains:
  assumes "cache_step\<^sup>*\<^sup>* empty_delivery s" and "tame_shutdown env" and "cache_close env s = (Inr (), s')"
  shows "cc_entries s' = [] \<and> cc_pending s' = [] \<and> cc_processing s' = []
    \<and> (\<forall>p. p \<in> set (cc_paths s') \<longrightarrow> (\<exists>l tr g. map_of (cc_transferred s') l = Some tr
         \<and> ce_generated (tr_entry tr) = Some g \<and> ow_path g = p))
    \<and> consume cenv t roots n s' = (Inr None, s')
    \<and> cache_put put t r s' = (Inl (DiscordDeliveryCacheError ''Discord delivery cache is closed''), s')"
proof -
  have s': "cache_ok s'" "cc_closed s'" "cc_processing s' = []" "cc_entries s' = []" "cc_pending s' = []"
    using close_kept [OF reached_ok [OF assms(1)] assms(2)] assms(3) by (simp_all add: wp_def)
  have "consume cenv t roots n s' = (Inr None, s')" using s'(2) by (simp add: consume_def claim_entry_def bind_def return_def)
  moreover have "cache_put put t r s' = (Inl (DiscordDeliveryCacheError ''Discord delivery cache is closed''), s')"
    using s'(2) by (simp add: cache_put_def cache_put_checks_def bind_def reading_def raise_first_def)
  ultimately show ?thesis using s' cache_okE(1) [OF s'(1,4,5)] by simp
qed

theorem close_drains_witness:
  "fst (cache_close calm_shutdown plot_cached) = Inr () \<and> cc_entries (snd (cache_close calm_shutdown plot_cached)) = []
     \<and> length (cc_entries plot_cached) = 1"
proof -
  have f: "fst (cache_close calm_shutdown plot_cached) = Inr ()" by code_simp
  then have c: "cache_close calm_shutdown plot_cached = (Inr (), snd (cache_close calm_shutdown plot_cached))"
    by (simp add: prod_eq_iff)
  have "length (cc_entries plot_cached) = 1" by code_simp
  then show ?thesis using f close_drains [OF plot_out_steps(1) calm_shutdown_tame c] by blast
qed

lemma consume_again:
  assumes "claim_entry False t s = (Inr (Some e), s1)" and "validated_delivery_policy (ne_absolute env) roots n = Inr ns"
    and "ce_lease e = Some l" and "validate_restored_policy (ne_parent_allowed env) (ne_claimed env s1) e ns n = Inr ()"
    and "ls_cache_owned (lease_at (ne_claimed env s1) l)" and "\<not> ls_streams_closed (lease_at (ne_claimed env s1) l)"
    and "\<not> ls_released (lease_at (ne_claimed env s1) l)"
  shows "consume env t roots n s = (Inr (Some (ce_reply e)),
    set_lease l (\<lambda>x. x\<lparr>ls_cache_owned := False\<rparr>) (remove_claimed t e False (ne_claimed env s1)))"
  using assms by (simp add: consume_def open_entry_def activate_for_delivery_def bind_def try_catch_def reading_def
      modify_def from_result_def return_def guarded_def)

lemma claims_kept_lease:
  "claims_kept s s' \<Longrightarrow> t \<in> set (cc_processing s) \<Longrightarrow> map_of (cc_entries s) t = Some e \<Longrightarrow> ce_lease e = Some l
    \<Longrightarrow> map_of (cc_leases s') l = map_of (cc_leases s) l"
  unfolding claims_kept_def by blast

lemma restored_claimed:
  assumes "cache_ok s" and "restorable l tr t reply s" and "polite f"
  obtains e s1 where "claim_entry False t (restored l tr t reply s) = (Inr (Some e), s1)" and "cache_ok (f s1)"
    and "has_claim t e (f s1)" and "e = (tr_entry tr)\<lparr>ce_reply := reply, ce_lease := Some l, ce_roots := Some (tr_roots tr),
        ce_max_bytes := Some (tr_max_bytes tr)\<rparr>"
    and "lease_at (f s1) l = (lease_at s l)\<lparr>ls_cache_owned := True\<rparr>"
proof -
  let ?s = "restored l tr t reply s" and ?e = "(tr_entry tr)\<lparr>ce_reply := reply, ce_lease := Some l, ce_roots := Some (tr_roots tr),
        ce_max_bytes := Some (tr_max_bytes tr)\<rparr>"
  let ?s1 = "?s\<lparr>cc_processing := t # cc_processing ?s\<rparr>"
  have r: "map_of (cc_entries ?s) t = Some ?e" "cc_processing ?s = cc_processing s" "cc_closed ?s = cc_closed s"
    by (simp_all add: restored_def)
  have c: "claim_entry False t ?s = (Inr (Some ?e), ?s1)" using assms(2) r by (simp add: claim_entry_def restorable_def)
  have "wp (claim_entry False t) (\<lambda>x s'. \<forall>e. x = Some e \<longrightarrow> cache_ok s' \<and> has_claim t e s') (\<lambda>_ _. True) ?s"
    by (rule claim_kept [OF restored_ok [OF assms(1,2)]]) simp_all
  then have k: "cache_ok ?s1" "has_claim t ?e ?s1" unfolding wp_def c by simp_all
  have "claims_kept ?s1 (f ?s1)" using assms(3) k(1) by (simp add: polite_def)
  then have "map_of (cc_leases (f ?s1)) l = map_of (cc_leases ?s1) l"
    by (rule claims_kept_lease [where t = t and e = ?e]) (use r(1) in simp_all)
  then have "lease_at (f ?s1) l = (lease_at s l)\<lparr>ls_cache_owned := True\<rparr>"
    by (simp add: lease_at_def restored_def set_lease_def)
  then show thesis using that c polite_claim [OF assms(3) k] by blast
qed

text \<open>
  A reply that was given back is handed out again unchanged. After a restore that succeeds, consuming the task with
  the roots and the limit of the first time, its files still within both, returns the very same reply with the same
  lease, open and the caller's.
\<close>

theorem restored_reply_redelivered:
  assumes "cache_step\<^sup>*\<^sup>* empty_delivery s" and "restore seek t reply s = (Inr (), s1)"
    and "pr_lease reply = Some l" and "map_of (cc_transferred s) l = Some tr"
    and "roots \<noteq> []" and "0 \<le> tr_max_bytes tr" and "absolute_roots (ne_absolute env) roots = Inr (tr_roots tr)"
    and "list_all (\<lambda>f. pf_size f \<le> tr_max_bytes tr) (ls_files (lease_at s l))"
    and "\<And>g. ne_parent_allowed env g" and "polite (ne_claimed env)"
  shows "\<exists>s2. consume env t roots (tr_max_bytes tr) s1 = (Inr (Some reply), s2) \<and> delivering t reply s2"
proof -
  have k: "cache_ok s" by (rule reached_ok [OF assms(1)])
  have r: "restorable l tr t reply s" "s1 = restored l tr t reply s"
    using restore_outcome [of seek t reply s] assms(2-4) by (auto simp: wp_def restorable_def)
  obtain e s2 where e: "claim_entry False t s1 = (Inr (Some e), s2)" "cache_ok (ne_claimed env s2)"
    "has_claim t e (ne_claimed env s2)" "e = (tr_entry tr)\<lparr>ce_reply := reply, ce_lease := Some l, ce_roots := Some (tr_roots tr),
        ce_max_bytes := Some (tr_max_bytes tr)\<rparr>" "lease_at (ne_claimed env s2) l = (lease_at s l)\<lparr>ls_cache_owned := True\<rparr>"
    using restored_claimed [OF k r(1) assms(10)] r(2) by blast
  have le: "ce_lease e = Some l" "ce_reply e = reply" using e(4) by simp_all
  have o: "\<not> ls_streams_closed (lease_at (ne_claimed env s2) l)" "\<not> ls_released (lease_at (ne_claimed env s2) l)"
    "ls_cache_owned (lease_at (ne_claimed env s2) l)" using r(1) e(5) by (simp_all add: restorable_def)
  have "consume env t roots (tr_max_bytes tr) s1 = (Inr (Some (ce_reply e)),
    set_lease l (\<lambda>x. x\<lparr>ls_cache_owned := False\<rparr>) (remove_claimed t e False (ne_claimed env s2)))"
  proof (rule consume_again [OF e(1) _ le(1) _ o(3,1,2)])
    show "validated_delivery_policy (ne_absolute env) roots (tr_max_bytes tr) = Inr (tr_roots tr)"
      using assms(5-7) by (simp add: validated_delivery_policy_def)
    show "validate_restored_policy (ne_parent_allowed env) (ne_claimed env s2) e (tr_roots tr) (tr_max_bytes tr) = Inr ()"
      using assms(8,9) e(4,5) by (simp add: validate_restored_policy_def guarded_def split: option.split)
  qed
  then show ?thesis using activate_again(2) [OF e(2,3) le(1) o(1)] le(2) by simp
qed

theorem restored_reply_redelivered_witness:
  "\<exists>s1 s2. restore (Inr ()) ''a'' plot_leased plot_out = (Inr (), s1)
     \<and> consume calm_consume ''a'' [''/w''] 100 s1 = (Inr (Some plot_leased), s2) \<and> delivering ''a'' plot_leased s2"
proof -
  define s1 where "s1 = snd (restore (Inr ()) ''a'' plot_leased plot_out)"
  have "fst (restore (Inr ()) ''a'' plot_leased plot_out) = Inr ()" by code_simp
  then have r: "restore (Inr ()) ''a'' plot_leased plot_out = (Inr (), s1)" by (simp add: s1_def prod_eq_iff)
  have "map_of (cc_transferred plot_out) 0 \<noteq> None" by code_simp
  then obtain tr where tr: "map_of (cc_transferred plot_out) 0 = Some tr" by blast
  have "map_option (\<lambda>tr. (tr_max_bytes tr, tr_roots tr)) (map_of (cc_transferred plot_out) 0) = Some (100, [''/w''])" by code_simp
  then have p: "tr_max_bytes tr = 100" "tr_roots tr = [''/w'']" using tr by simp_all
  have f: "list_all (\<lambda>f. pf_size f \<le> 100) (ls_files (lease_at plot_out 0))" by code_simp
  have "\<exists>s2. consume calm_consume ''a'' [''/w''] (tr_max_bytes tr) s1 = (Inr (Some plot_leased), s2) \<and> delivering ''a'' plot_leased s2"
    by (rule restored_reply_redelivered [OF plot_out_steps(2) r _ tr])
       (use p f in \<open>simp_all add: plot_leased_def calm_consume_def\<close>)
  then show ?thesis using r p(1) by auto
qed

section \<open>A lease that is released but not closed\<close>

text \<open>
  C204. A stream that cannot be closed makes the cache lose a reservation. Discarding a restored reply releases its file
  and then fails; the reply stays cached. When another task is given the same path and inode and the first
  reply is discarded again, the reservation is released a second time: the second reply owns a file nobody has
  reserved, and a third task can claim the same file.
\<close>

definition stuck_close :: close_env where
  "stuck_close = calm_close\<lparr>xe_streams := [Inl OSError]\<rparr>"

definition plot_stuck :: delivery where
  "plot_stuck = (let s1 = snd (restore (Inr ()) ''a'' plot_leased plot_out);
     s2 = snd (discard stuck_close (\<lambda>s. s) ''a'' s1);
     s3 = snd (cache_put (plot_env\<lparr>pe_quarantine := Quarantined 8 ''/w/.q/2''\<rparr>) ''b'' plot_reply s2)
   in snd (discard calm_close (\<lambda>s. s) ''a'' s3))"

theorem released_twice:
  "map_option ce_generated (map_of (cc_entries plot_stuck) ''b'') = Some (Some (plot_file\<lparr>ow_id := 8, ow_quarantine := ''/w/.q/2''\<rparr>))
    \<and> cc_files plot_stuck = [] \<and> cc_paths plot_stuck = []
    \<and> fst (cache_put (plot_env\<lparr>pe_quarantine := Quarantined 9 ''/w/.q/3''\<rparr>) ''c'' plot_reply plot_stuck) = Inr ()"
  by code_simp

end
