(* ===== verification/Spec2Isabelle.thy ===== *)
theory Spec2Isabelle
  imports TaskStoreProps MirrorActionProps MirrorEvents MirrorPublisherProps TaskServiceProps MirrorStarterProps DeliverySystem
begin

text \<open>
  A verification development for the StudyOS agent gateway. File names without a directory are those of
  \<open>src/src/study_discord_agent\<close>.

  \<^bold>\<open>The program.\<close> The gateway is a Discord bot in front of a coding agent. Members of a server ask for
  tasks, by mention, command or button; a task is queued, run by the agent in a channel or thread, steered,
  stopped, retried and continued, and its result is delivered to Discord. In parallel the gateway mirrors the
  issues and pull requests of GitHub repositories: a webhook reports a change, the item gets a card in a
  configured channel, and the buttons of the card start tasks about the item. Two documents on disk carry the
  state over restarts, the tasks and the mirrored items. Everything else is in memory and is rebuilt or
  reconciled at start-up.

  \<^bold>\<open>How the parts interact.\<close>
  The webhook route (\<open>web.py\<close>) checks a signature, reads an event (\<open>github_events.py\<close>) and hands it to the
  mirror store, which merges it into the record of its item; the publisher then brings the card up to date. A
  button of a card, its form, or a mention goes to the controller, which reserves the item in the mirror store
  for one task, finds or creates a thread, and starts the task in the task service. The service owns the task
  store, the runners and the delivery; it runs the agent, caches the reply, sends it under a lease and records
  the outcome as a transition of the task. After a restart the task store interrupts what was running, the
  service renders it, and the starter settles the reservations of items against the tasks that exist.

  \<^bold>\<open>Theories.\<close>
  \<^item> \<^bold>\<open>Shared.\<close> \<open>Prelude\<close>: the exceptions of the program as one datatype, results as sums with the exception on
    the left, sequences of validation checks, Python dictionaries as association lists in insertion order.
    \<open>Effects\<close>: coroutines as programs on an explicit state with weakest preconditions; an await gives its
    outcome and what other coroutines did to the state meanwhile. \<open>Interfaces\<close>: the locales of a state machine
    with an invariant and of a store whose records carry revisions and change by compare-and-set, each
    interpreted on the model's own stores and services. \<open>PyText\<close>, \<open>PyTime\<close>, \<open>PyUuid\<close>, \<open>PyJson\<close>: the parts of
    Python's \<open>str\<close>, \<open>datetime\<close>, \<open>uuid\<close> and \<open>json\<close> the gateway uses.
  \<^item> \<^bold>\<open>Tasks at rest.\<close> \<open>TaskModel\<close> and \<open>TaskMachine\<close> (\<open>discord_task_model.py\<close>): the record and its checks, the
    state machine, what a run of transitions does. \<open>TaskPolicy\<close>, \<open>TaskGraph\<close>, \<open>TaskRetention\<close>, \<open>TaskForget\<close>
    (\<open>discord_task_ids.py\<close>, \<open>discord_task_store_policy.py\<close>, \<open>discord_task_store_mutations.py\<close>): identifiers, the
    graph of continued tasks and its validation, retention, forgetting. \<open>TaskSerialization\<close> and \<open>Persistence\<close>: the
    document in both schema versions, and how it is replaced on a disk whose calls may fail. \<open>TaskStore\<close>,
    \<open>TaskStoreInv\<close>, \<open>TaskStoreProps\<close> (\<open>discord_task_store.py\<close>): the operations, their invariant, compare-and-set.
  \<^item> \<^bold>\<open>Tasks in motion.\<close> \<open>TaskRequest\<close> (requests, handled events, the classification of failures),
    \<open>TaskExecution\<close> (run specifications, policies, the pinned commit of a GitHub task), \<open>TaskRuntime\<close> and
    \<open>TaskRuntimeProps\<close> (\<open>discord_task_runtime.py\<close>, \<open>discord_task_runners.py\<close>, \<open>discord_task_delivery.py\<close>,
    \<open>discord_task_runtime_failures.py\<close>, \<open>discord_task_reconciliation.py\<close>), \<open>TaskAccess\<close> (who may do what),
    \<open>TaskService\<close>, \<open>TaskServiceInv\<close>, \<open>TaskServiceProps\<close> (\<open>discord_task_service.py\<close>, \<open>discord_task_actions.py\<close>).
  \<^item> \<^bold>\<open>Delivery.\<close> \<open>DeliveryCache\<close>, \<open>DeliveryCacheProps\<close>, \<open>DeliverySystem\<close> (\<open>discord_delivery_cache.py\<close>,
    \<open>discord_delivery_entries.py\<close>, \<open>discord_delivery_resources.py\<close>, \<open>discord_generated_registry.py\<close>): who owns a
    reply, its open files and its generated file until Discord has taken it. The service takes a cache as a
    parameter; this one is given as such by \<open>cache_operations\<close>.
  \<^item> \<^bold>\<open>GitHub.\<close> \<open>MirrorModel\<close>, \<open>MirrorUpdates\<close>, \<open>MirrorOrder\<close>, \<open>MirrorSerialization\<close>: the item, its merge with
    events that arrive late, twice or out of order, and its document. \<open>MirrorStore\<close>, \<open>MirrorStoreInv\<close>,
    \<open>MirrorStoreProps\<close>, \<open>MirrorLifecycle\<close> (\<open>github_mirror_store.py\<close>). \<open>MirrorActionStore\<close>, \<open>MirrorActionProps\<close>
    (\<open>github_mirror_action_store.py\<close>): the reservation loop. \<open>MirrorEvents\<close> (\<open>github_events.py\<close>, \<open>web.py\<close>,
    \<open>security.py\<close>), \<open>MirrorCards\<close>, \<open>MirrorDiscord\<close> (\<open>github_mirror_cards.py\<close>, \<open>github_mirror_channel.py\<close>,
    \<open>github_mirror_discord.py\<close>), \<open>MirrorPublisher\<close>, \<open>MirrorPublisherProps\<close> (\<open>github_mirror_publisher.py\<close>),
    \<open>MirrorStarter\<close>, \<open>MirrorStarterProps\<close> (\<open>github_mirror_task_starter.py\<close>, \<open>github_mirror_controller.py\<close>,
    \<open>github_task_prompts.py\<close> and the callbacks of the button and the form).

  \<^bold>\<open>How code becomes definitions.\<close> A dataclass is a record, and its \<open>__post_init__\<close> the list of checks its \<open>make_\<close>
  function runs, so every \<open>replace\<close> of the source runs them again. An enumeration is a datatype. An exception is a
  value: each raise is a branch that returns \<open>Inl\<close>. A method of a store takes the store and returns its result
  with the store it leaves; the lock of the source makes it one step, except where the source lets go of the
  lock (the update function of the mirror store's compare-and-set, and every await), and there the step is split and
  arbitrary interference stands in between. A coroutine is a program of \<open>Effects\<close>. Python's integers are \<open>int\<close>;
  no width matters. A \<open>str\<close> is a list of characters with code points below 256.

  \<^bold>\<open>What the lemmas show.\<close> In \<open>TaskStoreInv\<close>, \<open>MirrorStoreInv\<close>, \<open>TaskServiceInv\<close> and
  \<open>DeliverySystem\<close>: each operation keeps the
  invariant of its component, one lemma per operation, collected for the proof of the property. In \<open>TaskGraph\<close>
  and \<open>TaskRetention\<close>: the worklist loops compute what their declarative descriptions say. In \<open>MirrorStoreProps\<close>:
  the mirror store refines a map in which a record is only replaced by its successor, and compare-and-set is
  linearizable. In \<open>MirrorActionProps\<close>: an attempt is an atomic step or an exception, whatever runs in between. In
  \<open>TaskRuntimeProps\<close>, \<open>MirrorPublisherProps\<close> and \<open>MirrorStarterProps\<close>: rules for the weakest precondition of
  every step of a coroutine, from which the property of the whole follows by simplification. The round trips of
  the documents, of times and of identifiers are in the theories that define them. The claims are numbered
  C1, C2 and so on in the order of their importance; each stands before its theorem.

  \<^bold>\<open>Bounds.\<close> The loops \<open>range(8)\<close> of the action store and of the publisher's reconciliation are lists of eight
  attempts, as in the source. The publisher's \<open>publish_staged\<close> recurses through its repair of a missing card, so
  its model carries the depth that is left of the interpreter's stack and raises \<open>RecursionError\<close> at zero, as
  Python does; the property about it holds for every depth. All other recursion is structural or
  has a termination proof. Retention keeps 500 finished tasks, an item 64 delivery identifiers and 64
  handled claims, and a webhook body is read up to its limit; the numbers are those of the source.

  \<^bold>\<open>Parameters.\<close> What is not under \<open>src/\<close> is an argument: what Discord answers to each call and how its objects
  look, \<open>git\<close> in the checkout, \<open>json.loads\<close> on a request body, the HMAC, the clock and \<open>uuid4\<close>, the outcome of
  each system call on a document, and the agent. So are the coroutines and processes that run during an
  await; a property that needs something of them says so in a hypothesis (\<open>tame\<close>, \<open>honest\<close>, \<open>calm\<close>,
  \<open>cooperative\<close> and the like), its text names the condition, and its witness instantiates it. The two properties
  of the starter assume a working item store (\<open>calm_env\<close>): readable records, no fault of disk or clock, and a first
  attempt of each compare-and-set nobody disturbs. Those of the delivery cache assume that other threads between
  two locked regions reserve no further file (\<open>polite\<close>) and that the streams of a discarded lease close.

  \<^bold>\<open>Not modelled.\<close> Logging and metrics, which change no state. The drawing of task cards and commands
  (\<open>discord_task_cards.py\<close>, \<open>discord_task_commands.py\<close> and their views), which only lays out Discord components.
  The subprocess transport and the JSON-RPC client of the agent (\<open>codex_app_server*.py\<close>, \<open>command_runner.py\<close>) and
  the file-descriptor level of attachments, worktrees and generated files (\<open>discord_file_descriptors.py\<close>,
  \<open>discord_generated_file.py\<close>, \<open>discord_worktrees.py\<close>, \<open>discord_staging_files.py\<close>), whose behaviour is that of the
  operating system and of \<open>git\<close>. The session and usage stores of the agent gateway. Prompt texts, usage reports and plots, configuration and the entry points. The
  run-time type tests of dataclass fields are typing here; values outside the declared types are not represented.
\<close>

end
